(* ===== verification/Prelude.thy ===== *)
theory Prelude
  imports Main "HOL-Library.Sublist" "HOL-Library.Char_ord" "HOL-Library.List_Lexorder"
begin

text \<open>
  Shared ground of the development: the Go values the components compute with, and the
  functions of Go's \<open>strings\<close>, \<open>sort\<close>, \<open>strconv\<close> and \<open>unicode/utf8\<close> packages that the
  sources call.

  A Go string is a sequence of bytes, and so is a HOL \<^typ>\<open>string\<close> (a list of 8-bit
  characters); \<open>len\<close> is \<^const>\<open>length\<close>, string comparison is the lexicographic order of
  \<open>List_Lexorder\<close> over \<open>Char_ord\<close> (byte order), and \<open>sort.Strings\<close> is \<^const>\<open>sort\<close>.
  \<open>trim_space\<close> is exact on UTF-8: it strips the encodings of every code point for which
  \<open>unicode.IsSpace\<close> holds. \<open>to_lower\<close> is the ASCII path of \<open>strings.ToLower\<close>; bytes of
  non-ASCII code points are left as they are, so the model is exact on strings whose
  upper-case letters are ASCII (hosts, schemes, command names and header keys are).
  Times are integers in nanoseconds with 0 for Go's zero time, durations are integers in
  nanoseconds.
\<close>

section \<open>Collections and type names\<close>

named_theorems go_string \<open>rewriting of the string library\<close>
named_theorems inv_pres \<open>an operation keeps its component's invariant\<close>

type_synonym go_time = int
type_synonym duration = int

abbreviation millisecond :: duration where "millisecond \<equiv> 1000000"
abbreviation second :: duration where "second \<equiv> 1000 * millisecond"
abbreviation minute :: duration where "minute \<equiv> 60 * second"
abbreviation hour :: duration where "hour \<equiv> 60 * minute"

abbreviation is_zero_time :: "go_time \<Rightarrow> bool" where "is_zero_time t \<equiv> t = 0"

text \<open>Wrap-around of a signed 64-bit integer.\<close>

definition wrap64 :: "int \<Rightarrow> int" where
  "wrap64 x = (x + 2 ^ 63) mod 2 ^ 64 - 2 ^ 63"

lemma wrap64_id: "- (2 ^ 63) \<le> x \<Longrightarrow> x < 2 ^ 63 \<Longrightarrow> wrap64 x = x"
  by (simp add: wrap64_def)

text \<open>A decoded JSON value (Go's \<open>any\<close> after \<open>json.Unmarshal\<close>). Objects keep their members in
  the order the encoder writes them; numbers are opaque texts.\<close>

datatype json =
    JNull
  | JBool bool
  | JNum string
  | JStr string
  | JArr "json list"
  | JObj "(string \<times> json) list"

section \<open>Case mapping\<close>

definition upper_letters :: string where
  "upper_letters = ''ABCDEFGHIJKLMNOPQRSTUVWXYZ''"

text \<open>Adding \<open>'a' - 'A'\<close> to an ASCII capital sets bit 5.\<close>

definition lower_char :: "char \<Rightarrow> char" where
  "lower_char c = (if c \<in> set upper_letters
     then (case c of Char b0 b1 b2 b3 b4 b5 b6 b7 \<Rightarrow> Char b0 b1 b2 b3 b4 True b6 b7) else c)"

definition to_lower :: "string \<Rightarrow> string" where
  "to_lower s = map lower_char s"

section \<open>Prefixes, suffixes, search\<close>

abbreviation has_prefix :: "string \<Rightarrow> string \<Rightarrow> bool" where
  "has_prefix s p \<equiv> prefix p s"

abbreviation has_suffix :: "string \<Rightarrow> string \<Rightarrow> bool" where
  "has_suffix s p \<equiv> suffix p s"

abbreviation contains :: "string \<Rightarrow> string \<Rightarrow> bool" where
  "contains s sub \<equiv> sublist sub s"

definition trim_prefix :: "string \<Rightarrow> string \<Rightarrow> string" where
  "trim_prefix s p = (if has_prefix s p then drop (length p) s else s)"

definition trim_suffix :: "string \<Rightarrow> string \<Rightarrow> string" where
  "trim_suffix s p = (if has_suffix s p then take (length s - length p) s else s)"

text \<open>\<open>strings.Index\<close>: the offset of the first occurrence, \<^const>\<open>None\<close> for \<open>-1\<close>.\<close>

fun index_of :: "string \<Rightarrow> string \<Rightarrow> nat option" where
  "index_of [] sub = (if sub = [] then Some 0 else None)"
| "index_of (c # s) sub = (if prefix sub (c # s) then Some 0 else map_option Suc (index_of s sub))"

text \<open>\<open>strings.IndexAny\<close> and \<open>strings.IndexByte\<close>: the first byte of a set.\<close>

fun index_any :: "string \<Rightarrow> char list \<Rightarrow> nat option" where
  "index_any [] cs = None"
| "index_any (c # s) cs = (if c \<in> set cs then Some 0 else map_option Suc (index_any s cs))"

abbreviation index_byte :: "string \<Rightarrow> char \<Rightarrow> nat option" where
  "index_byte s c \<equiv> index_any s [c]"

definition contains_any :: "string \<Rightarrow> char list \<Rightarrow> bool" where
  "contains_any s cs = list_ex (\<lambda>c. c \<in> set cs) s"

text \<open>\<open>strings.LastIndex\<close> of a single byte.\<close>

fun last_index_byte :: "string \<Rightarrow> char \<Rightarrow> nat option" where
  "last_index_byte [] c = None"
| "last_index_byte (x # s) c =
     (case last_index_byte s c of Some i \<Rightarrow> Some (Suc i)
      | None \<Rightarrow> if x = c then Some 0 else None)"

text \<open>\<open>strings.Trim\<close> with an ASCII cut set.\<close>

definition trim_cutset :: "string \<Rightarrow> char list \<Rightarrow> string" where
  "trim_cutset s cs =
     rev (dropWhile (\<lambda>c. c \<in> set cs) (rev (dropWhile (\<lambda>c. c \<in> set cs) s)))"

definition trim_right_cutset :: "string \<Rightarrow> char list \<Rightarrow> string" where
  "trim_right_cutset s cs = rev (dropWhile (\<lambda>c. c \<in> set cs) (rev s))"

section \<open>Splitting and joining\<close>

fun split_on :: "char \<Rightarrow> string \<Rightarrow> string list" where
  "split_on c [] = [[]]"
| "split_on c (x # xs) =
     (if x = c then [] # split_on c xs
      else (case split_on c xs of [] \<Rightarrow> [[x]] | y # ys \<Rightarrow> (x # y) # ys))"

fun join :: "string \<Rightarrow> string list \<Rightarrow> string" where
  "join sep [] = []"
| "join sep [x] = x"
| "join sep (x # y # ys) = x @ sep @ join sep (y # ys)"

text \<open>\<open>strings.ReplaceAll\<close> for a non-empty pattern (with an empty one Go inserts between
  the code points; no caller here passes one).\<close>

function replace_all :: "string \<Rightarrow> string \<Rightarrow> string \<Rightarrow> string" where
  "replace_all old new [] = []"
| "replace_all old new (c # s) =
     (if old \<noteq> [] \<and> prefix old (c # s) then new @ replace_all old new (drop (length old) (c # s))
      else c # replace_all old new s)"
  by pat_completeness auto
termination
  by (relation "measure (\<lambda>(old, new, s). length s)") (auto simp: Suc_le_eq)

section \<open>White space\<close>

text \<open>The UTF-8 encodings of the code points with \<open>unicode.IsSpace\<close>.\<close>

definition ws_runes :: "string list" where
  "ws_runes =
     [[CHR 0x09], [CHR 0x0A], [CHR 0x0B], [CHR 0x0C], [CHR 0x0D], [CHR 0x20],
      [CHR 0xC2, CHR 0x85], [CHR 0xC2, CHR 0xA0], [CHR 0xE1, CHR 0x9A, CHR 0x80],
      [CHR 0xE2, CHR 0x80, CHR 0x80], [CHR 0xE2, CHR 0x80, CHR 0x81], [CHR 0xE2, CHR 0x80, CHR 0x82],
      [CHR 0xE2, CHR 0x80, CHR 0x83], [CHR 0xE2, CHR 0x80, CHR 0x84], [CHR 0xE2, CHR 0x80, CHR 0x85],
      [CHR 0xE2, CHR 0x80, CHR 0x86], [CHR 0xE2, CHR 0x80, CHR 0x87], [CHR 0xE2, CHR 0x80, CHR 0x88],
      [CHR 0xE2, CHR 0x80, CHR 0x89], [CHR 0xE2, CHR 0x80, CHR 0x8A], [CHR 0xE2, CHR 0x80, CHR 0xA8],
      [CHR 0xE2, CHR 0x80, CHR 0xA9], [CHR 0xE2, CHR 0x80, CHR 0xAF], [CHR 0xE2, CHR 0x81, CHR 0x9F],
      [CHR 0xE3, CHR 0x80, CHR 0x80]]"

definition ws_prefix :: "string \<Rightarrow> string option" where
  "ws_prefix s = find (\<lambda>w. prefix w s) ws_runes"

definition ws_suffix :: "string \<Rightarrow> string option" where
  "ws_suffix s = find (\<lambda>w. suffix w s) ws_runes"

lemma ws_runes_nonempty: "w \<in> set ws_runes \<Longrightarrow> w \<noteq> []"
  by (auto simp: ws_runes_def)

lemma find_Some_mem: "find P xs = Some x \<Longrightarrow> x \<in> set xs \<and> P x"
  by (auto simp: find_Some_iff)

lemma ws_prefix_length: "ws_prefix s = Some w \<Longrightarrow> 0 < length w \<and> length w \<le> length s"
  unfolding ws_prefix_def by (drule find_Some_mem) (auto dest: ws_runes_nonempty prefix_length_le)

lemma ws_suffix_length: "ws_suffix s = Some w \<Longrightarrow> 0 < length w \<and> length w \<le> length s"
  unfolding ws_suffix_def by (drule find_Some_mem) (auto dest: ws_runes_nonempty suffix_length_le)

function trim_left_space :: "string \<Rightarrow> string" where
  "trim_left_space s =
     (case ws_prefix s of None \<Rightarrow> s | Some w \<Rightarrow> trim_left_space (drop (length w) s))"
  by pat_completeness auto
termination
proof (relation "measure length")
  fix s w assume "ws_prefix s = Some w"
  then show "(drop (length w) s, s) \<in> measure length"
    using ws_prefix_length [of s w] by (simp del: length_greater_0_conv)
qed simp

function trim_right_space :: "string \<Rightarrow> string" where
  "trim_right_space s =
     (case ws_suffix s of None \<Rightarrow> s
      | Some w \<Rightarrow> trim_right_space (take (length s - length w) s))"
  by pat_completeness auto
termination
proof (relation "measure length")
  fix s w assume "ws_suffix s = Some w"
  then show "(take (length s - length w) s, s) \<in> measure length"
    using ws_suffix_length [of s w] by (simp del: length_greater_0_conv)
qed simp

declare trim_left_space.simps [simp del] trim_right_space.simps [simp del]

definition trim_space :: "string \<Rightarrow> string" where
  "trim_space s = trim_right_space (trim_left_space s)"

section \<open>Decimal numbers\<close>

definition digit_char :: "nat \<Rightarrow> char" where
  "digit_char d = char_of (48 + d)"

fun nat_str :: "nat \<Rightarrow> string" where
  "nat_str n = (if n < 10 then [digit_char n] else nat_str (n div 10) @ [digit_char (n mod 10)])"

declare nat_str.simps [simp del]

definition int_str :: "int \<Rightarrow> string" where
  "int_str i = (if i < 0 then ''-'' @ nat_str (nat (- i)) else nat_str (nat i))"

definition str_value :: "string \<Rightarrow> nat" where
  "str_value s = foldl (\<lambda>a c. 10 * a + (of_char c - 48)) 0 s"

definition is_lower :: "char \<Rightarrow> bool" where
  "is_lower c \<longleftrightarrow> CHR ''a'' \<le> c \<and> c \<le> CHR ''z''"

definition is_upper :: "char \<Rightarrow> bool" where
  "is_upper c \<longleftrightarrow> CHR ''A'' \<le> c \<and> c \<le> CHR ''Z''"

abbreviation is_digit :: "char \<Rightarrow> bool" where
  "is_digit c \<equiv> CHR ''0'' \<le> c \<and> c \<le> CHR ''9''"

definition decimal :: "string \<Rightarrow> int" where
  "decimal ds = foldl (\<lambda>n c. 10 * n + (of_char c - 48)) 0 ds"

text \<open>\<open>strconv.Atoi\<close> and \<open>strconv.ParseInt\<close> to base 10: an optional sign, decimal digits, the value
  within 64 bits.\<close>

definition Atoi :: "string \<Rightarrow> int option" where
  "Atoi s =
     (let (neg, ds) = (case s of
              c # cs \<Rightarrow> if c = CHR ''-'' then (True, cs) else if c = CHR ''+'' then (False, cs) else (False, s)
            | [] \<Rightarrow> (False, []))
      in if ds = [] \<or> \<not> list_all is_digit ds then None
         else (let v = (if neg then - decimal ds else decimal ds)
               in if - (2 ^ 63) \<le> v \<and> v < 2 ^ 63 then Some v else None))"

lemma of_digit_char: "d < 10 \<Longrightarrow> of_char (digit_char d) = 48 + d"
  by (simp add: digit_char_def)

lemma str_value_nat_str: "str_value (nat_str n) = n"
proof (induction n rule: nat_str.induct)
  case (1 n)
  then show ?case
    by (cases "n < 10") (simp_all add: nat_str.simps [of n] str_value_def of_digit_char)
qed

lemma nat_str_inject [simp]: "nat_str m = nat_str n \<longleftrightarrow> m = n"
  by (metis str_value_nat_str)

lemma nat_str_nonempty [simp]: "nat_str n \<noteq> []"
  by (subst nat_str.simps) simp

lemma nat_str_digits: "c \<in> set (nat_str n) \<Longrightarrow> 48 \<le> (of_char c :: nat) \<and> (of_char c :: nat) \<le> 57"
proof (induction n rule: nat_str.induct)
  case (1 n)
  then show ?case
    by (cases "n < 10") (auto simp: nat_str.simps [of n] of_digit_char)
qed

section \<open>Facts about the string library\<close>

lemma upper_letters_bit5: "c \<in> set upper_letters \<Longrightarrow> \<not> digit5 c"
  by (auto simp: upper_letters_def)

lemma lower_char_not_upper: "lower_char c \<notin> set upper_letters"
  using upper_letters_bit5 [of "lower_char c"] by (auto simp: lower_char_def split: char.splits)

lemma lower_char_idem [simp]: "lower_char (lower_char c) = lower_char c"
  using lower_char_not_upper [of c] by (simp add: lower_char_def [of "lower_char c"])

lemma to_lower_idem [simp]: "to_lower (to_lower s) = to_lower s"
  by (simp add: to_lower_def)

lemma to_lower_append [simp]: "to_lower (s @ t) = to_lower s @ to_lower t"
  by (simp add: to_lower_def)

lemma to_lower_length [simp]: "length (to_lower s) = length s"
  by (simp add: to_lower_def)

lemma to_lower_Nil [simp]: "to_lower [] = []" and to_lower_eq_Nil [simp]: "to_lower s = [] \<longleftrightarrow> s = []"
  by (simp_all add: to_lower_def)

lemma to_lower_take: "to_lower s = s \<Longrightarrow> to_lower (take n s) = take n s"
  by (simp add: to_lower_def flip: take_map)

lemma to_lower_drop: "to_lower s = s \<Longrightarrow> to_lower (drop n s) = drop n s"
  by (simp add: to_lower_def flip: drop_map)

lemma to_lower_trim_suffix: "to_lower s = s \<Longrightarrow> to_lower (trim_suffix s p) = trim_suffix s p"
  by (simp add: trim_suffix_def to_lower_take)

lemma to_lower_trim_prefix: "to_lower s = s \<Longrightarrow> to_lower (trim_prefix s p) = trim_prefix s p"
  by (simp add: trim_prefix_def to_lower_drop)

lemma trim_suffix_append [simp]: "trim_suffix (s @ p) p = s"
  by (simp add: trim_suffix_def suffix_def)

lemma index_of_None: "index_of s sub = None \<longleftrightarrow> \<not> sublist sub s"
proof (induction s)
  case Nil
  then show ?case by simp
next
  case (Cons c s)
  then show ?case by (auto simp: sublist_Cons_right)
qed

lemma index_any_None: "index_any s cs = None \<longleftrightarrow> set s \<inter> set cs = {}"
  by (induction s) auto

lemma index_any_Some:
  "index_any s cs = Some i \<Longrightarrow> i < length s \<and> s ! i \<in> set cs \<and> set (take i s) \<inter> set cs = {}"
proof (induction s arbitrary: i)
  case Nil
  then show ?case by simp
next
  case (Cons c s)
  then show ?case by (cases i) (auto split: if_splits)
qed

lemma split_on_nonempty [simp]: "split_on c s \<noteq> []"
  by (cases s) (auto split: list.splits)

lemma join_Cons: "ys \<noteq> [] \<Longrightarrow> join sep (x # ys) = x @ sep @ join sep ys"
  by (cases ys) simp_all

lemma join_extend_hd: "join sep ((x # y) # ys) = x # join sep (y # ys)"
  by (cases ys) simp_all

lemma join_split_on: "join [c] (split_on c s) = s"
proof (induction s)
  case Nil
  then show ?case by simp
next
  case (Cons x s)
  then show ?case
    by (cases "split_on c s") (simp_all add: join_Cons join_extend_hd)
qed

lemma split_on_parts: "p \<in> set (split_on c s) \<Longrightarrow> c \<notin> set p"
proof (induction s arbitrary: p)
  case Nil
  then show ?case by simp
next
  case (Cons x s)
  then show ?case
    by (cases "split_on c s") (auto split: if_splits)
qed

lemma trim_cutset_empty_iff: "trim_cutset s cs = [] \<longleftrightarrow> set s \<subseteq> set cs"
proof -
  let ?P = "\<lambda>c. c \<in> set cs"
  have "trim_cutset s cs = [] \<longleftrightarrow> (\<forall>c \<in> set (dropWhile ?P s). ?P c)"
    by (simp add: trim_cutset_def)
  also have "\<dots> \<longleftrightarrow> (\<forall>c \<in> set s. ?P c)"
    by (metis dropWhile_eq_Nil_conv hd_dropWhile list.set_sel(1) set_dropWhileD)
  finally show ?thesis by auto
qed

lemma trim_left_prefix: "suffix (trim_left_space s) s"
proof (induction s rule: trim_left_space.induct)
  case (1 s)
  then show ?case
    by (cases "ws_prefix s")
      (auto simp: trim_left_space.simps [of s] intro: suffix_order.trans suffix_drop)
qed

lemma trim_right_prefix: "prefix (trim_right_space s) s"
proof (induction s rule: trim_right_space.induct)
  case (1 s)
  then show ?case
    by (cases "ws_suffix s")
      (auto simp: trim_right_space.simps [of s] intro: prefix_order.trans take_is_prefix)
qed

lemma ws_prefix_trim_left: "ws_prefix (trim_left_space s) = None"
proof (induction s rule: trim_left_space.induct)
  case (1 s)
  then show ?case by (cases "ws_prefix s") (simp_all add: trim_left_space.simps [of s])
qed

lemma ws_suffix_trim_right: "ws_suffix (trim_right_space s) = None"
proof (induction s rule: trim_right_space.induct)
  case (1 s)
  then show ?case by (cases "ws_suffix s") (simp_all add: trim_right_space.simps [of s])
qed

lemma ws_prefix_mono: "prefix t s \<Longrightarrow> ws_prefix s = None \<Longrightarrow> ws_prefix t = None"
  unfolding ws_prefix_def find_None_iff by (meson prefix_order.trans)

lemma ws_prefix_trim_space: "ws_prefix (trim_space s) = None"
  unfolding trim_space_def by (rule ws_prefix_mono [OF trim_right_prefix ws_prefix_trim_left])

lemma trim_space_idem [simp]: "trim_space (trim_space s) = trim_space s"
proof -
  have "trim_left_space (trim_space s) = trim_space s"
    by (subst trim_left_space.simps) (simp add: ws_prefix_trim_space)
  moreover have "trim_right_space (trim_space s) = trim_space s"
    by (subst trim_right_space.simps) (simp add: trim_space_def ws_suffix_trim_right)
  ultimately show ?thesis by (subst trim_space_def) simp
qed

lemma ws_prefix_Nil: "ws_prefix [] = None"
  using ws_prefix_length [of "[]"] by (cases "ws_prefix []") auto

lemma ws_suffix_Nil: "ws_suffix [] = None"
  using ws_suffix_length [of "[]"] by (cases "ws_suffix []") auto

lemma trim_space_Nil [simp]: "trim_space [] = []"
  by (simp add: trim_space_def trim_left_space.simps [of "[]"] trim_right_space.simps [of "[]"]
      ws_prefix_Nil ws_suffix_Nil)

section \<open>Contracts shared by the components\<close>

text \<open>
  Many loops of the sources keep the best candidate seen so far and replace it only when a
  later one is strictly better: the rule search of the policy engine, the group search of
  the robots checker, the prompt search of the out-of-band manager. The contract names the
  loop body; the facts say what the loop returns.
\<close>

locale best_scan =
  fixes body :: "'a option \<Rightarrow> 'a \<Rightarrow> 'a option"
    and elig :: "'a \<Rightarrow> bool"
    and weight :: "'a \<Rightarrow> 'w::linorder"
  assumes body_None: "body None x = (if elig x then Some x else None)"
    and body_Some: "body (Some b) x = (if elig x \<and> weight b < weight x then Some x else Some b)"
begin

lemma scan_from_Some:
  "\<exists>r. foldl body (Some b) xs = Some r \<and> weight b \<le> weight r \<and> (r = b \<or> r \<in> set xs \<and> elig r)
     \<and> (\<forall>x \<in> set xs. elig x \<longrightarrow> weight x \<le> weight r)"
proof (induction xs arbitrary: b)
  case Nil
  then show ?case by simp
next
  case (Cons x xs)
  show ?case
  proof (cases "elig x \<and> weight b < weight x")
    case True
    with Cons.IH [of x] show ?thesis by (force simp: body_Some)
  next
    case False
    with Cons.IH [of b] show ?thesis by (force simp: body_Some)
  qed
qed

lemma scan_None_iff: "foldl body None xs = None \<longleftrightarrow> (\<forall>x \<in> set xs. \<not> elig x)"
proof (induction xs)
  case Nil
  then show ?case by simp
next
  case (Cons x xs)
  then show ?case
    using scan_from_Some [of x xs] by (auto simp: body_None)
qed

lemma scan_Some:
  "foldl body None xs = Some r \<Longrightarrow>
     r \<in> set xs \<and> elig r \<and> (\<forall>x \<in> set xs. elig x \<longrightarrow> weight x \<le> weight r)"
proof (induction xs)
  case Nil
  then show ?case by simp
next
  case (Cons x xs)
  then show ?case
    using scan_from_Some [of x xs] by (auto simp: body_None split: if_splits)
qed

lemma scan_total: "x \<in> set xs \<Longrightarrow> elig x \<Longrightarrow> \<exists>r. foldl body None xs = Some r"
  using scan_None_iff [of xs] by (cases "foldl body None xs") auto

end

text \<open>
  A component with state promises an invariant: it holds of a fresh component and every
  operation keeps it. Over any sequence of operations it then holds throughout.
\<close>

locale state_machine =
  fixes init :: "'s"
    and step :: "'s \<Rightarrow> 'e \<Rightarrow> 's"
    and inv :: "'s \<Rightarrow> bool"
  assumes inv_init: "inv init"
    and inv_step: "inv s \<Longrightarrow> inv (step s e)"
begin

lemma inv_steps: "inv s \<Longrightarrow> inv (foldl step s es)"
  by (induction es arbitrary: s) (auto intro: inv_step)

lemma inv_run: "inv (foldl step init es)"
  by (rule inv_steps [OF inv_init])

text \<open>A fact that operations of a given kind keep holds after any number of them.\<close>

lemma stable_steps:
  assumes "\<And>s e. inv s \<Longrightarrow> P s \<Longrightarrow> Q e \<Longrightarrow> P (step s e)" and "inv s" and "P s"
    and "\<And>e. e \<in> set es \<Longrightarrow> Q e"
  shows "P (foldl step s es)"
proof -
  have "inv (foldl step s es) \<and> P (foldl step s es)"
    using assms(2-4) by (induction es arbitrary: s) (auto intro: inv_step assms(1))
  then show ?thesis ..
qed

end

section \<open>Quoting\<close>

text \<open>The \<open>%q\<close> verb of \<open>fmt\<close> on text whose non-ASCII characters are printable.\<close>

definition hex_digit :: "nat \<Rightarrow> char" where
  "hex_digit n = ''0123456789abcdef'' ! (n mod 16)"

definition quote_char :: "char \<Rightarrow> string" where
  "quote_char c =
     (let n = nat (of_char c :: int) in
      if c = CHR 0x22 \<or> c = CHR 0x5C then [CHR 0x5C, c]
      else if n = 7 then [CHR 0x5C, CHR ''a'']
      else if n = 8 then [CHR 0x5C, CHR ''b'']
      else if n = 9 then [CHR 0x5C, CHR ''t'']
      else if n = 10 then [CHR 0x5C, CHR ''n'']
      else if n = 11 then [CHR 0x5C, CHR ''v'']
      else if n = 12 then [CHR 0x5C, CHR ''f'']
      else if n = 13 then [CHR 0x5C, CHR ''r'']
      else if n < 32 \<or> n = 127 then [CHR 0x5C, CHR ''x'', hex_digit (n div 16), hex_digit n]
      else [c])"

definition go_quote :: "string \<Rightarrow> string" where
  "go_quote s = [CHR 0x22] @ concat (map quote_char s) @ [CHR 0x22]"

end
