(* ===== verification/RiskPolicy.thy ===== *)
theory RiskPolicy
  imports Prelude
begin

text \<open>
  \<open>internal/policy/policy.go\<close>: the risk classes, the command classification table, the
  built-in defaults for the two modes, \<open>policy.toml\<close> rules, the longest-domain decision and
  its explanation. \<open>RiskClass\<close>, \<open>Decision\<close> and \<open>Mode\<close> are string types in the source and
  stay strings here, since a rule file may carry any text in them. The TOML decoder is a
  parameter of \<open>LoadPolicy\<close>.
\<close>

section \<open>Classes, decisions and modes\<close>

type_synonym RiskClass = string
type_synonym Decision = string
type_synonym Mode = string

abbreviation "ClassRead \<equiv> ''read''"
abbreviation "ClassNavigate \<equiv> ''navigate''"
abbreviation "ClassInteract \<equiv> ''interact''"
abbreviation "ClassSubmit \<equiv> ''submit''"
abbreviation "ClassEval \<equiv> ''eval''"
abbreviation "ClassCredential \<equiv> ''credential''"
abbreviation "ClassDownload \<equiv> ''download''"
abbreviation "ClassUpload \<equiv> ''upload''"
abbreviation "ClassNetworkMock \<equiv> ''network-mock''"

definition AllClasses :: "RiskClass list" where
  "AllClasses = [ClassRead, ClassNavigate, ClassInteract, ClassSubmit, ClassEval,
     ClassCredential, ClassDownload, ClassUpload, ClassNetworkMock]"

fun ValidClass_loop :: "RiskClass \<Rightarrow> RiskClass list \<Rightarrow> bool" where
  "ValidClass_loop c [] = False"
| "ValidClass_loop c (known # rest) = (if c = known then True else ValidClass_loop c rest)"

definition ValidClass :: "RiskClass \<Rightarrow> bool" where
  "ValidClass c = ValidClass_loop c AllClasses"

abbreviation "Allow \<equiv> ''allow''"
abbreviation "Confirm \<equiv> ''confirm''"
abbreviation "Deny \<equiv> ''deny''"
abbreviation "ModeMCP \<equiv> ''mcp''"
abbreviation "ModeTTY \<equiv> ''tty''"

section \<open>The classification table\<close>

definition Classification :: "(string \<times> RiskClass) list" where
  "Classification =
     [(''snapshot'', ClassRead), (''screenshot'', ClassRead), (''a11y'', ClassRead),
      (''read'', ClassRead), (''console.list'', ClassRead), (''console.clear'', ClassRead),
      (''errors.list'', ClassRead), (''errors.clear'', ClassRead), (''get.text'', ClassRead),
      (''get.html'', ClassRead), (''get.value'', ClassRead), (''get.attr'', ClassRead),
      (''get.title'', ClassRead), (''get.url'', ClassRead), (''get.count'', ClassRead),
      (''get.box'', ClassRead), (''get.styles'', ClassRead), (''is.visible'', ClassRead),
      (''is.enabled'', ClassRead), (''is.checked'', ClassRead), (''find'', ClassRead),
      (''session.list'', ClassRead), (''session.info'', ClassRead), (''daemon.status'', ClassRead),
      (''state.list'', ClassRead), (''state.show'', ClassRead), (''journal.tail'', ClassRead),
      (''journal.show'', ClassRead), (''policy.explain'', ClassRead), (''oob.status'', ClassRead),
      (''cookies.list'', ClassRead), (''storage.list'', ClassRead), (''trace.replay'', ClassRead),
      (''watch'', ClassRead), (''cache.get'', ClassRead), (''fetch.url'', ClassRead),
      (''fetch.batch'', ClassRead), (''wayback.snapshots'', ClassRead), (''open'', ClassNavigate),
      (''goto'', ClassNavigate), (''back'', ClassNavigate), (''forward'', ClassNavigate),
      (''reload'', ClassNavigate), (''click'', ClassInteract), (''dblclick'', ClassInteract),
      (''fill'', ClassInteract), (''type'', ClassInteract), (''press'', ClassInteract),
      (''hover'', ClassInteract), (''focus'', ClassInteract), (''select'', ClassInteract),
      (''check'', ClassInteract), (''uncheck'', ClassInteract), (''scroll'', ClassInteract),
      (''scrollintoview'', ClassInteract), (''wait'', ClassInteract), (''submit'', ClassSubmit),
      (''eval'', ClassEval), (''auth.login'', ClassCredential), (''download'', ClassDownload),
      (''upload'', ClassUpload), (''downloads.list'', ClassRead), (''download.setdir'', ClassDownload),
      (''network.route'', ClassNetworkMock), (''network.unroute'', ClassNetworkMock), (''network.requests'', ClassRead),
      (''network.request'', ClassRead), (''network.har'', ClassRead), (''set.headers'', ClassNetworkMock),
      (''set.offline'', ClassNetworkMock), (''state.save'', ClassInteract), (''state.load'', ClassInteract),
      (''state.clear'', ClassInteract), (''state.clean'', ClassInteract), (''cookies.set'', ClassInteract),
      (''cookies.clear'', ClassInteract), (''storage.set'', ClassInteract), (''storage.clear'', ClassInteract),
      (''set.viewport'', ClassInteract), (''set.device'', ClassInteract), (''set.geo'', ClassInteract),
      (''set.media'', ClassInteract), (''set.user-agent'', ClassInteract)]"

datatype policy_error =
    Unclassified string
  | UnknownRiskClass string
  | EmptyRuleDomain
  | InvalidDecision string
  | DecodeError string

definition Classify :: "string \<Rightarrow> policy_error + RiskClass" where
  "Classify command = (case map_of Classification command of
       Some class \<Rightarrow> Inr class
     | None \<Rightarrow> Inl (Unclassified command))"

definition ClassForCommand :: "string \<Rightarrow> RiskClass" where
  "ClassForCommand command = (case map_of Classification command of
       Some class \<Rightarrow> class
     | None \<Rightarrow> ''unknown'')"

definition SortedCommands :: "string list" where
  "SortedCommands = sort (map fst Classification)"

definition Defaults :: "RiskClass \<Rightarrow> Mode \<Rightarrow> Decision" where
  "Defaults class mode =
     (if mode = ModeMCP then
        (if class \<in> set [ClassSubmit, ClassEval, ClassCredential, ClassDownload, ClassUpload] then Confirm
         else if class = ClassNetworkMock then Deny
         else Allow)
      else
        (if class \<in> set [ClassEval, ClassCredential, ClassDownload, ClassUpload, ClassNetworkMock] then Confirm
         else Allow))"

section \<open>Rules and their validation\<close>

record rule =
  Class :: RiskClass
  Domain :: string
  RuleDecision :: Decision

record policy =
  Rules :: "rule list"
  Source :: string

text \<open>What the TOML decoder reports for a file: missing, malformed, or the policy it filled in.\<close>

datatype decode_result = FileMissing | Malformed string | Decoded policy

fun Validate_rules :: "rule list \<Rightarrow> policy_error option" where
  "Validate_rules [] = None"
| "Validate_rules (r # rs) =
     (if \<not> ValidClass (Class r) then Some (UnknownRiskClass (Class r))
      else if Domain r = [] then Some EmptyRuleDomain
      else if RuleDecision r \<in> set [Allow, Confirm, Deny] then Validate_rules rs
      else Some (InvalidDecision (RuleDecision r)))"

definition Validate :: "policy \<Rightarrow> policy_error option" where
  "Validate p = Validate_rules (Rules p)"

definition LoadPolicy :: "(string \<Rightarrow> policy \<Rightarrow> decode_result) \<Rightarrow> string \<Rightarrow> policy_error + policy" where
  "LoadPolicy decodeFile path =
     (let fresh = \<lparr>Rules = [], Source = path\<rparr> in
      case decodeFile path fresh of
        FileMissing \<Rightarrow> Inr fresh
      | Malformed e \<Rightarrow> Inl (DecodeError e)
      | Decoded p \<Rightarrow> (case Validate p of Some err \<Rightarrow> Inl err | None \<Rightarrow> Inr p))"

section \<open>The decision\<close>

definition domainMatches :: "string \<Rightarrow> string \<Rightarrow> bool" where
  "domainMatches ruleDomain0 host =
     (let ruleDomain = to_lower (trim_space ruleDomain0) in
      if ruleDomain = [] \<or> host = [] then False
      else if ruleDomain = host then True
      else if has_prefix ruleDomain ''.'' then has_suffix host ruleDomain
      else has_suffix host (''.'' @ ruleDomain))"

definition Decide_body :: "RiskClass \<Rightarrow> string \<Rightarrow> rule option \<Rightarrow> rule \<Rightarrow> rule option" where
  "Decide_body class host best r =
     (if Class r \<noteq> class then best
      else if domainMatches (Domain r) host then
        (case best of None \<Rightarrow> Some r
         | Some b \<Rightarrow> if length (Domain b) < length (Domain r) then Some r else best)
      else best)"

definition Decide :: "policy \<Rightarrow> RiskClass \<Rightarrow> string \<Rightarrow> Mode \<Rightarrow> Decision \<times> string" where
  "Decide p class host0 mode =
     (let host = to_lower (trim_space host0) in
      case foldl (Decide_body class host) None (Rules p) of
        Some best \<Rightarrow> (RuleDecision best, ''rule:'' @ Domain best)
      | None \<Rightarrow> (Defaults class mode, ''default''))"

definition hostOf :: "string \<Rightarrow> string" where
  "hostOf url =
     (let r0 = trim_space url;
          r1 = (case index_of r0 ''://'' of Some i \<Rightarrow> drop (i + 3) r0 | None \<Rightarrow> r0);
          r2 = (case index_any r1 ''/?#'' of Some i \<Rightarrow> take i r1 | None \<Rightarrow> r1);
          r3 = (case index_byte r2 (CHR ''@'') of Some i \<Rightarrow> drop (i + 1) r2 | None \<Rightarrow> r2)
      in case index_byte r3 (CHR '':'') of Some i \<Rightarrow> take i r3 | None \<Rightarrow> r3)"

definition Explain :: "policy \<Rightarrow> string \<Rightarrow> string \<Rightarrow> Mode \<Rightarrow> policy_error + string" where
  "Explain p command url mode =
     (case Classify command of
        Inl err \<Rightarrow> Inl err
      | Inr class \<Rightarrow>
          (let host = hostOf url;
               d = Decide p class host mode
           in Inr (join ''\<newline>''
                [''command:  '' @ command, ''class:    '' @ class, ''url:      '' @ url,
                 ''host:     '' @ host, ''mode:     '' @ mode, ''decision: '' @ fst d,
                 ''origin:   '' @ snd d])))"

section \<open>Lemmas\<close>

lemma ValidClass_loop_iff: "ValidClass_loop c ks \<longleftrightarrow> c \<in> set ks"
  by (induction ks) auto

lemma ValidClass_iff: "ValidClass c \<longleftrightarrow> c \<in> set AllClasses"
  by (simp add: ValidClass_def ValidClass_loop_iff)

lemma Classify_Inr_iff: "Classify c = Inr k \<longleftrightarrow> map_of Classification c = Some k"
  by (auto simp: Classify_def split: option.splits)

lemma Classification_classes: "(c, k) \<in> set Classification \<Longrightarrow> k \<in> set AllClasses"
proof -
  have "list_all (\<lambda>ck. snd ck \<in> set AllClasses) Classification"
    by code_simp
  then show "(c, k) \<in> set Classification \<Longrightarrow> k \<in> set AllClasses"
    by (auto simp: list_all_iff)
qed

lemma Classify_valid: "Classify c = Inr k \<Longrightarrow> ValidClass k"
  by (auto simp: Classify_Inr_iff ValidClass_iff dest!: map_of_SomeD intro: Classification_classes)

text \<open>The decision severity: allow, then confirm, then deny (anything else counts as denied).\<close>

definition severity :: "Decision \<Rightarrow> nat" where
  "severity d = (if d = Allow then 0 else if d = Confirm then 1 else 2)"

lemma Defaults_cases: "Defaults c m \<in> {Allow, Confirm, Deny}"
  by (simp add: Defaults_def)

text \<open>The rule search meets the contract of a best-candidate loop.\<close>

interpretation rule_scan: best_scan "Decide_body cls host"
    "\<lambda>r. Class r = cls \<and> domainMatches (Domain r) host" "\<lambda>r. length (Domain r)"
  for cls host
  by unfold_locales (auto simp: Decide_body_def)

lemma Validate_rules_None:
  "Validate_rules rs = None \<longleftrightarrow>
     (\<forall>r \<in> set rs. ValidClass (Class r) \<and> Domain r \<noteq> [] \<and> RuleDecision r \<in> {Allow, Confirm, Deny})"
  by (induction rs) auto

lemma Decide_rule:
  assumes "foldl (Decide_body class (to_lower (trim_space host))) None (Rules p) = Some r"
  shows "Decide p class host mode = (RuleDecision r, ''rule:'' @ Domain r)"
  using assms by (simp add: Decide_def)

lemma LoadPolicy_valid: "LoadPolicy decodeFile path = Inr p \<Longrightarrow> Validate p = None"
  by (auto simp: LoadPolicy_def Validate_def Let_def split: decode_result.splits option.splits)

lemma Validate_decision:
  assumes "Validate p = None"
  shows "fst (Decide p cls host mode) \<in> {Allow, Confirm, Deny}"
proof (cases "foldl (Decide_body cls (to_lower (trim_space host))) None (Rules p)")
  case None
  then show ?thesis using Defaults_cases [of cls mode] by (simp add: Decide_def)
next
  case (Some r)
  then show ?thesis
    using assms rule_scan.scan_Some [of cls _ "Rules p" r]
    by (simp add: Decide_rule Validate_def Validate_rules_None)
qed

lemma suffix_snoc_last: "suffix (c # d) (p @ d) \<Longrightarrow> p \<noteq> [] \<Longrightarrow> last p = c"
  by (auto simp: suffix_def)

section \<open>Properties\<close>

text \<open>C2. \<open>Decide\<close> returns the decision of a matching rule of the class whose domain text is
  at least as long as that of every other matching rule, tagged with that rule's domain; only
  when no rule of the class matches the normalized host does it return the mode's built-in
  default, tagged as such.\<close>

theorem Decide_longest_rule:
  assumes h_def: "h = to_lower (trim_space host)"
  shows "(\<exists>r \<in> set (Rules p). Class r = cls \<and> domainMatches (Domain r) h
            \<and> Decide p cls host mode = (RuleDecision r, ''rule:'' @ Domain r)
            \<and> (\<forall>r' \<in> set (Rules p). Class r' = cls \<and> domainMatches (Domain r') h \<longrightarrow>
                 length (Domain r') \<le> length (Domain r)))
         \<or> ((\<forall>r \<in> set (Rules p). \<not> (Class r = cls \<and> domainMatches (Domain r) h))
            \<and> Decide p cls host mode = (Defaults cls mode, ''default''))"
proof (cases "foldl (Decide_body cls h) None (Rules p)")
  case None
  then show ?thesis
    using rule_scan.scan_None_iff [of cls h "Rules p"] by (simp add: Decide_def h_def)
next
  case (Some r)
  then show ?thesis
    using rule_scan.scan_Some [of cls h "Rules p" r] Decide_rule [of cls host p r mode]
    by (auto simp: h_def)
qed

theorem Decide_longest_rule_witness:
  "Decide \<lparr>Rules = [\<lparr>Class = ''eval'', Domain = ''example.com'', RuleDecision = ''deny''\<rparr>,
                    \<lparr>Class = ''eval'', Domain = ''app.example.com'', RuleDecision = ''allow''\<rparr>],
          Source = ''policy.toml''\<rparr> ''eval'' '' API.app.example.com '' ''mcp''
     = (''allow'', ''rule:app.example.com'')"
  using Decide_longest_rule [OF refl,
      of "\<lparr>Rules = [\<lparr>Class = ''eval'', Domain = ''example.com'', RuleDecision = ''deny''\<rparr>,
                   \<lparr>Class = ''eval'', Domain = ''app.example.com'', RuleDecision = ''allow''\<rparr>],
         Source = ''policy.toml''\<rparr>" "''eval''" "'' API.app.example.com ''" "''mcp''"]
  by code_simp

text \<open>A rule for a plain domain never matches a host that merely ends in the same
  characters: putting any label text without a separating dot in front of the domain gives a
  host the rule does not cover (\<open>example.com\<close> does not cover \<open>evilexample.com\<close>), while a dotted
  subdomain is covered.\<close>

theorem domainMatches_label_boundary:
  assumes "d = to_lower (trim_space ruleDomain)" and "d \<noteq> []" and "\<not> has_prefix d ''.''"
    and "p \<noteq> []"
  shows "domainMatches ruleDomain (p @ d) \<longleftrightarrow> last p = CHR ''.''"
proof -
  have "p @ d \<noteq> d" using assms(4) by simp
  then have "domainMatches ruleDomain (p @ d) \<longleftrightarrow> suffix (CHR ''.'' # d) (p @ d)"
    using assms by (simp add: domainMatches_def Let_def)
  also have "\<dots> \<longleftrightarrow> last p = CHR ''.''"
    using assms(4) suffix_snoc_last [of "CHR ''.''" d p]
    by (auto simp: suffix_def) (metis append.assoc append_Cons append_Nil append_butlast_last_id)
  finally show ?thesis .
qed

theorem domainMatches_label_boundary_witness:
  "\<not> domainMatches '' Example.com'' (''evil'' @ ''example.com'')"
  using domainMatches_label_boundary [of "''example.com''" "'' Example.com''" "''evil''"]
  by code_simp

text \<open>For every risk class the built-in default of the MCP mode is at least as restrictive
  as the default of any other mode, and every class other than read, navigate, interact and an
  unknown one needs at least a confirmation over MCP.\<close>

theorem Defaults_mcp_stricter:
  "severity (Defaults cls mode) \<le> severity (Defaults cls ModeMCP)
   \<and> (Defaults cls ModeMCP = Allow \<longleftrightarrow>
        cls \<notin> {ClassSubmit, ClassEval, ClassCredential, ClassDownload, ClassUpload, ClassNetworkMock})"
  by (simp add: Defaults_def severity_def)

text \<open>C26. A policy that \<open>LoadPolicy\<close> accepts, whatever the TOML decoder delivers, only ever
  yields one of the three decisions allow, confirm and deny; and every rule that can be
  selected names a known class and a non-empty domain.\<close>

theorem LoadPolicy_decisions:
  assumes "LoadPolicy decodeFile path = Inr p"
  shows "fst (Decide p cls host mode) \<in> {Allow, Confirm, Deny}
    \<and> (\<forall>r \<in> set (Rules p). ValidClass (Class r) \<and> Domain r \<noteq> [])"
  using Validate_decision [OF LoadPolicy_valid [OF assms]] LoadPolicy_valid [OF assms]
  by (auto simp: Validate_def Validate_rules_None)

theorem LoadPolicy_decisions_witness:
  "fst (Decide \<lparr>Rules = [\<lparr>Class = ''submit'', Domain = ''bank.test'', RuleDecision = ''deny''\<rparr>],
                Source = ''p''\<rparr> ''submit'' ''bank.test'' ''tty'') \<in> {Allow, Confirm, Deny}"
proof -
  let ?p = "\<lparr>Rules = [\<lparr>Class = ''submit'', Domain = ''bank.test'', RuleDecision = ''deny''\<rparr>], Source = ''p''\<rparr>"
  have "LoadPolicy (\<lambda>_ _. Decoded ?p) ''p'' = Inr ?p" by code_simp
  from LoadPolicy_decisions [OF this, of "''submit''" "''bank.test''" "''tty''"] show ?thesis by blast
qed

end
