(* ===== verification/NetAddr.thy ===== *)
theory NetAddr
  imports Prelude "HOL-Library.Word"
begin

text \<open>
  The parts of Go's \<open>net\<close> and \<open>net/url\<close> the policies read: a parsed \<open>url.URL\<close> as a record of
  its parts with \<open>Hostname\<close> (which strips the port and the brackets of an IPv6 literal), IP
  addresses as 4 or 16 bytes, CIDR networks with \<open>IPNet.Contains\<close>, and \<open>net.ParseIP\<close>.
\<close>

section \<open>Parsed URLs\<close>

record url =
  Scheme :: string
  Host :: string
  Path :: string
  RawQuery :: string
  Raw :: string

text \<open>\<open>net/url\<close>'s \<open>validOptionalPort\<close> and \<open>splitHostPort\<close>, which \<open>Hostname\<close> returns the host of.\<close>

definition validOptionalPort :: "string \<Rightarrow> bool" where
  "validOptionalPort port = (case port of [] \<Rightarrow> True
     | c # ds \<Rightarrow> c = CHR '':'' \<and> list_all (\<lambda>d. d \<in> set ''0123456789'') ds)"

definition Hostname :: "url \<Rightarrow> string" where
  "Hostname u =
     (let host = Host u;
          cut = (case last_index_byte host (CHR '':'') of
                   Some i \<Rightarrow> if validOptionalPort (drop i host) then take i host else host
                 | None \<Rightarrow> host)
      in if has_prefix cut ''['' \<and> has_suffix cut '']''
         then take (length cut - 2) (drop 1 cut) else cut)"


section \<open>IP addresses\<close>

unbundle bit_operations_syntax

type_synonym u8 = "8 word"
type_synonym ip = "u8 list"

definition v4InV6Prefix :: ip where
  "v4InV6Prefix = [0, 0, 0, 0, 0, 0, 0, 0, 0, 0, 255, 255]"

definition To4 :: "ip \<Rightarrow> ip option" where
  "To4 i = (if length i = 4 then Some i
     else if length i = 16 \<and> take 12 i = v4InV6Prefix then Some (drop 12 i)
     else None)"

record ip_net =
  NetIP :: ip
  NetMask :: ip

text \<open>\<open>networkNumberAndMask\<close>: a 16-byte mask over a 4-byte network is cut to its last 4 bytes.\<close>

definition networkNumberAndMask :: "ip_net \<Rightarrow> (ip \<times> ip) option" where
  "networkNumberAndMask n =
     (case (case To4 (NetIP n) of Some v4 \<Rightarrow> Some v4
            | None \<Rightarrow> if length (NetIP n) = 16 then Some (NetIP n) else None) of
        None \<Rightarrow> None
      | Some addr \<Rightarrow>
          if length (NetMask n) = 4 then (if length addr = 4 then Some (addr, NetMask n) else None)
          else if length (NetMask n) = 16 then
            Some (addr, if length addr = 4 then drop 12 (NetMask n) else NetMask n)
          else None)"

definition Contains :: "ip_net \<Rightarrow> ip \<Rightarrow> bool" where
  "Contains n i0 =
     (let i = (case To4 i0 of Some v4 \<Rightarrow> v4 | None \<Rightarrow> i0) in
      case networkNumberAndMask n of
        None \<Rightarrow> length i = 0
      | Some (nn, m) \<Rightarrow> length i = length nn \<and> map2 (AND) nn m = map2 (AND) i m)"

section \<open>Parsing addresses\<close>

definition parse_octet :: "string \<Rightarrow> u8 option" where
  "parse_octet s =
     (if s \<noteq> [] \<and> list_all (\<lambda>c. c \<in> set ''0123456789'') s
         \<and> (hd s = CHR ''0'' \<longrightarrow> length s = 1) \<and> length s \<le> 3 \<and> str_value s \<le> 255
      then Some (word_of_nat (str_value s)) else None)"

definition parseIPv4 :: "string \<Rightarrow> ip option" where
  "parseIPv4 s = (case map parse_octet (split_on (CHR ''.'') s) of
       [Some a, Some b, Some c, Some d] \<Rightarrow> Some [a, b, c, d]
     | _ \<Rightarrow> None)"

definition hex_digits :: "(char \<times> int) list" where
  "hex_digits = zip ''0123456789abcdefABCDEF''
     [0, 1, 2, 3, 4, 5, 6, 7, 8, 9, 10, 11, 12, 13, 14, 15, 10, 11, 12, 13, 14, 15]"

definition hex_digit :: "char \<Rightarrow> int option" where
  "hex_digit c = map_of hex_digits c"

text \<open>The leading hexadecimal digits of a group: their value, how many there are, the rest.\<close>

fun hex_group :: "int \<Rightarrow> nat \<Rightarrow> string \<Rightarrow> int \<times> nat \<times> string" where
  "hex_group acc off [] = (acc, off, [])"
| "hex_group acc off (c # s) =
     (case hex_digit c of None \<Rightarrow> (acc, off, c # s)
      | Some d \<Rightarrow> hex_group (16 * acc + d) (Suc off) s)"

lemma hex_group_rest: "hex_group acc off s = (a, n, r) \<Longrightarrow> length r + n = length s + off"
  by (induction acc off s rule: hex_group.induct) (auto split: option.splits)

definition expand_ellipsis :: "ip \<Rightarrow> nat option \<Rightarrow> ip option" where
  "expand_ellipsis bs ell =
     (if length bs < 16 then
        (case ell of None \<Rightarrow> None
         | Some e \<Rightarrow> Some (take e bs @ replicate (16 - length bs) 0 @ drop e bs))
      else (case ell of None \<Rightarrow> Some bs | Some _ \<Rightarrow> None))"

text \<open>The group loop of \<open>netip.parseIPv6\<close>: \<open>bs\<close> holds the bytes parsed so far, \<open>ell\<close> the position
  of the ellipsis. Every iteration consumes a digit, so it ends with the string.\<close>

function parse_groups :: "ip \<Rightarrow> nat option \<Rightarrow> string \<Rightarrow> ip option" where
  "parse_groups bs ell s =
     (if 16 \<le> length bs then (if s = [] then expand_ellipsis bs ell else None)
      else (case hex_group 0 0 s of (acc, off, rest) \<Rightarrow>
        if off = 0 \<or> 4 < off then None
        else if rest \<noteq> [] \<and> hd rest = CHR ''.'' then
          (if (ell = None \<and> length bs \<noteq> 12) \<or> 12 < length bs then None
           else (case parseIPv4 s of None \<Rightarrow> None | Some v4 \<Rightarrow> expand_ellipsis (bs @ v4) ell))
        else
          (let bs' = bs @ [word_of_int (acc div 256), word_of_int (acc mod 256)] in
           if rest = [] then expand_ellipsis bs' ell
           else if hd rest \<noteq> CHR '':'' \<or> length rest = 1 then None
           else if hd (tl rest) = CHR '':'' then
             (if ell \<noteq> None then None
              else if length rest = 2 then expand_ellipsis bs' (Some (length bs'))
              else parse_groups bs' (Some (length bs')) (drop 2 rest))
           else parse_groups bs' ell (tl rest))))"
  by pat_completeness auto
termination
  by (relation "measure (\<lambda>(bs, ell, s). length s)") (auto dest!: sym [THEN hex_group_rest])

declare parse_groups.simps [simp del]

definition parseIPv6 :: "string \<Rightarrow> ip option" where
  "parseIPv6 s =
     (if has_prefix s ''::'' then
        (if length s = 2 then Some (replicate 16 0) else parse_groups [] (Some 0) (drop 2 s))
      else parse_groups [] None s)"

text \<open>\<open>netip.ParseAddr\<close> dispatches on the first of \<open>. : %\<close>; an address with a zone is refused by
  \<open>net.ParseIP\<close> and \<open>net.ParseCIDR\<close>, so any \<open>%\<close> is an error here.\<close>

definition ParseAddr :: "string \<Rightarrow> ip option" where
  "ParseAddr s =
     (case index_any s ''.:%'' of
        None \<Rightarrow> None
      | Some i \<Rightarrow> if CHR ''%'' \<in> set s then None
                  else if s ! i = CHR ''.'' then parseIPv4 s else parseIPv6 s)"

definition ParseIP :: "string \<Rightarrow> ip option" where
  "ParseIP s = map_option (\<lambda>a. if length a = 4 then v4InV6Prefix @ a else a) (ParseAddr s)"

text \<open>A mask byte with \<open>k\<close> leading ones, and \<open>net.CIDRMask\<close> over \<open>len\<close> bytes.\<close>

definition mask_byte :: "nat \<Rightarrow> u8" where
  "mask_byte k = NOT (mask (8 - k))"

definition CIDRMask :: "nat \<Rightarrow> nat \<Rightarrow> ip" where
  "CIDRMask ones len = map (\<lambda>j. mask_byte (min 8 (ones - 8 * j))) [0..<len]"

definition ParseCIDR :: "string \<Rightarrow> ip_net option" where
  "ParseCIDR s =
     (case index_byte s (CHR ''/'') of
        None \<Rightarrow> None
      | Some i \<Rightarrow>
          (case ParseAddr (take i s) of
             None \<Rightarrow> None
           | Some addr \<Rightarrow>
               (let ds = drop (i + 1) s; n = str_value ds in
                if ds = [] \<or> \<not> list_all (\<lambda>c. c \<in> set ''0123456789'') ds \<or> 8 * length addr < n then None
                else (let m = CIDRMask n (length addr) in
                      Some \<lparr>NetIP = map2 (AND) addr m, NetMask = m\<rparr>))))"

lemma length_parseIPv4: "parseIPv4 s = Some i \<Longrightarrow> length i = 4"
  by (auto simp: parseIPv4_def split: list.splits option.splits)

lemma length_expand_ellipsis:
  "expand_ellipsis bs ell = Some i \<Longrightarrow> length bs \<le> 16 \<Longrightarrow>
     (\<And>e. ell = Some e \<Longrightarrow> e \<le> length bs) \<Longrightarrow> length i = 16"
  by (auto simp: expand_ellipsis_def split: if_splits option.splits)

end
