(* ===== verification/Allowlist.thy ===== *)
theory Allowlist
  imports NetAddr
begin

text \<open>
  \<open>internal/policy/allowlist.go\<close>: the deny-by-default domain allowlist. Patterns are parsed
  once into exact hosts and dotted suffixes; a request URL passes when its scheme is a web
  scheme and its host is covered. A nil pointer is \<^const>\<open>None\<close>.
\<close>

section \<open>Patterns\<close>

datatype pattern_error =
    SchemePrefix string
  | MisplacedWildcard string
  | EmptyHost string
  | NotBareHost string
  | EmptyLabel string

record allowlist =
  active :: bool
  exact :: "string set"
  suffixes :: "string list"
  patterns :: "string list"

definition normalizePattern :: "string \<Rightarrow> pattern_error + string \<times> bool" where
  "normalizePattern pattern =
     (let lower0 = to_lower pattern in
      if has_prefix lower0 ''http://'' \<or> has_prefix lower0 ''https://''
         \<or> has_prefix lower0 ''ws://'' \<or> has_prefix lower0 ''wss://''
      then Inl (SchemePrefix pattern)
      else
        (let wildcard = has_prefix lower0 ''*.'';
             lower = (if wildcard then trim_prefix lower0 ''*.'' else lower0) in
         if \<not> wildcard \<and> contains lower0 ''*'' then Inl (MisplacedWildcard pattern)
         else
           (let host = trim_suffix lower ''.'' in
            if host = [] then Inl (EmptyHost pattern)
            else if contains_any host ''/:@?#'' \<or> contains host ''..'' then Inl (NotBareHost pattern)
            else if list_ex (\<lambda>label. label = []) (split_on (CHR ''.'') host) then Inl (EmptyLabel pattern)
            else if wildcard then Inr (''.'' @ host, True)
            else Inr (host, False))))"

fun ParseAllowlist_loop :: "allowlist \<Rightarrow> string list \<Rightarrow> pattern_error + allowlist" where
  "ParseAllowlist_loop a [] = Inr (a\<lparr>active := (0 < length (patterns a))\<rparr>)"
| "ParseAllowlist_loop a (raw # rest) =
     (let pattern = trim_space raw in
      if pattern = [] then ParseAllowlist_loop a rest
      else (case normalizePattern pattern of
              Inl err \<Rightarrow> Inl err
            | Inr (normalized, wildcard) \<Rightarrow>
                (let a1 = a\<lparr>patterns := patterns a @ [pattern]\<rparr> in
                 if wildcard
                 then ParseAllowlist_loop (a1\<lparr>suffixes := suffixes a1 @ [normalized]\<rparr>) rest
                 else ParseAllowlist_loop (a1\<lparr>exact := insert normalized (exact a1)\<rparr>) rest)))"

definition ParseAllowlist :: "string list \<Rightarrow> pattern_error + allowlist" where
  "ParseAllowlist ps =
     ParseAllowlist_loop \<lparr>active = False, exact = {}, suffixes = [], patterns = []\<rparr> ps"

section \<open>Checks\<close>

definition Active :: "allowlist option \<Rightarrow> bool" where
  "Active a = (case a of None \<Rightarrow> False | Some al \<Rightarrow> active al)"

definition Patterns :: "allowlist option \<Rightarrow> string list" where
  "Patterns a = (case a of None \<Rightarrow> [] | Some al \<Rightarrow> patterns al)"

definition allowedSchemes :: "string list" where
  "allowedSchemes = [''http'', ''https'', ''ws'', ''wss'']"

fun suffix_loop :: "string \<Rightarrow> string list \<Rightarrow> bool" where
  "suffix_loop host [] = False"
| "suffix_loop host (sfx # rest) =
     (if host = drop 1 sfx \<or> has_suffix host sfx then True else suffix_loop host rest)"

definition AllowsHost :: "allowlist option \<Rightarrow> string \<Rightarrow> bool" where
  "AllowsHost a hostname =
     (case a of
        None \<Rightarrow> True
      | Some al \<Rightarrow>
          if \<not> active al then True
          else (let host = to_lower (trim_suffix hostname ''.'') in
                if host = [] then False
                else if host \<in> exact al then True
                else suffix_loop host (suffixes al)))"

definition AllowsURL :: "allowlist option \<Rightarrow> url option \<Rightarrow> bool" where
  "AllowsURL a u0 =
     (if \<not> Active a then True
      else (case u0 of
              None \<Rightarrow> False
            | Some u \<Rightarrow> if to_lower (Scheme u) \<notin> set allowedSchemes then False
                        else AllowsHost a (Hostname u)))"

section \<open>Lemmas\<close>

lemma suffix_loop_iff:
  "suffix_loop host ss \<longleftrightarrow> (\<exists>sfx \<in> set ss. host = drop 1 sfx \<or> suffix sfx host)"
  by (induction ss) auto

text \<open>What one pattern covers, written over hosts rather than over the parsed tables.\<close>

definition covers :: "string \<Rightarrow> bool \<Rightarrow> string \<Rightarrow> bool" where
  "covers host wildcard h \<longleftrightarrow> h = host \<or> (wildcard \<and> suffix (''.'' @ host) h)"

definition pattern_covers :: "string \<Rightarrow> string \<Rightarrow> bool" where
  "pattern_covers raw h \<longleftrightarrow>
     (case normalizePattern (trim_space raw) of
        Inl _ \<Rightarrow> False
      | Inr (n, w) \<Rightarrow> trim_space raw \<noteq> [] \<and> covers (if w then drop 1 n else n) w h)"

definition table_covers :: "allowlist \<Rightarrow> string \<Rightarrow> bool" where
  "table_covers al h \<longleftrightarrow> h \<in> exact al \<or> suffix_loop h (suffixes al)"

lemma normalizePattern_cases:
  assumes "normalizePattern p = Inr (n, w)"
  obtains host where "host \<noteq> []" "n = (if w then ''.'' @ host else host)"
    "set host \<inter> set ''/:@?#'' = {}" "[] \<notin> set (split_on (CHR ''.'') host)"
    "to_lower host = host"
proof -
  let ?l = "to_lower p"
  let ?l1 = "if has_prefix ?l ''*.'' then trim_prefix ?l ''*.'' else ?l"
  let ?host = "trim_suffix ?l1 ''.''"
  have low: "to_lower ?host = ?host"
    by (rule to_lower_trim_suffix) (simp add: to_lower_trim_prefix)
  show ?thesis
    by (rule that [of ?host]) (use assms low in \<open>auto simp: normalizePattern_def Let_def contains_any_def
        list_ex_iff split: if_splits\<close>)
qed

lemma ParseAllowlist_loop_covers:
  "ParseAllowlist_loop a ps = Inr al \<Longrightarrow>
     (table_covers al h \<longleftrightarrow> table_covers a h \<or> (\<exists>raw \<in> set ps. pattern_covers raw h))
     \<and> (patterns al = patterns a @ filter (\<lambda>p. p \<noteq> []) (map trim_space ps))
     \<and> active al = (patterns al \<noteq> [])"
proof (induction a ps rule: ParseAllowlist_loop.induct)
  case (1 a)
  then show ?case by (auto simp: table_covers_def)
next
  case (2 a raw rest)
  show ?case
  proof (cases "trim_space raw = []")
    case True
    with 2 show ?thesis by (auto simp: pattern_covers_def split: sum.splits)
  next
    case False
    with 2(4) obtain n w where nw: "normalizePattern (trim_space raw) = Inr (n, w)"
      by (cases "normalizePattern (trim_space raw)") auto
    from nw obtain host where "n = (if w then ''.'' @ host else host)"
      by (rule normalizePattern_cases)
    then show ?thesis
      using 2 False nw
      by (cases w) (auto simp: Let_def table_covers_def suffix_loop_iff pattern_covers_def covers_def)
  qed
qed

lemma AllowsHost_active:
  "active al \<Longrightarrow> AllowsHost (Some al) hn \<longleftrightarrow>
     to_lower (trim_suffix hn ''.'') \<noteq> [] \<and> table_covers al (to_lower (trim_suffix hn ''.''))"
  by (simp add: AllowsHost_def table_covers_def Let_def)

section \<open>Properties\<close>

text \<open>A parsed allowlist admits exactly the hosts its patterns denote: when at least one
  pattern is not blank the list is active, and a host passes if and only if, after lower-casing
  and removing one trailing dot, it is non-empty and equals the host of some pattern or, for a
  \<open>*.\<close> pattern, ends in a dot followed by that host. With only blank patterns everything
  passes.\<close>

theorem AllowsHost_iff_pattern:
  assumes "ParseAllowlist ps = Inr al" and h_def: "h = to_lower (trim_suffix hostname ''.'')"
  shows "AllowsHost (Some al) hostname \<longleftrightarrow>
     (\<forall>raw \<in> set ps. trim_space raw = []) \<or> (h \<noteq> [] \<and> (\<exists>raw \<in> set ps. pattern_covers raw h))"
proof -
  have cov: "table_covers al h \<longleftrightarrow> (\<exists>raw \<in> set ps. pattern_covers raw h)"
    and act: "active al = (\<exists>raw \<in> set ps. trim_space raw \<noteq> [])"
    using ParseAllowlist_loop_covers [of _ ps al h] assms(1)
    by (auto simp: ParseAllowlist_def table_covers_def filter_empty_conv)
  show ?thesis
  proof (cases "active al")
    case True
    then show ?thesis using cov act by (auto simp: AllowsHost_active h_def)
  next
    case False
    then show ?thesis using act by (auto simp: AllowsHost_def)
  qed
qed

theorem AllowsHost_iff_pattern_witness:
  "\<exists>al. ParseAllowlist [''*.Example.com'', '' ''] = Inr al \<and> AllowsHost (Some al) ''a.EXAMPLE.com.''
     \<and> \<not> AllowsHost (Some al) ''evilexample.com''"
proof -
  obtain al where al: "ParseAllowlist [''*.Example.com'', '' ''] = Inr al"
    by (cases "ParseAllowlist [''*.Example.com'', '' '']") (simp_all, code_simp)
  have "AllowsHost (Some al) ''a.EXAMPLE.com.''"
    unfolding AllowsHost_iff_pattern [OF al refl] by code_simp
  moreover have "\<not> AllowsHost (Some al) ''evilexample.com''"
    unfolding AllowsHost_iff_pattern [OF al refl] by code_simp
  ultimately show ?thesis using al by blast
qed

text \<open>While an allowlist is active it denies by default: a nil URL, a URL whose scheme is
  not http, https, ws or wss (\<open>file\<close>, \<open>data\<close>, \<open>javascript\<close>, \ldots), and a URL without a host
  are all refused, whatever the patterns are.\<close>

theorem AllowsURL_fail_closed:
  assumes "active al" and "AllowsURL (Some al) u"
  shows "\<exists>v. u = Some v \<and> to_lower (Scheme v) \<in> {''http'', ''https'', ''ws'', ''wss''}
     \<and> Hostname v \<noteq> [] \<and> AllowsHost (Some al) (Hostname v)"
proof -
  from assms obtain v where v: "u = Some v" "to_lower (Scheme v) \<in> set allowedSchemes"
    "AllowsHost (Some al) (Hostname v)"
    by (auto simp: AllowsURL_def Active_def split: option.splits if_splits)
  then have "Hostname v \<noteq> []"
    using assms(1) by (auto simp: AllowsHost_active trim_suffix_def)
  with v show ?thesis by (auto simp: allowedSchemes_def)
qed

theorem AllowsURL_fail_closed_witness:
  "Hostname \<lparr>Scheme = ''HTTPS'', Host = ''example.com:8443'', Path = ''/'', RawQuery = [], Raw = []\<rparr> \<noteq> []"
proof -
  let ?al = "\<lparr>active = True, exact = {''example.com''}, suffixes = [], patterns = [''example.com'']\<rparr>"
  let ?u = "\<lparr>Scheme = ''HTTPS'', Host = ''example.com:8443'', Path = ''/'', RawQuery = [], Raw = []\<rparr>"
  have "active ?al" and "AllowsURL (Some ?al) (Some ?u)" by code_simp+
  from AllowsURL_fail_closed [OF this] show ?thesis by auto
qed

text \<open>Every accepted pattern is a bare hostname: its host has no empty label, carries none
  of \<open>/ : @ ? #\<close>, and is already lower-cased, so a scheme, port, path or userinfo in a pattern is
  an error and never widens the list.\<close>

theorem normalizePattern_bare_host:
  assumes "normalizePattern p = Inr (n, w)"
  shows "\<exists>host. n = (if w then ''.'' @ host else host) \<and> host \<noteq> [] \<and> to_lower host = host
     \<and> set host \<inter> set ''/:@?#'' = {} \<and> [] \<notin> set (split_on (CHR ''.'') host)"
  using assms by (rule normalizePattern_cases) auto

theorem normalizePattern_bare_host_witness:
  "normalizePattern ''*.Example.com.'' = Inr (''.example.com'', True)
   \<and> (\<exists>host. ''.example.com'' = ''.'' @ host \<and> [] \<notin> set (split_on (CHR ''.'') host))"
proof -
  have n: "normalizePattern ''*.Example.com.'' = Inr (''.example.com'', True)" by code_simp
  from normalizePattern_bare_host [OF n] n show ?thesis by auto
qed

end
