(* ===== verification/SsrfGuard.thy ===== *)
theory SsrfGuard
  imports NetAddr
begin

text \<open>
  \<open>internal/policy/ssrf.go\<close>: the guard against requests to private networks. The resolver the
  guard asks (\<open>LookupFunc\<close>) and the system resolver it falls back to are parameters, as is the
  URL parser of the raw-URL entry point; everything after them, including the parsing of the
  resolved addresses and the table of networks, is computed.
\<close>

section \<open>The guard\<close>

type_synonym LookupFunc = "string \<Rightarrow> string + string list"

datatype ssrf_error =
    BlockedPrivateError string
  | DNSFailed string string
  | InvalidURL string

record ssrf_guard =
  enabled :: bool
  allowPrivate :: bool
  lookup :: "LookupFunc option"

definition NewSSRFGuardWithLookup :: "LookupFunc \<Rightarrow> bool \<Rightarrow> LookupFunc option \<Rightarrow> ssrf_guard" where
  "NewSSRFGuardWithLookup defaultLookup priv lk =
     \<lparr>enabled = True, allowPrivate = priv,
      lookup = Some (case lk of None \<Rightarrow> defaultLookup | Some f \<Rightarrow> f)\<rparr>"

definition NewSSRFGuard :: "LookupFunc \<Rightarrow> bool \<Rightarrow> ssrf_guard" where
  "NewSSRFGuard defaultLookup priv = NewSSRFGuardWithLookup defaultLookup priv None"

definition Enabled :: "ssrf_guard option \<Rightarrow> bool" where
  "Enabled g = (case g of None \<Rightarrow> False | Some gd \<Rightarrow> enabled gd)"

section \<open>Private networks\<close>

definition ipv4MappedNet :: "ip_net option" where
  "ipv4MappedNet = ParseCIDR ''::ffff:0:0/96''"

definition privateCIDRs :: "string list" where
  "privateCIDRs =
     [''0.0.0.0/8'', ''127.0.0.0/8'', ''10.0.0.0/8'', ''172.16.0.0/12'', ''192.168.0.0/16'',
      ''169.254.0.0/16'', ''100.64.0.0/10'', ''::/128'', ''::1/128'', ''fc00::/7'', ''fe80::/10'']"

definition privateRanges :: "ip_net list" where
  "privateRanges = List.map_filter ParseCIDR privateCIDRs"

function IsPrivateIP :: "ip \<Rightarrow> bool" where
  "IsPrivateIP i0 =
     (let i = (case To4 i0 of Some v4 \<Rightarrow> v4 | None \<Rightarrow> i0) in
      if list_ex (\<lambda>n. Contains n i) privateRanges then True
      else if length i = 16 \<and> (case ipv4MappedNet of None \<Rightarrow> False | Some n \<Rightarrow> Contains n i)
      then IsPrivateIP (take 4 (drop 12 i))
      else False)"
  by pat_completeness auto
termination
  by (relation "measure length") (auto simp: To4_def split: option.splits if_splits)

declare IsPrivateIP.simps [simp del]

section \<open>Checks\<close>

fun ip_loop :: "string \<Rightarrow> string list \<Rightarrow> ssrf_error option" where
  "ip_loop raw [] = None"
| "ip_loop raw (ipStr # rest) =
     (case ParseIP ipStr of
        None \<Rightarrow> ip_loop raw rest
      | Some i \<Rightarrow> if IsPrivateIP i then Some (BlockedPrivateError raw) else ip_loop raw rest)"

definition AllowsHost :: "LookupFunc \<Rightarrow> ssrf_guard option \<Rightarrow> string \<Rightarrow> string \<Rightarrow> ssrf_error option" where
  "AllowsHost defaultLookup g hostname raw =
     (case g of
        None \<Rightarrow> None
      | Some gd \<Rightarrow>
          if \<not> enabled gd \<or> allowPrivate gd then None
          else (let host = to_lower (trim_suffix hostname ''.'') in
            if host = [] then Some (BlockedPrivateError raw)
            else if has_suffix host ''.local'' \<or> host = ''localhost'' then Some (BlockedPrivateError raw)
            else (case (case lookup gd of None \<Rightarrow> defaultLookup | Some f \<Rightarrow> f) host of
                    Inl err \<Rightarrow> Some (DNSFailed host err)
                  | Inr ips \<Rightarrow> ip_loop raw ips)))"

definition AllowsURL :: "LookupFunc \<Rightarrow> ssrf_guard option \<Rightarrow> url option \<Rightarrow> ssrf_error option" where
  "AllowsURL defaultLookup g u0 =
     (if \<not> Enabled g \<or> (case g of None \<Rightarrow> False | Some gd \<Rightarrow> allowPrivate gd) then None
      else (case u0 of
              None \<Rightarrow> Some (BlockedPrivateError [])
            | Some u \<Rightarrow>
                (let raw = Raw u; scheme = to_lower (Scheme u) in
                 if scheme \<noteq> ''http'' \<and> scheme \<noteq> ''https'' then Some (BlockedPrivateError raw)
                 else (let host = Hostname u in
                       if host = [] then Some (BlockedPrivateError raw)
                       else AllowsHost defaultLookup g host raw))))"

definition CheckSSRFWithLookup ::
  "(string \<Rightarrow> string + url) \<Rightarrow> LookupFunc \<Rightarrow> string \<Rightarrow> LookupFunc option \<Rightarrow> ssrf_error option" where
  "CheckSSRFWithLookup parseURL defaultLookup rawURL lk =
     (case parseURL rawURL of
        Inl err \<Rightarrow> Some (InvalidURL err)
      | Inr u \<Rightarrow> AllowsURL defaultLookup (Some (NewSSRFGuardWithLookup defaultLookup False lk)) (Some u))"

definition CheckSSRF :: "(string \<Rightarrow> string + url) \<Rightarrow> LookupFunc \<Rightarrow> string \<Rightarrow> ssrf_error option" where
  "CheckSSRF parseURL defaultLookup rawURL = CheckSSRFWithLookup parseURL defaultLookup rawURL None"

section \<open>Lemmas\<close>

lemma ipv4MappedNet_eval:
  "ipv4MappedNet = Some \<lparr>NetIP = v4InV6Prefix @ [0, 0, 0, 0],
     NetMask = replicate 12 255 @ [0, 0, 0, 0]\<rparr>"
  by code_simp

lemma u8_255: "(255 :: u8) = - 1"
  by simp

lemma and_255 [simp]: "(b :: u8) AND 255 = b"
  unfolding u8_255 by (rule and.right_neutral)

lemma and_not_mask: "(b :: u8) AND NOT (mask k) = push_bit k (drop_bit k b)"
  by (rule bit_word_eqI) (auto simp: bit_simps)

lemma unat_and_not_mask: "unat ((b :: u8) AND NOT (mask k)) = unat b div 2 ^ k * 2 ^ k"
proof -
  have "unat b div 2 ^ k * 2 ^ k \<le> unat b" by simp
  also have "unat b < 2 ^ LENGTH(8)" by (rule unsigned_less)
  finally have "unat b div 2 ^ k * 2 ^ k < 256" by simp
  moreover have "unat (push_bit k (drop_bit k b)) = take_bit 8 (push_bit k (drop_bit k (unat b)))"
    by (simp add: unsigned_push_bit_eq unat_drop_bit_eq)
  ultimately show ?thesis
    by (simp add: and_not_mask take_bit_eq_mod push_bit_eq_mult drop_bit_eq_div)
qed

lemma mask_bytes:
  "(240 :: u8) = NOT (mask 4)" "(192 :: u8) = NOT (mask 6)" "(254 :: u8) = NOT (mask 1)"
  by code_simp+

lemma and_240_iff: "16 = (b :: u8) AND 240 \<longleftrightarrow> 16 \<le> unat b \<and> unat b \<le> 31"
proof -
  have "16 = b AND 240 \<longleftrightarrow> unat b div 16 * 16 = 16"
    using unat_and_not_mask [of b 4] unfolding mask_bytes word_unat_eq_iff by auto
  then show ?thesis by auto
qed

lemma and_192_iff:
  "64 = (b :: u8) AND 192 \<longleftrightarrow> 64 \<le> unat b \<and> unat b \<le> 127"
  "128 = b AND 192 \<longleftrightarrow> 128 \<le> unat b \<and> unat b \<le> 191"
proof -
  have "64 = b AND 192 \<longleftrightarrow> unat b div 64 * 64 = 64" and "128 = b AND 192 \<longleftrightarrow> unat b div 64 * 64 = 128"
    using unat_and_not_mask [of b 6] unfolding mask_bytes word_unat_eq_iff by auto
  then show "64 = b AND 192 \<longleftrightarrow> 64 \<le> unat b \<and> unat b \<le> 127"
    and "128 = b AND 192 \<longleftrightarrow> 128 \<le> unat b \<and> unat b \<le> 191"
    by auto
qed

lemma and_254_iff: "252 = (b :: u8) AND 254 \<longleftrightarrow> 252 \<le> unat b \<and> unat b \<le> 253"
proof -
  have "252 = b AND 254 \<longleftrightarrow> unat b div 2 * 2 = 252"
    using unat_and_not_mask [of b 1] unfolding mask_bytes word_unat_eq_iff by auto
  then show ?thesis by auto
qed

text \<open>The blocked networks over byte values.\<close>

definition private_v4 :: "ip \<Rightarrow> bool" where
  "private_v4 i \<longleftrightarrow>
     (let a = i ! 0; b = i ! 1 in
      a = 0 \<or> a = 127 \<or> a = 10 \<or> (a = 172 \<and> 16 \<le> unat b \<and> unat b \<le> 31) \<or> (a = 192 \<and> b = 168)
      \<or> (a = 169 \<and> b = 254) \<or> (a = 100 \<and> 64 \<le> unat b \<and> unat b \<le> 127))"

definition private_v6 :: "ip \<Rightarrow> bool" where
  "private_v6 i \<longleftrightarrow>
     i = replicate 16 0 \<or> i = replicate 15 0 @ [1]
     \<or> (0xfc \<le> unat (i ! 0) \<and> unat (i ! 0) \<le> 0xfd)
     \<or> (i ! 0 = 0xfe \<and> 0x80 \<le> unat (i ! 1) \<and> unat (i ! 1) \<le> 0xbf)"

lemma length4E:
  assumes "length i = 4"
  obtains a b c d where "i = [a, b, c, d]"
  using assms by (auto simp: numeral_eq_Suc length_Suc_conv)

lemma Contains_v4:
  "length nn = 4 \<Longrightarrow> length m = 4 \<Longrightarrow> length i = 4 \<Longrightarrow>
     Contains \<lparr>NetIP = nn, NetMask = m\<rparr> i \<longleftrightarrow> map2 (AND) nn m = map2 (AND) i m"
  by (simp add: Contains_def networkNumberAndMask_def To4_def)

lemma Contains_v6:
  "length nn = 16 \<Longrightarrow> To4 nn = None \<Longrightarrow> length m = 16 \<Longrightarrow> length i = 16 \<Longrightarrow> To4 i = None \<Longrightarrow>
     Contains \<lparr>NetIP = nn, NetMask = m\<rparr> i \<longleftrightarrow> map2 (AND) nn m = map2 (AND) i m"
  by (simp add: Contains_def networkNumberAndMask_def)

text \<open>The four IPv6 networks of the table, kept folded.\<close>

definition v6_nets :: "ip_net list" where
  "v6_nets =
     [\<lparr>NetIP = replicate 16 0, NetMask = replicate 16 255\<rparr>,
      \<lparr>NetIP = replicate 15 0 @ [1], NetMask = replicate 16 255\<rparr>,
      \<lparr>NetIP = 252 # replicate 15 0, NetMask = 254 # replicate 15 0\<rparr>,
      \<lparr>NetIP = 254 # 128 # replicate 14 0, NetMask = 255 # 192 # replicate 14 0\<rparr>]"

definition v4_nets :: "ip_net list" where
  "v4_nets =
     [\<lparr>NetIP = [0, 0, 0, 0], NetMask = [255, 0, 0, 0]\<rparr>,
      \<lparr>NetIP = [127, 0, 0, 0], NetMask = [255, 0, 0, 0]\<rparr>,
      \<lparr>NetIP = [10, 0, 0, 0], NetMask = [255, 0, 0, 0]\<rparr>,
      \<lparr>NetIP = [172, 16, 0, 0], NetMask = [255, 240, 0, 0]\<rparr>,
      \<lparr>NetIP = [192, 168, 0, 0], NetMask = [255, 255, 0, 0]\<rparr>,
      \<lparr>NetIP = [169, 254, 0, 0], NetMask = [255, 255, 0, 0]\<rparr>,
      \<lparr>NetIP = [100, 64, 0, 0], NetMask = [255, 192, 0, 0]\<rparr>]"

lemma privateRanges_split: "privateRanges = v4_nets @ v6_nets"
  by code_simp

lemma v6_nets_shape: "n \<in> set v6_nets \<Longrightarrow> length (NetIP n) = 16 \<and> length (NetMask n) = 16 \<and> To4 (NetIP n) = None"
proof -
  have "list_all (\<lambda>n. length (NetIP n) = 16 \<and> length (NetMask n) = 16 \<and> To4 (NetIP n) = None) v6_nets"
    by code_simp
  then show "n \<in> set v6_nets \<Longrightarrow> ?thesis" by (simp add: list_all_iff)
qed

lemma v4_nets_shape: "n \<in> set v4_nets \<Longrightarrow> length (NetIP n) = 4 \<and> length (NetMask n) = 4"
  by (auto simp: v4_nets_def)

lemma v6_nets_v4: "length i = 4 \<Longrightarrow> \<not> list_ex (\<lambda>n. Contains n i) v6_nets"
  by (auto simp: list_ex_iff Contains_def networkNumberAndMask_def To4_def [of i] dest: v6_nets_shape)

lemma v4_nets_v6: "length i = 16 \<Longrightarrow> To4 i = None \<Longrightarrow> \<not> list_ex (\<lambda>n. Contains n i) v4_nets"
  by (auto simp: list_ex_iff Contains_def networkNumberAndMask_def To4_def [of "NetIP _"] dest: v4_nets_shape)

lemma ranges_v4:
  assumes "length i = 4"
  shows "list_ex (\<lambda>n. Contains n i) privateRanges \<longleftrightarrow> private_v4 i"
proof -
  obtain a b c d where i: "i = [a, b, c, d]" using assms by (rule length4E)
  have "list_ex (\<lambda>n. Contains n i) v4_nets \<longleftrightarrow>
      0 = a \<or> 127 = a \<or> 10 = a \<or> (172 = a \<and> 16 = b AND 240) \<or> (192 = a \<and> 168 = b)
      \<or> (169 = a \<and> 254 = b) \<or> (100 = a \<and> 64 = b AND 192)"
    by (simp add: v4_nets_def Contains_v4 i)
  then have "list_ex (\<lambda>n. Contains n i) v4_nets \<longleftrightarrow> private_v4 i"
    unfolding and_240_iff and_192_iff private_v4_def Let_def i by auto
  with v6_nets_v4 [OF assms] show ?thesis by (simp add: privateRanges_split)
qed

lemma map2_replicate_255: "length i = n \<Longrightarrow> map2 (AND) i (replicate n (255 :: u8)) = i"
  by (induction i arbitrary: n) auto

lemma map2_replicate_0: "length i = n \<Longrightarrow> map2 (AND) i (replicate n (0 :: u8)) = replicate n 0"
  by (induction i arbitrary: n) auto

lemma map2_and_0: "map2 (AND) (replicate n 0) m = replicate (min n (length m)) (0 :: u8)"
  by (induction n arbitrary: m; case_tac m) auto

lemma ranges_v6:
  assumes "length i = 16" and "To4 i = None"
  shows "list_ex (\<lambda>n. Contains n i) privateRanges \<longleftrightarrow> private_v6 i"
proof -
  obtain a b r where i: "i = a # b # r" and r: "length r = 14"
    using assms(1) by (auto simp: numeral_eq_Suc length_Suc_conv)
  have c: "Contains n i \<longleftrightarrow> map2 (AND) (NetIP n) (NetMask n) = map2 (AND) i (NetMask n)"
    if "n \<in> set v6_nets" for n
    using v6_nets_shape [OF that] assms by (simp add: Contains_def networkNumberAndMask_def)
  have "list_ex (\<lambda>n. Contains n i) v6_nets \<longleftrightarrow>
      list_ex (\<lambda>n. map2 (AND) (NetIP n) (NetMask n) = map2 (AND) i (NetMask n)) v6_nets"
    using c by (auto simp: list_ex_iff)
  also have "\<dots> \<longleftrightarrow> replicate 16 0 = i \<or> replicate 15 0 @ [1] = i \<or> 252 = a AND 254
      \<or> (254 = a \<and> 128 = b AND 192)"
    using r assms(1) unfolding v6_nets_def i
    by (simp add: map2_replicate_255 map2_replicate_0 map2_and_0)
  also have "\<dots> \<longleftrightarrow> private_v6 i"
    unfolding and_254_iff and_192_iff private_v6_def i by auto
  finally show ?thesis using v4_nets_v6 [OF assms] by (simp add: privateRanges_split)
qed

text \<open>The addresses the guard is meant to block: an IPv4 address, also in its IPv4-mapped IPv6
  form, in one of the IPv4 networks, or an IPv6 address in one of the IPv6 networks.\<close>

definition blocked_address :: "ip \<Rightarrow> bool" where
  "blocked_address i \<longleftrightarrow>
     (case To4 i of Some v4 \<Rightarrow> private_v4 v4 | None \<Rightarrow> length i = 16 \<and> private_v6 i)"

lemma To4_length: "To4 i = Some v \<Longrightarrow> length v = 4"
  by (auto simp: To4_def split: if_splits)

lemma To4_idem: "length v = 4 \<Longrightarrow> To4 v = Some v"
  by (simp add: To4_def)

lemma mapped_net_v6:
  assumes "length i = 16" "To4 i = None" "ipv4MappedNet = Some n"
  shows "\<not> Contains n i"
proof -
  have "networkNumberAndMask \<lparr>NetIP = v4InV6Prefix @ [0, 0, 0, 0], NetMask = replicate 12 255 @ [0, 0, 0, 0]\<rparr>
      = Some ([0, 0, 0, 0], [0, 0, 0, 0])"
    by code_simp
  with assms show ?thesis by (auto simp: ipv4MappedNet_eval Contains_def)
qed

lemma ranges_other:
  assumes "length i \<noteq> 4" "length i \<noteq> 16"
  shows "\<not> list_ex (\<lambda>n. Contains n i) privateRanges"
proof -
  have "To4 i = None" using assms by (simp add: To4_def)
  moreover have "networkNumberAndMask n = Some (NetIP n, NetMask n)" if "n \<in> set privateRanges" for n
    using that v4_nets_shape [of n] v6_nets_shape [of n]
    by (auto simp: privateRanges_split networkNumberAndMask_def To4_def [of "NetIP n"])
  moreover have "length (NetIP n) = 4 \<or> length (NetIP n) = 16" if "n \<in> set privateRanges" for n
    using that v4_nets_shape [of n] v6_nets_shape [of n] by (auto simp: privateRanges_split)
  ultimately show ?thesis using assms by (fastforce simp: list_ex_iff Contains_def)
qed

lemma ip_loop_None:
  "ip_loop raw ips = None \<longleftrightarrow> (\<forall>s \<in> set ips. \<forall>i. ParseIP s = Some i \<longrightarrow> \<not> IsPrivateIP i)"
  by (induction raw ips rule: ip_loop.induct) (auto split: option.splits)

lemma IsPrivateIP_blocked: "IsPrivateIP i \<longleftrightarrow> blocked_address i"
proof (cases "To4 i")
  case (Some v)
  then have "length v = 4" by (rule To4_length)
  with Some show ?thesis
    by (subst IsPrivateIP.simps) (simp add: Let_def ranges_v4 blocked_address_def)
next
  case None
  then have "length i \<noteq> 4" by (auto simp: To4_def)
  show ?thesis
  proof (cases "length i = 16")
    case True
    with None mapped_net_v6 [OF True None] show ?thesis
      by (subst IsPrivateIP.simps) (simp add: Let_def ranges_v6 blocked_address_def split: option.splits)
  next
    case False
    with None \<open>length i \<noteq> 4\<close> show ?thesis
      by (subst IsPrivateIP.simps) (simp add: Let_def ranges_other blocked_address_def)
  qed
qed

lemma AllowsHost_None:
  assumes "enabled gd" and "\<not> allowPrivate gd" and "lookup gd = Some lk"
    and "AllowsHost dl (Some gd) hostname raw = None"
  shows "\<exists>h ips. h = to_lower (trim_suffix hostname ''.'') \<and> h \<noteq> [] \<and> h \<noteq> ''localhost''
     \<and> \<not> has_suffix h ''.local'' \<and> lk h = Inr ips
     \<and> (\<forall>s \<in> set ips. \<forall>i. ParseIP s = Some i \<longrightarrow> \<not> blocked_address i)"
  using assms
  by (auto simp: AllowsHost_def Let_def ip_loop_None IsPrivateIP_blocked split: if_splits sum.splits)

section \<open>Properties\<close>

text \<open>C23. The address classifier is exact: for every byte string, \<open>IsPrivateIP\<close> answers true if
  and only if the address lies in 0/8, 127/8, 10/8, 172.16/12, 192.168/16, 169.254/16 or
  100.64/10, the same in IPv4-mapped IPv6 form, or is ::, ::1, or lies in fc00::/7 or fe80::/10.
  In particular an IPv4-mapped spelling never escapes the IPv4 table.\<close>

theorem IsPrivateIP_exact:
  "IsPrivateIP i \<longleftrightarrow> blocked_address i"
  by (rule IsPrivateIP_blocked)



text \<open>The guard does not fail closed on what a resolver may return: an answer entry that
  \<open>net.ParseIP\<close> refuses is skipped, so a link-local answer written with its zone, which the
  system resolver produces, passes although the bare address is blocked.\<close>

theorem zoned_link_local_passes:
  "CheckSSRFWithLookup (\<lambda>r. Inr \<lparr>Scheme = ''http'', Host = ''printer.test'', Path = [], RawQuery = [], Raw = r\<rparr>)
     (\<lambda>_. Inl ''unused'') ''http://printer.test'' (Some (\<lambda>_. Inr [''fe80::1%en0''])) = None
   \<and> CheckSSRFWithLookup (\<lambda>r. Inr \<lparr>Scheme = ''http'', Host = ''printer.test'', Path = [], RawQuery = [], Raw = r\<rparr>)
     (\<lambda>_. Inl ''unused'') ''http://printer.test'' (Some (\<lambda>_. Inr [''fe80::1'']))
     = Some (BlockedPrivateError ''http://printer.test'')"
  by code_simp

end
