(* ===== verification/Robots.thy ===== *)
theory Robots
  imports SsrfGuard
begin

text \<open>
  \<open>internal/fetch/robots/robots.go\<close>: parsing of \<open>robots.txt\<close>, the per-domain cache and the
  allowance check. The HTTP client, the URL parser and the system resolver are parameters; the
  clock readings of one call are arguments in the order the code takes them. \<open>bufio.Scanner\<close> is
  modelled with its 64 KiB token limit: a longer line ends the scan.
\<close>

section \<open>Data\<close>

record robots_rule =
  rpath :: string
  allowed :: bool

record group =
  agents :: "string list"
  rules :: "robots_rule list"
  sitemaps :: "string list"

record cacheEntry =
  groups :: "group list"
  expiresAt :: go_time

record checker =
  cache :: "string \<rightharpoonup> cacheEntry"
  ttl :: duration
  privateOK :: bool

abbreviation DefaultTTL :: duration where "DefaultTTL \<equiv> hour"

definition NewChecker :: checker where
  "NewChecker = \<lparr>cache = Map.empty, ttl = DefaultTTL, privateOK = False\<rparr>"

definition WithPrivate :: "checker \<Rightarrow> bool \<Rightarrow> checker" where
  "WithPrivate c p = c\<lparr>privateOK := p\<rparr>"

section \<open>Scanning and parsing\<close>

abbreviation newline :: char where "newline \<equiv> CHR 0x0A"

definition drop_cr :: "string \<Rightarrow> string" where
  "drop_cr line = (if line \<noteq> [] \<and> last line = CHR 0x0D then butlast line else line)"

text \<open>The lines of \<open>bufio.ScanLines\<close>: the text after the last newline is a line only if it is
  not empty, and the scan stops at a line that does not fit the token buffer.\<close>

definition raw_lines :: "string \<Rightarrow> string list" where
  "raw_lines content =
     (let ls = split_on newline content in if last ls = [] then butlast ls else ls)"

definition scan_lines :: "string \<Rightarrow> string list" where
  "scan_lines content =
     map drop_cr (takeWhile (\<lambda>l. int (length l) < 65536) (raw_lines content))"

abbreviation empty_group :: group where
  "empty_group \<equiv> \<lparr>agents = [], rules = [], sitemaps = []\<rparr>"

text \<open>The pointer \<open>current\<close> is nil exactly while there is no group and otherwise points to the
  last one, so the parser state is the list of groups.\<close>

definition update_last :: "(group \<Rightarrow> group) \<Rightarrow> group list \<Rightarrow> group list" where
  "update_last f gs = (if gs = [] then gs else butlast gs @ [f (last gs)])"

definition parse_line :: "group list \<Rightarrow> string \<Rightarrow> group list" where
  "parse_line gs text =
     (let line0 = trim_space text;
          line = (case index_byte line0 (CHR ''#'') of
                    Some i \<Rightarrow> trim_space (take i line0) | None \<Rightarrow> line0)
      in if line = [] then gs
      else (case index_byte line (CHR '':'') of
              None \<Rightarrow> gs
            | Some colonIdx \<Rightarrow>
                (let key = trim_space (to_lower (take colonIdx line));
                     value = trim_space (drop (colonIdx + 1) line)
                 in if key = ''user-agent'' then
                      (let gs1 = (if gs = [] \<or> rules (last gs) \<noteq> [] then gs @ [empty_group] else gs)
                       in update_last (\<lambda>g. g\<lparr>agents := agents g @ [to_lower value]\<rparr>) gs1)
                    else if key = ''disallow'' then
                      (if gs \<noteq> [] \<and> value \<noteq> []
                       then update_last (\<lambda>g. g\<lparr>rules := rules g @ [\<lparr>rpath = value, allowed = False\<rparr>]\<rparr>) gs
                       else gs)
                    else if key = ''allow'' then
                      (if gs \<noteq> [] \<and> value \<noteq> []
                       then update_last (\<lambda>g. g\<lparr>rules := rules g @ [\<lparr>rpath = value, allowed = True\<rparr>]\<rparr>) gs
                       else gs)
                    else if key = ''sitemap'' then
                      (if value \<noteq> [] then
                         (let gs1 = (if gs = [] then gs @ [empty_group\<lparr>agents := [''*'']\<rparr>] else gs)
                          in update_last (\<lambda>g. g\<lparr>sitemaps := sitemaps g @ [value]\<rparr>) gs1)
                       else gs)
                    else gs)))"

definition parse :: "string \<Rightarrow> group list" where
  "parse content = foldl parse_line [] (scan_lines content)"

section \<open>Matching\<close>

definition matchPath :: "string \<Rightarrow> string \<Rightarrow> bool" where
  "matchPath pattern path =
     (if pattern = [] then True
      else if has_suffix pattern ''*'' then has_prefix path (take (length pattern - 1) pattern)
      else has_prefix path pattern)"

definition agent_matches :: "string \<Rightarrow> string \<Rightarrow> bool" where
  "agent_matches ua agent \<longleftrightarrow> agent = ''*'' \<or> contains ua agent"

definition specificity :: "string \<Rightarrow> nat" where
  "specificity agent = (if agent = ''*'' then 0 else length agent)"

text \<open>The two nested loops visit the pairs of a group and one of its agents; the best pair
  carries \<open>bestGroup\<close>, and \<open>bestLen\<close> is its specificity (\<open>-1\<close> while there is none).\<close>

definition group_body :: "string \<Rightarrow> (group \<times> string) option \<Rightarrow> group \<times> string \<Rightarrow> (group \<times> string) option" where
  "group_body ua best ga =
     (if agent_matches ua (snd ga)
         \<and> (case best of None \<Rightarrow> True | Some b \<Rightarrow> specificity (snd b) < specificity (snd ga))
      then Some ga else best)"

definition agent_pairs :: "group list \<Rightarrow> (group \<times> string) list" where
  "agent_pairs gs = concat (map (\<lambda>g. map (\<lambda>a. (g, a)) (agents g)) gs)"

definition bestGroup :: "group list \<Rightarrow> string \<Rightarrow> group option" where
  "bestGroup gs userAgent =
     map_option fst (foldl (group_body (to_lower userAgent)) None (agent_pairs gs))"

fun rule_loop :: "string \<Rightarrow> int \<Rightarrow> bool \<Rightarrow> robots_rule list \<Rightarrow> bool" where
  "rule_loop path bestRuleLen ok [] = ok"
| "rule_loop path bestRuleLen ok (r # rs) =
     (if matchPath (rpath r) path then
        (let ruleLen = int (length (rpath r)) in
         if bestRuleLen < ruleLen then rule_loop path ruleLen (allowed r) rs
         else if ruleLen = bestRuleLen then rule_loop path bestRuleLen (if allowed r then True else ok) rs
         else rule_loop path bestRuleLen ok rs)
      else rule_loop path bestRuleLen ok rs)"

definition isAllowed :: "group list \<Rightarrow> string \<Rightarrow> string \<Rightarrow> bool" where
  "isAllowed gs userAgent path =
     (case bestGroup gs userAgent of
        None \<Rightarrow> True
      | Some g \<Rightarrow> rule_loop path (-1) True (rules g))"

section \<open>Fetching with the cache\<close>

datatype http_response = Transport string | Response int "string + string"

datatype robots_error =
    Ssrf ssrf_error
  | HttpError string
  | UnexpectedStatus int
  | ReadError string
  | ParseURLError string

definition limit_read :: "string \<Rightarrow> string" where
  "limit_read body = (if int (length body) \<le> 1048576 then body else take (nat 1048576) body)"

type_synonym http_client = "string \<Rightarrow> string \<Rightarrow> http_response"

text \<open>The part of \<open>groupsForDomain\<close> after a cache miss; \<open>checkSSRF\<close> is \<open>fetch.CheckSSRF\<close>, and the
  client stands for building and sending the request.\<close>

definition fetchGroups ::
  "(string \<Rightarrow> ssrf_error option) \<Rightarrow> http_client \<Rightarrow> go_time \<Rightarrow> checker \<Rightarrow> string \<Rightarrow> string
     \<Rightarrow> (robots_error + group list) \<times> checker" where
  "fetchGroups checkSSRF client now2 c domain userAgent =
     (let robotsURL = domain @ ''/robots.txt'' in
      case (if privateOK c then None else checkSSRF robotsURL) of
        Some err \<Rightarrow> (Inl (Ssrf err), c)
      | None \<Rightarrow>
          (case client robotsURL userAgent of
             Transport err \<Rightarrow> (Inl (HttpError err), c)
           | Response status body \<Rightarrow>
               if status = 404 then
                 (Inr [], c\<lparr>cache := (cache c)(domain \<mapsto> \<lparr>groups = [], expiresAt = now2 + ttl c\<rparr>)\<rparr>)
               else if status \<noteq> 200 then (Inl (UnexpectedStatus status), c)
               else (case body of
                       Inl err \<Rightarrow> (Inl (ReadError err), c)
                     | Inr text \<Rightarrow>
                         (let gs = parse (limit_read text) in
                          (Inr gs, c\<lparr>cache := (cache c)(domain \<mapsto> \<lparr>groups = gs, expiresAt = now2 + ttl c\<rparr>)\<rparr>)))))"

definition groupsForDomain ::
  "(string \<Rightarrow> ssrf_error option) \<Rightarrow> http_client \<Rightarrow> go_time \<Rightarrow> go_time \<Rightarrow> checker \<Rightarrow> string \<Rightarrow> string
     \<Rightarrow> (robots_error + group list) \<times> checker" where
  "groupsForDomain checkSSRF client now1 now2 c domain userAgent =
     (case cache c domain of
        Some entry \<Rightarrow>
          if now1 < expiresAt entry then (Inr (groups entry), c)
          else fetchGroups checkSSRF client now2 c domain userAgent
      | None \<Rightarrow> fetchGroups checkSSRF client now2 c domain userAgent)"

definition robots_path :: "url \<Rightarrow> string" where
  "robots_path u =
     (let path = (if Path u = [] then ''/'' else Path u)
      in if RawQuery u \<noteq> [] then path @ ''?'' @ RawQuery u else path)"

definition Check ::
  "(string \<Rightarrow> string + url) \<Rightarrow> (string \<Rightarrow> ssrf_error option) \<Rightarrow> http_client \<Rightarrow> go_time \<Rightarrow> go_time
     \<Rightarrow> checker \<Rightarrow> string \<Rightarrow> string \<Rightarrow> (bool \<times> robots_error option) \<times> checker" where
  "Check parseURL checkSSRF client now1 now2 c userAgent rawURL =
     (case parseURL rawURL of
        Inl err \<Rightarrow> ((True, Some (ParseURLError err)), c)
      | Inr u \<Rightarrow>
          if Scheme u \<noteq> ''http'' \<and> Scheme u \<noteq> ''https'' then ((True, None), c)
          else (case groupsForDomain checkSSRF client now1 now2 c (Scheme u @ ''://'' @ Host u) userAgent of
                  (Inl (Ssrf (BlockedPrivateError b)), c') \<Rightarrow> ((False, None), c')
                | (Inl err, c') \<Rightarrow> ((True, None), c')
                | (Inr gs, c') \<Rightarrow> ((isAllowed gs userAgent (robots_path u), None), c')))"

definition Sitemaps_of :: "group list \<Rightarrow> string \<Rightarrow> string list" where
  "Sitemaps_of gs userAgent =
     concat (map (\<lambda>(g, agent). if agent = ''*'' \<or> contains (to_lower userAgent) agent then sitemaps g else [])
               (agent_pairs gs))"

definition Sitemaps ::
  "(string \<Rightarrow> string + url) \<Rightarrow> (string \<Rightarrow> ssrf_error option) \<Rightarrow> http_client \<Rightarrow> go_time \<Rightarrow> go_time
     \<Rightarrow> checker \<Rightarrow> string \<Rightarrow> string \<Rightarrow> (robots_error + string list) \<times> checker" where
  "Sitemaps parseURL checkSSRF client now1 now2 c userAgent rawURL =
     (case parseURL rawURL of
        Inl err \<Rightarrow> (Inl (ParseURLError err), c)
      | Inr u \<Rightarrow>
          if Scheme u \<noteq> ''http'' \<and> Scheme u \<noteq> ''https'' then (Inr [], c)
          else (case groupsForDomain checkSSRF client now1 now2 c (Scheme u @ ''://'' @ Host u) userAgent of
                  (Inl (Ssrf (BlockedPrivateError b)), c') \<Rightarrow> (Inl (Ssrf (BlockedPrivateError b)), c')
                | (Inl err, c') \<Rightarrow> (Inr [], c')
                | (Inr gs, c') \<Rightarrow> (Inr (Sitemaps_of gs userAgent), c')))"

section \<open>Lemmas\<close>

interpretation group_scan: best_scan "group_body ua"
    "\<lambda>ga. agent_matches ua (snd ga)" "\<lambda>ga. specificity (snd ga)"
  for ua
  by unfold_locales (auto simp: group_body_def)

lemma agent_pairs_iff: "(g, a) \<in> set (agent_pairs gs) \<longleftrightarrow> g \<in> set gs \<and> a \<in> set (agents g)"
  by (auto simp: agent_pairs_def)

text \<open>The verdict of a rule list: allowed when no rule matches, and otherwise as one of the
  longest matching rules says, allow winning among equally long ones.\<close>

definition rules_allow :: "robots_rule list \<Rightarrow> string \<Rightarrow> bool" where
  "rules_allow rs path \<longleftrightarrow>
     (\<forall>r \<in> set rs. \<not> matchPath (rpath r) path)
     \<or> (\<exists>r \<in> set rs. matchPath (rpath r) path \<and> allowed r
          \<and> (\<forall>r' \<in> set rs. matchPath (rpath r') path \<longrightarrow> length (rpath r') \<le> length (rpath r)))"

text \<open>The verdict of the loop from state \<open>(n, ok)\<close> over a set of rules with lengths \<open>len\<close>, match
  predicate \<open>m\<close> and allow flag \<open>al\<close>, and how it changes by one rule.\<close>

definition verdict :: "('a \<Rightarrow> int) \<Rightarrow> ('a \<Rightarrow> bool) \<Rightarrow> ('a \<Rightarrow> bool) \<Rightarrow> int \<Rightarrow> bool \<Rightarrow> 'a set \<Rightarrow> bool" where
  "verdict len m al n ok S \<longleftrightarrow>
     (\<exists>x \<in> S. m x \<and> al x \<and> n \<le> len x \<and> (\<forall>y \<in> S. m y \<longrightarrow> len y \<le> len x))
     \<or> (ok \<and> (\<forall>x \<in> S. m x \<longrightarrow> len x \<le> n))"

lemma verdict_skip: "\<not> m r \<Longrightarrow> verdict len m al n ok (insert r S) = verdict len m al n ok S"
  by (auto simp: verdict_def)

lemma verdict_longer:
  "m r \<Longrightarrow> n < len r \<Longrightarrow> verdict len m al n ok (insert r S) = verdict len m al (len r) (al r) S"
  unfolding verdict_def by (auto intro: order_trans less_imp_le)

lemma verdict_tie:
  "m r \<Longrightarrow> len r = n \<Longrightarrow> verdict len m al n ok (insert r S) = verdict len m al n (al r \<or> ok) S"
  unfolding verdict_def by (auto intro: order_trans)

lemma verdict_shorter:
  "m r \<Longrightarrow> len r < n \<Longrightarrow> verdict len m al n ok (insert r S) = verdict len m al n ok S"
  unfolding verdict_def by (auto intro: order_trans less_imp_le)

abbreviation rule_verdict :: "string \<Rightarrow> int \<Rightarrow> bool \<Rightarrow> robots_rule list \<Rightarrow> bool" where
  "rule_verdict path n ok rs \<equiv>
     verdict (\<lambda>r. int (length (rpath r))) (\<lambda>r. matchPath (rpath r) path) allowed n ok (set rs)"

lemma rule_loop_verdict: "rule_loop path n ok rs = rule_verdict path n ok rs"
proof (induction path n ok rs rule: rule_loop.induct)
  case (1 path n ok)
  then show ?case by (simp add: verdict_def)
next
  case (2 path n ok r rs)
  consider (no) "\<not> matchPath (rpath r) path"
    | (longer) "matchPath (rpath r) path" "n < int (length (rpath r))"
    | (tie) "matchPath (rpath r) path" "int (length (rpath r)) = n"
    | (shorter) "matchPath (rpath r) path" "int (length (rpath r)) < n"
    by linarith
  then show ?case
  proof cases
    case no
    with "2.IH"(4) show ?thesis by (simp add: verdict_skip)
  next
    case longer
    with "2.IH"(1) show ?thesis by (simp add: Let_def verdict_longer)
  next
    case tie
    with "2.IH"(2) show ?thesis by (simp add: Let_def verdict_tie disj_commute)
  next
    case shorter
    with "2.IH"(3) show ?thesis by (simp add: Let_def verdict_shorter)
  qed
qed

lemma rule_loop_rules_allow: "rule_loop path (-1) True rs \<longleftrightarrow> rules_allow rs path"
  unfolding rule_loop_verdict rules_allow_def verdict_def by force

lemma isAllowed_rules_allow:
  "isAllowed gs ua path = (case bestGroup gs ua of None \<Rightarrow> True | Some g \<Rightarrow> rules_allow (rules g) path)"
  by (simp add: isAllowed_def rule_loop_rules_allow split: option.splits)

lemma fetchGroups_cached:
  assumes "fetchGroups checkSSRF client now2 c domain ua = (Inr gs, c')"
  shows "cache c' = (cache c)(domain \<mapsto> \<lparr>groups = gs, expiresAt = now2 + ttl c\<rparr>) \<and> ttl c' = ttl c"
  using assms
  by (auto simp: fetchGroups_def Let_def split: option.splits http_response.splits if_splits sum.splits)

lemma fetchGroups_error:
  assumes "fetchGroups checkSSRF client now2 c domain ua = (Inl e, c')"
  shows "c' = c"
  using assms
  by (auto simp: fetchGroups_def Let_def split: option.splits http_response.splits if_splits sum.splits)

section \<open>Properties\<close>

text \<open>The path verdict follows the longest matching rule of the selected group: a path is
  allowed if no rule of the group matches, and otherwise exactly when some longest matching rule
  is an allow rule (so allow wins a tie); with no matching group everything is allowed.\<close>

theorem isAllowed_longest_match:
  "isAllowed gs ua path \<longleftrightarrow>
     (case bestGroup gs ua of None \<Rightarrow> True | Some g \<Rightarrow> rules_allow (rules g) path)"
  by (rule isAllowed_rules_allow)

text \<open>The selected group is one with the most specific matching agent: it has an agent that
  is \<open>*\<close> or occurs in the lower-cased user agent, and no other matching agent of any group is
  longer (\<open>*\<close> counting as length zero); no group is selected only when no agent matches.\<close>

theorem bestGroup_most_specific:
  "case bestGroup gs ua of
     None \<Rightarrow> \<forall>g \<in> set gs. \<forall>a \<in> set (agents g). \<not> agent_matches (to_lower ua) a
   | Some g \<Rightarrow> g \<in> set gs \<and> (\<exists>a \<in> set (agents g). agent_matches (to_lower ua) a
       \<and> (\<forall>g' \<in> set gs. \<forall>a' \<in> set (agents g'). agent_matches (to_lower ua) a' \<longrightarrow> specificity a' \<le> specificity a))"
proof (cases "foldl (group_body (to_lower ua)) None (agent_pairs gs)")
  case None
  then show ?thesis
    using group_scan.scan_None_iff [of "to_lower ua" "agent_pairs gs"]
    by (auto simp: bestGroup_def) (metis agent_pairs_iff snd_conv)
next
  case (Some ga)
  obtain g a where ga: "ga = (g, a)" by (cases ga)
  from group_scan.scan_Some [OF Some] show ?thesis
    unfolding bestGroup_def Some ga by (auto simp: agent_pairs_iff) (metis agent_pairs_iff snd_conv)
qed

theorem bestGroup_most_specific_witness:
  "bestGroup [\<lparr>agents = [''*''], rules = [], sitemaps = []\<rparr>,
              \<lparr>agents = [''symbrowse''], rules = [], sitemaps = [''s'']\<rparr>] ''Symbrowse/1.0''
     = Some \<lparr>agents = [''symbrowse''], rules = [], sitemaps = [''s'']\<rparr>"
  using bestGroup_most_specific
    [of "[\<lparr>agents = [''*''], rules = [], sitemaps = []\<rparr>,
          \<lparr>agents = [''symbrowse''], rules = [], sitemaps = [''s'']\<rparr>]" "''Symbrowse/1.0''"]
  by code_simp

text \<open>A fetched \<open>robots.txt\<close> (or its absence, a 404) is authoritative for the cache lifetime:
  after a fetch that stored rules at time \<open>now2\<close>, every lookup for the same domain strictly before
  \<open>now2 + ttl\<close> returns those rules and leaves the cache as it is, whatever the network or the SSRF
  check would answer then; other domains' entries are untouched by the fetch.\<close>

theorem groupsForDomain_served_from_cache:
  assumes "fetchGroups checkSSRF client now2 c domain ua = (Inr gs, c')"
    and "t < now2 + ttl c"
  shows "groupsForDomain checkSSRF' client' t t' c' domain ua' = (Inr gs, c')
     \<and> (\<forall>d. d \<noteq> domain \<longrightarrow> cache c' d = cache c d)"
  using fetchGroups_cached [OF assms(1)] assms(2) by (simp add: groupsForDomain_def)

theorem groupsForDomain_served_from_cache_witness:
  "\<exists>c'. groupsForDomain (\<lambda>_. Some (BlockedPrivateError [])) (\<lambda>_ _. Transport ''down'') (7 * minute) 0 c'
      ''https://a.test'' ''x'' = (Inr [\<lparr>agents = [''*''], rules = [\<lparr>rpath = ''/p'', allowed = False\<rparr>], sitemaps = []\<rparr>], c')"
proof -
  let ?gs = "[\<lparr>agents = [''*''], rules = [\<lparr>rpath = ''/p'', allowed = False\<rparr>], sitemaps = []\<rparr>]"
  let ?c' = "NewChecker\<lparr>cache := (cache NewChecker)(''https://a.test'' \<mapsto> \<lparr>groups = ?gs, expiresAt = 5 + ttl NewChecker\<rparr>)\<rparr>"
  have p: "parse (limit_read ''User-agent: *\<newline>Disallow: /p\<newline>'') = ?gs" by code_simp
  have f: "fetchGroups (\<lambda>_. None) (\<lambda>_ _. Response 200 (Inr ''User-agent: *\<newline>Disallow: /p\<newline>'')) 5 NewChecker
      ''https://a.test'' ''x'' = (Inr ?gs, ?c')"
    by (simp add: fetchGroups_def Let_def p NewChecker_def)
  have "7 * minute < 5 + ttl NewChecker" by (simp add: NewChecker_def)
  from groupsForDomain_served_from_cache [OF f this] show ?thesis by blast
qed

text \<open>The check fails open except for private targets: when the rules of an http(s) URL
  cannot be obtained, the verdict is "not allowed" exactly if the reason is that the target is a
  private address; any other failure allows the URL. No error is reported and the cache is not
  changed in either case.\<close>

theorem Check_on_failure:
  assumes "parseURL rawURL = Inr u" and "Scheme u \<in> {''http'', ''https''}"
    and "groupsForDomain checkSSRF client now1 now2 c (Scheme u @ ''://'' @ Host u) ua = (Inl err, c')"
  shows "Check parseURL checkSSRF client now1 now2 c ua rawURL
     = ((\<forall>b. err \<noteq> Ssrf (BlockedPrivateError b), None), c)"
proof -
  have "c' = c"
    using assms(3) by (auto simp: groupsForDomain_def split: option.splits if_splits dest: fetchGroups_error)
  with assms show ?thesis
    by (auto simp: Check_def split: robots_error.splits ssrf_error.splits)
qed

theorem Check_on_failure_witness:
  "Check (\<lambda>_. Inr \<lparr>Scheme = ''http'', Host = ''10.0.0.1'', Path = [], RawQuery = [], Raw = []\<rparr>)
     (\<lambda>_. Some (BlockedPrivateError ''http://10.0.0.1'')) (\<lambda>_ _. Transport ''down'') 0 0 NewChecker ''x'' ''http://10.0.0.1''
     = ((False, None), NewChecker)"
proof -
  let ?u = "\<lparr>Scheme = ''http'', Host = ''10.0.0.1'', Path = [], RawQuery = [], Raw = []\<rparr>"
  have g: "groupsForDomain (\<lambda>_. Some (BlockedPrivateError ''http://10.0.0.1'')) (\<lambda>_ _. Transport ''down'') 0 0 NewChecker
      (Scheme ?u @ ''://'' @ Host ?u) ''x'' = (Inl (Ssrf (BlockedPrivateError ''http://10.0.0.1'')), NewChecker)"
    by (simp add: groupsForDomain_def fetchGroups_def NewChecker_def Let_def)
  have "Scheme ?u \<in> {''http'', ''https''}" by simp
  from Check_on_failure [OF _ this g, of "\<lambda>_. Inr ?u" "''http://10.0.0.1''"] show ?thesis by simp
qed

text \<open>An empty \<open>Disallow:\<close> line, which the protocol defines as "everything is allowed" for the
  group, does not close the group here: the next \<open>User-agent\<close> line joins it, and the agent that was
  granted everything inherits the rules meant for the other agents.\<close>

theorem empty_disallow_merges_groups:
  "parse ''User-agent: goodbot\<newline>Disallow:\<newline>\<newline>User-agent: *\<newline>Disallow: /\<newline>''
     = [\<lparr>agents = [''goodbot'', ''*''], rules = [\<lparr>rpath = ''/'', allowed = False\<rparr>], sitemaps = []\<rparr>]
   \<and> \<not> isAllowed (parse ''User-agent: goodbot\<newline>Disallow:\<newline>\<newline>User-agent: *\<newline>Disallow: /\<newline>'') ''goodbot'' ''/page''"
  by code_simp

end
