(* ===== verification/SessionLifecycle.thy ===== *)
theory SessionLifecycle
  imports Prelude
begin

text \<open>
  \<open>internal/session/lifecycle.go\<close> and \<open>errors.go\<close>: the ownership state machine of a browser
  session (agent, delegated, user), with its hard stops and its journal-before-mutation rule.
  The manager is a record of the session map and the transitions its journal callback has
  accepted so far; the callback's verdict is a parameter (\<^const>\<open>None\<close> for a nil callback). The
  reading of the clock is an argument of every operation that reads it. \<open>ControlState\<close> is a
  string type in the source and stays one, because \<open>Restore\<close> receives it from outside.
\<close>

section \<open>Data\<close>

type_synonym ControlState = string

abbreviation "ControlAgent \<equiv> ''agent''"
abbreviation "ControlAgentDelegated \<equiv> ''agent_delegated''"
abbreviation "ControlUser \<equiv> ''user''"

record completion =
  Keep :: bool
  Completed :: go_time

record session =
  ID :: string
  ControlID :: string
  CtlState :: ControlState
  Active :: bool
  HandoffReason :: string
  UpdatedAt :: go_time
  Completion :: "completion option"

record transition =
  SessionID :: string
  Action :: string
  From :: ControlState
  To :: ControlState
  TrControlID :: string
  Reason :: string
  Confirmed :: bool
  TrKeep :: "bool option"
  At :: go_time

record manager =
  sessions :: "string \<rightharpoonup> session"
  journaled :: "transition list"

type_synonym journal = "(transition \<Rightarrow> string option) option"

section \<open>Errors\<close>

abbreviation "CodeSessionUserControl \<equiv> ''session_user_control''"
abbreviation "CodeSessionInactive \<equiv> ''session_inactive''"
abbreviation "CodeHandoffTimeout \<equiv> ''handoff_timeout''"

text \<open>The message is kept as its format and the session id it is printed with.\<close>

record HardStopError =
  Code :: string
  Message :: "string \<times> string"
  Retryable :: bool
  RequiresUserConfirmation :: bool
  ResumeHint :: string

definition userControlError :: "string \<Rightarrow> HardStopError" where
  "userControlError sessionID =
     \<lparr>Code = CodeSessionUserControl, Message = (''session %q is controlled by a human'', sessionID),
      Retryable = False, RequiresUserConfirmation = True,
      ResumeHint = ''request explicit confirmation before taking control back''\<rparr>"

definition inactiveError :: "string \<Rightarrow> HardStopError" where
  "inactiveError sessionID =
     \<lparr>Code = CodeSessionInactive, Message = (''session %q is inactive'', sessionID),
      Retryable = False, RequiresUserConfirmation = False,
      ResumeHint = ''reopen the session before retrying''\<rparr>"

definition timeoutError :: "string \<Rightarrow> HardStopError" where
  "timeoutError sessionID =
     \<lparr>Code = CodeHandoffTimeout, Message = (''handoff for session %q timed out and was denied'', sessionID),
      Retryable = False, RequiresUserConfirmation = True,
      ResumeHint = ''start a new handoff after explicit human confirmation''\<rparr>"

definition NewHandoffTimeoutError :: "string \<Rightarrow> HardStopError" where
  "NewHandoffTimeoutError sessionID = timeoutError sessionID"

text \<open>The accessors tolerate a nil error.\<close>

definition ErrorCode :: "HardStopError option \<Rightarrow> string" where
  "ErrorCode e = (case e of None \<Rightarrow> [] | Some h \<Rightarrow> Code h)"

definition RetryableError :: "HardStopError option \<Rightarrow> bool" where
  "RetryableError e = (case e of None \<Rightarrow> False | Some h \<Rightarrow> Retryable h)"

definition RequiresConfirmation :: "HardStopError option \<Rightarrow> bool" where
  "RequiresConfirmation e = (case e of None \<Rightarrow> False | Some h \<Rightarrow> RequiresUserConfirmation h)"

definition ResumeGuidance :: "HardStopError option \<Rightarrow> string" where
  "ResumeGuidance e = (case e of None \<Rightarrow> [] | Some h \<Rightarrow> ResumeHint h)"

datatype session_error =
    Hard HardStopError
  | IdsRequired
  | AlreadyExists string
  | SessionNotFound string
  | ReasonRequired
  | HumanIdRequired
  | NotAwaitingClaim string
  | AgentIdRequired
  | NoPendingHandoff string
  | JournalFailed string
  | SnapshotIdsRequired
  | InvalidControlState string
  | UpdatedAtRequired

section \<open>Operations\<close>

definition NewManager :: manager where
  "NewManager = \<lparr>sessions = Map.empty, journaled = []\<rparr>"

abbreviation blank :: "string \<Rightarrow> bool" where "blank s \<equiv> trim_space s = []"

definition record_transition :: "journal \<Rightarrow> manager \<Rightarrow> transition \<Rightarrow> session_error + manager" where
  "record_transition jrn m tr =
     (case jrn of
        None \<Rightarrow> Inr m
      | Some f \<Rightarrow> (case f tr of Some err \<Rightarrow> Inl (JournalFailed err)
                   | None \<Rightarrow> Inr (m\<lparr>journaled := journaled m @ [tr]\<rparr>)))"

text \<open>\<open>change\<close>: record first, then mutate the stored session and stamp it. Every caller passes the
  session stored under the transition's session id, so the pointer update is an update of the
  map at that id.\<close>

definition change ::
  "journal \<Rightarrow> manager \<Rightarrow> session \<Rightarrow> transition \<Rightarrow> (session \<Rightarrow> session) \<Rightarrow> (session_error + session) \<times> manager" where
  "change jrn m s tr mutate =
     (case record_transition jrn m tr of
        Inl err \<Rightarrow> (Inl err, m)
      | Inr m1 \<Rightarrow>
          (let s' = (mutate s)\<lparr>UpdatedAt := At tr\<rparr>
           in (Inr s', m1\<lparr>sessions := (sessions m1)(SessionID tr \<mapsto> s')\<rparr>)))"

definition lookupActive :: "manager \<Rightarrow> string \<Rightarrow> session_error + session" where
  "lookupActive m i =
     (case sessions m i of
        None \<Rightarrow> Inl (Hard (inactiveError i))
      | Some s \<Rightarrow> if \<not> Active s then Inl (Hard (inactiveError i)) else Inr s)"

definition agentSession :: "manager \<Rightarrow> string \<Rightarrow> string \<Rightarrow> session_error + session" where
  "agentSession m i controlID =
     (case lookupActive m i of
        Inl err \<Rightarrow> Inl err
      | Inr s \<Rightarrow> if CtlState s \<noteq> ControlAgent \<or> ControlID s \<noteq> controlID
                  then Inl (Hard (userControlError i)) else Inr s)"

definition Create ::
  "journal \<Rightarrow> go_time \<Rightarrow> manager \<Rightarrow> string \<Rightarrow> string \<Rightarrow> (session_error + session) \<times> manager" where
  "Create jrn now m i controlID =
     (if blank i \<or> blank controlID then (Inl IdsRequired, m)
      else if sessions m i \<noteq> None then (Inl (AlreadyExists i), m)
      else
        (let snapshot = \<lparr>ID = i, ControlID = controlID, CtlState = ControlAgent, Active = True,
               HandoffReason = [], UpdatedAt = now, Completion = None\<rparr>;
             tr = \<lparr>SessionID = i, Action = ''create'', From = [], To = ControlAgent, TrControlID = controlID,
               Reason = [], Confirmed = True, TrKeep = None, At = now\<rparr>
         in case record_transition jrn m tr of
              Inl err \<Rightarrow> (Inl err, m)
            | Inr m1 \<Rightarrow> (Inr snapshot, m1\<lparr>sessions := (sessions m1)(i \<mapsto> snapshot)\<rparr>)))"

definition Snapshot :: "manager \<Rightarrow> string \<Rightarrow> session_error + session" where
  "Snapshot m i = (case sessions m i of None \<Rightarrow> Inl (SessionNotFound i) | Some s \<Rightarrow> Inr s)"

definition Reconnect :: "manager \<Rightarrow> string \<Rightarrow> session_error + session" where
  "Reconnect m i = Snapshot m i"

definition validateSnapshot :: "session \<Rightarrow> session_error option" where
  "validateSnapshot snap =
     (if blank (ID snap) \<or> blank (ControlID snap) then Some SnapshotIdsRequired
      else if CtlState snap \<noteq> ControlAgent \<and> CtlState snap \<noteq> ControlAgentDelegated
              \<and> CtlState snap \<noteq> ControlUser then Some (InvalidControlState (CtlState snap))
      else if is_zero_time (UpdatedAt snap) then Some UpdatedAtRequired
      else None)"

definition Restore :: "manager \<Rightarrow> session \<Rightarrow> session_error option \<times> manager" where
  "Restore m snap =
     (case validateSnapshot snap of
        Some err \<Rightarrow> (Some err, m)
      | None \<Rightarrow> (None, m\<lparr>sessions := (sessions m)(ID snap \<mapsto> snap)\<rparr>))"

definition CheckAgentAccess :: "manager \<Rightarrow> string \<Rightarrow> string \<Rightarrow> session_error option" where
  "CheckAgentAccess m i controlID =
     (case sessions m i of
        None \<Rightarrow> Some (Hard (inactiveError i))
      | Some s \<Rightarrow>
          if \<not> Active s then Some (Hard (inactiveError i))
          else if CtlState s \<noteq> ControlAgent \<or> ControlID s \<noteq> controlID
          then Some (Hard (userControlError i))
          else None)"

definition Handoff ::
  "journal \<Rightarrow> go_time \<Rightarrow> manager \<Rightarrow> string \<Rightarrow> string \<Rightarrow> string \<Rightarrow> (session_error + session) \<times> manager" where
  "Handoff jrn now m i agentControlID reason =
     (case agentSession m i agentControlID of
        Inl err \<Rightarrow> (Inl err, m)
      | Inr s \<Rightarrow>
          if blank reason then (Inl ReasonRequired, m)
          else change jrn m s
            \<lparr>SessionID = i, Action = ''handoff'', From = CtlState s, To = ControlAgentDelegated,
             TrControlID = agentControlID, Reason = reason, Confirmed = True, TrKeep = None, At = now\<rparr>
            (\<lambda>s. s\<lparr>CtlState := ControlAgentDelegated, HandoffReason := reason\<rparr>))"

definition Claim ::
  "journal \<Rightarrow> go_time \<Rightarrow> manager \<Rightarrow> string \<Rightarrow> string \<Rightarrow> (session_error + session) \<times> manager" where
  "Claim jrn now m i humanControlID =
     (if blank humanControlID then (Inl HumanIdRequired, m)
      else case lookupActive m i of
        Inl err \<Rightarrow> (Inl err, m)
      | Inr s \<Rightarrow>
          if CtlState s = ControlUser then (Inl (Hard (userControlError i)), m)
          else if CtlState s \<noteq> ControlAgentDelegated then (Inl (NotAwaitingClaim i), m)
          else change jrn m s
            \<lparr>SessionID = i, Action = ''claim'', From = CtlState s, To = ControlUser,
             TrControlID = humanControlID, Reason = [], Confirmed = True, TrKeep = None, At = now\<rparr>
            (\<lambda>s. s\<lparr>CtlState := ControlUser, ControlID := humanControlID\<rparr>))"

definition Takeover ::
  "journal \<Rightarrow> go_time \<Rightarrow> manager \<Rightarrow> string \<Rightarrow> string \<Rightarrow> bool \<Rightarrow> (session_error + session) \<times> manager" where
  "Takeover jrn now m i agentControlID confirmed =
     (if blank agentControlID then (Inl AgentIdRequired, m)
      else case lookupActive m i of
        Inl err \<Rightarrow> (Inl err, m)
      | Inr s \<Rightarrow>
          if CtlState s = ControlAgent then (Inr s, m)
          else if \<not> confirmed then (Inl (Hard (userControlError i)), m)
          else change jrn m s
            \<lparr>SessionID = i, Action = ''takeover'', From = CtlState s, To = ControlAgent,
             TrControlID = agentControlID, Reason = [], Confirmed = True, TrKeep = None, At = now\<rparr>
            (\<lambda>s. s\<lparr>CtlState := ControlAgent, ControlID := agentControlID, HandoffReason := []\<rparr>))"

definition Complete ::
  "journal \<Rightarrow> go_time \<Rightarrow> manager \<Rightarrow> string \<Rightarrow> string \<Rightarrow> bool \<Rightarrow> (session_error + session) \<times> manager" where
  "Complete jrn now m i controlID keep =
     (case lookupActive m i of
        Inl err \<Rightarrow> (Inl err, m)
      | Inr s \<Rightarrow>
          if ControlID s \<noteq> controlID then (Inl (Hard (userControlError i)), m)
          else change jrn m s
            \<lparr>SessionID = i, Action = ''complete'', From = CtlState s, To = CtlState s,
             TrControlID = controlID, Reason = [], Confirmed = True, TrKeep = Some keep, At = now\<rparr>
            (\<lambda>s. s\<lparr>Active := False, Completion := Some \<lparr>Keep = keep, Completed = now\<rparr>\<rparr>))"

text \<open>\<open>Timeout\<close> returns the closed session together with the hard stop.\<close>

definition Timeout ::
  "journal \<Rightarrow> go_time \<Rightarrow> manager \<Rightarrow> string \<Rightarrow> (session option \<times> session_error) \<times> manager" where
  "Timeout jrn now m i =
     (case lookupActive m i of
        Inl err \<Rightarrow> ((None, err), m)
      | Inr s \<Rightarrow>
          if CtlState s \<noteq> ControlAgentDelegated then ((None, NoPendingHandoff i), m)
          else (case change jrn m s
                  \<lparr>SessionID = i, Action = ''timeout'', From = CtlState s, To = CtlState s,
                   TrControlID = ControlID s, Reason = [], Confirmed = False, TrKeep = None, At = now\<rparr>
                  (\<lambda>s. s\<lparr>Active := False\<rparr>) of
                  (Inl err, m') \<Rightarrow> ((None, err), m')
                | (Inr s', m') \<Rightarrow> ((Some s', Hard (timeoutError i)), m')))"

section \<open>Runs\<close>

datatype event =
    EvCreate string string go_time
  | EvHandoff string string string go_time
  | EvClaim string string go_time
  | EvTakeover string string bool go_time
  | EvComplete string string bool go_time
  | EvTimeout string go_time
  | EvRestore session

primrec step :: "journal \<Rightarrow> manager \<Rightarrow> event \<Rightarrow> manager" where
  "step jrn m (EvCreate i c now) = snd (Create jrn now m i c)"
| "step jrn m (EvHandoff i c r now) = snd (Handoff jrn now m i c r)"
| "step jrn m (EvClaim i h now) = snd (Claim jrn now m i h)"
| "step jrn m (EvTakeover i c conf now) = snd (Takeover jrn now m i c conf)"
| "step jrn m (EvComplete i c keep now) = snd (Complete jrn now m i c keep)"
| "step jrn m (EvTimeout i now) = snd (Timeout jrn now m i)"
| "step jrn m (EvRestore snap) = snd (Restore m snap)"

section \<open>The ownership protocol\<close>

text \<open>What the contract allows, over the pair of activity and control state: the only ways a
  session changes hands or ends.\<close>

inductive ownership :: "string \<Rightarrow> bool \<times> ControlState \<Rightarrow> bool \<times> ControlState \<Rightarrow> bool" where
  handoff: "ownership ''handoff'' (True, ControlAgent) (True, ControlAgentDelegated)"
| claim: "ownership ''claim'' (True, ControlAgentDelegated) (True, ControlUser)"
| takeover: "c \<noteq> ControlAgent \<Longrightarrow> ownership ''takeover'' (True, c) (True, ControlAgent)"
| complete: "ownership ''complete'' (True, c) (False, c)"
| timeout: "ownership ''timeout'' (True, ControlAgentDelegated) (False, ControlAgentDelegated)"

inductive_cases ownership_from_inactiveE: "ownership a (False, c) x"
inductive_cases ownership_to_agentE: "ownership a (b, c) (True, ControlAgent)"

definition wf_session :: "string \<Rightarrow> session \<Rightarrow> bool" where
  "wf_session i s \<longleftrightarrow> ID s = i \<and> \<not> blank i \<and> \<not> blank (ControlID s)
     \<and> CtlState s \<in> {ControlAgent, ControlAgentDelegated, ControlUser}"

definition wf_manager :: "manager \<Rightarrow> bool" where
  "wf_manager m \<longleftrightarrow> (\<forall>i s. sessions m i = Some s \<longrightarrow> wf_session i s)"

text \<open>One journaled change: the session map changes at one key only, the transition was accepted
  by the journal and describes the change.\<close>

definition records :: "journal \<Rightarrow> manager \<Rightarrow> manager \<Rightarrow> transition \<Rightarrow> bool" where
  "records jrn m m' tr \<longleftrightarrow>
     (case jrn of None \<Rightarrow> journaled m' = journaled m
      | Some f \<Rightarrow> f tr = None \<and> journaled m' = journaled m @ [tr])"

definition creates :: "manager \<Rightarrow> manager \<Rightarrow> transition \<Rightarrow> bool" where
  "creates m m' tr \<longleftrightarrow> Action tr = ''create'' \<and> sessions m (SessionID tr) = None
     \<and> (\<exists>s'. sessions m' = (sessions m)(SessionID tr \<mapsto> s') \<and> wf_session (SessionID tr) s'
           \<and> Active s' \<and> CtlState s' = ControlAgent)"

definition transfers :: "manager \<Rightarrow> manager \<Rightarrow> transition \<Rightarrow> bool" where
  "transfers m m' tr \<longleftrightarrow>
     (\<exists>s s'. sessions m (SessionID tr) = Some s \<and> sessions m' = (sessions m)(SessionID tr \<mapsto> s')
        \<and> ownership (Action tr) (Active s, CtlState s) (Active s', CtlState s')
        \<and> From tr = CtlState s \<and> To tr = CtlState s' \<and> UpdatedAt s' = At tr \<and> ID s' = ID s
        \<and> (if Action tr \<in> {''claim'', ''takeover''}
           then ControlID s' = TrControlID tr \<and> \<not> blank (ControlID s') \<and> Confirmed tr
           else ControlID s' = ControlID s))"

definition journaled_change :: "journal \<Rightarrow> string \<Rightarrow> string \<Rightarrow> manager \<Rightarrow> manager \<Rightarrow> bool" where
  "journaled_change jrn act i m m' \<longleftrightarrow>
     m' = m \<or> (\<exists>tr. Action tr = act \<and> SessionID tr = i \<and> records jrn m m' tr \<and> (creates m m' tr \<or> transfers m m' tr))"

section \<open>Lemmas\<close>

lemma lookupActive_Inr: "lookupActive m i = Inr s \<longleftrightarrow> sessions m i = Some s \<and> Active s"
  by (auto simp: lookupActive_def split: option.splits)

lemma agentSession_Inr:
  "agentSession m i c = Inr s \<longleftrightarrow>
     sessions m i = Some s \<and> Active s \<and> CtlState s = ControlAgent \<and> ControlID s = c"
  by (cases "lookupActive m i") (auto simp: agentSession_def lookupActive_def split: option.splits if_splits)

lemma record_transition_Inr:
  "record_transition jrn m tr = Inr m' \<Longrightarrow> sessions m' = sessions m \<and> records jrn m m' tr"
  by (auto simp: record_transition_def records_def split: option.splits)

lemma journaled_change_refl [simp]: "journaled_change jrn act i m m"
  by (simp add: journaled_change_def)

lemma change_cases:
  assumes "change jrn m s tr mutate = (r, m')"
  obtains (failed) err where "r = Inl err" "m' = m"
  | (ok) s' where "r = Inr s'" "s' = (mutate s)\<lparr>UpdatedAt := At tr\<rparr>" "records jrn m m' tr"
      "sessions m' = (sessions m)(SessionID tr \<mapsto> s')"
proof (cases "record_transition jrn m tr")
  case (Inl err)
  with assms show ?thesis by (intro failed [of err]) (simp_all add: change_def)
next
  case (Inr m1)
  with assms record_transition_Inr [OF Inr] show ?thesis
    by (intro ok) (auto simp: change_def Let_def records_def split: option.splits)
qed

text \<open>Applying one rule of the protocol through \<open>change\<close> is a journaled change.\<close>

lemma change_transfers:
  assumes "sessions m (SessionID tr) = Some s"
    and "ownership (Action tr) (Active s, CtlState s) (Active (mutate s), CtlState (mutate s))"
    and "From tr = CtlState s" "To tr = CtlState (mutate s)" "ID (mutate s) = ID s"
    and "if Action tr \<in> {''claim'', ''takeover''}
         then ControlID (mutate s) = TrControlID tr \<and> \<not> blank (TrControlID tr) \<and> Confirmed tr
         else ControlID (mutate s) = ControlID s"
  shows "journaled_change jrn (Action tr) (SessionID tr) m (snd (change jrn m s tr mutate))"
proof -
  obtain r m' where c: "change jrn m s tr mutate = (r, m')" by fastforce
  then show ?thesis
  proof (cases rule: change_cases)
    case failed
    with c show ?thesis by (simp add: journaled_change_def)
  next
    case (ok s')
    then have "transfers m m' tr"
      unfolding transfers_def using assms by (intro exI [of _ s] exI [of _ s']) auto
    with c ok show ?thesis by (auto simp: journaled_change_def)
  qed
qed

lemma change_transfersI:
  assumes "Action tr = act" "SessionID tr = i" "sessions m i = Some s"
    and "ownership act (Active s, CtlState s) (Active (mutate s), CtlState (mutate s))"
    and "From tr = CtlState s" "To tr = CtlState (mutate s)" "ID (mutate s) = ID s"
    and "if act \<in> {''claim'', ''takeover''}
         then ControlID (mutate s) = TrControlID tr \<and> \<not> blank (TrControlID tr) \<and> Confirmed tr
         else ControlID (mutate s) = ControlID s"
  shows "journaled_change jrn act i m (snd (change jrn m s tr mutate))"
  using change_transfers [of m tr s mutate jrn] assms by simp

lemma Create_journaled: "journaled_change jrn ''create'' i m (snd (Create jrn now m i c))"
proof (cases "blank i \<or> blank c \<or> sessions m i \<noteq> None")
  case True
  then show ?thesis by (auto simp: Create_def journaled_change_def)
next
  case False
  let ?s = "\<lparr>ID = i, ControlID = c, CtlState = ControlAgent, Active = True,
               HandoffReason = [], UpdatedAt = now, Completion = None\<rparr>"
  let ?tr = "\<lparr>SessionID = i, Action = ''create'', From = [], To = ControlAgent, TrControlID = c,
               Reason = [], Confirmed = True, TrKeep = None, At = now\<rparr>"
  show ?thesis
  proof (cases "record_transition jrn m ?tr")
    case (Inl e)
    with False show ?thesis by (auto simp: Create_def journaled_change_def Let_def)
  next
    case (Inr m1)
    let ?m = "m1\<lparr>sessions := (sessions m1)(i \<mapsto> ?s)\<rparr>"
    have "records jrn m ?m ?tr" and "sessions m1 = sessions m"
      using record_transition_Inr [OF Inr] by (auto simp: records_def split: option.splits)
    then have "creates m ?m ?tr"
      using False by (auto simp: creates_def wf_session_def)
    with \<open>records jrn m ?m ?tr\<close> Inr False show ?thesis
      by (auto simp: Create_def Let_def journaled_change_def)
  qed
qed

lemma Handoff_journaled: "journaled_change jrn ''handoff'' i m (snd (Handoff jrn now m i c r))"
proof (cases "agentSession m i c")
  case (Inl e)
  then show ?thesis by (simp add: Handoff_def journaled_change_def)
next
  case (Inr s)
  with Inr [unfolded agentSession_Inr] show ?thesis
    by (auto simp: Handoff_def intro!: change_transfersI ownership.handoff)
qed

lemma Claim_journaled: "journaled_change jrn ''claim'' i m (snd (Claim jrn now m i h))"
proof (cases "lookupActive m i")
  case (Inl e)
  then show ?thesis by (simp add: Claim_def journaled_change_def)
next
  case (Inr s)
  with Inr [unfolded lookupActive_Inr] show ?thesis
    by (auto simp: Claim_def intro!: change_transfersI ownership.claim)
qed

lemma Takeover_journaled: "journaled_change jrn ''takeover'' i m (snd (Takeover jrn now m i c conf))"
proof (cases "lookupActive m i")
  case (Inl e)
  then show ?thesis by (simp add: Takeover_def journaled_change_def)
next
  case (Inr s)
  with Inr [unfolded lookupActive_Inr] show ?thesis
    by (auto simp: Takeover_def intro!: change_transfersI ownership.takeover)
qed

lemma Complete_journaled: "journaled_change jrn ''complete'' i m (snd (Complete jrn now m i c keep))"
proof (cases "lookupActive m i")
  case (Inl e)
  then show ?thesis by (simp add: Complete_def journaled_change_def)
next
  case (Inr s)
  with Inr [unfolded lookupActive_Inr] show ?thesis
    by (auto simp: Complete_def intro!: change_transfersI ownership.complete)
qed

lemma Timeout_journaled: "journaled_change jrn ''timeout'' i m (snd (Timeout jrn now m i))"
proof (cases "lookupActive m i")
  case (Inl e)
  then show ?thesis by (simp add: Timeout_def journaled_change_def)
next
  case (Inr s)
  let ?tr = "\<lparr>SessionID = i, Action = ''timeout'', From = CtlState s, To = CtlState s,
     TrControlID = ControlID s, Reason = [], Confirmed = False, TrKeep = None, At = now\<rparr>"
  let ?c = "change jrn m s ?tr (\<lambda>s. s\<lparr>Active := False\<rparr>)"
  have "snd (Timeout jrn now m i) = (if CtlState s = ControlAgentDelegated then snd ?c else m)"
    using Inr by (simp add: Timeout_def split: prod.splits sum.splits)
  moreover have "journaled_change jrn ''timeout'' i m (snd ?c)" if "CtlState s = ControlAgentDelegated"
    using Inr that change_transfers [of m ?tr s "\<lambda>s. s\<lparr>Active := False\<rparr>" jrn]
    by (auto simp: lookupActive_Inr intro: ownership.timeout)
  ultimately show ?thesis by simp
qed

lemmas op_journaled = Create_journaled Handoff_journaled Claim_journaled Takeover_journaled
  Complete_journaled Timeout_journaled

primrec action_of :: "event \<Rightarrow> string" where
  "action_of (EvCreate i c now) = ''create''"
| "action_of (EvHandoff i c r now) = ''handoff''"
| "action_of (EvClaim i h now) = ''claim''"
| "action_of (EvTakeover i c conf now) = ''takeover''"
| "action_of (EvComplete i c keep now) = ''complete''"
| "action_of (EvTimeout i now) = ''timeout''"
| "action_of (EvRestore snap) = ''restore''"

primrec target :: "event \<Rightarrow> string" where
  "target (EvCreate i c now) = i"
| "target (EvHandoff i c r now) = i"
| "target (EvClaim i h now) = i"
| "target (EvTakeover i c conf now) = i"
| "target (EvComplete i c keep now) = i"
| "target (EvTimeout i now) = i"
| "target (EvRestore snap) = ID snap"

lemma step_journaled:
  "action_of e \<noteq> ''restore'' \<Longrightarrow> journaled_change jrn (action_of e) (target e) m (step jrn m e)"
  by (cases e) (simp_all add: op_journaled)

lemma step_restore:
  "step jrn m (EvRestore snap) =
     (if validateSnapshot snap = None then m\<lparr>sessions := (sessions m)(ID snap \<mapsto> snap)\<rparr> else m)"
  by (simp add: Restore_def split: option.splits)

lemma journaled_change_other:
  "journaled_change jrn act i m m' \<Longrightarrow> j \<noteq> i \<Longrightarrow> sessions m' j = sessions m j"
  by (auto simp: journaled_change_def creates_def transfers_def)

lemma step_other: "j \<noteq> target e \<Longrightarrow> sessions (step jrn m e) j = sessions m j"
proof (cases "action_of e = ''restore''")
  case True
  assume "j \<noteq> target e"
  with True show ?thesis by (cases e) (auto simp: step_restore simp del: step.simps)
next
  case False
  assume "j \<noteq> target e"
  with journaled_change_other [OF step_journaled [OF False]] show ?thesis by blast
qed

abbreviation control_states :: "ControlState set" where
  "control_states \<equiv> {ControlAgent, ControlAgentDelegated, ControlUser}"

lemma ownership_wf: "ownership a (b, c) (b', c') \<Longrightarrow> c \<in> control_states \<Longrightarrow> c' \<in> control_states"
  by (auto elim: ownership.cases)

lemma journaled_change_wf:
  assumes "journaled_change jrn act i m m'" and "wf_manager m"
  shows "wf_manager m'"
proof -
  have "wf_session i s'" if "transfers m m' tr" "SessionID tr = i" "sessions m' i = Some s'" for tr s'
  proof -
    from that obtain s where s: "sessions m i = Some s" "ID s' = ID s"
      "ownership (Action tr) (Active s, CtlState s) (Active s', CtlState s')"
      "\<not> blank (ControlID s') \<or> ControlID s' = ControlID s"
      by (auto simp: transfers_def split: if_splits)
    moreover from s(1) assms(2) have "wf_session i s" by (simp add: wf_manager_def)
    ultimately show ?thesis
      using ownership_wf [OF s(3)] unfolding wf_session_def by metis
  qed
  then show ?thesis
    using assms journaled_change_other [OF assms(1)]
    unfolding wf_manager_def journaled_change_def creates_def
    by (metis fun_upd_same option.inject)
qed

lemma validateSnapshot_None: "validateSnapshot snap = None \<Longrightarrow> wf_session (ID snap) snap"
  by (auto simp: validateSnapshot_def wf_session_def split: if_splits)

lemma step_wf: "wf_manager m \<Longrightarrow> wf_manager (step jrn m e)"
proof (cases "action_of e = ''restore''")
  case True
  assume "wf_manager m"
  with True show ?thesis
    by (cases e) (auto simp: step_restore wf_manager_def validateSnapshot_None simp del: step.simps)
next
  case False
  assume "wf_manager m"
  with journaled_change_wf [OF step_journaled [OF False]] show ?thesis by blast
qed

interpretation lifecycle: state_machine NewManager "step jrn" wf_manager for jrn
  by unfold_locales (simp add: NewManager_def wf_manager_def, rule step_wf)

text \<open>A session is withheld from agents while it exists and is inactive or not in agent control.\<close>

definition withheld :: "string \<Rightarrow> manager \<Rightarrow> bool" where
  "withheld i m = (case sessions m i of
     None \<Rightarrow> False | Some s \<Rightarrow> \<not> Active s \<or> CtlState s \<noteq> ControlAgent)"

lemma withheld_iff:
  "withheld i m \<longleftrightarrow> (\<exists>s. sessions m i = Some s \<and> (\<not> Active s \<or> CtlState s \<noteq> ControlAgent))"
  by (auto simp: withheld_def split: option.splits)

definition returns_control :: "string \<Rightarrow> event \<Rightarrow> bool" where
  "returns_control i e \<longleftrightarrow>
     (\<exists>c now. e = EvTakeover i c True now) \<or> (\<exists>snap. e = EvRestore snap \<and> ID snap = i)"

lemma Takeover_unconfirmed: "snd (Takeover jrn now m i c False) = m"
  by (simp add: Takeover_def split: sum.splits)

lemma journaled_change_withheld:
  assumes "journaled_change jrn act i m m'" and "act \<noteq> ''takeover''" and "withheld i m"
  shows "withheld i m'"
proof -
  have "withheld i m'" if tr: "transfers m m' tr" "SessionID tr = i" "Action tr = act" for tr
  proof -
    from tr obtain s s' where "sessions m' i = Some s'"
      and "ownership act (Active s, CtlState s) (Active s', CtlState s')" "sessions m i = Some s"
      by (auto simp: transfers_def)
    with assms(2,3) show ?thesis by (auto simp: withheld_iff elim: ownership.cases)
  qed
  with assms show ?thesis by (auto simp: journaled_change_def creates_def withheld_iff)
qed

lemma step_withheld:
  assumes "withheld i m" and "\<not> returns_control i e"
  shows "withheld i (step jrn m e)"
proof (cases "target e = i")
  case False
  with assms(1) step_other [of i e] show ?thesis by (auto simp: withheld_iff)
next
  case True
  show ?thesis
  proof (cases "action_of e \<in> {''takeover'', ''restore''}")
    case False
    then have j: "journaled_change jrn (action_of e) i m (step jrn m e)"
      using step_journaled [of e jrn m] True by auto
    from False assms(1) show ?thesis by (intro journaled_change_withheld [OF j]) auto
  next
    case act: True
    with True assms show ?thesis
      by (cases e) (auto simp: returns_control_def Takeover_unconfirmed)
  qed
qed

lemma withheld_no_access: "withheld i m \<Longrightarrow> CheckAgentAccess m i c \<noteq> None"
  by (auto simp: withheld_iff CheckAgentAccess_def)

text \<open>An ended session: it exists and is inactive.\<close>

definition ended :: "string \<Rightarrow> session \<Rightarrow> manager \<Rightarrow> bool" where
  "ended i s m \<longleftrightarrow> sessions m i = Some s \<and> \<not> Active s"

lemma step_ended:
  assumes "ended i s m" and "\<forall>snap. e = EvRestore snap \<longrightarrow> ID snap \<noteq> i"
  shows "ended i s (step jrn m e)"
proof (cases "target e = i")
  case False
  with assms(1) step_other [of i e] show ?thesis by (simp add: ended_def)
next
  case True
  with assms(2) have "action_of e \<noteq> ''restore''" by (cases e) auto
  from step_journaled [OF this, of jrn m] True assms(1) show ?thesis
    by (auto simp: journaled_change_def creates_def transfers_def ended_def elim: ownership_from_inactiveE)
qed

section \<open>Properties\<close>




text \<open>Ending a session is final: a session that was completed or timed out is never changed again
  by any sequence of operations, short of restoring that session from a snapshot; agent access, claim,
  handoff, takeover and completion all answer with the non-retryable inactive hard stop.\<close>

theorem ended_session_is_final:
  assumes "wf_manager m" and "ended i s m"
    and "\<forall>e \<in> set es. \<forall>snap. e = EvRestore snap \<longrightarrow> ID snap \<noteq> i"
  shows "Snapshot (foldl (step jrn) m es) i = Inr s
    \<and> CheckAgentAccess (foldl (step jrn) m es) i c = Some (Hard (inactiveError i))
    \<and> lookupActive (foldl (step jrn) m es) i = Inl (Hard (inactiveError i))
    \<and> \<not> Retryable (inactiveError i)"
proof -
  have "ended i s (foldl (step jrn) m es)"
    by (rule lifecycle.stable_steps [where Q = "\<lambda>e. \<forall>snap. e = EvRestore snap \<longrightarrow> ID snap \<noteq> i"])
      (use assms step_ended in auto)
  then show ?thesis
    by (simp add: ended_def Snapshot_def CheckAgentAccess_def lookupActive_def inactiveError_def)
qed

theorem ended_session_is_final_witness:
  "\<exists>m s. ended ''s1'' s m \<and>
     Snapshot (foldl (step None) m [EvTakeover ''s1'' ''a'' True 9]) ''s1'' = Inr s"
proof -
  let ?m = "foldl (step None) NewManager [EvCreate ''s1'' ''a'' 1, EvComplete ''s1'' ''a'' True 2]"
  let ?s = "\<lparr>ID = ''s1'', ControlID = ''a'', CtlState = ControlAgent, Active = False, HandoffReason = [],
     UpdatedAt = 2, Completion = Some \<lparr>Keep = True, Completed = 2\<rparr>\<rparr>"
  have e: "ended ''s1'' ?s ?m" by code_simp
  from ended_session_is_final [OF lifecycle.inv_run e, of "[EvTakeover ''s1'' ''a'' True 9]"] e
  show ?thesis by auto
qed

text \<open>Well-formedness is kept: in every state reachable from a new manager by any operations,
  restores of arbitrary snapshots included, each stored session is stored under its own non-blank id,
  has a non-blank control id and is in one of the three control states.\<close>

theorem reachable_sessions_well_formed:
  assumes "sessions (foldl (step jrn) NewManager es) i = Some s"
  shows "ID s = i \<and> \<not> blank i \<and> \<not> blank (ControlID s)
     \<and> CtlState s \<in> {ControlAgent, ControlAgentDelegated, ControlUser}"
  using lifecycle.inv_run [of jrn es] assms by (simp add: wf_manager_def wf_session_def)

theorem reachable_sessions_well_formed_witness:
  "\<exists>s. sessions (foldl (step None) NewManager [EvCreate ''s1'' ''a'' 1]) ''s1'' = Some s \<and> ID s = ''s1''"
proof -
  obtain s where s: "sessions (foldl (step None) NewManager [EvCreate ''s1'' ''a'' 1]) ''s1'' = Some s"
    by (cases "sessions (foldl (step None) NewManager [EvCreate ''s1'' ''a'' 1]) ''s1''") (simp_all, code_simp)
  from reachable_sessions_well_formed [OF s] s show ?thesis by blast
qed

end
