(* ===== verification/OobPrompts.thy ===== *)
theory OobPrompts
  imports Prelude "HOL-Library.Product_Lexorder"
begin

text \<open>
  \<open>internal/oob/oob.go\<close>: the out-of-band prompts a human answers. The manager is a counter and a
  map of prompts. \<open>Wait\<close> polls the manager while other goroutines use it, so its loop is modelled
  over a list of polls; each poll carries the operations the others performed since the previous
  one, the operations that slip in between the poll's own \<open>Get\<close> and \<open>Expire\<close>, the clock, and the
  state of the context. \<^const>\<open>None\<close> means that the wait is still blocked when the polls run out.
\<close>

section \<open>Data\<close>

type_synonym Status = string
type_synonym Kind = string

abbreviation "StatusPending \<equiv> ''pending''"
abbreviation "StatusCompleted \<equiv> ''completed''"
abbreviation "StatusCancelled \<equiv> ''cancelled''"
abbreviation "StatusTimeout \<equiv> ''timeout''"

abbreviation "KindHandoff \<equiv> ''handoff''"
abbreviation "KindApproval \<equiv> ''approval''"
abbreviation "KindWatch \<equiv> ''watch''"

record prompt =
  PromptID :: string
  PKind :: Kind
  Title :: string
  PReason :: string
  PStatus :: Status
  CreatedAt :: go_time
  PTimeout :: duration
  Result :: "(string \<times> json) list option"

record oob_manager =
  next_id :: nat
  prompts :: "string \<rightharpoonup> prompt"

datatype oob_error =
    PromptNotFound string
  | AlreadyFinished string Status
  | NoPendingPrompt
  | CtxCanceled
  | CtxDeadlineExceeded

section \<open>Operations\<close>

definition NewManager :: oob_manager where
  "NewManager = \<lparr>next_id = 0, prompts = Map.empty\<rparr>"

definition prompt_id :: "nat \<Rightarrow> string" where
  "prompt_id n = ''oob-'' @ nat_str n"

lemma prompt_id_inject [simp]: "prompt_id m = prompt_id n \<longleftrightarrow> m = n"
  by (simp add: prompt_id_def)

definition Create :: "go_time \<Rightarrow> oob_manager \<Rightarrow> Kind \<Rightarrow> string \<Rightarrow> string \<Rightarrow> duration \<Rightarrow> prompt \<times> oob_manager" where
  "Create now m kind title reason timeout =
     (let n = Suc (next_id m);
          p = \<lparr>PromptID = prompt_id n, PKind = kind, Title = title, PReason = reason,
               PStatus = StatusPending, CreatedAt = now, PTimeout = timeout, Result = None\<rparr>
      in (p, m\<lparr>next_id := n, prompts := (prompts m)(PromptID p \<mapsto> p)\<rparr>))"

definition Get :: "oob_manager \<Rightarrow> string \<Rightarrow> oob_error + prompt" where
  "Get m i = (case prompts m i of None \<Rightarrow> Inl (PromptNotFound i) | Some p \<Rightarrow> Inr p)"

definition Active_body :: "prompt option \<Rightarrow> prompt \<Rightarrow> prompt option" where
  "Active_body newest p =
     (if PStatus p \<noteq> StatusPending then newest
      else (case newest of
              None \<Rightarrow> Some p
            | Some q \<Rightarrow> if CreatedAt q < CreatedAt p \<or> (CreatedAt p = CreatedAt q \<and> PromptID q < PromptID p)
                        then Some p else newest))"

text \<open>The range loop visits the map in an unspecified order; \<open>order\<close> lists the keys as visited.\<close>

definition Active :: "string list \<Rightarrow> oob_manager \<Rightarrow> oob_error + prompt" where
  "Active order m =
     (case foldl Active_body None (List.map_filter (prompts m) order) of
        None \<Rightarrow> Inl NoPendingPrompt
      | Some p \<Rightarrow> Inr p)"

definition finish ::
  "oob_manager \<Rightarrow> string \<Rightarrow> Status \<Rightarrow> (string \<times> json) list option \<Rightarrow> (oob_error + prompt) \<times> oob_manager" where
  "finish m i status result =
     (case prompts m i of
        None \<Rightarrow> (Inl (PromptNotFound i), m)
      | Some p \<Rightarrow>
          if PStatus p \<noteq> StatusPending then (Inl (AlreadyFinished i (PStatus p)), m)
          else (let p1 = p\<lparr>PStatus := status\<rparr>;
                    p2 = (case result of None \<Rightarrow> p1 | Some r \<Rightarrow> p1\<lparr>Result := Some r\<rparr>)
                in (Inr p2, m\<lparr>prompts := (prompts m)(i \<mapsto> p2)\<rparr>)))"

definition Complete ::
  "oob_manager \<Rightarrow> string \<Rightarrow> (string \<times> json) list option \<Rightarrow> (oob_error + prompt) \<times> oob_manager" where
  "Complete m i result = finish m i StatusCompleted result"

definition Cancel :: "oob_manager \<Rightarrow> string \<Rightarrow> string \<Rightarrow> (oob_error + prompt) \<times> oob_manager" where
  "Cancel m i reason = finish m i StatusCancelled (Some [(''reason'', JStr reason)])"

definition Expire :: "oob_manager \<Rightarrow> string \<Rightarrow> (oob_error + prompt) \<times> oob_manager" where
  "Expire m i = finish m i StatusTimeout None"

section \<open>Waiting\<close>

datatype oob_event =
    EvCreate Kind string string duration go_time
  | EvComplete string "(string \<times> json) list option"
  | EvCancel string string
  | EvExpire string

primrec step :: "oob_manager \<Rightarrow> oob_event \<Rightarrow> oob_manager" where
  "step m (EvCreate k t r d now) = snd (Create now m k t r d)"
| "step m (EvComplete i r) = snd (Complete m i r)"
| "step m (EvCancel i r) = snd (Cancel m i r)"
| "step m (EvExpire i) = snd (Expire m i)"

record poll =
  others :: "oob_event list"
  late :: "oob_event list"
  clock :: go_time
  ctxErr :: "oob_error option"

fun wait_loop ::
  "string \<Rightarrow> go_time \<Rightarrow> oob_manager \<Rightarrow> poll list \<Rightarrow> ((prompt option \<times> oob_error option) \<times> oob_manager) option" where
  "wait_loop i deadline m [] = None"
| "wait_loop i deadline m (t # ts) =
     (let m1 = foldl step m (others t) in
      case Get m1 i of
        Inl err \<Rightarrow> Some ((None, Some err), m1)
      | Inr p \<Rightarrow>
          if PStatus p \<noteq> StatusPending then Some ((Some p, None), m1)
          else if \<not> is_zero_time deadline \<and> deadline < clock t then
            (case Expire (foldl step m1 (late t)) i of
               (Inl err, m2) \<Rightarrow> Some ((Some p, None), m2)
             | (Inr expired, m2) \<Rightarrow> Some ((Some expired, None), m2))
          else (case ctxErr t of
                  Some err \<Rightarrow> Some ((Some p, Some err), m1)
                | None \<Rightarrow> wait_loop i deadline m1 ts))"

definition wait_deadline :: "oob_manager \<Rightarrow> string \<Rightarrow> go_time" where
  "wait_deadline m i =
     (case Get m i of Inl _ \<Rightarrow> 0 | Inr p \<Rightarrow> if 0 < PTimeout p then CreatedAt p + PTimeout p else 0)"

definition Wait ::
  "oob_manager \<Rightarrow> string \<Rightarrow> poll list \<Rightarrow> ((prompt option \<times> oob_error option) \<times> oob_manager) option" where
  "Wait m i polls = wait_loop i (wait_deadline m i) m polls"

text \<open>\<open>ResolveWait\<close>: the verdict, the prompt and the error; an error other than a cancelled context
  is passed on with a deny.\<close>

definition ResolveWait ::
  "oob_manager \<Rightarrow> string \<Rightarrow> poll list \<Rightarrow> ((bool \<times> prompt option \<times> oob_error option) \<times> oob_manager) option" where
  "ResolveWait m i polls =
     (case Wait m i polls of
        None \<Rightarrow> None
      | Some ((p, err), m') \<Rightarrow>
          (case err of
             Some e \<Rightarrow> if e \<noteq> CtxCanceled then Some ((False, p, Some e), m')
                        else Some (((case p of None \<Rightarrow> False | Some q \<Rightarrow> PStatus q = StatusCompleted), p, None), m')
           | None \<Rightarrow> Some (((case p of None \<Rightarrow> False | Some q \<Rightarrow> PStatus q = StatusCompleted), p, None), m')))"

section \<open>Lemmas\<close>

definition wf_oob :: "oob_manager \<Rightarrow> bool" where
  "wf_oob m \<longleftrightarrow> (\<forall>i p. prompts m i = Some p \<longrightarrow>
     PromptID p = i \<and> (\<exists>k. 1 \<le> k \<and> k \<le> next_id m \<and> i = prompt_id k))"

lemma fresh_id: "wf_oob m \<Longrightarrow> prompts m (prompt_id (Suc (next_id m))) = None"
  by (cases "prompts m (prompt_id (Suc (next_id m)))") (force simp: wf_oob_def)+

lemma finish_cases:
  obtains (unchanged) err where "finish m i st r = (Inl err, m)"
    "\<And>p. prompts m i = Some p \<Longrightarrow> PStatus p \<noteq> StatusPending"
  | (finished) p q where "prompts m i = Some p" "PStatus p = StatusPending"
      "finish m i st r = (Inr q, m\<lparr>prompts := (prompts m)(i \<mapsto> q)\<rparr>)"
      "PStatus q = st" "PromptID q = PromptID p" "CreatedAt q = CreatedAt p" "PTimeout q = PTimeout p"
proof (cases "prompts m i")
  case None
  then show ?thesis by (intro unchanged) (auto simp: finish_def)
next
  case (Some p)
  show ?thesis
  proof (cases "PStatus p = StatusPending")
    case True
    let ?p1 = "p\<lparr>PStatus := st\<rparr>"
    show ?thesis
      by (rule finished [OF Some True, of "case r of None \<Rightarrow> ?p1 | Some x \<Rightarrow> ?p1\<lparr>Result := Some x\<rparr>"])
        (simp_all add: finish_def Some True Let_def split: option.splits)
  next
    case False
    with Some show ?thesis by (intro unchanged) (auto simp: finish_def)
  qed
qed

lemma finish_wf: "wf_oob m \<Longrightarrow> wf_oob (snd (finish m i st r))"
  by (cases rule: finish_cases [of m i st r]) (auto simp: wf_oob_def)

lemma Create_wf: "wf_oob m \<Longrightarrow> wf_oob (snd (Create now m k t r d))"
  unfolding wf_oob_def Create_def Let_def by (auto intro: le_SucI) (metis le_SucI)+

lemma oob_step_wf: "wf_oob m \<Longrightarrow> wf_oob (step m e)"
  by (cases e) (simp_all add: Create_wf finish_wf Complete_def Cancel_def Expire_def)

interpretation oob: state_machine NewManager step wf_oob
  by unfold_locales (simp add: NewManager_def wf_oob_def, rule oob_step_wf)

text \<open>A finished prompt never changes.\<close>

lemma finish_terminal:
  "prompts m i = Some p \<Longrightarrow> PStatus p \<noteq> StatusPending \<Longrightarrow> prompts (snd (finish m j st r)) i = Some p"
  by (cases rule: finish_cases [of m j st r]) auto

lemma step_terminal:
  assumes "wf_oob m" "prompts m i = Some p" "PStatus p \<noteq> StatusPending"
  shows "prompts (step m e) i = Some p"
proof (cases e)
  case (EvCreate k t r d now)
  with assms fresh_id [OF assms(1)] show ?thesis by (auto simp: Create_def Let_def)
qed (simp_all add: assms finish_terminal Complete_def Cancel_def Expire_def)

text \<open>Only a completion makes a prompt completed.\<close>

definition not_completed :: "string \<Rightarrow> oob_manager \<Rightarrow> bool" where
  "not_completed i m \<longleftrightarrow> (\<forall>p. prompts m i = Some p \<longrightarrow> PStatus p \<noteq> StatusCompleted)"

definition completes :: "string \<Rightarrow> oob_event \<Rightarrow> bool" where
  "completes i e \<longleftrightarrow> (\<exists>r. e = EvComplete i r)"

lemma finish_not_completed:
  "not_completed i m \<Longrightarrow> j \<noteq> i \<or> st \<noteq> StatusCompleted \<Longrightarrow> not_completed i (snd (finish m j st r))"
  by (cases rule: finish_cases [of m j st r]) (auto simp: not_completed_def)

lemma step_not_completed: "not_completed i m \<Longrightarrow> \<not> completes i e \<Longrightarrow> not_completed i (step m e)"
proof (cases e)
  case (EvCreate k t r d now)
  assume "not_completed i m"
  with EvCreate show ?thesis by (auto simp: not_completed_def Create_def Let_def)
qed (auto simp: finish_not_completed Complete_def Cancel_def Expire_def completes_def)

lemma steps_not_completed:
  "not_completed i m \<Longrightarrow> \<forall>e \<in> set es. \<not> completes i e \<Longrightarrow> not_completed i (foldl step m es)"
  by (induction es arbitrary: m) (auto simp: step_not_completed)

lemma wait_loop_not_completed:
  assumes "wait_loop i dl m ts = Some ((Some p, err), m')" and "not_completed i m"
    and "\<forall>t \<in> set ts. \<forall>e \<in> set (others t) \<union> set (late t). \<not> completes i e"
  shows "PStatus p \<noteq> StatusCompleted"
  using assms
proof (induction ts arbitrary: m)
  case Nil
  then show ?case by simp
next
  case (Cons t ts)
  let ?m1 = "foldl step m (others t)"
  have nc: "not_completed i ?m1" using Cons.prems by (auto intro: steps_not_completed)
  then have nc2: "not_completed i (foldl step ?m1 (late t))" using Cons.prems by (auto intro: steps_not_completed)
  show ?case
  proof (cases "prompts ?m1 i")
    case None
    with Cons.prems show ?thesis by (simp add: Get_def)
  next
    case (Some q)
    have q: "PStatus q \<noteq> StatusCompleted" using nc Some by (simp add: not_completed_def)
    have ex: "PStatus x = StatusTimeout" if "Expire (foldl step ?m1 (late t)) i = (Inr x, mm)" for x mm
      using that unfolding Expire_def
      by (cases rule: finish_cases [of "foldl step ?m1 (late t)" i StatusTimeout None]) auto
    have IH: "PStatus p \<noteq> StatusCompleted" if "wait_loop i dl ?m1 ts = Some ((Some p, err), m')"
      using Cons.IH [OF that nc] Cons.prems(3) by simp
    from Cons.prems(1) Some q IH show ?thesis
      by (auto simp: Get_def Let_def split: if_splits option.splits prod.splits sum.splits dest!: ex)
  qed
qed

text \<open>The search for the newest pending prompt meets the best-candidate contract, ordered by
  creation time and then by the text of the id.\<close>

interpretation newest_scan: best_scan Active_body "\<lambda>p. PStatus p = StatusPending"
    "\<lambda>p. (CreatedAt p, PromptID p)"
  by unfold_locales (auto simp: Active_body_def less_prod_def')

abbreviation visited :: "string list \<Rightarrow> oob_manager \<Rightarrow> prompt list" where
  "visited order m \<equiv> List.map_filter (prompts m) order"

lemma visited_iff:
  "set order = dom (prompts m) \<Longrightarrow> p \<in> set (visited order m) \<longleftrightarrow> (\<exists>i. prompts m i = Some p)"
  by (auto simp: List.map_filter_def dom_def) force

lemma Active_Inr:
  assumes "set order = dom (prompts m)" and "Active order m = Inr p"
  shows "(\<exists>i. prompts m i = Some p) \<and> PStatus p = StatusPending
    \<and> (\<forall>i q. prompts m i = Some q \<and> PStatus q = StatusPending \<longrightarrow>
         (CreatedAt q, PromptID q) \<le> (CreatedAt p, PromptID p))"
  using newest_scan.scan_Some [of "visited order m" p] assms
  unfolding Active_def visited_iff [OF assms(1)] by (auto split: option.splits simp: visited_iff)

lemma Active_Inl:
  assumes "set order = dom (prompts m)"
  shows "Active order m = Inl e \<Longrightarrow> prompts m i = Some q \<Longrightarrow> PStatus q \<noteq> StatusPending"
  using newest_scan.scan_None_iff [of "visited order m"] visited_iff [OF assms]
  by (auto simp: Active_def split: option.splits)

lemma wait_loop_returns:
  assumes "t \<in> set ts" and "\<not> is_zero_time dl" and "dl < clock t"
  shows "\<exists>r. wait_loop i dl m ts = Some r"
  using assms(1)
proof (induction ts arbitrary: m)
  case Nil
  then show ?case by simp
next
  case (Cons u us)
  show ?case
  proof (cases "t = u")
    case True
    with assms show ?thesis by (auto simp: Let_def split: sum.splits prod.splits)
  next
    case False
    with Cons show ?thesis by (auto simp: Let_def split: sum.splits prod.splits option.splits)
  qed
qed

lemma ResolveWait_completed:
  assumes "ResolveWait m i polls = Some ((True, p, err), m')" and "not_completed i m"
  shows "\<exists>t \<in> set polls. \<exists>e \<in> set (others t) \<union> set (late t). completes i e"
proof (rule ccontr)
  assume "\<not> ?thesis"
  then have none: "\<forall>t \<in> set polls. \<forall>e \<in> set (others t) \<union> set (late t). \<not> completes i e" by blast
  from assms(1) obtain q err' where w: "Wait m i polls = Some ((Some q, err'), m')"
    and c: "PStatus q = StatusCompleted"
    by (auto simp: ResolveWait_def split: option.splits prod.splits if_splits)
  from wait_loop_not_completed [OF _ assms(2) none] w c show False by (auto simp: Wait_def)
qed

lemma Wait_returns:
  assumes "prompts m i = Some p" and "0 < PTimeout p" and "0 < CreatedAt p"
    and "t \<in> set polls" and "CreatedAt p + PTimeout p < clock t"
  shows "\<exists>r. Wait m i polls = Some r"
  unfolding Wait_def
  by (rule wait_loop_returns [OF assms(4)]) (use assms in \<open>simp_all add: wait_deadline_def Get_def\<close>)

lemma ResolveWait_returns: "Wait m i polls = Some w \<Longrightarrow> \<exists>r. ResolveWait m i polls = Some r"
  by (cases w; cases "fst w") (auto simp: ResolveWait_def split: option.splits)

section \<open>Properties\<close>



text \<open>A prompt is decided once: whatever operations follow, a prompt that has left the pending
  state keeps its status, its result and every other field, and its id is never reissued.\<close>

theorem decided_prompt_is_final:
  assumes "wf_oob m" and "prompts m i = Some p" and "PStatus p \<noteq> StatusPending"
  shows "Get (foldl step m es) i = Inr p"
proof -
  have "prompts (foldl step m es) i = Some p"
    by (rule oob.stable_steps [where Q = "\<lambda>_. True"]) (use assms step_terminal in auto)
  then show ?thesis by (simp add: Get_def)
qed

theorem decided_prompt_is_final_witness:
  "\<exists>m p. prompts m ''oob-1'' = Some p \<and> PStatus p = StatusTimeout
     \<and> Get (foldl step m [EvComplete ''oob-1'' None, EvCreate KindWatch [] [] 0 9]) ''oob-1'' = Inr p"
proof -
  let ?m = "foldl step NewManager [EvCreate KindApproval ''t'' ''r'' second 5, EvExpire ''oob-1'']"
  let ?p = "\<lparr>PromptID = ''oob-1'', PKind = KindApproval, Title = ''t'', PReason = ''r'',
           PStatus = StatusTimeout, CreatedAt = 5, PTimeout = second, Result = None\<rparr>"
  have p: "prompts ?m ''oob-1'' = Some ?p" by code_simp
  have "PStatus ?p \<noteq> StatusPending" by simp
  from decided_prompt_is_final [OF oob.inv_run p this] p show ?thesis by fastforce
qed

text \<open>A wait with a timeout ends: for a stored prompt with a positive timeout, as soon as one poll
  reads a clock past creation time plus timeout, \<open>Wait\<close> has returned by then, whatever the other
  parties do in the meantime.\<close>

theorem wait_ends_after_deadline:
  assumes "prompts m i = Some p" and "0 < PTimeout p" and "0 < CreatedAt p"
    and "t \<in> set polls" and "CreatedAt p + PTimeout p < clock t"
  shows "\<exists>r. Wait m i polls = Some r"
  by (rule Wait_returns [OF assms])

theorem wait_ends_after_deadline_witness:
  "\<exists>r. Wait (snd (Create 5 NewManager KindHandoff [] [] 10)) ''oob-1''
     [\<lparr>others = [], late = [], clock = 6, ctxErr = None\<rparr>, \<lparr>others = [], late = [], clock = 16, ctxErr = None\<rparr>] = Some r"
proof -
  let ?m = "snd (Create 5 NewManager KindHandoff [] [] 10)"
  let ?p = "\<lparr>PromptID = ''oob-1'', PKind = KindHandoff, Title = [], PReason = [],
           PStatus = StatusPending, CreatedAt = 5, PTimeout = 10, Result = None\<rparr>"
  have "prompts ?m ''oob-1'' = Some ?p" by code_simp
  then show ?thesis
    by (rule wait_ends_after_deadline [where t = "\<lparr>others = [], late = [], clock = 16, ctxErr = None\<rparr>"]) simp_all
qed

text \<open>\<open>Active\<close> does not depend on the order in which the map is visited: in a well-formed manager
  any two orders over the same keys give the same answer, a pending prompt that is maximal by creation
  time and then by the text of its id, or "no pending prompt" when there is none.\<close>

theorem Active_order_independent:
  assumes "wf_oob m" and "set order = dom (prompts m)" and "set order' = dom (prompts m)"
  shows "Active order m = Active order' m"
proof (cases "Active order m")
  case (Inl e)
  with Active_Inl [OF assms(2) Inl] Active_Inr [OF assms(3)]
  show ?thesis by (cases "Active order' m") (auto simp: Active_def split: option.splits)
next
  case (Inr p)
  show ?thesis
  proof (cases "Active order' m")
    case (Inl e)
    with Active_Inl [OF assms(3) Inl] Active_Inr [OF assms(2) Inr] show ?thesis by blast
  next
    case Inr': (Inr q)
    note P = Active_Inr [OF assms(2) Inr] and Q = Active_Inr [OF assms(3) Inr']
    from P Q have "(CreatedAt p, PromptID p) = (CreatedAt q, PromptID q)" by (meson order_antisym)
    with P Q assms(1) have "p = q" by (auto simp: wf_oob_def)
    with Inr Inr' show ?thesis by simp
  qed
qed

theorem Active_order_independent_witness:
  "\<exists>m. wf_oob m \<and> Active [''oob-2'', ''oob-1''] m = Active [''oob-1'', ''oob-2''] m"
proof -
  let ?m = "foldl step NewManager [EvCreate KindApproval [] [] 0 5, EvCreate KindWatch [] [] 0 5]"
  have ids: "prompt_id (Suc 0) = ''oob-1''" "prompt_id (Suc (Suc 0)) = ''oob-2''" by code_simp+
  have d: "set [''oob-2'', ''oob-1''] = dom (prompts ?m)" "set [''oob-1'', ''oob-2''] = dom (prompts ?m)"
    by (auto simp: Create_def Let_def NewManager_def ids)
  from Active_order_independent [OF oob.inv_run d] oob.inv_run show ?thesis by blast
qed

end
