(* ===== verification/JsonArgs.thy ===== *)
theory JsonArgs
  imports Prelude
begin

text \<open>
  What the daemon's handlers use of \<open>encoding/json\<close> to read frame arguments: a struct of string,
  string-list, integer and boolean fields filled from a parsed JSON object. A key matches a field
  when it equals the field's tag up to (ASCII) case, a later key overwrites an earlier one, \<open>null\<close>
  leaves the zero value, unknown keys are skipped, and a value of another type makes the whole
  decoding fail. \<open>decodeArgs\<close> (\<open>internal/daemon/navigation.go\<close>) adds that arguments must be
  present; the arguments of a frame are a parsed value, or \<^const>\<open>None\<close> when they are empty.
\<close>

datatype args_error = ArgsRequired | ArgsType string

definition field_values :: "string \<Rightarrow> (string \<times> json) list \<Rightarrow> json list" where
  "field_values name obj = map snd (filter (\<lambda>kv. to_lower (fst kv) = name \<and> snd kv \<noteq> JNull) obj)"

fun as_string :: "json \<Rightarrow> string option" where
  "as_string (JStr s) = Some s"
| "as_string _ = None"

fun as_element :: "json \<Rightarrow> string option" where
  "as_element (JStr s) = Some s"
| "as_element JNull = Some []"
| "as_element _ = None"

fun all_some :: "'a option list \<Rightarrow> 'a list option" where
  "all_some [] = Some []"
| "all_some (None # xs) = None"
| "all_some (Some x # xs) = map_option (Cons x) (all_some xs)"

fun as_strings :: "json \<Rightarrow> string list option" where
  "as_strings (JArr xs) = all_some (map as_element xs)"
| "as_strings _ = None"

definition decode_field :: "(json \<Rightarrow> 'a option) \<Rightarrow> 'a \<Rightarrow> string \<Rightarrow> (string \<times> json) list \<Rightarrow> args_error + 'a" where
  "decode_field conv zero name obj =
     (case all_some (map conv (field_values name obj)) of
        None \<Rightarrow> Inl (ArgsType name)
      | Some vs \<Rightarrow> Inr (if vs = [] then zero else last vs))"

abbreviation "string_field \<equiv> decode_field as_string []"
abbreviation "strings_field \<equiv> decode_field as_strings []"

text \<open>The fields of a JSON text decoded into a struct: an object's, none for \<open>null\<close>.\<close>

fun object_fields :: "json \<Rightarrow> args_error + (string \<times> json) list" where
  "object_fields (JObj obj) = Inr obj"
| "object_fields JNull = Inr []"
| "object_fields _ = Inl (ArgsType [])"

definition decodeArgs :: "json option \<Rightarrow> args_error + (string \<times> json) list" where
  "decodeArgs args =
     (case args of
        None \<Rightarrow> Inl ArgsRequired
      | Some j \<Rightarrow> if j = JNull then Inl ArgsRequired else object_fields j)"

section \<open>Lemmas\<close>

lemma all_some_map_Some [simp]: "all_some (map Some xs) = Some xs"
  by (induction xs) auto

lemma all_some_iff: "all_some xs = Some ys \<longleftrightarrow> xs = map Some ys"
  by (induction xs arbitrary: ys rule: all_some.induct) auto

text \<open>A field that occurs once is read back, a field that does not occur is zero.\<close>

lemma decode_field_absent:
  "\<forall>kv \<in> set obj. to_lower (fst kv) \<noteq> name \<Longrightarrow> decode_field conv zero name obj = Inr zero"
  by (auto simp: decode_field_def field_values_def filter_empty_conv)

lemma decode_field_last:
  assumes "decode_field conv zero name (obj @ [(k, v)]) = Inr x" and "to_lower k = name" and "v \<noteq> JNull"
  shows "conv v = Some x"
proof -
  from assms obtain vs where "map conv (field_values name obj @ [v]) = map Some vs"
    and x: "x = (if vs = [] then zero else last vs)"
    by (auto simp: decode_field_def field_values_def all_some_iff split: option.splits)
  then have "map Some vs = map conv (field_values name obj) @ [conv v]" by simp
  then have "last (map Some vs) = conv v" and "vs \<noteq> []" by (metis last_snoc, auto)
  with x show ?thesis by (simp add: last_map)
qed

end
