(* ===== verification/PolicyGate.thy ===== *)
theory PolicyGate
  imports RiskPolicy OobPrompts SessionLifecycle JsonArgs "HOL-Library.AList"
begin

text \<open>
  The gate every browser or fetch command passes before it is executed:
  \<open>internal/policy/symguard.go\<close> (delegation to an external guard process),
  \<open>internal/daemon/policy_runtime.go\<close> (who decides), \<open>internal/daemon/oob_runtime.go\<close> (asking a
  human) and the frame dispatcher of \<open>cmd/symbrowse/daemon.go\<close>.

  The guard is another program, so running it is a parameter: \<open>run\<close> maps the time limit, the
  executable, its arguments and the JSON request to how the process ended, and \<open>unmarshal\<close> reads
  its standard output. A slice out of range is the error \<open>Panic\<close>. Desktop notifications and the
  page overlay, whose failures the code ignores, are not modelled.
\<close>

section \<open>The guard\<close>

record Guard =
  Executable :: string
  Subcommand :: "string list"
  GTimeout :: duration

abbreviation GuardTimeout :: duration where "GuardTimeout \<equiv> 5 * second"
abbreviation GuardBinaryName :: string where "GuardBinaryName \<equiv> ''symbrain''"

definition GuardSubcommand :: "string list" where
  "GuardSubcommand = [''guard'']"

text \<open>\<open>env\<close> is the value of \<open>SYMBROWSE_SYMGUARD\<close> (empty when unset), \<open>lookPath\<close> is \<open>exec.LookPath\<close>.\<close>

definition DetectGuard :: "string \<Rightarrow> (string \<Rightarrow> string option) \<Rightarrow> Guard option" where
  "DetectGuard env lookPath =
     (let override = trim_space env in
      if to_lower override \<in> set [''0'', ''none'', ''off'', ''false'', ''disable''] then None
      else if override \<noteq> [] then Some \<lparr>Executable = override, Subcommand = [], GTimeout = GuardTimeout\<rparr>
      else (case lookPath GuardBinaryName of
              None \<Rightarrow> None
            | Some path \<Rightarrow> Some \<lparr>Executable = path, Subcommand = GuardSubcommand, GTimeout = GuardTimeout\<rparr>))"

definition Command :: "Guard \<Rightarrow> string" where
  "Command g = trim_space (Executable g @ '' '' @ join '' '' (Subcommand g @ [''decide'']))"

definition guard_active :: "Guard option \<Rightarrow> bool" where
  "guard_active g = (case g of None \<Rightarrow> False | Some g' \<Rightarrow> Executable g' \<noteq> [])"

record GuardInput =
  GCommand :: string
  GClass :: RiskClass
  GDomain :: string
  GWarnings :: "string list"

record GuardOutcome =
  OutDecision :: Decision
  OutReason :: string

datatype guard_error =
    GuardNotConfigured
  | NoRiskLevel RiskClass
  | GuardFailed string
  | UnparseableVerdict string
  | InvalidVerdict string

definition guardRiskLevel :: "RiskClass \<Rightarrow> guard_error + string" where
  "guardRiskLevel class =
     (if class = ClassRead then Inr ''low''
      else if class = ClassNavigate then Inr ''medium''
      else if class = ClassInteract then Inr ''medium''
      else if class = ClassDownload then Inr ''medium''
      else if class = ClassSubmit \<or> class = ClassUpload then Inr ''high''
      else if class = ClassNetworkMock then Inr ''high''
      else if class = ClassEval \<or> class = ClassCredential then Inr ''critical''
      else Inl (NoRiskLevel class))"

text \<open>How the guard process ended: with an error and what it wrote to its standard error, or
  successfully with its standard output.\<close>

datatype run_result = RunError string string | RunOk string

type_synonym guard_runner = "duration option \<Rightarrow> string \<Rightarrow> string list \<Rightarrow> json \<Rightarrow> run_result"

definition guard_payload :: "GuardInput \<Rightarrow> string \<Rightarrow> json" where
  "guard_payload input level =
     JObj ([(''command'', JStr (GCommand input)), (''risk_class'', JStr level), (''domain'', JStr (GDomain input))]
           @ (if GWarnings input = [] then [] else [(''warnings'', JArr (map JStr (GWarnings input)))]))"

definition guard_decide ::
  "guard_runner \<Rightarrow> (string \<Rightarrow> string + GuardOutcome) \<Rightarrow> Guard option \<Rightarrow> GuardInput \<Rightarrow> guard_error + GuardOutcome" where
  "guard_decide run unmarshal gopt input =
     (case gopt of
        None \<Rightarrow> Inl GuardNotConfigured
      | Some g \<Rightarrow>
          if Executable g = [] then Inl GuardNotConfigured
          else (case guardRiskLevel (GClass input) of
                  Inl err \<Rightarrow> Inl err
                | Inr level \<Rightarrow>
                    (case run (if 0 < GTimeout g then Some (GTimeout g) else None) (Executable g)
                            (Subcommand g @ [''decide'']) (guard_payload input level) of
                       RunError stderr err \<Rightarrow>
                         (let message = trim_space stderr
                          in Inl (GuardFailed (if message = [] then err else message)))
                     | RunOk stdout \<Rightarrow>
                         (case unmarshal stdout of
                            Inl err \<Rightarrow> Inl (UnparseableVerdict err)
                          | Inr outcome \<Rightarrow>
                              if OutDecision outcome \<in> set [Allow, Confirm, Deny] then Inr outcome
                              else Inl (InvalidVerdict (OutDecision outcome))))))"

section \<open>Who decides\<close>

datatype gate_error =
    PolicyErr policy_error
  | OobErr oob_error
  | ArgsErr args_error
  | HandoffErr HardStopError
  | InvalidTimeout string
  | UnknownCommand
  | PeerDenied Decision string
  | Panic

text \<open>The host of a URL as the gate reads it. \<open>rest[i+2:]\<close> panics when the first slash is the last
  character.\<close>

definition hostOfURL :: "string \<Rightarrow> string option" where
  "hostOfURL raw =
     (let cut = (\<lambda>rest. case index_any rest ''/:'' of Some i \<Rightarrow> take i rest | None \<Rightarrow> rest) in
      case index_byte raw (CHR ''/'') of
        None \<Rightarrow> Some (cut raw)
      | Some i \<Rightarrow> if length raw < i + 2 then None else Some (cut (drop (i + 2) raw)))"

record PolicyRuntime =
  rt_policy :: policy
  rt_mode :: Mode
  rt_guard :: "Guard option"

text \<open>\<open>decodeFile\<close> is the TOML decoder of \<^const>\<open>LoadPolicy\<close>; the path is \<open>policy.toml\<close> in the state
  directory.\<close>

definition NewPolicyRuntimeWithGuard ::
  "(string \<Rightarrow> policy \<Rightarrow> decode_result) \<Rightarrow> string \<Rightarrow> Mode \<Rightarrow> Guard option \<Rightarrow> PolicyRuntime" where
  "NewPolicyRuntimeWithGuard decodeFile path mode guard =
     \<lparr>rt_policy = (case LoadPolicy decodeFile path of
                     Inl err \<Rightarrow> \<lparr>Rules = [], Source = path\<rparr>
                   | Inr p \<Rightarrow> p),
      rt_mode = mode, rt_guard = guard\<rparr>"

definition guard_error_text :: "guard_error \<Rightarrow> string" where
  "guard_error_text err =
     (case err of
        GuardNotConfigured \<Rightarrow> ''guard is not configured''
      | NoRiskLevel c \<Rightarrow> ''guard: no risk level for class '' @ go_quote c
      | GuardFailed msg \<Rightarrow> ''guard decide failed: '' @ msg
      | UnparseableVerdict e \<Rightarrow> ''guard returned an unparseable verdict: '' @ e
      | InvalidVerdict d \<Rightarrow> ''guard returned invalid decision '' @ go_quote d)"

type_synonym decide_hook = "string \<Rightarrow> string \<Rightarrow> Mode \<Rightarrow> string list \<Rightarrow> gate_error + (Decision \<times> string \<times> string)"

definition runtime_decide ::
  "guard_runner \<Rightarrow> (string \<Rightarrow> string + GuardOutcome) \<Rightarrow> PolicyRuntime \<Rightarrow> decide_hook" where
  "runtime_decide run unmarshal r command url mode warnings =
     (case Classify command of
        Inl err \<Rightarrow> Inl (PolicyErr err)
      | Inr class \<Rightarrow>
          (case hostOfURL url of
             None \<Rightarrow> Inl Panic
           | Some host \<Rightarrow>
               if guard_active (rt_guard r) then
                 (case guard_decide run unmarshal (rt_guard r)
                         \<lparr>GCommand = command, GClass = class, GDomain = host, GWarnings = warnings\<rparr> of
                    Inl err \<Rightarrow> Inr (Deny, ''guard'', ''guard failure: '' @ guard_error_text err)
                  | Inr outcome \<Rightarrow>
                      (let reason = ''guard:'' @ OutReason outcome
                       in Inr (OutDecision outcome, ''guard'', if reason = ''guard:'' then ''guard'' else reason)))
               else (case RiskPolicy.Decide (rt_policy r) class host mode of
                       (decision, origin) \<Rightarrow> Inr (decision, ''policy'', origin))))"

definition DeciderFor :: "PolicyRuntime \<Rightarrow> string \<Rightarrow> string" where
  "DeciderFor r command =
     (if guard_active (rt_guard r) \<and> (case Classify command of Inl _ \<Rightarrow> False | Inr _ \<Rightarrow> True)
      then ''guard'' else ''policy'')"

definition explainWithDecider :: "PolicyRuntime \<Rightarrow> string \<Rightarrow> string \<Rightarrow> string \<Rightarrow> string" where
  "explainWithDecider r explanation decider reason =
     (let guard = (case rt_guard r of
                     Some g \<Rightarrow> if guard_active (rt_guard r) then Command g else ''not configured''
                   | None \<Rightarrow> ''not configured'')
      in explanation @ ''\<newline>decider:   '' @ decider @ ''\<newline>guard:     '' @ guard @ ''\<newline>reason:    '' @ reason)"

record Frame =
  Cmd :: string
  Args :: "json option"
  FSession :: string

record explain_reply =
  explanation :: string
  esource :: string
  edecider :: string
  guard_is_active :: bool

definition policy_handle ::
  "guard_runner \<Rightarrow> (string \<Rightarrow> string + GuardOutcome) \<Rightarrow> PolicyRuntime \<Rightarrow> Frame \<Rightarrow> gate_error + explain_reply" where
  "policy_handle run unmarshal r frame =
     (if Cmd frame \<noteq> ''policy.explain'' then Inl UnknownCommand
      else (case decodeArgs (Args frame) of
              Inl err \<Rightarrow> Inl (ArgsErr err)
            | Inr obj \<Rightarrow>
          (case (string_field ''command'' obj, string_field ''url'' obj, string_field ''mode'' obj) of
             (Inr command, Inr url, Inr m) \<Rightarrow>
               (let mode = (if m \<noteq> [] then m else rt_mode r) in
                case Explain (rt_policy r) command url mode of
                  Inl err \<Rightarrow> Inl (PolicyErr err)
                | Inr text \<Rightarrow>
                    (case runtime_decide run unmarshal r command url mode [] of
                       Inl err \<Rightarrow> Inl err
                     | Inr (_, decider, reason) \<Rightarrow>
                         Inr \<lparr>explanation = explainWithDecider r text decider reason,
                              esource = Source (rt_policy r), edecider = decider,
                              guard_is_active = guard_active (rt_guard r)\<rparr>))
           | (Inl err, _, _) \<Rightarrow> Inl (ArgsErr err)
           | (_, Inl err, _) \<Rightarrow> Inl (ArgsErr err)
           | (_, _, Inl err) \<Rightarrow> Inl (ArgsErr err))))"

section \<open>Asking a human\<close>

text \<open>The runtime of the out-of-band channel: the prompts, the local policy, the mode and the
  decision hook that replaces the policy when it is set.\<close>

record OOBRuntime =
  oob_mgr :: oob_manager
  oob_policy :: policy
  oob_mode :: Mode
  decide :: "decide_hook option"

definition NewOOBRuntime :: "oob_manager \<Rightarrow> policy \<Rightarrow> Mode \<Rightarrow> OOBRuntime" where
  "NewOOBRuntime mgr p mode = \<lparr>oob_mgr = mgr, oob_policy = p, oob_mode = mode, decide = None\<rparr>"

definition SetDecider :: "OOBRuntime \<Rightarrow> decide_hook \<Rightarrow> OOBRuntime" where
  "SetDecider r hook = r\<lparr>decide := Some hook\<rparr>"

fun joinWarnings_loop :: "bool \<Rightarrow> string \<Rightarrow> string list \<Rightarrow> string" where
  "joinWarnings_loop first result [] = result"
| "joinWarnings_loop first result (w # ws) =
     joinWarnings_loop False ((if first then result else result @ ''; '') @ w) ws"

definition joinWarnings :: "string list \<Rightarrow> string" where
  "joinWarnings warnings = joinWarnings_loop True [] warnings"

definition classOf :: "string \<Rightarrow> RiskClass" where
  "classOf command = (case Classify command of Inl _ \<Rightarrow> ClassInteract | Inr class \<Rightarrow> class)"

definition approval_title :: string where
  "approval_title = ''Symaira Browse: Freigabe n'' @ [CHR 0xC3, CHR 0xB6] @ ''tig''"

definition handoff_title :: string where
  "handoff_title = ''Symaira Browse: der Agent wartet''"

definition approval_reason :: "string \<Rightarrow> RiskClass \<Rightarrow> string \<Rightarrow> string list \<Rightarrow> string" where
  "approval_reason command class url warnings =
     (let reason = command @ '' ('' @ class @ '') gegen '' @ url
      in if warnings \<noteq> [] then reason @ ''; Injection-Warnungen: '' @ joinWarnings warnings else reason)"

text \<open>\<open>now\<close> is the clock when the prompt is created and \<open>polls\<close> are the polls of the wait, with what
  the other goroutines did meanwhile; \<^const>\<open>None\<close> means that the call is still waiting.\<close>

definition RequestApproval ::
  "go_time \<Rightarrow> poll list \<Rightarrow> OOBRuntime \<Rightarrow> string \<Rightarrow> string \<Rightarrow> RiskClass \<Rightarrow> string list \<Rightarrow> duration
     \<Rightarrow> ((bool \<times> prompt option \<times> oob_error option) \<times> OOBRuntime) option" where
  "RequestApproval now polls r command url class warnings timeout =
     (case OobPrompts.Create now (oob_mgr r) KindApproval approval_title
             (approval_reason command class url warnings) timeout of
           (p, mgr) \<Rightarrow>
             (case ResolveWait mgr (PromptID p) polls of
                None \<Rightarrow> None
              | Some ((ok, result, err), mgr') \<Rightarrow>
                  (let r' = r\<lparr>oob_mgr := mgr'\<rparr> in
                   case err of
                     Some e \<Rightarrow> if e \<noteq> CtxCanceled then Some ((False, result, Some e), r')
                               else Some ((ok, result, None), r')
                   | None \<Rightarrow> Some ((ok, result, None), r'))))"

text \<open>The verdict of the gate: allowed, the decision, who decided, the error.\<close>

type_synonym gate_result = "bool \<times> Decision \<times> string \<times> gate_error option"

definition gate_decision :: "OOBRuntime \<Rightarrow> string \<Rightarrow> string \<Rightarrow> gate_error + (Decision \<times> string)" where
  "gate_decision r command url =
     (case decide r of
        Some hook \<Rightarrow>
          (case hook command url (oob_mode r) [] of
             Inl err \<Rightarrow> Inl err
           | Inr (decision, decider, _) \<Rightarrow> Inr (decision, decider))
      | None \<Rightarrow>
          (case Classify command of
             Inl err \<Rightarrow> Inl (PolicyErr err)
           | Inr class \<Rightarrow>
               (case hostOfURL url of
                  None \<Rightarrow> Inl Panic
                | Some host \<Rightarrow> Inr (fst (RiskPolicy.Decide (oob_policy r) class host (oob_mode r)), ''policy''))))"

definition DecideAndConfirm ::
  "go_time \<Rightarrow> poll list \<Rightarrow> OOBRuntime \<Rightarrow> string \<Rightarrow> string \<Rightarrow> duration \<Rightarrow> (gate_result \<times> OOBRuntime) option" where
  "DecideAndConfirm now polls r command url timeout =
     (case gate_decision r command url of
        Inl err \<Rightarrow> Some ((False, [], [], Some err), r)
      | Inr (decision, decider) \<Rightarrow>
          if decision = Allow then Some ((True, decision, decider, None), r)
          else if decision = Deny then Some ((False, decision, decider, None), r)
          else if decision = Confirm then
            (case RequestApproval now polls r command url (classOf command) [] timeout of
               None \<Rightarrow> None
             | Some ((ok, _, err), r') \<Rightarrow>
                 Some ((ok, decision, if ok then ''human'' else decider, map_option OobErr err), r'))
          else Some ((False, decision, decider, None), r))"

text \<open>\<open>end_time\<close> is the clock when the payload is built; \<open>Milliseconds\<close> truncates towards zero.\<close>

definition milliseconds_of :: "duration \<Rightarrow> int" where
  "milliseconds_of d = (if 0 \<le> d then d div millisecond else - (- d div millisecond))"

definition set_key :: "(string \<times> json) list \<Rightarrow> string \<times> json \<Rightarrow> (string \<times> json) list" where
  "set_key obj kv = AList.update (fst kv) (snd kv) obj"

definition StartHandoff ::
  "go_time \<Rightarrow> go_time \<Rightarrow> poll list \<Rightarrow> OOBRuntime \<Rightarrow> string \<Rightarrow> string \<Rightarrow> duration
     \<Rightarrow> (((string \<times> json) list option \<times> gate_error option) \<times> OOBRuntime) option" where
  "StartHandoff now end_time polls r session reason timeout =
     (case OobPrompts.Create now (oob_mgr r) KindHandoff handoff_title reason timeout of
        (p, mgr) \<Rightarrow>
          (case Wait mgr (PromptID p) polls of
             None \<Rightarrow> None
           | Some ((result, err), mgr') \<Rightarrow>
               (let r' = r\<lparr>oob_mgr := mgr'\<rparr> in
                case (if err = Some CtxCanceled then None else err) of
                  Some e \<Rightarrow> Some ((None, Some (OobErr e)), r')
                | None \<Rightarrow>
                    (case result of
                       None \<Rightarrow> Some ((None, Some Panic), r')
                     | Some q \<Rightarrow>
                         (let base = [(''status'', JStr (PStatus q)), (''prompt_id'', JStr (PromptID q)),
                                      (''duration_ms'', JNum (int_str (milliseconds_of (end_time - CreatedAt q))))];
                              payload = foldl set_key base (case OobPrompts.Result q of None \<Rightarrow> [] | Some kvs \<Rightarrow> kvs)
                          in Some ((Some payload, if PStatus q = StatusTimeout
                                                  then Some (HandoffErr (NewHandoffTimeoutError session))
                                                  else None), r'))))))"

datatype oob_reply =
    OobStatus "prompt option"
  | OobPrompt prompt
  | OobPayload "(string \<times> json) list"

text \<open>\<open>parseDuration\<close> is \<open>time.ParseDuration\<close>.\<close>

definition handoff_timeout :: "(string \<Rightarrow> duration option) \<Rightarrow> string \<Rightarrow> gate_error + duration" where
  "handoff_timeout parseDuration text =
     (if text = [] then Inr (5 * minute)
      else (case parseDuration text of None \<Rightarrow> Inl (InvalidTimeout text) | Some d \<Rightarrow> Inr d))"

definition oob_handle ::
  "(string \<Rightarrow> duration option) \<Rightarrow> go_time \<Rightarrow> go_time \<Rightarrow> poll list \<Rightarrow> string list \<Rightarrow> OOBRuntime \<Rightarrow> Frame
     \<Rightarrow> ((gate_error + oob_reply) \<times> OOBRuntime) option" where
  "oob_handle parseDuration now end_time polls order r frame =
     (if Cmd frame = ''oob.status'' then
        (case OobPrompts.Active order (oob_mgr r) of
           Inl _ \<Rightarrow> Some (Inr (OobStatus None), r)
         | Inr p \<Rightarrow> Some (Inr (OobStatus (Some p)), r))
      else if Cmd frame = ''oob.complete'' then
        (case decodeArgs (Args frame) of
           Inl err \<Rightarrow> Some (Inl (ArgsErr err), r)
         | Inr obj \<Rightarrow>
             (case string_field ''id'' obj of
                Inl err \<Rightarrow> Some (Inl (ArgsErr err), r)
              | Inr i \<Rightarrow>
                  (case OobPrompts.Complete (oob_mgr r) i None of
                     (Inl err, mgr) \<Rightarrow> Some (Inl (OobErr err), r\<lparr>oob_mgr := mgr\<rparr>)
                   | (Inr p, mgr) \<Rightarrow> Some (Inr (OobPrompt p), r\<lparr>oob_mgr := mgr\<rparr>))))
      else if Cmd frame = ''oob.cancel'' then
        (case decodeArgs (Args frame) of
           Inl err \<Rightarrow> Some (Inl (ArgsErr err), r)
         | Inr obj \<Rightarrow>
             (case (string_field ''id'' obj, string_field ''reason'' obj) of
                (Inr i, Inr reason) \<Rightarrow>
                  (case Cancel (oob_mgr r) i reason of
                     (Inl err, mgr) \<Rightarrow> Some (Inl (OobErr err), r\<lparr>oob_mgr := mgr\<rparr>)
                   | (Inr p, mgr) \<Rightarrow> Some (Inr (OobPrompt p), r\<lparr>oob_mgr := mgr\<rparr>))
              | (Inl err, _) \<Rightarrow> Some (Inl (ArgsErr err), r)
              | (_, Inl err) \<Rightarrow> Some (Inl (ArgsErr err), r)))
      else if Cmd frame = ''handoff'' then
        (case decodeArgs (Args frame) of
           Inl err \<Rightarrow> Some (Inl (ArgsErr err), r)
         | Inr obj \<Rightarrow>
             (case (string_field ''reason'' obj, string_field ''timeout'' obj) of
                (Inr reason, Inr text) \<Rightarrow>
                  (case handoff_timeout parseDuration text of
                     Inl err \<Rightarrow> Some (Inl err, r)
                   | Inr timeout \<Rightarrow>
                       (case StartHandoff now end_time polls r (FSession frame) reason timeout of
                          None \<Rightarrow> None
                        | Some ((payload, err), r') \<Rightarrow>
                            Some ((case err of
                                     Some e \<Rightarrow> Inl e
                                   | None \<Rightarrow> Inr (OobPayload (case payload of None \<Rightarrow> [] | Some kvs \<Rightarrow> kvs))), r')))
              | (Inl err, _) \<Rightarrow> Some (Inl (ArgsErr err), r)
              | (_, Inl err) \<Rightarrow> Some (Inl (ArgsErr err), r)))
      else Some (Inl UnknownCommand, r))"

section \<open>The frame dispatcher\<close>

definition frameURL :: "Frame \<Rightarrow> string" where
  "frameURL frame =
     (case Args frame of
        None \<Rightarrow> []
      | Some j \<Rightarrow>
          (case object_fields j of
             Inl _ \<Rightarrow> []
           | Inr obj \<Rightarrow>
               (case (string_field ''url'' obj, strings_field ''urls'' obj) of
                  (Inr url, Inr urls) \<Rightarrow>
                    (if url \<noteq> [] then url else if urls \<noteq> [] then hd urls else url)
                | _ \<Rightarrow> [])))"

definition approvalTimeoutFromConfig :: "int option \<Rightarrow> duration" where
  "approvalTimeoutFromConfig cfg =
     (case cfg of Some s \<Rightarrow> if 0 < s then s * second else 60 * second | None \<Rightarrow> 60 * second)"

definition fetch_commands :: "string list" where
  "fetch_commands = [''fetch.url'', ''fetch.batch'', ''wayback.snapshots'']"

definition page_commands :: "string list" where
  "page_commands =
     [''open'', ''goto'', ''back'', ''forward'', ''reload'', ''wait'', ''snapshot'', ''read'', ''find'', ''a11y'',
      ''screenshot'', ''click'', ''dblclick'', ''fill'', ''type'', ''press'', ''hover'', ''focus'', ''select'', ''check'',
      ''uncheck'', ''scroll'', ''scrollintoview'', ''get.text'', ''get.html'', ''get.value'', ''get.attr'', ''get.title'',
      ''get.url'', ''get.count'', ''get.box'', ''get.styles'', ''is.visible'', ''is.enabled'', ''is.checked'',
      ''cookies.list'', ''cookies.set'', ''cookies.clear'', ''storage.list'', ''storage.set'', ''storage.clear'',
      ''set.viewport'', ''set.device'', ''set.geo'', ''set.offline'', ''set.headers'', ''set.media'', ''set.user-agent'',
      ''eval'', ''console.list'', ''console.clear'', ''errors.list'', ''errors.clear'', ''network.requests'',
      ''network.request'', ''network.route'', ''network.unroute'', ''network.har'', ''upload'', ''downloads.list'',
      ''download.setdir'']"

definition ungated_commands :: "string list" where
  "ungated_commands =
     [''flow.record.start'', ''flow.record.stop'', ''flow.record.status'',
      ''tab.list'', ''tab.new'', ''tab.switch'', ''tab.close'', ''window.new'',
      ''frame.tree'', ''frame.main'', ''frame.select'',
      ''dialog.status'', ''dialog.accept'', ''dialog.dismiss'', ''dialog.auto'']"

text \<open>Where a frame goes: the runtimes behind the gate carry the decider that is journaled.\<close>

datatype route =
    ToCache
  | ToFetch string
  | Pong
  | ToPage string
  | ToState
  | ToAuth
  | ToJournal
  | ToPolicy
  | ToOob
  | ToNavigation

definition gated ::
  "go_time \<Rightarrow> poll list \<Rightarrow> OOBRuntime \<Rightarrow> Frame \<Rightarrow> duration \<Rightarrow> (string \<Rightarrow> route)
     \<Rightarrow> ((gate_error + route) \<times> OOBRuntime) option" where
  "gated now polls r frame timeout dest =
     (case DecideAndConfirm now polls r (Cmd frame) (frameURL frame) timeout of
        None \<Rightarrow> None
      | Some ((ok, decision, decider, err), r') \<Rightarrow>
          Some ((case err of
                   Some e \<Rightarrow> Inl e
                 | None \<Rightarrow> if \<not> ok then Inl (PeerDenied decision (Cmd frame)) else Inr (dest decider)), r'))"

definition dispatch ::
  "go_time \<Rightarrow> poll list \<Rightarrow> OOBRuntime \<Rightarrow> duration \<Rightarrow> Frame \<Rightarrow> ((gate_error + route) \<times> OOBRuntime) option" where
  "dispatch now polls r timeout frame =
     (let c = Cmd frame in
      if c = ''cache.get'' then Some (Inr ToCache, r)
      else if c \<in> set fetch_commands then gated now polls r frame timeout ToFetch
      else if c = ''daemon.ping'' then Some (Inr Pong, r)
      else if c \<in> set page_commands then gated now polls r frame timeout ToPage
      else if c \<in> set [''state.save'', ''state.load'', ''state.list'', ''state.show'', ''state.clear'', ''state.clean'']
        then Some (Inr ToState, r)
      else if c = ''auth.login'' then Some (Inr ToAuth, r)
      else if c \<in> set [''journal.tail'', ''journal.show'', ''trace.replay''] then Some (Inr ToJournal, r)
      else if c = ''policy.explain'' then Some (Inr ToPolicy, r)
      else if c \<in> set [''oob.status'', ''oob.complete'', ''oob.cancel'', ''handoff''] then Some (Inr ToOob, r)
      else if c \<in> set ungated_commands then Some (Inr ToNavigation, r)
      else Some (Inl UnknownCommand, r))"

section \<open>Lemmas\<close>

text \<open>The contract of a decision hook: a verdict is one of the three decisions.\<close>

locale decider =
  fixes hook :: decide_hook
  assumes verdict: "hook command url mode ws = Inr (d, who, why) \<Longrightarrow> d \<in> {Allow, Confirm, Deny}"
begin

lemma gate_verdict:
  assumes "decide r = Some hook" and "DecideAndConfirm now polls r c u t = Some ((ok, d, who, err), r')"
  shows "(\<exists>e. err = Some e \<and> \<not> ok) \<or> d \<in> {Allow, Confirm, Deny}"
  using assms verdict
  by (fastforce simp: DecideAndConfirm_def gate_decision_def split: sum.splits prod.splits option.splits if_splits)

end

lemma runtime_policy_valid: "Validate (rt_policy (NewPolicyRuntimeWithGuard df path mode g)) = None"
  by (cases "LoadPolicy df path")
    (simp_all add: NewPolicyRuntimeWithGuard_def LoadPolicy_valid, simp add: Validate_def)

lemma guard_decide_Inr:
  assumes "guard_decide run um gopt input = Inr out"
  shows "\<exists>g level stdout. gopt = Some g \<and> guardRiskLevel (GClass input) = Inr level
    \<and> run (if 0 < GTimeout g then Some (GTimeout g) else None) (Executable g) (Subcommand g @ [''decide''])
          (guard_payload input level) = RunOk stdout
    \<and> um stdout = Inr out \<and> OutDecision out \<in> {Allow, Confirm, Deny}"
  using assms by (auto simp: guard_decide_def Let_def split: option.splits sum.splits run_result.splits if_splits)

interpretation rt: decider "runtime_decide run um (NewPolicyRuntimeWithGuard df path mode g)"
  for run um df path mode g
proof
  fix command url m ws d who why
  assume a: "runtime_decide run um (NewPolicyRuntimeWithGuard df path mode g) command url m ws = Inr (d, who, why)"
  let ?p = "rt_policy (NewPolicyRuntimeWithGuard df path mode g)"
  note v = Validate_decision [OF runtime_policy_valid [of df path mode g]]
  from a show "d \<in> {Allow, Confirm, Deny}"
    using v by (auto simp: runtime_decide_def Let_def split: sum.splits option.splits if_splits prod.splits
        dest!: guard_decide_Inr) (metis fst_conv insertE singletonD)+
qed

lemma guardRiskLevel_valid: "ValidClass c \<Longrightarrow> \<exists>level. guardRiskLevel c = Inr level"
  by (auto simp: ValidClass_iff AllClasses_def guardRiskLevel_def)

lemma RequestApproval_completed:
  assumes "RequestApproval now polls r command url class ws timeout = Some ((True, p, err), r')"
  shows "\<exists>t \<in> set polls. \<exists>e \<in> set (others t) \<union> set (late t).
           completes (prompt_id (Suc (next_id (oob_mgr r)))) e"
proof -
  let ?i = "prompt_id (Suc (next_id (oob_mgr r)))"
  from assms obtain m q e m' where "ResolveWait m ?i polls = Some ((True, q, e), m')" and "not_completed ?i m"
    by (auto simp: RequestApproval_def Let_def OobPrompts.Create_def not_completed_def
        split: option.splits if_splits)
  then show ?thesis by (rule ResolveWait_completed)
qed

lemma RequestApproval_returns:
  assumes "0 < timeout" and "0 < now" and "t \<in> set polls" and "now + timeout < clock t"
  shows "\<exists>res. RequestApproval now polls r command url class ws timeout = Some res"
proof -
  obtain p m where c: "OobPrompts.Create now (oob_mgr r) KindApproval approval_title
      (approval_reason command class url ws) timeout = (p, m)"
    by (metis surj_pair)
  then have "prompts m (PromptID p) = Some p" "PTimeout p = timeout" "CreatedAt p = now"
    by (auto simp: OobPrompts.Create_def Let_def)
  with Wait_returns [of m "PromptID p" p t polls] assms obtain w where "Wait m (PromptID p) polls = Some w" by auto
  from ResolveWait_returns [OF this] obtain ok q err m' where "ResolveWait m (PromptID p) polls = Some ((ok, q, err), m')"
    by auto
  with c show ?thesis by (cases err) (auto simp: RequestApproval_def Let_def)
qed

lemma DecideAndConfirm_allowed:
  assumes "decide r = Some hook" and "DecideAndConfirm now polls r c u timeout = Some ((True, d, who, err), r')"
  shows "\<exists>who' why. hook c u (oob_mode r) [] = Inr (d, who', why)
    \<and> (d = Allow \<and> who = who' \<or>
       d = Confirm \<and> who = ''human''
         \<and> (\<exists>t \<in> set polls. \<exists>e \<in> set (others t) \<union> set (late t). completes (prompt_id (Suc (next_id (oob_mgr r)))) e))"
  using assms
  by (auto simp: DecideAndConfirm_def gate_decision_def split: sum.splits prod.splits option.splits if_splits
      dest!: RequestApproval_completed)

lemma dispatch_gated:
  assumes "dispatch now polls r timeout frame = Some (Inr dest, r')"
    and "dest = ToPage who \<or> dest = ToFetch who"
  shows "\<exists>d err. DecideAndConfirm now polls r (Cmd frame) (frameURL frame) timeout = Some ((True, d, who, err), r')"
proof -
  have "\<exists>target. gated now polls r frame timeout target = Some (Inr dest, r') \<and> (target = ToPage \<or> target = ToFetch)"
    using assms by (fastforce simp: dispatch_def Let_def split: if_splits)
  with assms(2) show ?thesis
    by (fastforce simp: gated_def split: option.splits prod.splits if_splits)
qed

section \<open>Properties\<close>



text \<open>C11. Delegation fails closed: while a guard is configured, an answer other than deny means that
  the guard process was started with the request for this command, ended successfully, and its
  output was read as exactly that verdict; every failure of the guard is a deny and the local
  policy is never consulted instead.\<close>

theorem guard_failure_denies:
  assumes "guard_active (rt_guard rt)"
    and "runtime_decide run unmarshal rt command url mode ws = Inr (d, who, why)" and "d \<noteq> Deny"
  shows "\<exists>g cls host level stdout out. rt_guard rt = Some g \<and> Classify command = Inr cls
    \<and> hostOfURL url = Some host \<and> guardRiskLevel cls = Inr level
    \<and> run (if 0 < GTimeout g then Some (GTimeout g) else None) (Executable g) (Subcommand g @ [''decide''])
          (guard_payload \<lparr>GCommand = command, GClass = cls, GDomain = host, GWarnings = ws\<rparr> level) = RunOk stdout
    \<and> unmarshal stdout = Inr out \<and> OutDecision out = d \<and> d \<in> {Allow, Confirm} \<and> who = ''guard''"
proof -
  from assms(2) obtain cls where c: "Classify command = Inr cls"
    by (auto simp: runtime_decide_def split: sum.splits)
  with assms(2) obtain host where h: "hostOfURL url = Some host"
    by (auto simp: runtime_decide_def split: option.splits)
  let ?input = "\<lparr>GCommand = command, GClass = cls, GDomain = host, GWarnings = ws\<rparr>"
  from assms c h obtain out where g: "guard_decide run unmarshal (rt_guard rt) ?input = Inr out"
    and d: "d = OutDecision out" and w: "who = ''guard''"
    by (auto simp: runtime_decide_def Let_def split: sum.splits)
  from guard_decide_Inr [OF g] d w c h assms(3) show ?thesis by auto
qed

theorem guard_failure_denies_witness:
  "\<exists>(run :: guard_runner) (unmarshal :: string \<Rightarrow> string + GuardOutcome) level stdout out.
     run (Some GuardTimeout) ''symbrain'' [''guard'', ''decide'']
         (guard_payload \<lparr>GCommand = ''eval'', GClass = ClassEval, GDomain = ''a.test'', GWarnings = []\<rparr> level) = RunOk stdout
     \<and> run None [] [] JNull = RunError [] ''exit 1'' \<and> unmarshal stdout = Inr out \<and> OutDecision out = Allow"
proof -
  let ?rt = "\<lparr>rt_policy = \<lparr>Rules = [], Source = []\<rparr>, rt_mode = ModeMCP,
     rt_guard = Some \<lparr>Executable = ''symbrain'', Subcommand = [''guard''], GTimeout = GuardTimeout\<rparr>\<rparr>"
  let ?run = "\<lambda>(_ :: duration option) exe args (_ :: json). if exe = ''symbrain'' \<and> args = [''guard'', ''decide''] then RunOk ''ok'' else RunError [] ''exit 1''"
  let ?um = "\<lambda>_ :: string. Inr \<lparr>OutDecision = Allow, OutReason = ''trusted''\<rparr> :: string + GuardOutcome"
  have a: "guard_active (rt_guard ?rt)" by code_simp
  have b: "runtime_decide ?run ?um ?rt ''eval'' ''https://a.test/'' ModeMCP [] = Inr (Allow, ''guard'', ''guard:trusted'')"
    by code_simp
  have c: "Classify ''eval'' = Inr ClassEval" "hostOfURL ''https://a.test/'' = Some ''a.test''" by code_simp+
  have d: "Allow \<noteq> Deny" by simp
  from guard_failure_denies [OF a b d] c
  show ?thesis by - (rule exI [of _ ?run], rule exI [of _ ?um], auto)
qed

text \<open>C22. The gate answers: with a positive approval timeout, one poll whose clock is past the creation
  of the prompt plus the timeout is enough for the dispatcher to return, for every command, every
  decision hook and every interleaving with the other users of the prompt manager.\<close>

theorem dispatch_returns:
  assumes "0 < timeout" and "0 < now" and "t \<in> set polls" and "now + timeout < clock t"
  shows "\<exists>res. dispatch now polls r timeout frame = Some res"
proof -
  have "\<exists>res. DecideAndConfirm now polls r c u timeout = Some res" for c u
    using RequestApproval_returns [OF assms, of r c u "classOf c" "[]"]
    by (auto simp: DecideAndConfirm_def split: sum.splits)
  then have "\<exists>res. gated now polls r frame timeout f = Some res" for f
    by (auto simp: gated_def split: option.splits)
  then show ?thesis by (simp add: dispatch_def Let_def)
qed

theorem dispatch_returns_witness:
  "\<exists>res. dispatch 5 [\<lparr>others = [], late = [], clock = 16, ctxErr = None\<rparr>]
     (NewOOBRuntime OobPrompts.NewManager \<lparr>Rules = [], Source = []\<rparr> ModeMCP) 10
     \<lparr>Cmd = ''eval'', Args = None, FSession = ''s''\<rparr> = Some res"
  by (rule dispatch_returns [where t = "\<lparr>others = [], late = [], clock = 16, ctxErr = None\<rparr>"]) simp_all

text \<open>Credential logins are not gated: \<open>auth.login\<close> is classified as a credential command, which needs
  a confirmation in every mode, and yet the dispatcher forwards its frame without consulting the
  decision hook, whatever the hook and the policy say, even when they deny it.\<close>

theorem auth_login_is_not_gated:
  "Classify ''auth.login'' = Inr ClassCredential \<and> Defaults ClassCredential mode = Confirm
   \<and> dispatch now polls r timeout \<lparr>Cmd = ''auth.login'', Args = args, FSession = s\<rparr> = Some (Inr ToAuth, r)"
proof -
  have "''auth.login'' \<notin> set fetch_commands" "''auth.login'' \<notin> set page_commands" by code_simp+
  moreover have "Classify ''auth.login'' = Inr ClassCredential" by code_simp
  ultimately show ?thesis by (simp add: dispatch_def Defaults_def)
qed

text \<open>The gate and the explanation disagree on the host: for a URL with user information the gate
  asks about the user name while \<open>Explain\<close> reports the real host, so a rule for a trusted domain
  is applied to a foreign one; and a URL whose first slash is its last character makes the gate
  panic.\<close>

theorem gate_host_disagrees:
  "hostOfURL ''https://bank.test:pw@evil.test/'' = Some ''bank.test''
   \<and> hostOf ''https://bank.test:pw@evil.test/'' = ''evil.test''
   \<and> hostOfURL ''example.com/'' = None"
  by code_simp

end
