(* ===== verification/StableRefs.thy ===== *)
theory StableRefs
  imports Prelude "HOL-Library.AList"
begin

text \<open>
  \<open>internal/engine/stable_refs.go\<close>: the registry that turns the per-snapshot element references of
  a page into references that stay valid across snapshots. A Go record is a heap object shared by
  the maps \<open>byKey\<close>, \<open>byRef\<close> and \<open>current\<close>; since \<open>byRef\<close> never loses an entry, a record is addressed
  by its reference: \<open>byRef\<close> holds the records and the other two maps hold references. \<open>current\<close>, over
  which the code iterates, is an association list.

  A Go map is visited in an unspecified order that may differ from loop to loop: \<open>visits n\<close> is the
  order of the n-th loop over the references of the snapshot, \<open>shuffle\<close> that of the loop over the
  replacements. SHA-256 is the parameter \<open>digest\<close> of \<open>RefKey\<close>.
\<close>

section \<open>Data\<close>

record SnapshotRef =
  NodeID :: string
  BackendNodeID :: int
  SRole :: string
  SName :: string
  SValue :: string
  SState :: string
  SVisible :: bool
  SInteractive :: bool
  SURL :: string
  SRefKey :: string
  DOMPath :: string
  SiblingOrdinal :: nat
  SAttributes :: "(string \<times> string) list"

record RefTombstone =
  TRefKey :: string
  TRef :: string
  TRole :: string
  TName :: string
  TReason :: string

record stableRefRecord =
  rkey :: string
  rref :: string
  rsnapshot :: SnapshotRef
  rtombstone :: "RefTombstone option"
  permanent :: bool

record stableRefRegistry =
  byKey :: "string \<rightharpoonup> string"
  byRef :: "string \<rightharpoonup> stableRefRecord"
  current :: "(string \<times> string) list"
  next_ref :: nat

definition zero_ref :: SnapshotRef where
  "zero_ref = \<lparr>NodeID = [], BackendNodeID = 0, SRole = [], SName = [], SValue = [], SState = [],
     SVisible = False, SInteractive = False, SURL = [], SRefKey = [], DOMPath = [], SiblingOrdinal = 0,
     SAttributes = []\<rparr>"

definition newStableRefRegistry :: stableRefRegistry where
  "newStableRefRegistry = \<lparr>byKey = Map.empty, byRef = Map.empty, current = [], next_ref = 1\<rparr>"

section \<open>The content key\<close>

text \<open>\<open>strings.Fields\<close> splits around the Unicode white space of \<^const>\<open>trim_space\<close>; \<open>field_end\<close> is the
  text up to the next white space.\<close>

fun field_end :: "string \<Rightarrow> string" where
  "field_end [] = []"
| "field_end (c # cs) = (if ws_prefix (c # cs) \<noteq> None then [] else c # field_end cs)"

lemma field_end_length: "length (field_end s) \<le> length s"
  by (induction s) auto

lemma trim_left_space_length: "length (trim_left_space s) \<le> length s"
  using trim_left_prefix [of s] by (rule suffix_length_le)

lemma field_end_nonempty: "ws_prefix t = None \<Longrightarrow> t \<noteq> [] \<Longrightarrow> field_end t \<noteq> []"
  by (cases t) auto

function fields :: "string \<Rightarrow> string list" where
  "fields s =
     (let t = trim_left_space s in
      if t = [] then [] else field_end t # fields (drop (length (field_end t)) t))"
  by auto
termination
proof (relation "measure length")
  fix s t :: string
  assume t: "t = trim_left_space s" "t \<noteq> []"
  then have "field_end t \<noteq> []" by (simp add: field_end_nonempty ws_prefix_trim_left)
  with t(2) have "length (drop (length (field_end t)) t) < length t" by (cases "field_end t") auto
  also have "length t \<le> length s" using trim_left_space_length t(1) by simp
  finally show "(drop (length (field_end t)) t, s) \<in> measure length" by simp
qed simp

declare fields.simps [simp del]

definition normalizeRefPart :: "string \<Rightarrow> string" where
  "normalizeRefPart value = join '' '' (fields (trim_space value))"

definition RefKey_payload :: "string \<Rightarrow> string \<Rightarrow> string \<Rightarrow> nat \<Rightarrow> string" where
  "RefKey_payload role name path ordinal =
     join [CHR 0x00] [normalizeRefPart role, normalizeRefPart name, normalizeRefPart path, nat_str ordinal]"

definition RefKey :: "(string \<Rightarrow> string) \<Rightarrow> string \<Rightarrow> string \<Rightarrow> string \<Rightarrow> nat \<Rightarrow> string" where
  "RefKey digest role name path ordinal = digest (RefKey_payload role name path ordinal)"

section \<open>Operations\<close>

definition ref_name :: "nat \<Rightarrow> string" where
  "ref_name n = CHR ''e'' # nat_str n"

definition newRecord :: "stableRefRegistry \<Rightarrow> string \<Rightarrow> string \<times> stableRefRegistry" where
  "newRecord r key =
     (let ref = ref_name (next_ref r);
          rec = \<lparr>rkey = key, rref = ref, rsnapshot = zero_ref, rtombstone = None, permanent = False\<rparr>
      in (ref, r\<lparr>next_ref := Suc (next_ref r), byKey := (byKey r)(key \<mapsto> ref), byRef := (byRef r)(ref \<mapsto> rec)\<rparr>))"

definition tombstone :: "stableRefRegistry \<Rightarrow> string option \<Rightarrow> string \<Rightarrow> bool \<Rightarrow> stableRefRegistry" where
  "tombstone r ref reason perm =
     (case Option.bind ref (byRef r) of
        None \<Rightarrow> r
      | Some rec \<Rightarrow>
          (let t = (case rtombstone rec of
                      None \<Rightarrow> \<lparr>TRefKey = rkey rec, TRef = rref rec, TRole = SRole (rsnapshot rec),
                               TName = SName (rsnapshot rec), TReason = reason\<rparr>
                    | Some t0 \<Rightarrow> t0\<lparr>TReason := reason\<rparr>);
               rec' = rec\<lparr>rtombstone := Some t, permanent := perm\<rparr>
           in r\<lparr>byRef := (byRef r)(rref rec \<mapsto> rec'), current := AList.delete (rkey rec) (current r)\<rparr>))"

definition invalidate :: "stableRefRegistry \<Rightarrow> string \<Rightarrow> stableRefRegistry" where
  "invalidate r reason =
     foldl (\<lambda>r' key. tombstone r' (map_of (current r') key) reason (reason = ''navigated''))
       r (sort (map fst (current r)))"

text \<open>The first loop of \<open>apply\<close>: records of the previous snapshot that are gone are tombstoned.\<close>

definition retire :: "string set \<Rightarrow> stableRefRegistry \<Rightarrow> stableRefRegistry" where
  "retire seen r =
     foldl (\<lambda>r' kr. if fst kr \<in> seen then r' else tombstone r' (Some (snd kr)) ''removed'' False) r (current r)"

record apply_state =
  areg :: stableRefRegistry
  stableRefs :: "(string \<times> SnapshotRef) list"
  oldToNew :: "(string \<times> string) list"

text \<open>The record of a key that is present: a fresh one when there is none or it is gone for good,
  otherwise the known one, revived.\<close>

definition obtain_record :: "stableRefRegistry \<Rightarrow> string \<Rightarrow> SnapshotRef \<Rightarrow> string \<times> stableRefRegistry" where
  "obtain_record r key snap =
     (let fresh = (case Option.bind (byKey r key) (byRef r) of None \<Rightarrow> True | Some rec \<Rightarrow> permanent rec);
          (ref, r1) = (if fresh then newRecord r key else (the (byKey r key), r));
          rec = the (byRef r1 ref)
      in (ref, r1\<lparr>byRef := (byRef r1)(ref \<mapsto> rec\<lparr>rtombstone := None, rsnapshot := snap\<rparr>),
                  current := AList.update key ref (current r1)\<rparr>))"

definition apply_key :: "(string \<times> SnapshotRef) list \<Rightarrow> apply_state \<Rightarrow> string \<Rightarrow> apply_state" where
  "apply_key refs s key =
     (case find (\<lambda>cr. SRefKey (snd cr) = key) refs of
        None \<Rightarrow> s
      | Some (oldRef, snap) \<Rightarrow>
          if oldRef = [] then s
          else (case obtain_record (areg s) key snap of
                  (ref, r') \<Rightarrow>
                    \<lparr>areg = r', stableRefs = AList.update ref snap (stableRefs s),
                     oldToNew = AList.update oldRef ref (oldToNew s)\<rparr>))"

fun apply_keys :: "(nat \<Rightarrow> (string \<times> SnapshotRef) list) \<Rightarrow> nat \<Rightarrow> apply_state \<Rightarrow> string list \<Rightarrow> apply_state" where
  "apply_keys visits n s [] = s"
| "apply_keys visits n s (key # keys) = apply_keys visits (Suc n) (apply_key (visits n) s key) keys"

definition replaceSnapshotRefs :: "string \<Rightarrow> (string \<times> string) list \<Rightarrow> string" where
  "replaceSnapshotRefs tree replacements =
     foldl (\<lambda>t on. if fst on \<noteq> snd on
                   then replace_all (''[ref='' @ fst on @ '']'') (''[ref='' @ snd on @ '']'') t else t)
       tree replacements"

record SnapshotResult =
  Tree :: string
  Refs :: "(string \<times> SnapshotRef) list"

definition seen_keys :: "(string \<times> SnapshotRef) list \<Rightarrow> string set" where
  "seen_keys refs = set (filter (\<lambda>k. k \<noteq> []) (map (SRefKey \<circ> snd) refs))"

definition sorted_keys :: "(string \<times> SnapshotRef) list \<Rightarrow> string list" where
  "sorted_keys refs = sort (map (SRefKey \<circ> snd) refs)"

definition retired :: "(nat \<Rightarrow> (string \<times> SnapshotRef) list) \<Rightarrow> stableRefRegistry \<Rightarrow> stableRefRegistry" where
  "retired visits r = (if current r \<noteq> [] then retire (seen_keys (visits 0)) r else r)"

definition bound :: "(nat \<Rightarrow> (string \<times> SnapshotRef) list) \<Rightarrow> stableRefRegistry \<Rightarrow> apply_state" where
  "bound visits r =
     apply_keys visits 2 \<lparr>areg = retired visits r, stableRefs = [], oldToNew = []\<rparr> (sorted_keys (visits 1))"

definition apply_registry ::
  "(nat \<Rightarrow> (string \<times> SnapshotRef) list) \<Rightarrow> ((string \<times> string) list \<Rightarrow> (string \<times> string) list)
     \<Rightarrow> stableRefRegistry \<Rightarrow> string \<Rightarrow> SnapshotResult \<times> stableRefRegistry" where
  "apply_registry visits shuffle r tree =
     (let s = bound visits r;
          r' = (areg s)\<lparr>current := filter (\<lambda>kr. snd kr \<in> fst ` set (stableRefs s)) (current (areg s))\<rparr>
      in (\<lparr>Tree = replaceSnapshotRefs tree (shuffle (oldToNew s)), Refs = stableRefs s\<rparr>, r'))"

datatype resolution = Unknown | Stale RefTombstone | Live SnapshotRef

definition resolve :: "stableRefRegistry \<Rightarrow> string \<Rightarrow> resolution" where
  "resolve r ref =
     (case byRef r ref of
        None \<Rightarrow> Unknown
      | Some rec \<Rightarrow> (case rtombstone rec of Some t \<Rightarrow> Stale t | None \<Rightarrow> Live (rsnapshot rec)))"

section \<open>The navigation service's references\<close>

record nav_refs =
  refRegistry :: "stableRefRegistry option"
  service_refs :: "(string \<times> SnapshotRef) list"
  snapshotEpoch :: nat

definition registry_of :: "nav_refs \<Rightarrow> stableRefRegistry" where
  "registry_of s = (case refRegistry s of None \<Rightarrow> newStableRefRegistry | Some r \<Rightarrow> r)"

definition applyStableSnapshot ::
  "(nat \<Rightarrow> (string \<times> SnapshotRef) list) \<Rightarrow> ((string \<times> string) list \<Rightarrow> (string \<times> string) list)
     \<Rightarrow> nav_refs \<Rightarrow> string \<Rightarrow> SnapshotResult \<times> nav_refs" where
  "applyStableSnapshot visits shuffle s tree =
     (case apply_registry visits shuffle (registry_of s) tree of
        (result, r) \<Rightarrow> (result, s\<lparr>refRegistry := Some r, service_refs := Refs result\<rparr>))"

definition invalidateSnapshotRefs :: "nav_refs \<Rightarrow> string \<Rightarrow> nav_refs" where
  "invalidateSnapshotRefs s reason =
     s\<lparr>refRegistry := Some (invalidate (registry_of s) reason), snapshotEpoch := Suc (snapshotEpoch s),
       service_refs := []\<rparr>"

datatype ref_event =
    EvSnapshot "nat \<Rightarrow> (string \<times> SnapshotRef) list" "(string \<times> string) list \<Rightarrow> (string \<times> string) list" string
  | EvInvalidate string

primrec ref_step :: "stableRefRegistry \<Rightarrow> ref_event \<Rightarrow> stableRefRegistry" where
  "ref_step r (EvSnapshot visits shuffle tree) = snd (apply_registry visits shuffle r tree)"
| "ref_step r (EvInvalidate reason) = invalidate r reason"

section \<open>Well-formedness\<close>

definition live :: "stableRefRegistry \<Rightarrow> string \<Rightarrow> bool" where
  "live r ref \<longleftrightarrow> (\<exists>rec. byRef r ref = Some rec \<and> rtombstone rec = None)"

definition wf_record :: "stableRefRegistry \<Rightarrow> string \<Rightarrow> stableRefRecord \<Rightarrow> bool" where
  "wf_record r ref rec \<longleftrightarrow>
     rref rec = ref \<and> (\<exists>n < next_ref r. ref = ref_name n) \<and> (permanent rec \<longrightarrow> rtombstone rec \<noteq> None)
     \<and> (rtombstone rec = None \<longrightarrow> byKey r (rkey rec) = Some ref \<and> SRefKey (rsnapshot rec) = rkey rec)"

definition wf_registry :: "stableRefRegistry \<Rightarrow> bool" where
  "wf_registry r \<longleftrightarrow>
     (\<forall>ref rec. byRef r ref = Some rec \<longrightarrow> wf_record r ref rec)
     \<and> (\<forall>k ref. byKey r k = Some ref \<longrightarrow> (\<exists>rec. byRef r ref = Some rec \<and> rkey rec = k))
     \<and> (\<forall>k ref. (k, ref) \<in> set (current r) \<longrightarrow> byKey r k = Some ref \<and> live r ref)
     \<and> distinct (map fst (current r))"

lemma ref_name_inject [simp]: "ref_name m = ref_name n \<longleftrightarrow> m = n"
  by (simp add: ref_name_def)

lemma ref_name_nonempty [simp]: "ref_name n \<noteq> []"
  by (simp add: ref_name_def)

lemma wf_byRef: "wf_registry r \<Longrightarrow> byRef r ref = Some rec \<Longrightarrow> wf_record r ref rec"
  and wf_byKey: "wf_registry r \<Longrightarrow> byKey r k = Some ref \<Longrightarrow> \<exists>rec. byRef r ref = Some rec \<and> rkey rec = k"
  and wf_current: "wf_registry r \<Longrightarrow> (k, ref) \<in> set (current r) \<Longrightarrow> byKey r k = Some ref \<and> live r ref"
  and wf_distinct: "wf_registry r \<Longrightarrow> distinct (map fst (current r))"
  by (auto simp: wf_registry_def)

lemma wf_new: "wf_registry newStableRefRegistry"
  by (simp add: wf_registry_def newStableRefRegistry_def)

lemma byKey_inject: "wf_registry r \<Longrightarrow> byKey r k = Some ref \<Longrightarrow> byKey r k' = Some ref \<Longrightarrow> k = k'"
  by (metis wf_byKey option.inject)

lemma fresh_ref: "wf_registry r \<Longrightarrow> byRef r (ref_name (next_ref r)) = None"
  by (cases "byRef r (ref_name (next_ref r))") (auto dest!: wf_byRef simp: wf_record_def)

text \<open>What burying a record does, and what a set of burials does to the registry.\<close>

definition bury :: "string \<Rightarrow> bool \<Rightarrow> stableRefRecord \<Rightarrow> stableRefRecord" where
  "bury reason perm rec =
     rec\<lparr>rtombstone := Some \<lparr>TRefKey = rkey rec, TRef = rref rec, TRole = SRole (rsnapshot rec),
                            TName = SName (rsnapshot rec), TReason = reason\<rparr>, permanent := perm\<rparr>"

definition buried :: "string set \<Rightarrow> string \<Rightarrow> bool \<Rightarrow> stableRefRegistry \<Rightarrow> stableRefRegistry" where
  "buried refs reason perm r =
     r\<lparr>byRef := (\<lambda>ref. if ref \<in> refs then map_option (bury reason perm) (byRef r ref) else byRef r ref),
       current := filter (\<lambda>kr. snd kr \<notin> refs) (current r)\<rparr>"

lemma buried_simps [simp]:
  "byKey (buried refs reason perm r) = byKey r" "next_ref (buried refs reason perm r) = next_ref r"
  "current (buried refs reason perm r) = filter (\<lambda>kr. snd kr \<notin> refs) (current r)"
  "byRef (buried refs reason perm r) ref = (if ref \<in> refs then map_option (bury reason perm) (byRef r ref) else byRef r ref)"
  by (simp_all add: buried_def)

lemma buried_empty [simp]: "buried {} reason perm r = r"
  by (simp add: buried_def)

lemma buried_buried:
  "A \<inter> B = {} \<Longrightarrow> buried B reason perm (buried A reason perm r) = buried (A \<union> B) reason perm r"
  by (auto simp: buried_def fun_eq_iff intro!: stableRefRegistry.equality filter_cong)

lemma live_buried [simp]: "live (buried refs reason perm r) ref \<longleftrightarrow> live r ref \<and> ref \<notin> refs"
  by (auto simp: live_def bury_def)

lemma buried_wf:
  assumes "wf_registry r"
  shows "wf_registry (buried refs reason perm r)"
  unfolding wf_registry_def
proof (intro conjI allI impI)
  fix ref rec
  assume "byRef (buried refs reason perm r) ref = Some rec"
  then show "wf_record (buried refs reason perm r) ref rec"
    using assms by (auto simp: bury_def wf_record_def split: if_splits dest!: wf_byRef)
next
  fix k ref
  assume "byKey (buried refs reason perm r) k = Some ref"
  then show "\<exists>rec. byRef (buried refs reason perm r) ref = Some rec \<and> rkey rec = k"
    using assms by (auto simp: bury_def dest!: wf_byKey)
next
  fix k ref
  assume "(k, ref) \<in> set (current (buried refs reason perm r))"
  then show "byKey (buried refs reason perm r) k = Some ref" and "live (buried refs reason perm r) ref"
    using assms by (auto dest: wf_current)
next
  show "distinct (map fst (current (buried refs reason perm r)))"
    using wf_distinct [OF assms] by (simp add: distinct_map_filter)
qed

lemma tombstone_live:
  assumes "wf_registry r" and "live r ref"
  shows "tombstone r (Some ref) reason perm = buried {ref} reason perm r"
proof -
  from assms(2) obtain rec where rec: "byRef r ref = Some rec" "rtombstone rec = None" by (auto simp: live_def)
  with wf_byRef [OF assms(1) rec(1)] have w: "rref rec = ref" "byKey r (rkey rec) = Some ref" by (auto simp: wf_record_def)
  have "AList.delete (rkey rec) (current r) = filter (\<lambda>kr. snd kr \<notin> {ref}) (current r)"
    unfolding AList.delete_eq
  proof (rule filter_cong [OF refl])
    fix kr
    assume "kr \<in> set (current r)"
    then have "byKey r (fst kr) = Some (snd kr)" using wf_current [OF assms(1), of "fst kr" "snd kr"] by simp
    then show "(case kr of (k', v) \<Rightarrow> rkey rec \<noteq> k') = (snd kr \<notin> {ref})"
      using w byKey_inject [OF assms(1)] by (auto split: prod.splits)
  qed
  with rec w show ?thesis
    by (auto simp: tombstone_def Let_def buried_def bury_def intro!: stableRefRegistry.equality)
qed

lemma tombstone_fold:
  assumes "wf_registry r" and "distinct refs" and "\<forall>ref \<in> set refs. live r ref"
  shows "foldl (\<lambda>r' ref. tombstone r' (Some ref) reason perm) r refs = buried (set refs) reason perm r"
  using assms
proof (induction refs arbitrary: r)
  case Nil
  then show ?case by simp
next
  case (Cons ref refs)
  have b: "buried (set refs) reason perm (buried {ref} reason perm r) = buried (set (ref # refs)) reason perm r"
    using Cons.prems(2) by (simp add: buried_buried)
  have "\<forall>x \<in> set refs. live (buried {ref} reason perm r) x" using Cons.prems by auto
  with Cons.IH [OF buried_wf [OF Cons.prems(1)]] Cons.prems b show ?case by (simp add: tombstone_live)
qed

lemma current_snd_distinct: "wf_registry r \<Longrightarrow> distinct (map snd (current r))"
  using wf_distinct [of r] by (auto simp: distinct_map inj_on_def) (meson byKey_inject wf_current)

lemma retire_buried:
  assumes "wf_registry r"
  shows "retire seen r = buried {ref. \<exists>k. (k, ref) \<in> set (current r) \<and> k \<notin> seen} ''removed'' False r"
proof -
  let ?refs = "map snd (filter (\<lambda>kr. fst kr \<notin> seen) (current r))"
  have "foldl (\<lambda>r' kr. if fst kr \<in> seen then r' else tombstone r' (Some (snd kr)) ''removed'' False) r' xs
      = foldl (\<lambda>r' ref. tombstone r' (Some ref) ''removed'' False) r' (map snd (filter (\<lambda>kr. fst kr \<notin> seen) xs))" for r' xs
    by (induction xs arbitrary: r') auto
  then have "retire seen r = foldl (\<lambda>r' ref. tombstone r' (Some ref) ''removed'' False) r ?refs" by (simp add: retire_def)
  also have "\<dots> = buried (set ?refs) ''removed'' False r"
    using assms current_snd_distinct [OF assms]
    by (intro tombstone_fold) (auto simp: distinct_map_filter dest: wf_current)
  also have "set ?refs = {ref. \<exists>k. (k, ref) \<in> set (current r) \<and> k \<notin> seen}" by force
  finally show ?thesis .
qed

lemma invalidate_fold:
  assumes "wf_registry r" and "distinct ks" and "set ks \<subseteq> fst ` set (current r)"
  shows "foldl (\<lambda>r' key. tombstone r' (map_of (current r') key) reason perm) r ks
    = buried {ref. \<exists>k \<in> set ks. (k, ref) \<in> set (current r)} reason perm r"
  using assms
proof (induction ks arbitrary: r)
  case Nil
  then show ?case by simp
next
  case (Cons k ks)
  then obtain ref where ref: "(k, ref) \<in> set (current r)" by auto
  then have m: "map_of (current r) k = Some ref" using wf_distinct [OF Cons.prems(1)] by simp
  let ?r1 = "buried {ref} reason perm r"
  have other: "ref' = ref \<longleftrightarrow> k' = k" if "(k', ref') \<in> set (current r)" for k' ref'
  proof -
    have "byKey r k' = Some ref'" "byKey r k = Some ref" using wf_current [OF Cons.prems(1)] that ref by auto
    then show ?thesis using byKey_inject [OF Cons.prems(1), of k' ref k] by auto
  qed
  have "set ks \<subseteq> fst ` set (current ?r1)"
  proof
    fix k' assume k': "k' \<in> set ks"
    then obtain ref' where "(k', ref') \<in> set (current r)" using Cons.prems(3) by auto
    moreover have "k' \<noteq> k" using k' Cons.prems(2) by auto
    ultimately have "(k', ref') \<in> set (current ?r1)" using other by auto
    then show "k' \<in> fst ` set (current ?r1)" by (rule image_eqI [rotated]) simp
  qed
  then have "foldl (\<lambda>r' key. tombstone r' (map_of (current r') key) reason perm) r (k # ks)
      = buried {ref. \<exists>k \<in> set ks. (k, ref) \<in> set (current ?r1)} reason perm ?r1"
    using Cons.IH [OF buried_wf [OF Cons.prems(1), of "{ref}" reason perm]] Cons.prems(2) m
      tombstone_live [OF Cons.prems(1)] wf_current [OF Cons.prems(1) ref] by simp
  also have "{ref'. \<exists>k \<in> set ks. (k, ref') \<in> set (current ?r1)} = {ref'. \<exists>k \<in> set ks. (k, ref') \<in> set (current r)}"
    (is "_ = ?R") using Cons.prems(2) other by auto
  also have "buried ?R reason perm ?r1 = buried ({ref} \<union> ?R) reason perm r"
    by (rule buried_buried) (use Cons.prems(2) other in auto)
  also have "{ref} \<union> ?R = {ref'. \<exists>k' \<in> set (k # ks). (k', ref') \<in> set (current r)}"
    using other ref by auto
  finally show ?case .
qed

lemma invalidate_buried:
  assumes "wf_registry r"
  shows "invalidate r reason = buried (snd ` set (current r)) reason (reason = ''navigated'') r"
proof -
  have "{ref. \<exists>k \<in> set (sort (map fst (current r))). (k, ref) \<in> set (current r)} = snd ` set (current r)" by force
  with invalidate_fold [OF assms, of "sort (map fst (current r))" reason "reason = ''navigated''"] wf_distinct [OF assms]
  show ?thesis by (simp add: invalidate_def)
qed

lemma invalidate_current [simp]: "wf_registry r \<Longrightarrow> current (invalidate r reason) = []"
  by (simp add: invalidate_buried filter_empty_conv)

text \<open>The record of a present key: which reference it is, and what else it changes.\<close>

lemma obtain_record_cases:
  assumes "wf_registry r"
  obtains (fresh) "byKey r key = None \<or> (\<exists>ref rec. byKey r key = Some ref \<and> byRef r ref = Some rec \<and> permanent rec)"
      "obtain_record r key snap = (ref_name (next_ref r),
         r\<lparr>next_ref := Suc (next_ref r), byKey := (byKey r)(key \<mapsto> ref_name (next_ref r)),
           byRef := (byRef r)(ref_name (next_ref r) \<mapsto> \<lparr>rkey = key, rref = ref_name (next_ref r),
                      rsnapshot = snap, rtombstone = None, permanent = False\<rparr>),
           current := AList.update key (ref_name (next_ref r)) (current r)\<rparr>)"
  | (known) ref rec where "byKey r key = Some ref" "byRef r ref = Some rec" "rkey rec = key" "\<not> permanent rec"
      "obtain_record r key snap = (ref,
         r\<lparr>byRef := (byRef r)(ref \<mapsto> rec\<lparr>rtombstone := None, rsnapshot := snap\<rparr>),
           current := AList.update key ref (current r)\<rparr>)"
proof (cases "byKey r key")
  case None
  then show ?thesis by (intro fresh) (auto simp: obtain_record_def newRecord_def Let_def)
next
  case (Some ref)
  then obtain rec where rec: "byRef r ref = Some rec" "rkey rec = key" using wf_byKey [OF assms] by blast
  show ?thesis
  proof (cases "permanent rec")
    case True
    with Some rec show ?thesis by (intro fresh) (auto simp: obtain_record_def newRecord_def Let_def)
  next
    case False
    with Some rec show ?thesis by (intro known) (auto simp: obtain_record_def Let_def)
  qed
qed

lemma update_current:
  assumes "wf_registry r" and "(k, ref) \<in> set (AList.update key new (current r))"
  shows "k = key \<and> ref = new \<or> k \<noteq> key \<and> (k, ref) \<in> set (current r)"
proof -
  have d: "distinct (map fst (AList.update key new (current r)))"
    using wf_distinct [OF assms(1)] by (rule AList.distinct_update)
  with assms(2) have "map_of (AList.update key new (current r)) k = Some ref" by simp
  then show ?thesis by (auto simp: AList.update_conv' split: if_splits dest: map_of_SomeD)
qed

lemma obtain_record_wf:
  assumes "wf_registry r" and "SRefKey snap = key"
  shows "wf_registry (snd (obtain_record r key snap))"
  using assms(1)
proof (cases rule: obtain_record_cases [where key = key and snap = snap])
  case fresh
  let ?new = "ref_name (next_ref r)"
  have f: "byRef r ?new = None" by (rule fresh_ref [OF assms(1)])
  have perm: "permanent rec" if "byKey r key = Some ref" "byRef r ref = Some rec" for ref rec
    using fresh(1) that by auto
  have not_live: "rkey rec \<noteq> key" if "byRef r ref = Some rec" "rtombstone rec = None" for ref rec
    using perm [of ref rec] that wf_byRef [OF assms(1) that(1)] by (auto simp: wf_record_def)
  have old: "byKey r k \<noteq> Some ?new" for k using f wf_byKey [OF assms(1)] by fastforce
  show ?thesis
    unfolding wf_registry_def fresh(2) snd_conv
  proof (intro conjI allI impI, goal_cases)
    case (1 ref rec)
    then show ?case
      using wf_byRef [OF assms(1), of ref rec] not_live [of ref rec] assms(2)
      by (auto simp: wf_record_def less_Suc_eq split: if_splits)
  next
    case (2 k ref)
    then show ?case using f wf_byKey [OF assms(1), of k ref] by (auto split: if_splits)
  next
    case (3 k ref)
    then have "(k, ref) \<in> set (AList.update key ?new (current r))" by simp
    from update_current [OF assms(1) this] show ?case
      using wf_current [OF assms(1), of k ref] by (auto simp: live_def)
  next
    case (4 k ref)
    then have "(k, ref) \<in> set (AList.update key ?new (current r))" by simp
    from update_current [OF assms(1) this] show ?case
      using wf_current [OF assms(1), of k ref] f by (auto simp: live_def)
  next
    case 5
    show ?case using wf_distinct [OF assms(1)] by (simp add: AList.distinct_update)
  qed
next
  case (known ref0 rec0)
  show ?thesis
    unfolding wf_registry_def known(5) snd_conv
  proof (intro conjI allI impI, goal_cases)
    case (1 ref rec)
    then show ?case
      using wf_byRef [OF assms(1), of ref] known assms(2)
      by (auto simp: wf_record_def split: if_splits)
  next
    case (2 k ref)
    then show ?case using wf_byKey [OF assms(1), of k ref] known by (auto split: if_splits)
  next
    case (3 k ref)
    then have "(k, ref) \<in> set (AList.update key ref0 (current r))" by simp
    from update_current [OF assms(1) this] show ?case
      using wf_current [OF assms(1), of k ref] known by auto
  next
    case (4 k ref)
    then have "(k, ref) \<in> set (AList.update key ref0 (current r))" by simp
    from update_current [OF assms(1) this] show ?case
      using wf_current [OF assms(1), of k ref] known by (auto simp: live_def)
  next
    case 5
    show ?case using wf_distinct [OF assms(1)] by (simp add: AList.distinct_update)
  qed
qed

text \<open>Records keep their key, and a permanently dead one stays so.\<close>

definition keeps :: "stableRefRegistry \<Rightarrow> stableRefRegistry \<Rightarrow> bool" where
  "keeps r r' \<longleftrightarrow> (\<forall>ref rec. byRef r ref = Some rec \<longrightarrow>
     (\<exists>rec'. byRef r' ref = Some rec' \<and> rkey rec' = rkey rec \<and> (permanent rec \<longrightarrow> permanent rec')))"

lemma keeps_refl [simp]: "keeps r r"
  by (simp add: keeps_def)

lemma keeps_trans: "keeps r s \<Longrightarrow> keeps s t \<Longrightarrow> keeps r t"
  by (auto simp: keeps_def) (metis)

lemma live_not_permanent: "wf_registry r \<Longrightarrow> live r ref \<Longrightarrow> byRef r ref = Some rec \<Longrightarrow> \<not> permanent rec"
  by (auto simp: live_def wf_record_def dest!: wf_byRef)

lemma buried_keeps: "wf_registry r \<Longrightarrow> \<forall>ref \<in> refs. live r ref \<Longrightarrow> keeps r (buried refs reason perm r)"
  by (auto simp: keeps_def bury_def dest: live_not_permanent)

lemma obtain_record_keeps:
  assumes "wf_registry r"
  shows "keeps r (snd (obtain_record r key snap))"
  using assms
proof (cases rule: obtain_record_cases [where key = key and snap = snap])
  case fresh
  with fresh_ref [OF assms] show ?thesis by (auto simp: keeps_def)
next
  case (known ref rec)
  then show ?thesis by (auto simp: keeps_def)
qed

text \<open>A key whose record can still be used, and the reference of that record.\<close>

definition usable :: "stableRefRegistry \<Rightarrow> string \<Rightarrow> string \<Rightarrow> bool" where
  "usable r key ref \<longleftrightarrow> byKey r key = Some ref \<and> (\<exists>rec. byRef r ref = Some rec \<and> \<not> permanent rec)"

lemma obtain_record_usable:
  assumes "wf_registry r" and "usable r k ref"
  shows "usable (snd (obtain_record r key snap)) k ref" and "key = k \<Longrightarrow> fst (obtain_record r key snap) = ref"
proof -
  show "usable (snd (obtain_record r key snap)) k ref"
    using assms(1)
  proof (cases rule: obtain_record_cases [where key = key and snap = snap])
    case fresh
    then have "k \<noteq> key" using assms(2) by (auto simp: usable_def)
    with fresh assms fresh_ref [OF assms(1)] show ?thesis by (auto simp: usable_def)
  qed (use assms in \<open>auto simp: usable_def\<close>)
  show "key = k \<Longrightarrow> fst (obtain_record r key snap) = ref"
    using assms(1)
    by (cases rule: obtain_record_cases [where key = key and snap = snap]) (use assms(2) in \<open>auto simp: usable_def\<close>)
qed

lemma obtain_record_result:
  assumes "wf_registry r"
  shows "usable (snd (obtain_record r key snap)) key (fst (obtain_record r key snap))"
    and "live (snd (obtain_record r key snap)) (fst (obtain_record r key snap))"
    and "current (snd (obtain_record r key snap)) = AList.update key (fst (obtain_record r key snap)) (current r)"
  using assms
  by (cases rule: obtain_record_cases [where key = key and snap = snap]; auto simp: usable_def live_def)+

lemma obtain_record_other:
  assumes "wf_registry r" and "ref \<noteq> fst (obtain_record r key snap)"
  shows "byRef (snd (obtain_record r key snap)) ref = byRef r ref"
  using assms by (cases rule: obtain_record_cases [where key = key and snap = snap]) auto

lemma usable_live: "wf_registry r \<Longrightarrow> byKey r k = Some ref \<Longrightarrow> live r ref \<Longrightarrow> usable r k ref"
  using live_not_permanent [of r ref] by (auto simp: usable_def live_def)

section \<open>The loop over the keys\<close>

definition apply_inv :: "apply_state \<Rightarrow> bool" where
  "apply_inv s \<longleftrightarrow> wf_registry (areg s) \<and> distinct (map fst (stableRefs s))
     \<and> (\<forall>(ref, sn) \<in> set (stableRefs s). byKey (areg s) (SRefKey sn) = Some ref \<and> live (areg s) ref)"

definition present :: "string \<Rightarrow> apply_state \<Rightarrow> bool" where
  "present k s \<longleftrightarrow> (\<exists>(ref, sn) \<in> set (stableRefs s). SRefKey sn = k)"

lemma apply_key_cases:
  obtains (skip) "apply_key refs s key = s" "\<And>old sn. (old, sn) \<in> set refs \<Longrightarrow> SRefKey sn = key \<Longrightarrow> \<exists>sn'. ([], sn') \<in> set refs"
  | (bind) old snap ref r' where "(old, snap) \<in> set refs" "SRefKey snap = key"
      "obtain_record (areg s) key snap = (ref, r')"
      "areg (apply_key refs s key) = r'" "stableRefs (apply_key refs s key) = AList.update ref snap (stableRefs s)"
proof (cases "find (\<lambda>cr. SRefKey (snd cr) = key) refs")
  case None
  then have "apply_key refs s key = s" by (simp add: apply_key_def)
  then show ?thesis using None by (intro skip) (auto simp: find_None_iff)
next
  case (Some cr)
  obtain old snap where cr: "cr = (old, snap)" by fastforce
  then have mem: "(old, snap) \<in> set refs" "SRefKey snap = key" using find_Some_mem [OF Some] by auto
  show ?thesis
  proof (cases "old = []")
    case True
    then have "apply_key refs s key = s" using Some cr by (simp add: apply_key_def)
    with True mem show ?thesis by (intro skip) auto
  next
    case False
    obtain ref r' where "obtain_record (areg s) key snap = (ref, r')" by fastforce
    with False Some cr mem show ?thesis by (intro bind [of old snap ref r']) (auto simp: apply_key_def)
  qed
qed

lemma AList_update_mem:
  assumes "distinct (map fst xs)" and "(a, b) \<in> set (AList.update k v xs)"
  shows "a = k \<and> b = v \<or> a \<noteq> k \<and> (a, b) \<in> set xs"
proof -
  have "map_of (AList.update k v xs) a = Some b" using assms by (simp add: AList.distinct_update)
  then show ?thesis by (auto simp: AList.update_conv' split: if_splits dest: map_of_SomeD)
qed

lemma AList_update_new: "(k, v) \<in> set (AList.update k v xs)"
  by (rule map_of_SomeD) (simp add: AList.update_conv')

lemma AList_update_old: "(a, b) \<in> set xs \<Longrightarrow> distinct (map fst xs) \<Longrightarrow> a \<noteq> k \<Longrightarrow> (a, b) \<in> set (AList.update k v xs)"
  by (rule map_of_SomeD) (simp add: AList.update_conv')

lemma apply_key_inv:
  assumes "apply_inv s"
  shows "apply_inv (apply_key refs s key)"
proof (cases rule: apply_key_cases [of refs s key])
  case skip
  with assms show ?thesis by simp
next
  case (bind old snap ref r')
  have w: "wf_registry (areg s)" and d: "distinct (map fst (stableRefs s))" using assms by (auto simp: apply_inv_def)
  note res = obtain_record_result [OF w, of key snap, unfolded bind(3) fst_conv snd_conv]
  have "byKey r' (SRefKey sn) = Some x \<and> live r' x" if "(x, sn) \<in> set (AList.update ref snap (stableRefs s))" for x sn
  proof (cases "x = ref")
    case True
    with AList_update_mem [OF d that] bind(2) res show ?thesis by (auto simp: usable_def)
  next
    case False
    with AList_update_mem [OF d that] have "(x, sn) \<in> set (stableRefs s)" by blast
    with assms have o: "byKey (areg s) (SRefKey sn) = Some x" "live (areg s) x" by (auto simp: apply_inv_def)
    from obtain_record_usable(1) [OF w usable_live [OF w o], of key snap] bind(3)
    have "byKey r' (SRefKey sn) = Some x" by (simp add: usable_def)
    moreover have "live r' x" using obtain_record_other [OF w, of x key snap] False o(2) bind(3) by (simp add: live_def)
    ultimately show ?thesis ..
  qed
  moreover have "wf_registry r'" using obtain_record_wf [OF w bind(2)] bind(3) by simp
  ultimately show ?thesis using bind d by (auto simp: apply_inv_def AList.distinct_update)
qed

lemma apply_key_keeps: "apply_inv s \<Longrightarrow> keeps (areg s) (areg (apply_key refs s key))"
  using obtain_record_keeps [of "areg s"]
  by (cases rule: apply_key_cases [of refs s key]) (auto simp: apply_inv_def, metis snd_conv)

lemma apply_key_usable: "apply_inv s \<Longrightarrow> usable (areg s) k ref \<Longrightarrow> usable (areg (apply_key refs s key)) k ref"
  using obtain_record_usable(1) [of "areg s" k ref]
  by (cases rule: apply_key_cases [of refs s key]) (auto simp: apply_inv_def, metis snd_conv)

lemma apply_key_present:
  assumes "apply_inv s" and "present k s"
  shows "present k (apply_key refs s key)"
proof (cases rule: apply_key_cases [of refs s key])
  case skip
  with assms show ?thesis by simp
next
  case (bind old snap ref r')
  from assms(2) obtain x sn where x: "(x, sn) \<in> set (stableRefs s)" "SRefKey sn = k" by (auto simp: present_def)
  have w: "wf_registry (areg s)" and d: "distinct (map fst (stableRefs s))" using assms by (auto simp: apply_inv_def)
  show ?thesis
  proof (cases "x = ref")
    case False
    with x d bind show ?thesis by (auto simp: present_def intro!: bexI [OF _ AList_update_old])
  next
    case True
    have o: "byKey (areg s) k = Some x" "live (areg s) x" using x assms(1) by (auto simp: apply_inv_def)
    from obtain_record_usable(1) [OF w usable_live [OF w o], of key snap] bind(3)
    have "byKey r' k = Some x" by (simp add: usable_def)
    moreover have "byKey r' key = Some ref" using obtain_record_result(1) [OF w, of key snap] bind(3) by (simp add: usable_def)
    moreover have "wf_registry r'" using obtain_record_wf [OF w bind(2)] bind(3) by simp
    ultimately have "k = key" using True byKey_inject by blast
    then show ?thesis using bind AList_update_new by (fastforce simp: present_def)
  qed
qed

text \<open>What each step of the loop keeps, the whole loop keeps.\<close>

lemma apply_keys_induct:
  assumes "\<And>s refs key. apply_inv s \<Longrightarrow> P s \<Longrightarrow> key \<in> set keys \<Longrightarrow> P (apply_key refs s key)"
    and "apply_inv s" and "P s"
  shows "apply_inv (apply_keys visits n s keys) \<and> P (apply_keys visits n s keys)"
  using assms
  by (induction keys arbitrary: s n) (auto simp: apply_key_inv)

lemma apply_keys_keeps: "apply_inv s \<Longrightarrow> keeps (areg s) (areg (apply_keys visits n s keys))"
  using apply_keys_induct [where P = "\<lambda>s'. keeps (areg s) (areg s')"] apply_key_keeps keeps_trans keeps_refl by blast

lemma apply_keys_usable: "apply_inv s \<Longrightarrow> usable (areg s) k ref \<Longrightarrow> usable (areg (apply_keys visits n s keys)) k ref"
  using apply_keys_induct [where P = "\<lambda>s'. usable (areg s') k ref"] apply_key_usable by blast

definition valid_visits :: "(nat \<Rightarrow> (string \<times> SnapshotRef) list) \<Rightarrow> bool" where
  "valid_visits visits \<longleftrightarrow> (\<forall>n. set (visits n) = set (visits 0)) \<and> (\<forall>(old, sn) \<in> set (visits 0). old \<noteq> [])"

lemma valid_visits_bind:
  assumes "valid_visits visits" and "key \<in> SRefKey ` snd ` set (visits 0)"
  obtains old snap ref r' where "(old, snap) \<in> set (visits n)" "SRefKey snap = key"
      "obtain_record (areg s) key snap = (ref, r')"
      "areg (apply_key (visits n) s key) = r'" "stableRefs (apply_key (visits n) s key) = AList.update ref snap (stableRefs s)"
proof (cases rule: apply_key_cases [of "visits n" s key])
  case skip
  have v: "set (visits n) = set (visits 0)" using assms(1) by (simp add: valid_visits_def)
  with assms(2) obtain old sn where "(old, sn) \<in> set (visits n)" "SRefKey sn = key" by force
  with skip(2) v assms(1) show ?thesis by (fastforce simp: valid_visits_def)
next
  case (bind old snap ref r')
  then show ?thesis by (rule that)
qed

lemma apply_keys_present:
  assumes "valid_visits visits" and "set keys \<subseteq> SRefKey ` snd ` set (visits 0)" and "apply_inv s" and "k \<in> set keys"
  shows "present k (apply_keys visits n s keys)"
  using assms(2-4)
proof (induction keys arbitrary: s n)
  case Nil
  then show ?case by simp
next
  case (Cons key keys)
  let ?s1 = "apply_key (visits n) s key"
  note inv = apply_key_inv [OF Cons.prems(2), of "visits n" key]
  show ?case
  proof (cases "k = key")
    case True
    then have "key \<in> SRefKey ` snd ` set (visits 0)" using Cons.prems by simp
    then obtain old snap ref r' where "SRefKey snap = key" "stableRefs ?s1 = AList.update ref snap (stableRefs s)"
      by (rule valid_visits_bind [OF assms(1), where n = n and s = s])
    then have "present k ?s1" using AList_update_new [of ref snap] True by (fastforce simp: present_def)
    then have "present k (apply_keys visits (Suc n) ?s1 keys)"
      using apply_keys_induct [where P = "present k", OF apply_key_present inv] by blast
    then show ?thesis by simp
  next
    case False
    with Cons inv show ?thesis by simp
  qed
qed

text \<open>Every live record is in the current snapshot.\<close>

definition covered :: "stableRefRegistry \<Rightarrow> bool" where
  "covered r \<longleftrightarrow> (\<forall>ref. live r ref \<longrightarrow> ref \<in> snd ` set (current r))"

lemma apply_key_covered:
  assumes "apply_inv s" and "covered (areg s)"
  shows "covered (areg (apply_key refs s key))"
proof (cases rule: apply_key_cases [of refs s key])
  case skip
  with assms show ?thesis by simp
next
  case (bind old snap ref r')
  have w: "wf_registry (areg s)" using assms by (simp add: apply_inv_def)
  have c: "current r' = AList.update key ref (current (areg s))" using obtain_record_result(3) [OF w, of key snap] bind(3) by simp
  have "x \<in> snd ` set (current r')" if "live r' x" for x
  proof (cases "x = ref")
    case True
    with c AList_update_new [of key ref] show ?thesis by force
  next
    case False
    then have "live (areg s) x" using that obtain_record_other [OF w, of x key snap] bind(3) by (simp add: live_def)
    then obtain k where k: "(k, x) \<in> set (current (areg s))" using assms(2) by (auto simp: covered_def)
    then have o: "byKey (areg s) k = Some x" "live (areg s) x" using wf_current [OF w] by auto
    have "k \<noteq> key"
      using obtain_record_usable(2) [OF w usable_live [OF w o], of key snap] False bind(3) by auto
    with AList_update_old [OF k wf_distinct [OF w], of key ref] c show ?thesis by force
  qed
  with bind show ?thesis by (simp add: covered_def)
qed

lemma apply_key_current:
  assumes "apply_inv s" and "fst ` set (current (areg s)) \<subseteq> K" and "key \<in> K"
  shows "fst ` set (current (areg (apply_key refs s key))) \<subseteq> K"
proof (cases rule: apply_key_cases [of refs s key])
  case (bind old snap ref r')
  have w: "wf_registry (areg s)" using assms by (simp add: apply_inv_def)
  have "current r' = AList.update key ref (current (areg s))" using obtain_record_result(3) [OF w, of key snap] bind(3) by simp
  with bind assms(2,3) show ?thesis by (auto simp: AList.dom_update)
qed (use assms in simp)

section \<open>Steps\<close>

lemma retired_cases: "wf_registry r \<Longrightarrow>
    retired visits r = buried {ref. \<exists>k. (k, ref) \<in> set (current r) \<and> k \<notin> seen_keys (visits 0)} ''removed'' False r"
  by (simp add: retire_buried retired_def)

lemma retired_inv: "wf_registry r \<Longrightarrow> apply_inv \<lparr>areg = retired visits r, stableRefs = [], oldToNew = []\<rparr>"
  unfolding retired_cases by (simp add: apply_inv_def buried_wf)

lemma retired_keeps: "wf_registry r \<Longrightarrow> keeps r (retired visits r)"
  unfolding retired_cases by (rule buried_keeps) (auto dest: wf_current)

lemma bound_inv: "wf_registry r \<Longrightarrow> apply_inv (bound visits r)"
  unfolding bound_def using apply_keys_induct [OF _ retired_inv, where P = "\<lambda>_. True"] by blast

lemma wf_filter_current: "wf_registry r \<Longrightarrow> wf_registry (r\<lparr>current := filter P (current r)\<rparr>)"
  unfolding wf_registry_def by (auto simp: wf_record_def live_def distinct_map_filter)

lemma apply_registry_snd:
  "snd (apply_registry visits shuffle r tree)
     = (areg (bound visits r))\<lparr>current := filter (\<lambda>kr. snd kr \<in> fst ` set (stableRefs (bound visits r))) (current (areg (bound visits r)))\<rparr>"
  by (simp add: apply_registry_def Let_def)

lemma step_wf_registry: "wf_registry r \<Longrightarrow> wf_registry (ref_step r e)"
  using bound_inv by (cases e)
    (auto simp: apply_registry_snd invalidate_buried buried_wf apply_inv_def intro!: wf_filter_current)

interpretation refs: state_machine newStableRefRegistry ref_step wf_registry
  by unfold_locales (rule wf_new, rule step_wf_registry)

lemma step_keeps:
  assumes "wf_registry r"
  shows "keeps r (ref_step r e)"
proof (cases e)
  case (EvSnapshot visits shuffle tree)
  have "keeps r (areg (bound visits r))"
    unfolding bound_def
    by (rule keeps_trans [OF retired_keeps [OF assms, of visits]])
      (use apply_keys_keeps [OF retired_inv [OF assms, of visits], of visits 2] in simp)
  with EvSnapshot show ?thesis by (simp add: apply_registry_snd keeps_def)
next
  case (EvInvalidate reason)
  with assms show ?thesis by (auto simp: invalidate_buried dest: wf_current intro!: buried_keeps)
qed

lemma steps_keep: "wf_registry r \<Longrightarrow> keeps r (foldl ref_step r es)"
  by (rule refs.stable_steps [where P = "keeps r" and Q = "\<lambda>_. True"]) (auto intro: keeps_trans step_keeps)

lemma bound_present:
  assumes "wf_registry r" and "valid_visits visits" and "k \<in> SRefKey ` snd ` set (visits 0)"
  shows "present k (bound visits r)"
  unfolding bound_def
proof (rule apply_keys_present [OF assms(2) _ retired_inv [OF assms(1)]])
  have "set (visits 1) = set (visits 0)" using assms(2) by (simp add: valid_visits_def)
  then show "set (sorted_keys (visits 1)) \<subseteq> SRefKey ` snd ` set (visits 0)" and "k \<in> set (sorted_keys (visits 1))"
    using assms(3) by (auto simp: sorted_keys_def image_image)
qed

lemma bound_Refs:
  assumes "wf_registry r" and "(ref, sn) \<in> set (stableRefs (bound visits r))"
  shows "byKey (areg (bound visits r)) (SRefKey sn) = Some ref" and "live (areg (bound visits r)) ref"
  using bound_inv [OF assms(1), of visits] assms(2) by (auto simp: apply_inv_def)

lemma retired_usable: "wf_registry r \<Longrightarrow> usable r k ref \<Longrightarrow> usable (retired visits r) k ref"
  unfolding retired_cases by (auto simp: usable_def bury_def)

lemma bound_usable: "wf_registry r \<Longrightarrow> usable r k ref \<Longrightarrow> usable (areg (bound visits r)) k ref"
  unfolding bound_def by (rule apply_keys_usable [OF retired_inv]) (simp_all add: retired_usable)

lemma seen_keys_subset: "seen_keys refs \<subseteq> SRefKey ` snd ` set refs"
  by (auto simp: seen_keys_def)

lemma retired_current: "wf_registry r \<Longrightarrow> fst ` set (current (retired visits r)) \<subseteq> seen_keys (visits 0)"
  unfolding retired_cases by auto

lemma retired_covered:
  assumes "wf_registry r" and "covered r"
  shows "covered (retired visits r)"
  unfolding covered_def
proof (intro allI impI)
  fix ref
  assume "live (retired visits r) ref"
  then have l: "live r ref" "\<And>k. (k, ref) \<in> set (current r) \<Longrightarrow> k \<in> seen_keys (visits 0)"
    unfolding retired_cases [OF assms(1)] by auto
  with assms(2) obtain k where "(k, ref) \<in> set (current r)" by (auto simp: covered_def)
  with l(2) have "(k, ref) \<in> set (current (retired visits r))"
    unfolding retired_cases [OF assms(1)] by auto
  then show "ref \<in> snd ` set (current (retired visits r))" by (rule image_eqI [rotated]) simp
qed

lemma snapshot_covered:
  assumes "wf_registry r" and "covered r" and "valid_visits visits"
  shows "covered (snd (apply_registry visits shuffle r tree))"
proof -
  let ?b = "bound visits r" and ?K = "SRefKey ` snd ` set (visits 0)"
  have v1: "set (visits 1) = set (visits 0)" using assms(3) by (simp add: valid_visits_def)
  have keys: "set (sorted_keys (visits 1)) \<subseteq> ?K" using v1 by (auto simp: sorted_keys_def)
  have c0: "covered (retired visits r)" by (rule retired_covered [OF assms(1,2)])
  have k0: "fst ` set (current (retired visits r)) \<subseteq> ?K"
    using retired_current [OF assms(1), of visits] seen_keys_subset [of "visits 0"] by blast
  let ?P = "\<lambda>s. covered (areg s) \<and> fst ` set (current (areg s)) \<subseteq> ?K"
  have "?P (apply_key refs s key)" if "apply_inv s" "?P s" "key \<in> set (sorted_keys (visits 1))" for s refs key
  proof
    show "covered (areg (apply_key refs s key))" by (rule apply_key_covered [OF that(1) conjunct1 [OF that(2)]])
    show "fst ` set (current (areg (apply_key refs s key))) \<subseteq> ?K"
      by (rule apply_key_current [OF that(1) conjunct2 [OF that(2)] subsetD [OF keys that(3)]])
  qed
  then have b: "?P ?b"
    unfolding bound_def
    by (rule apply_keys_induct [where P = ?P, OF _ retired_inv [OF assms(1)], THEN conjunct2])
      (assumption+, simp only: apply_state.select_convs, rule conjI [OF c0 k0])
  have "snd kr \<in> fst ` set (stableRefs ?b)" if "kr \<in> set (current (areg ?b))" for kr
  proof -
    obtain k ref where kr: "kr = (k, ref)" by fastforce
    have w: "wf_registry (areg ?b)" using bound_inv [OF assms(1)] by (simp add: apply_inv_def)
    have "k \<in> fst ` set (current (areg ?b))" using that kr by force
    with b have "k \<in> ?K" by blast
    from bound_present [OF assms(1,3) this]
    obtain ref' sn where p: "(ref', sn) \<in> set (stableRefs ?b)" "SRefKey sn = k" by (auto simp: present_def)
    with bound_Refs(1) [OF assms(1) p(1)] wf_current [OF w] that kr have "ref' = ref" by auto
    with p kr show ?thesis by force
  qed
  then have "current (snd (apply_registry visits shuffle r tree)) = current (areg ?b)"
    by (simp add: apply_registry_snd)
  with b show ?thesis by (simp add: apply_registry_snd covered_def live_def)
qed

definition valid_event :: "ref_event \<Rightarrow> bool" where
  "valid_event e = (case e of EvSnapshot visits _ _ \<Rightarrow> valid_visits visits | EvInvalidate _ \<Rightarrow> True)"

lemma step_covered: "wf_registry r \<Longrightarrow> covered r \<Longrightarrow> valid_event e \<Longrightarrow> covered (ref_step r e)"
  by (cases e) (auto simp: valid_event_def snapshot_covered, auto simp: invalidate_buried covered_def)

lemma run_covered: "(\<And>e. e \<in> set es \<Longrightarrow> valid_event e) \<Longrightarrow> covered (foldl ref_step newStableRefRegistry es)"
  by (rule refs.stable_steps [where P = covered and Q = valid_event, OF step_covered])
    (assumption+, rule wf_new, simp add: covered_def newStableRefRegistry_def live_def, blast)

lemma resolve_Live: "wf_registry r \<Longrightarrow> resolve r ref = Live sn \<longleftrightarrow> (\<exists>rec. byRef r ref = Some rec \<and> rtombstone rec = None \<and> sn = rsnapshot rec)"
  by (auto simp: resolve_def split: option.splits)

lemma covered_navigated:
  assumes "wf_registry r" and "covered r" and "byRef (invalidate r ''navigated'') ref = Some rec"
  shows "rtombstone rec \<noteq> None"
  using assms by (fastforce simp: invalidate_buried bury_def covered_def live_def split: if_splits)

section \<open>Properties\<close>

text \<open>C12. A reference is never rebound: whatever snapshots and invalidations happen later, and in
  whatever order the Go maps are visited, an issued reference still belongs to the content key it
  was issued for, and if it resolves to an element at all, that element has this key.\<close>

theorem ref_never_rebound:
  assumes "r = foldl ref_step newStableRefRegistry es" and "byRef r ref = Some rec"
  shows "(\<exists>rec'. byRef (foldl ref_step r fs) ref = Some rec' \<and> rkey rec' = rkey rec)
    \<and> (\<forall>sn. resolve (foldl ref_step r fs) ref = Live sn \<longrightarrow> SRefKey sn = rkey rec)"
proof -
  have w: "wf_registry r" using refs.inv_run assms(1) by simp
  then have w': "wf_registry (foldl ref_step r fs)" by (rule refs.inv_steps)
  from steps_keep [OF w] assms(2) obtain rec' where
    "byRef (foldl ref_step r fs) ref = Some rec'" "rkey rec' = rkey rec" by (fastforce simp: keeps_def)
  with wf_byRef [OF w'] show ?thesis by (auto simp: resolve_Live [OF w'] wf_record_def)
qed

text \<open>A snapshot with a single element, for the concrete runs below.\<close>

definition button :: "string \<Rightarrow> SnapshotRef" where
  "button key = zero_ref\<lparr>SRole := ''button'', SRefKey := key\<rparr>"

definition page :: "(string \<times> SnapshotRef) list \<Rightarrow> ref_event" where
  "page refs = EvSnapshot (\<lambda>_. refs) (\<lambda>x. x) []"

lemma valid_page: "\<forall>(old, sn) \<in> set refs. old \<noteq> [] \<Longrightarrow> valid_event (page refs)"
  by (auto simp: valid_event_def page_def valid_visits_def)

theorem ref_never_rebound_witness:
  "\<exists>sn. resolve (foldl ref_step newStableRefRegistry
       [page [(''e1'', button ''k1'')], page [(''e1'', button ''k2'')], page [(''e1'', button ''k2''), (''e2'', button ''k1'')]]) ''e1''
     = Live sn \<and> SRefKey sn = ''k1''"
proof -
  let ?r = "foldl ref_step newStableRefRegistry [page [(''e1'', button ''k1'')]]"
  let ?fs = "[page [(''e1'', button ''k2'')], page [(''e1'', button ''k2''), (''e2'', button ''k1'')]]"
  have "map_option rkey (byRef ?r ''e1'') = Some ''k1''" by code_simp
  then obtain rec where rec: "byRef ?r ''e1'' = Some rec" "rkey rec = ''k1''" by auto
  have l: "(case resolve (foldl ref_step ?r ?fs) ''e1'' of Live _ \<Rightarrow> True | _ \<Rightarrow> False)" by code_simp
  from l obtain sn where "resolve (foldl ref_step ?r ?fs) ''e1'' = Live sn" by (auto split: resolution.splits)
  with ref_never_rebound [OF refl rec(1), of ?fs] rec(2) show ?thesis by auto
qed

text \<open>C13. No reference survives a navigation: after a navigation every reference the page ever had is
  unknown or stale, and the ones that were live in the last snapshot stay stale for ever, even when
  an element with the same content key appears again.\<close>

theorem navigation_retires_refs:
  assumes "\<And>e. e \<in> set es \<Longrightarrow> valid_event e" and "r = foldl ref_step newStableRefRegistry es"
  shows "(\<forall>ref sn. resolve (invalidate r ''navigated'') ref \<noteq> Live sn)
    \<and> (\<forall>ref sn sn'. resolve r ref = Live sn \<longrightarrow> resolve (foldl ref_step (invalidate r ''navigated'') fs) ref \<noteq> Live sn')"
proof (intro conjI allI impI)
  have w: "wf_registry r" and c: "covered r" using refs.inv_run run_covered assms by simp_all
  have wi: "wf_registry (invalidate r ''navigated'')" using step_wf_registry [OF w, of "EvInvalidate ''navigated''"] by simp
  fix ref sn
  show "resolve (invalidate r ''navigated'') ref \<noteq> Live sn"
    using covered_navigated [OF w c] by (auto simp: resolve_Live [OF wi])
  fix sn'
  assume "resolve r ref = Live sn"
  then have "ref \<in> snd ` set (current r)" using c by (auto simp: resolve_Live [OF w] covered_def live_def)
  with \<open>resolve r ref = Live sn\<close> obtain rec where "byRef (invalidate r ''navigated'') ref = Some rec" "permanent rec"
    using w by (auto simp: invalidate_buried bury_def resolve_Live)
  with steps_keep [OF wi, of fs] obtain rec' where
    "byRef (foldl ref_step (invalidate r ''navigated'') fs) ref = Some rec'" "permanent rec'" by (fastforce simp: keeps_def)
  with wf_byRef [OF refs.inv_steps [OF wi]] show "resolve (foldl ref_step (invalidate r ''navigated'') fs) ref \<noteq> Live sn'"
    by (auto simp: resolve_Live [OF refs.inv_steps [OF wi]] wf_record_def)
qed

theorem navigation_retires_refs_witness:
  "\<exists>sn. resolve (foldl ref_step newStableRefRegistry [page [(''e1'', button ''k1'')]]) ''e1'' = Live sn
     \<and> (\<forall>sn'. resolve (foldl ref_step (invalidate (foldl ref_step newStableRefRegistry [page [(''e1'', button ''k1'')]]) ''navigated'')
            [page [(''e1'', button ''k1'')]]) ''e1'' \<noteq> Live sn')"
proof -
  let ?es = "[page [(''e1'', button ''k1'')]]"
  let ?r = "foldl ref_step newStableRefRegistry ?es"
  have v: "e \<in> set ?es \<Longrightarrow> valid_event e" for e by (auto intro!: valid_page)
  have l: "(case resolve ?r ''e1'' of Live _ \<Rightarrow> True | _ \<Rightarrow> False)" by code_simp
  from l obtain sn where "resolve ?r ''e1'' = Live sn" by (auto split: resolution.splits)
  with navigation_retires_refs [of ?es ?r ?es, OF v refl] show ?thesis by blast
qed

text \<open>References are stable: when a snapshot contains an element with the content key of a known
  record that is not permanently dead, the snapshot shows an element of that key under the same
  reference as before, in whatever order the maps are visited.\<close>

theorem snapshot_keeps_ref:
  assumes "r = foldl ref_step newStableRefRegistry es" and "byKey r k = Some ref"
    and "byRef r ref = Some rec" and "\<not> permanent rec"
    and "valid_visits visits" and "(old, sn) \<in> set (visits 0)" and "SRefKey sn = k"
  shows "\<exists>sn'. (ref, sn') \<in> set (Refs (fst (apply_registry visits shuffle r tree))) \<and> SRefKey sn' = k"
proof -
  have w: "wf_registry r" using refs.inv_run assms(1) by simp
  have "k \<in> SRefKey ` snd ` set (visits 0)" using assms(6,7) by force
  from bound_present [OF w assms(5) this]
  obtain ref' sn' where p: "(ref', sn') \<in> set (stableRefs (bound visits r))" "SRefKey sn' = k"
    by (auto simp: present_def)
  have "usable r k ref" using assms(2-4) by (simp add: usable_def)
  then have "byKey (areg (bound visits r)) k = Some ref" using bound_usable [OF w] by (simp add: usable_def)
  with bound_Refs(1) [OF w p(1)] p show ?thesis by (auto simp: apply_registry_def Let_def)
qed

theorem snapshot_keeps_ref_witness:
  "\<exists>sn'. (''e1'', sn') \<in> set (Refs (fst (apply_registry (\<lambda>_. [(''e1'', button ''k0''), (''e2'', button ''k1'')]) (\<lambda>x. x)
       (foldl ref_step newStableRefRegistry [page [(''e1'', button ''k1'')]]) []))) \<and> SRefKey sn' = ''k1''"
proof -
  let ?r = "foldl ref_step newStableRefRegistry [page [(''e1'', button ''k1'')]]"
  have k: "byKey ?r ''k1'' = Some ''e1''" by code_simp
  have "map_option permanent (byRef ?r ''e1'') = Some False" by code_simp
  then obtain rec where rec: "byRef ?r ''e1'' = Some rec" "\<not> permanent rec" by auto
  show ?thesis
    by (rule snapshot_keeps_ref [OF refl k rec, of _ "''e2''" "button ''k1''"]) (simp_all add: valid_visits_def button_def)
qed

text \<open>Not every dead reference stays dead: an element that disappears before the navigation is only
  marked as removed, and the navigation does not touch it, so its reference resolves to a live
  element again when the next page has an element with the same content key.\<close>

theorem removed_ref_revives_after_navigation:
  "\<exists>t sn. resolve (foldl ref_step newStableRefRegistry
       [page [(''e1'', button ''k1'')], page [(''e1'', button ''k2'')], EvInvalidate ''navigated'']) ''e1'' = Stale t
     \<and> resolve (foldl ref_step newStableRefRegistry
       [page [(''e1'', button ''k1'')], page [(''e1'', button ''k2'')], EvInvalidate ''navigated'', page [(''e1'', button ''k1'')]]) ''e1'' = Live sn"
proof -
  let ?es = "[page [(''e1'', button ''k1'')], page [(''e1'', button ''k2'')], EvInvalidate ''navigated'']"
  have s: "(case resolve (foldl ref_step newStableRefRegistry ?es) ''e1'' of Stale _ \<Rightarrow> True | _ \<Rightarrow> False)" by code_simp
  have l: "(case resolve (foldl ref_step newStableRefRegistry (?es @ [page [(''e1'', button ''k1'')]])) ''e1'' of
      Live _ \<Rightarrow> True | _ \<Rightarrow> False)" by code_simp
  from s l show ?thesis by (auto split: resolution.splits)
qed

text \<open>The rendered tree can name one reference twice: replacing the old references one after the
  other confuses two elements whose references are exchanged, and two elements with the same
  content key share one reference, so that only one of them is listed.\<close>

theorem tree_refs_can_alias:
  "replaceSnapshotRefs ''[ref=e1] [ref=e2]'' [(''e1'', ''e2''), (''e2'', ''e1'')] = ''[ref=e1] [ref=e1]''
   \<and> length (Refs (fst (apply_registry (\<lambda>_. [(''e1'', button ''k''), (''e2'', button ''k'')]) (\<lambda>x. x) newStableRefRegistry []))) = 1"
  by code_simp

end
