(* ===== verification/CircuitBreaker.thy ===== *)
theory CircuitBreaker
  imports NetAddr "HOL-Library.AList"
begin

text \<open>
  \<open>internal/fetch/fetch/backoff.go\<close>: the per-host circuit breaker of the fetch client and the
  \<open>Retry-After\<close> header. Every operation that reads the clock takes the time as an argument. Go's
  \<open>int\<close> and \<open>time.Duration\<close> are 64 bits wide; the only product that can leave that range is the one
  in \<open>ParseRetryAfter\<close>, where the wrap-around is written out. \<open>BackoffDelay\<close>, floating-point
  arithmetic on a random number, is not modelled.
\<close>

section \<open>Retry-After\<close>

text \<open>\<open>parseDate\<close> is \<open>time.Parse\<close> with the layout of RFC 1123.\<close>

definition ParseRetryAfter :: "(string \<Rightarrow> go_time option) \<Rightarrow> go_time \<Rightarrow> string \<Rightarrow> duration" where
  "ParseRetryAfter parseDate now val =
     (if val = [] then 0
      else (case Atoi (trim_space val) of
              Some secs \<Rightarrow> wrap64 (secs * second)
            | None \<Rightarrow>
                (case parseDate val of
                   Some t \<Rightarrow> if 0 < t - now then t - now else 0
                 | None \<Rightarrow> 0)))"

section \<open>The breaker\<close>

datatype CircuitState = CircuitClosed | CircuitOpen | CircuitHalfOpen

record CircuitBreakerConfig =
  FailureThreshold :: int
  RecoveryTimeout :: duration
  SuccessThreshold :: int

record CircuitBreaker =
  state :: CircuitState
  consecutiveFails :: int
  lastFailure :: go_time
  openedAt :: go_time
  config :: CircuitBreakerConfig

definition DefaultCircuitBreakerConfig :: CircuitBreakerConfig where
  "DefaultCircuitBreakerConfig = \<lparr>FailureThreshold = 5, RecoveryTimeout = 60 * second, SuccessThreshold = 2\<rparr>"

definition NewCircuitBreaker :: "CircuitBreakerConfig \<Rightarrow> CircuitBreaker" where
  "NewCircuitBreaker cfg =
     \<lparr>state = CircuitClosed, consecutiveFails = 0, lastFailure = 0, openedAt = 0, config = cfg\<rparr>"

definition breaker_allow :: "go_time \<Rightarrow> CircuitBreaker \<Rightarrow> bool \<times> CircuitBreaker" where
  "breaker_allow now cb =
     (case state cb of
        CircuitClosed \<Rightarrow> (True, cb)
      | CircuitOpen \<Rightarrow>
          if RecoveryTimeout (config cb) < now - openedAt cb
          then (True, cb\<lparr>state := CircuitHalfOpen, consecutiveFails := 0\<rparr>)
          else (False, cb)
      | CircuitHalfOpen \<Rightarrow> (True, cb))"

definition breaker_success :: "CircuitBreaker \<Rightarrow> CircuitBreaker" where
  "breaker_success cb =
     (if state cb = CircuitHalfOpen then
        (let n = consecutiveFails cb + 1 in
         if SuccessThreshold (config cb) \<le> n then cb\<lparr>consecutiveFails := 0, state := CircuitClosed\<rparr>
         else cb\<lparr>consecutiveFails := n\<rparr>)
      else cb\<lparr>consecutiveFails := 0\<rparr>)"

definition breaker_failure :: "go_time \<Rightarrow> CircuitBreaker \<Rightarrow> CircuitBreaker" where
  "breaker_failure now cb =
     (let cb1 = cb\<lparr>consecutiveFails := consecutiveFails cb + 1, lastFailure := now\<rparr> in
      if state cb = CircuitHalfOpen then cb1\<lparr>state := CircuitOpen, openedAt := now\<rparr>
      else if FailureThreshold (config cb) \<le> consecutiveFails cb1 then cb1\<lparr>state := CircuitOpen, openedAt := now\<rparr>
      else cb1)"

section \<open>The host table\<close>

record HostRateLimiter =
  breakers :: "(string \<times> CircuitBreaker) list"
  hconfig :: CircuitBreakerConfig
  lastCleanup :: go_time

definition NewHostRateLimiter :: "CircuitBreakerConfig \<Rightarrow> HostRateLimiter" where
  "NewHostRateLimiter cfg = \<lparr>breakers = [], hconfig = cfg, lastCleanup = 0\<rparr>"

definition extractHost :: "(string \<Rightarrow> string + url) \<Rightarrow> string \<Rightarrow> string" where
  "extractHost parseURL rawURL = (case parseURL rawURL of Inl _ \<Rightarrow> rawURL | Inr u \<Rightarrow> Hostname u)"

definition stale_breaker :: "go_time \<Rightarrow> CircuitBreaker \<Rightarrow> bool" where
  "stale_breaker cutoff cb \<longleftrightarrow> state cb = CircuitClosed \<and> \<not> is_zero_time (lastFailure cb) \<and> lastFailure cb < cutoff"

definition cleanupStaleLocked :: "go_time \<Rightarrow> HostRateLimiter \<Rightarrow> duration \<Rightarrow> HostRateLimiter" where
  "cleanupStaleLocked now hrl maxAge =
     hrl\<lparr>breakers := filter (\<lambda>hb. \<not> stale_breaker (now - maxAge) (snd hb)) (breakers hrl), lastCleanup := now\<rparr>"

definition CleanupStale :: "go_time \<Rightarrow> HostRateLimiter \<Rightarrow> duration \<Rightarrow> HostRateLimiter" where
  "CleanupStale now hrl maxAge = cleanupStaleLocked now hrl maxAge"

definition limiter_allow :: "(string \<Rightarrow> string + url) \<Rightarrow> go_time \<Rightarrow> HostRateLimiter \<Rightarrow> string \<Rightarrow> bool \<times> HostRateLimiter" where
  "limiter_allow parseURL now hrl rawURL =
     (let host = extractHost parseURL rawURL;
          h1 = (if 1000 < int (length (breakers hrl)) \<and> 5 * minute < now - lastCleanup hrl
                then cleanupStaleLocked now hrl (30 * minute) else hrl);
          cb = (case map_of (breakers h1) host of Some b \<Rightarrow> b | None \<Rightarrow> NewCircuitBreaker (hconfig h1))
      in case breaker_allow now cb of
           (ok, cb') \<Rightarrow> (ok, h1\<lparr>breakers := AList.update host cb' (breakers h1)\<rparr>))"

definition limiter_success :: "(string \<Rightarrow> string + url) \<Rightarrow> HostRateLimiter \<Rightarrow> string \<Rightarrow> HostRateLimiter" where
  "limiter_success parseURL hrl rawURL =
     (let host = extractHost parseURL rawURL in
      case map_of (breakers hrl) host of
        Some cb \<Rightarrow> hrl\<lparr>breakers := AList.update host (breaker_success cb) (breakers hrl)\<rparr>
      | None \<Rightarrow> hrl)"

definition limiter_failure :: "(string \<Rightarrow> string + url) \<Rightarrow> go_time \<Rightarrow> HostRateLimiter \<Rightarrow> string \<Rightarrow> HostRateLimiter" where
  "limiter_failure parseURL now hrl rawURL =
     (let host = extractHost parseURL rawURL in
      case map_of (breakers hrl) host of
        Some cb \<Rightarrow> hrl\<lparr>breakers := AList.update host (breaker_failure now cb) (breakers hrl)\<rparr>
      | None \<Rightarrow> hrl)"

definition IsTransientError :: "int \<Rightarrow> bool \<Rightarrow> bool" where
  "IsTransientError statusCode has_err \<longleftrightarrow> has_err \<or> statusCode \<in> set [429, 502, 503, 504]"

section \<open>Runs of one breaker\<close>

datatype cb_event = AllowAt go_time | SuccessAt go_time | FailureAt go_time

primrec cb_step :: "CircuitBreaker \<Rightarrow> cb_event \<Rightarrow> CircuitBreaker" where
  "cb_step cb (AllowAt t) = snd (breaker_allow t cb)"
| "cb_step cb (SuccessAt t) = breaker_success cb"
| "cb_step cb (FailureAt t) = breaker_failure t cb"

primrec event_time :: "cb_event \<Rightarrow> go_time" where
  "event_time (AllowAt t) = t" | "event_time (SuccessAt t) = t" | "event_time (FailureAt t) = t"

definition is_failure :: "cb_event \<Rightarrow> bool" where
  "is_failure e = (case e of FailureAt _ \<Rightarrow> True | _ \<Rightarrow> False)"

definition is_success :: "cb_event \<Rightarrow> bool" where
  "is_success e = (case e of SuccessAt _ \<Rightarrow> True | _ \<Rightarrow> False)"

definition failures :: "cb_event list \<Rightarrow> int" where
  "failures es = int (length (filter is_failure es))"

definition successes :: "cb_event list \<Rightarrow> int" where
  "successes es = int (length (filter is_success es))"

section \<open>Lemmas\<close>

lemma cb_step_config [simp]: "config (cb_step cb e) = config cb"
  by (cases e) (auto simp: breaker_allow_def breaker_success_def breaker_failure_def Let_def split: CircuitState.splits)

lemma closed_without_success:
  assumes "state cb = CircuitClosed" and "consecutiveFails cb < FailureThreshold (config cb)"
    and "\<forall>e \<in> set es. \<not> is_success e"
  shows "state (foldl cb_step cb es) = CircuitClosed
           \<longleftrightarrow> consecutiveFails cb + failures es < FailureThreshold (config cb)"
proof -
  have never: "state (foldl cb_step c es) \<noteq> CircuitClosed"
    if "state c \<noteq> CircuitClosed" "\<forall>e \<in> set es. \<not> is_success e" for c es
    using that
  proof (induction es arbitrary: c)
    case (Cons e es)
    then have "state (cb_step c e) \<noteq> CircuitClosed"
      by (cases e) (auto simp: is_success_def breaker_allow_def breaker_failure_def Let_def split: CircuitState.splits)
    with Cons show ?case by simp
  qed simp
  show ?thesis
    using assms
  proof (induction es arbitrary: cb)
    case (Cons e es)
    show ?case
    proof (cases e)
      case (FailureAt t)
      show ?thesis
      proof (cases "consecutiveFails cb + 1 < FailureThreshold (config cb)")
        case True
        with Cons FailureAt show ?thesis
          by (simp add: breaker_failure_def Let_def failures_def is_failure_def algebra_simps)
      next
        case False
        then have "state (cb_step cb e) \<noteq> CircuitClosed" using Cons.prems FailureAt by (simp add: breaker_failure_def Let_def)
        with never [of "cb_step cb e" es] Cons.prems(3) False FailureAt show ?thesis
          by (simp add: failures_def is_failure_def)
      qed
    qed (use Cons in \<open>auto simp: breaker_allow_def is_success_def failures_def is_failure_def\<close>)
  qed (simp add: failures_def)
qed

lemma half_open_without_failure:
  assumes "state cb = CircuitHalfOpen" and "consecutiveFails cb < SuccessThreshold (config cb)"
    and "\<forall>e \<in> set es. \<not> is_failure e"
  shows "state (foldl cb_step cb es)
           = (if SuccessThreshold (config cb) \<le> consecutiveFails cb + successes es then CircuitClosed else CircuitHalfOpen)"
proof -
  have closed: "state (foldl cb_step c es) = CircuitClosed"
    if "state c = CircuitClosed" "\<forall>e \<in> set es. \<not> is_failure e" for c es
    using that
  proof (induction es arbitrary: c)
    case (Cons e es)
    then have "state (cb_step c e) = CircuitClosed"
      by (cases e) (auto simp: is_failure_def breaker_allow_def breaker_success_def)
    with Cons show ?case by simp
  qed simp
  show ?thesis
    using assms
  proof (induction es arbitrary: cb)
    case (Cons e es)
    show ?case
    proof (cases e)
      case (SuccessAt t)
      show ?thesis
      proof (cases "consecutiveFails cb + 1 < SuccessThreshold (config cb)")
        case True
        with Cons SuccessAt show ?thesis
          by (simp add: breaker_success_def Let_def successes_def is_success_def algebra_simps)
      next
        case False
        then have "state (cb_step cb e) = CircuitClosed" using Cons.prems SuccessAt by (simp add: breaker_success_def Let_def)
        with closed [of "cb_step cb e" es] Cons.prems(3) False SuccessAt show ?thesis
          by (simp add: successes_def is_success_def)
      qed
    qed (use Cons in \<open>auto simp: breaker_allow_def is_success_def successes_def is_failure_def\<close>)
  qed (simp add: successes_def)
qed

lemma open_step:
  assumes "state cb = CircuitOpen" and "since \<le> openedAt cb" and "since \<le> event_time e"
    and "event_time e - since \<le> RecoveryTimeout (config cb)"
  shows "state (cb_step cb e) = CircuitOpen \<and> since \<le> openedAt (cb_step cb e)"
  using assms by (cases e) (auto simp: breaker_allow_def breaker_success_def breaker_failure_def Let_def)

lemma open_run:
  assumes "state cb = CircuitOpen" and "since \<le> openedAt cb"
    and "\<forall>e \<in> set es. since \<le> event_time e \<and> event_time e - since \<le> RecoveryTimeout (config cb)"
  shows "state (foldl cb_step cb es) = CircuitOpen \<and> since \<le> openedAt (foldl cb_step cb es)"
  using assms by (induction es arbitrary: cb) (auto simp: open_step)

lemma foldl_config [simp]: "config (foldl cb_step cb es) = config cb"
  by (induction es arbitrary: cb) auto

section \<open>Properties\<close>

text \<open>The thresholds are exact. A fresh breaker on which no success is recorded is closed as long
  as fewer than \<open>FailureThreshold\<close> failures were recorded, and never closed afterwards, whatever
  requests are made in between; a breaker that has just become half-open and sees no failure
  closes with success number \<open>SuccessThreshold\<close> and stays half-open before.\<close>

theorem breaker_thresholds_exact:
  assumes "0 < FailureThreshold cfg" and "0 < SuccessThreshold cfg"
    and "\<forall>e \<in> set es. \<not> is_success e"
    and "state cb = CircuitOpen" and "config cb = cfg" and "RecoveryTimeout cfg < now - openedAt cb"
    and "\<forall>e \<in> set fs. \<not> is_failure e"
  shows "(state (foldl cb_step (NewCircuitBreaker cfg) es) = CircuitClosed \<longleftrightarrow> failures es < FailureThreshold cfg)
    \<and> state (foldl cb_step (cb_step cb (AllowAt now)) fs)
        = (if SuccessThreshold cfg \<le> successes fs then CircuitClosed else CircuitHalfOpen)"
proof
  show "state (foldl cb_step (NewCircuitBreaker cfg) es) = CircuitClosed \<longleftrightarrow> failures es < FailureThreshold cfg"
    using closed_without_success [of "NewCircuitBreaker cfg" es] assms(1,3) by (simp add: NewCircuitBreaker_def)
  let ?h = "cb_step cb (AllowAt now)"
  have "state ?h = CircuitHalfOpen" "consecutiveFails ?h = 0" "config ?h = cfg"
    using assms(4-6) by (simp_all add: breaker_allow_def)
  with half_open_without_failure [of ?h fs] assms(2,7)
  show "state (foldl cb_step ?h fs) = (if SuccessThreshold cfg \<le> successes fs then CircuitClosed else CircuitHalfOpen)"
    by simp
qed

theorem breaker_thresholds_exact_witness:
  "state (foldl cb_step (NewCircuitBreaker DefaultCircuitBreakerConfig) (map FailureAt [1, 2, 3, 4])) = CircuitClosed
   \<and> state (foldl cb_step (cb_step ((NewCircuitBreaker DefaultCircuitBreakerConfig)\<lparr>state := CircuitOpen\<rparr>) (AllowAt (61 * second)))
        [SuccessAt 1, SuccessAt 2]) = CircuitClosed"
  using breaker_thresholds_exact [of DefaultCircuitBreakerConfig "map FailureAt [1, 2, 3, 4]"
      "(NewCircuitBreaker DefaultCircuitBreakerConfig)\<lparr>state := CircuitOpen\<rparr>" "61 * second" "[SuccessAt 1, SuccessAt 2]"]
  by (simp add: DefaultCircuitBreakerConfig_def NewCircuitBreaker_def is_success_def is_failure_def failures_def successes_def)

text \<open>An open breaker rejects every request for the whole recovery time: from the moment it opened
  until the recovery timeout has passed, no sequence of requests, successes and late failures makes
  it admit a request.\<close>

theorem open_breaker_rejects:
  assumes "state cb = CircuitOpen"
    and "\<forall>e \<in> set es. openedAt cb \<le> event_time e \<and> event_time e - openedAt cb \<le> RecoveryTimeout (config cb)"
    and "openedAt cb \<le> now" and "now - openedAt cb \<le> RecoveryTimeout (config cb)"
  shows "\<not> fst (breaker_allow now (foldl cb_step cb es))"
  using open_run [OF assms(1) order_refl assms(2)] assms(3,4) by (auto simp: breaker_allow_def)

theorem open_breaker_rejects_witness:
  "\<not> fst (breaker_allow 60 (foldl cb_step \<lparr>state = CircuitOpen, consecutiveFails = 5, lastFailure = 10, openedAt = 10,
      config = \<lparr>FailureThreshold = 5, RecoveryTimeout = 50, SuccessThreshold = 2\<rparr>\<rparr> [AllowAt 20, SuccessAt 30, FailureAt 40]))"
  by (rule open_breaker_rejects) simp_all

section \<open>Runs of the host table\<close>

datatype limiter_event = LAllow string go_time | LSuccess string | LFailure string go_time

primrec limiter_step :: "(string \<Rightarrow> string + url) \<Rightarrow> HostRateLimiter \<Rightarrow> limiter_event \<Rightarrow> HostRateLimiter" where
  "limiter_step parseURL hrl (LAllow u t) = snd (limiter_allow parseURL t hrl u)"
| "limiter_step parseURL hrl (LSuccess u) = limiter_success parseURL hrl u"
| "limiter_step parseURL hrl (LFailure u t) = limiter_failure parseURL t hrl u"

text \<open>The breaker a request for a host would use.\<close>

definition host_breaker :: "HostRateLimiter \<Rightarrow> string \<Rightarrow> CircuitBreaker" where
  "host_breaker hrl h = (case map_of (breakers hrl) h of Some cb \<Rightarrow> cb | None \<Rightarrow> NewCircuitBreaker (hconfig hrl))"

definition table_ok :: "CircuitBreakerConfig \<Rightarrow> HostRateLimiter \<Rightarrow> bool" where
  "table_ok cfg hrl \<longleftrightarrow> hconfig hrl = cfg \<and> distinct (map fst (breakers hrl)) \<and> (\<forall>h cb. map_of (breakers hrl) h = Some cb \<longrightarrow> config cb = cfg)"

lemma map_of_filter_distinct:
  "distinct (map fst xs) \<Longrightarrow> map_of (filter (\<lambda>kv. P (snd kv)) xs) k = (case map_of xs k of Some v \<Rightarrow> if P v then Some v else None | None \<Rightarrow> None)"
  by (induction xs) (auto simp: map_of_eq_None_iff image_iff split: option.splits)

lemma host_breaker_config: "table_ok cfg hrl \<Longrightarrow> config (host_breaker hrl h) = cfg"
  by (auto simp: table_ok_def host_breaker_def NewCircuitBreaker_def split: option.splits)

lemma table_ok_update [inv_pres]:
  "table_ok cfg hrl \<Longrightarrow> config cb = cfg \<Longrightarrow> table_ok cfg (hrl\<lparr>breakers := AList.update h cb (breakers hrl)\<rparr>)"
  by (simp add: table_ok_def distinct_update update_conv')

lemma host_breaker_update [simp]:
  "host_breaker (hrl\<lparr>breakers := AList.update h cb (breakers hrl)\<rparr>) h' = (if h' = h then cb else host_breaker hrl h')"
  by (simp add: host_breaker_def update_conv' split: option.split)

lemmas map_of_cleanup = map_of_filter_distinct [where P = "\<lambda>cb. \<not> stale_breaker c cb" for c]

lemma table_ok_cleanup [inv_pres]: "table_ok cfg hrl \<Longrightarrow> table_ok cfg (cleanupStaleLocked now hrl maxAge)"
  by (auto simp: table_ok_def cleanupStaleLocked_def map_of_cleanup distinct_map_filter split: option.splits if_splits)

lemma host_breaker_cleanup:
  assumes "table_ok cfg hrl"
  shows "host_breaker (cleanupStaleLocked now hrl maxAge) h = host_breaker hrl h
    \<or> state (host_breaker hrl h) = CircuitClosed \<and> host_breaker (cleanupStaleLocked now hrl maxAge) h = NewCircuitBreaker cfg"
proof -
  have "map_of (breakers (cleanupStaleLocked now hrl maxAge)) h
      = (case map_of (breakers hrl) h of Some cb \<Rightarrow> if \<not> stale_breaker (now - maxAge) cb then Some cb else None | None \<Rightarrow> None)"
    and "hconfig (cleanupStaleLocked now hrl maxAge) = cfg"
    using assms by (simp_all add: cleanupStaleLocked_def table_ok_def map_of_cleanup)
  with assms show ?thesis
    by (auto simp: host_breaker_def stale_breaker_def table_ok_def simp del: map_of_eq_Some_iff split: option.split if_split)
qed

text \<open>What an event does to the breaker of a host: requests and outcomes for the host step it, an eviction
  replaces a closed breaker by a new one, and everything else leaves it as it is.\<close>

lemma allow_breaker:
  assumes "table_ok cfg hrl"
  obtains cb where "cb = host_breaker hrl h \<or> state (host_breaker hrl h) = CircuitClosed \<and> cb = NewCircuitBreaker cfg"
    and "host_breaker (snd (limiter_allow parseURL t hrl u)) h = (if extractHost parseURL u = h then snd (breaker_allow t cb) else cb)"
    and "extractHost parseURL u = h \<Longrightarrow> fst (limiter_allow parseURL t hrl u) = fst (breaker_allow t cb)"
    and "table_ok cfg (snd (limiter_allow parseURL t hrl u))"
proof -
  define h1 where "h1 = (if 1000 < int (length (breakers hrl)) \<and> 5 * minute < t - lastCleanup hrl
                         then cleanupStaleLocked t hrl (30 * minute) else hrl)"
  have ok: "table_ok cfg h1" using assms by (simp add: h1_def inv_pres)
  let ?e = "extractHost parseURL u" and ?r = "breaker_allow t (host_breaker h1 (extractHost parseURL u))"
  have eq: "limiter_allow parseURL t hrl u = (fst ?r, h1\<lparr>breakers := AList.update ?e (snd ?r) (breakers h1)\<rparr>)"
    unfolding limiter_allow_def Let_def h1_def [symmetric] host_breaker_def by (simp add: case_prod_beta)
  have "config (snd ?r) = cfg"
    using host_breaker_config [OF ok, of ?e] cb_step_config [of "host_breaker h1 ?e" "AllowAt t"] by simp
  then show thesis
    using host_breaker_cleanup [OF assms, of t "30 * minute" h] that [of "host_breaker h1 h"] ok
    by (auto simp: eq h1_def table_ok_update split: if_splits)
qed

lemma success_breaker:
  "limiter_success parseURL hrl u = hrl \<and> map_of (breakers hrl) (extractHost parseURL u) = None
   \<or> limiter_success parseURL hrl u = hrl\<lparr>breakers := AList.update (extractHost parseURL u)
        (breaker_success (host_breaker hrl (extractHost parseURL u))) (breakers hrl)\<rparr>"
  by (auto simp: limiter_success_def host_breaker_def Let_def split: option.splits)

lemma failure_breaker:
  "limiter_failure parseURL t hrl u = hrl
   \<or> limiter_failure parseURL t hrl u = hrl\<lparr>breakers := AList.update (extractHost parseURL u)
        (breaker_failure t (host_breaker hrl (extractHost parseURL u))) (breakers hrl)\<rparr>"
  by (auto simp: limiter_failure_def host_breaker_def Let_def split: option.splits)

lemma table_ok_step [inv_pres]:
  assumes "table_ok cfg hrl"
  shows "table_ok cfg (limiter_step parseURL hrl e)"
proof (cases e)
  case (LAllow u t)
  from allow_breaker [OF assms, of "[]" parseURL t u] show ?thesis by (simp add: LAllow)
next
  case (LSuccess u)
  have "config (breaker_success (host_breaker hrl h)) = cfg" for h
    using host_breaker_config [OF assms] cb_step_config [of _ "SuccessAt 0"] by simp
  with success_breaker [of parseURL hrl u] assms show ?thesis by (auto simp: LSuccess inv_pres)
next
  case (LFailure u t)
  have "config (breaker_failure t (host_breaker hrl h)) = cfg" for h
    using host_breaker_config [OF assms] cb_step_config [of _ "FailureAt t"] by simp
  with failure_breaker [of parseURL t hrl u] assms show ?thesis by (auto simp: LFailure inv_pres)
qed

interpretation limiter: state_machine "NewHostRateLimiter cfg" "limiter_step parseURL" "table_ok cfg"
  for cfg parseURL
  by unfold_locales (simp_all add: inv_pres, simp add: table_ok_def NewHostRateLimiter_def)

text \<open>When a host is past its recovery time its breaker is not open for longer than the timeout.\<close>

definition recoverable :: "go_time \<Rightarrow> CircuitBreakerConfig \<Rightarrow> CircuitBreaker \<Rightarrow> bool" where
  "recoverable now cfg cb \<longleftrightarrow> (state cb = CircuitOpen \<longrightarrow> RecoveryTimeout cfg < now - openedAt cb) \<and> 0 \<le> consecutiveFails cb"

lemma recoverable_step:
  assumes "table_ok cfg hrl" and "recoverable now cfg (host_breaker hrl h)"
    and "\<And>u t. e = LFailure u t \<Longrightarrow> extractHost parseURL u = h \<Longrightarrow> RecoveryTimeout cfg < now - t"
  shows "recoverable now cfg (host_breaker (limiter_step parseURL hrl e) h)"
proof (cases e)
  case (LAllow u t)
  obtain cb where "cb = host_breaker hrl h \<or> state (host_breaker hrl h) = CircuitClosed \<and> cb = NewCircuitBreaker cfg"
    and "host_breaker (snd (limiter_allow parseURL t hrl u)) h = (if extractHost parseURL u = h then snd (breaker_allow t cb) else cb)"
    by (rule allow_breaker [OF assms(1)])
  with assms(2) show ?thesis
    by (auto simp: LAllow recoverable_def breaker_allow_def NewCircuitBreaker_def split: CircuitState.splits)
next
  case (LSuccess u)
  from success_breaker [of parseURL hrl u] assms(2) show ?thesis
    by (auto simp: LSuccess recoverable_def breaker_success_def Let_def split: if_splits)
next
  case (LFailure u t)
  from failure_breaker [of parseURL t hrl u] assms(2,3) show ?thesis
    by (auto simp: LFailure recoverable_def breaker_failure_def Let_def split: if_splits)
qed

text \<open>While a host recovers, its successes are counted until the breaker closes.\<close>

definition recovering :: "CircuitBreakerConfig \<Rightarrow> int \<Rightarrow> CircuitBreaker \<Rightarrow> bool" where
  "recovering cfg n cb \<longleftrightarrow> state cb = CircuitClosed
     \<or> state cb = CircuitHalfOpen \<and> n \<le> consecutiveFails cb \<and> (n = 0 \<or> consecutiveFails cb < SuccessThreshold cfg)"

definition host_successes :: "(string \<Rightarrow> string + url) \<Rightarrow> string \<Rightarrow> limiter_event list \<Rightarrow> int" where
  "host_successes parseURL h es = (\<Sum>e \<leftarrow> es. case e of LSuccess u \<Rightarrow> if extractHost parseURL u = h then 1 else 0 | _ \<Rightarrow> 0)"

lemma recovering_step:
  assumes "table_ok cfg hrl" and "recovering cfg n (host_breaker hrl h)" and "0 \<le> n"
    and "\<And>u t. e = LFailure u t \<Longrightarrow> extractHost parseURL u \<noteq> h"
  shows "recovering cfg (n + host_successes parseURL h [e]) (host_breaker (limiter_step parseURL hrl e) h)"
proof (cases e)
  case (LAllow u t)
  obtain cb where "cb = host_breaker hrl h \<or> state (host_breaker hrl h) = CircuitClosed \<and> cb = NewCircuitBreaker cfg"
    and "host_breaker (snd (limiter_allow parseURL t hrl u)) h = (if extractHost parseURL u = h then snd (breaker_allow t cb) else cb)"
    by (rule allow_breaker [OF assms(1)])
  with assms(2) show ?thesis
    by (auto simp: LAllow recovering_def breaker_allow_def NewCircuitBreaker_def host_successes_def)
next
  case (LSuccess u)
  have "map_of (breakers hrl) h = None \<Longrightarrow> state (host_breaker hrl h) = CircuitClosed"
    by (simp add: host_breaker_def NewCircuitBreaker_def)
  with success_breaker [of parseURL hrl u] assms(2,3) host_breaker_config [OF assms(1), of h] show ?thesis
    by (auto simp: LSuccess recovering_def breaker_success_def Let_def host_successes_def)
next
  case (LFailure u t)
  with failure_breaker [of parseURL t hrl u] assms(2,4) show ?thesis by (auto simp: LFailure host_successes_def)
qed

lemma recovering_run:
  assumes "table_ok cfg hrl" and "recovering cfg n (host_breaker hrl h)" and "0 \<le> n"
    and "\<forall>u t. LFailure u t \<in> set es \<longrightarrow> extractHost parseURL u \<noteq> h"
  shows "recovering cfg (n + host_successes parseURL h es) (host_breaker (foldl (limiter_step parseURL) hrl es) h)"
  using assms
proof (induction es arbitrary: hrl n)
  case Nil
  then show ?case by (simp add: host_successes_def)
next
  case (Cons e es)
  let ?n = "n + host_successes parseURL h [e]"
  have "0 \<le> host_successes parseURL h [e]" by (simp add: host_successes_def split: limiter_event.splits)
  moreover have "recovering cfg ?n (host_breaker (limiter_step parseURL hrl e) h)"
    using Cons.prems by (intro recovering_step) auto
  ultimately have "recovering cfg (?n + host_successes parseURL h es) (host_breaker (foldl (limiter_step parseURL) (limiter_step parseURL hrl e) es) h)"
    using Cons.prems by (intro Cons.IH) (auto simp: inv_pres)
  then show ?case by (simp add: host_successes_def algebra_simps)
qed

text \<open>C21. Hosts recover. Whatever happened before on a new table, once the recovery timeout has passed since the
  last failure of a host a request for it is admitted; and when \<open>SuccessThreshold\<close> further requests for it
  succeed and none fails, every later request for it is admitted at once, whatever happens to other
  hosts in between.\<close>

theorem host_recovers:
  assumes "hrl = foldl (limiter_step parseURL) (NewHostRateLimiter cfg) past"
    and "\<forall>u t. LFailure u t \<in> set past \<longrightarrow> extractHost parseURL u = h \<longrightarrow> RecoveryTimeout cfg < now - t"
    and "extractHost parseURL url = h" and "0 < SuccessThreshold cfg"
    and "\<forall>u t. LFailure u t \<in> set es \<longrightarrow> extractHost parseURL u \<noteq> h"
    and "SuccessThreshold cfg \<le> host_successes parseURL h es" and "extractHost parseURL url' = h"
  shows "fst (limiter_allow parseURL now hrl url)
    \<and> fst (limiter_allow parseURL later (foldl (limiter_step parseURL) hrl (LAllow url now # es)) url')"
proof -
  have ok: "table_ok cfg hrl" unfolding assms(1) by (rule limiter.inv_run)
  have "recoverable now cfg (host_breaker hrl h)"
    unfolding assms(1)
  proof (rule limiter.stable_steps [where Q = "\<lambda>e. \<forall>u t. e = LFailure u t \<longrightarrow> extractHost parseURL u = h \<longrightarrow> RecoveryTimeout cfg < now - t"])
    show "recoverable now cfg (host_breaker (NewHostRateLimiter cfg) h)"
      by (simp add: recoverable_def host_breaker_def NewHostRateLimiter_def NewCircuitBreaker_def)
  qed (use assms(2) in \<open>auto intro: recoverable_step limiter.inv_init\<close>)
  moreover obtain cb where cb: "cb = host_breaker hrl h \<or> state (host_breaker hrl h) = CircuitClosed \<and> cb = NewCircuitBreaker cfg"
    "host_breaker (snd (limiter_allow parseURL now hrl url)) h = snd (breaker_allow now cb)"
    "fst (limiter_allow parseURL now hrl url) = fst (breaker_allow now cb)"
    using allow_breaker [OF ok, of h parseURL now url] assms(3) by auto
  moreover have "config (host_breaker hrl h) = cfg" by (rule host_breaker_config [OF ok])
  ultimately have first: "fst (limiter_allow parseURL now hrl url)"
    and rec: "recovering cfg 0 (host_breaker (limiter_step parseURL hrl (LAllow url now)) h)"
    by (auto simp: recoverable_def recovering_def breaker_allow_def NewCircuitBreaker_def split: CircuitState.splits)
  let ?fin = "foldl (limiter_step parseURL) hrl (LAllow url now # es)"
  have "recovering cfg (0 + host_successes parseURL h es) (host_breaker (foldl (limiter_step parseURL) (limiter_step parseURL hrl (LAllow url now)) es) h)"
    using recovering_run [OF table_ok_step [OF ok] rec _ assms(5)] by simp
  then have "state (host_breaker ?fin h) = CircuitClosed" using assms(4,6) by (auto simp: recovering_def)
  moreover have "table_ok cfg ?fin" by (rule limiter.inv_steps [OF ok])
  ultimately obtain cb' where "cb' = host_breaker ?fin h \<or> state (host_breaker ?fin h) = CircuitClosed \<and> cb' = NewCircuitBreaker cfg"
    "fst (limiter_allow parseURL later ?fin url') = fst (breaker_allow later cb')" "state (host_breaker ?fin h) = CircuitClosed"
    using allow_breaker [of cfg ?fin h parseURL later url'] assms(7) by metis
  with first show ?thesis by (auto simp: breaker_allow_def NewCircuitBreaker_def)
qed

theorem host_recovers_witness:
  "let cfg = \<lparr>FailureThreshold = 1, RecoveryTimeout = 50, SuccessThreshold = 2\<rparr>;
       parse = (\<lambda>u. Inl u);
       hrl = foldl (limiter_step parse) (NewHostRateLimiter cfg) [LAllow ''a'' 1, LFailure ''a'' 10]
   in \<not> fst (limiter_allow parse 60 hrl ''a'') \<and> fst (limiter_allow parse 61 hrl ''a'')
      \<and> fst (limiter_allow parse 62 (foldl (limiter_step parse) hrl [LAllow ''a'' 61, LSuccess ''a'', LFailure ''b'' 61, LSuccess ''a'']) ''a'')"
proof -
  let ?cfg = "\<lparr>FailureThreshold = 1, RecoveryTimeout = 50, SuccessThreshold = 2\<rparr>"
  have "\<not> fst (limiter_allow (\<lambda>u. Inl u) 60 (foldl (limiter_step (\<lambda>u. Inl u)) (NewHostRateLimiter ?cfg) [LAllow ''a'' 1, LFailure ''a'' 10]) ''a'')"
    by code_simp
  then show ?thesis
    using host_recovers [of _ "\<lambda>u. Inl u" ?cfg "[LAllow ''a'' 1, LFailure ''a'' 10]" "''a''" 61 "''a''"
        "[LSuccess ''a'', LFailure ''b'' 61, LSuccess ''a'']" "''a''" 62]
    by (simp add: extractHost_def host_successes_def del: foldl_Cons)
qed

text \<open>The cleanup does not bound the table: a breaker that never recorded a failure is kept by every
  cleanup, however old it is, so a host that always answers is never evicted.\<close>

theorem healthy_breaker_never_evicted:
  assumes "(host, cb) \<in> set (breakers hrl)" and "lastFailure cb = 0"
  shows "(host, cb) \<in> set (breakers (CleanupStale now hrl maxAge))"
  using assms by (simp add: CleanupStale_def cleanupStaleLocked_def stale_breaker_def)

theorem healthy_breaker_never_evicted_witness:
  "(''a.test'', NewCircuitBreaker DefaultCircuitBreakerConfig)
     \<in> set (breakers (CleanupStale (9000 * hour)
          \<lparr>breakers = [(''a.test'', NewCircuitBreaker DefaultCircuitBreakerConfig)], hconfig = DefaultCircuitBreakerConfig,
           lastCleanup = 0\<rparr> (30 * minute)))"
  by (rule healthy_breaker_never_evicted) (simp_all add: NewCircuitBreaker_def)

text \<open>The header's seconds wrap around: a whole number of seconds that fits the 64-bit duration is
  returned exactly, and one that does not is reduced modulo \<open>2^64\<close> nanoseconds; a server that asks
  for 9223372037 seconds is given a negative delay.\<close>

theorem ParseRetryAfter_seconds:
  assumes "val \<noteq> []" and "Atoi (trim_space val) = Some secs"
  shows "ParseRetryAfter parseDate now val = wrap64 (secs * second)
    \<and> (- (2 ^ 63) \<le> secs * second \<and> secs * second < 2 ^ 63 \<longrightarrow> ParseRetryAfter parseDate now val = secs * second)
    \<and> ParseRetryAfter parseDate now ''9223372037'' < 0"
proof -
  have "Atoi (trim_space ''9223372037'') = Some 9223372037" by code_simp
  then have "ParseRetryAfter parseDate now ''9223372037'' < 0" by (simp add: ParseRetryAfter_def wrap64_def)
  with assms show ?thesis by (auto simp: ParseRetryAfter_def wrap64_id)
qed

theorem ParseRetryAfter_seconds_witness:
  "ParseRetryAfter (\<lambda>_. None) 0 '' 120 '' = 120 * second"
proof -
  have "Atoi (trim_space '' 120 '') = Some 120" by code_simp
  from ParseRetryAfter_seconds [OF _ this, of "\<lambda>_. None" 0] show ?thesis by simp
qed

end
