(* ===== verification/GoPaths.thy ===== *)
theory GoPaths
  imports Prelude
begin

text \<open>
  Lexical path operations of \<open>path/filepath\<close> on Unix: \<open>Clean\<close> and \<open>Join\<close>, by way of the list of path
  elements, and what the clients need of them: joining a plain name to a directory appends exactly
  that element.
\<close>

definition clean_step :: "bool \<Rightarrow> string list \<Rightarrow> string \<Rightarrow> string list" where
  "clean_step rooted out seg =
     (if seg = [] \<or> seg = ''.'' then out
      else if seg = ''..'' then
        (if out \<noteq> [] \<and> last out \<noteq> ''..'' then butlast out
         else if rooted then out else out @ [''..''])
      else out @ [seg])"

definition is_rooted :: "string \<Rightarrow> bool" where
  "is_rooted path \<longleftrightarrow> has_prefix path ''/''"

definition elements :: "string \<Rightarrow> string list" where
  "elements path = foldl (clean_step (is_rooted path)) [] (split_on (CHR ''/'') path)"

definition render_path :: "bool \<Rightarrow> string list \<Rightarrow> string" where
  "render_path rooted es =
     (let p = (if rooted then ''/'' else []) @ join ''/'' es in if p = [] then ''.'' else p)"

definition Clean :: "string \<Rightarrow> string" where
  "Clean path = render_path (is_rooted path) (elements path)"

definition Join :: "string list \<Rightarrow> string" where
  "Join es = (let es' = filter (\<lambda>e. e \<noteq> []) es in if es' = [] then [] else Clean (join ''/'' es'))"

text \<open>A plain name is one path element: not empty, without a slash, not a dot element.\<close>

definition plain_name :: "string \<Rightarrow> bool" where
  "plain_name n \<longleftrightarrow> n \<noteq> [] \<and> CHR ''/'' \<notin> set n \<and> n \<noteq> ''.'' \<and> n \<noteq> ''..''"

section \<open>Lemmas\<close>

lemma split_on_append: "split_on c (s @ c # t) = split_on c s @ split_on c t"
proof (induction s)
  case (Cons a s)
  then show ?case by (cases "split_on c s") (auto split: list.splits)
qed (cases "split_on c t"; simp)

lemma split_on_plain: "c \<notin> set s \<Longrightarrow> split_on c s = [s]"
  by (induction s) auto

lemma clean_step_plain: "plain_name n \<Longrightarrow> clean_step rooted out n = out @ [n]"
  by (auto simp: clean_step_def plain_name_def)

lemma is_rooted_append: "d \<noteq> [] \<Longrightarrow> is_rooted (d @ t) = is_rooted d"
  by (cases d) (auto simp: is_rooted_def)

lemma elements_join:
  assumes "d \<noteq> []" and "plain_name n"
  shows "elements (d @ CHR ''/'' # n) = elements d @ [n]" and "is_rooted (d @ CHR ''/'' # n) = is_rooted d"
proof -
  show r: "is_rooted (d @ CHR ''/'' # n) = is_rooted d" using is_rooted_append [OF assms(1)] .
  have "split_on (CHR ''/'') n = [n]" using assms(2) by (auto simp: plain_name_def split_on_plain)
  then show "elements (d @ CHR ''/'' # n) = elements d @ [n]"
    unfolding elements_def r split_on_append by (simp add: clean_step_plain [OF assms(2)])
qed

lemma Join_plain:
  assumes "d \<noteq> []" and "plain_name n"
  shows "Join [d, n] = render_path (is_rooted d) (elements d @ [n])"
proof -
  have "n \<noteq> []" using assms(2) by (simp add: plain_name_def)
  then have "Join [d, n] = Clean (d @ CHR ''/'' # n)" using assms(1) by (simp add: Join_def)
  then show ?thesis using elements_join [OF assms] by (simp add: Clean_def)
qed

text \<open>The text in front of a plain name joined to a directory depends on the directory only.\<close>

definition dir_prefix :: "string \<Rightarrow> string" where
  "dir_prefix d = (if is_rooted d then ''/'' else []) @ concat (map (\<lambda>e. e @ ''/'') (elements d))"

lemma join_snoc: "join sep (es @ [n]) = concat (map (\<lambda>e. e @ sep) es) @ n"
  by (induction es) (auto simp: join_Cons)

lemma Join_dir_prefix:
  assumes "d \<noteq> []" and "plain_name n"
  shows "Join [d, n] = dir_prefix d @ n"
  using assms by (simp add: Join_plain render_path_def join_snoc dir_prefix_def Let_def plain_name_def)

lemma dir_prefix_slash: "dir_prefix d = [] \<or> last (dir_prefix d) = CHR ''/''"
  by (cases "elements d" rule: rev_cases) (auto simp: dir_prefix_def)

lemma Join_inject: "d \<noteq> [] \<Longrightarrow> plain_name m \<Longrightarrow> plain_name n \<Longrightarrow> Join [d, m] = Join [d, n] \<Longrightarrow> m = n"
  by (simp add: Join_dir_prefix)

end
