(* ===== verification/SessionRegistry.thy ===== *)
theory SessionRegistry
  imports GoPaths "HOL-Library.AList"
begin

text \<open>
  \<open>internal/daemon/session_registry.go\<close> and the session names of \<open>internal/daemon/path.go\<close>: the
  daemon's table of browser sessions with their private profile directories and reference tables.
  The table is an association list by name. A session pointer returned by \<open>Ensure\<close> is modelled by
  the stored record. The file system is the parameter \<open>mkdir\<close>, which reports whether creating and
  securing the directory failed. Formatting of times is not modelled: times stay numbers.
\<close>

section \<open>Session names\<close>

definition alnum_chars :: string where
  "alnum_chars = ''ABCDEFGHIJKLMNOPQRSTUVWXYZabcdefghijklmnopqrstuvwxyz0123456789''"

text \<open>The regular expression \<open>^[A-Za-z0-9][A-Za-z0-9._-]{0,63}$\<close>.\<close>

definition validSession :: "string \<Rightarrow> bool" where
  "validSession s =
     (case s of
        [] \<Rightarrow> False
      | c # cs \<Rightarrow> c \<in> set alnum_chars \<and> length cs \<le> 63 \<and> list_all (\<lambda>x. x \<in> set alnum_chars \<or> x \<in> set ''._-'') cs)"

datatype path_error = InvalidSessionName string | EmptyBase | BaseDirError string

definition SocketPathIn :: "string \<Rightarrow> string \<Rightarrow> path_error + string" where
  "SocketPathIn base session =
     (if \<not> validSession session then Inl (InvalidSessionName session)
      else if base = [] then Inl EmptyBase
      else Inr (Join [base, session @ ''.sock'']))"

text \<open>\<open>baseDir\<close> is the result of \<open>socketBaseDir\<close>, which reads the environment.\<close>

definition SocketPath :: "(string + string) \<Rightarrow> string \<Rightarrow> path_error + string" where
  "SocketPath baseDir session =
     (if \<not> validSession session then Inl (InvalidSessionName session)
      else (case baseDir of Inl err \<Rightarrow> Inl (BaseDirError err) | Inr base \<Rightarrow> Inr (Join [base, session @ ''.sock''])))"

section \<open>The registry\<close>

record SessionInfo =
  iName :: string
  iPID :: int
  iStartedAt :: go_time
  iActiveTabs :: int
  iLastActivity :: go_time
  iUserDataDir :: string
  iBrowserContextID :: string
  iRefCount :: nat
  iScope :: string
  iOriginPath :: string

record Session =
  Name :: string
  PID :: int
  UserDataDir :: string
  BrowserContextID :: string
  startedAt :: go_time
  lastActivity :: go_time
  activeTabs :: int
  refs :: "(string \<times> string) list"
  sscope :: string
  soriginPath :: string

record SessionRegistry =
  userDataRoot :: string
  rpid :: int
  rscope :: string
  roriginPath :: string
  sessions :: "(string \<times> Session) list"

datatype registry_error =
    ErrInvalidSession string
  | ErrSessionNotFound string
  | ErrDirectory string string
  | ErrNegativeTabs
  | ErrRefRequired
  | ErrRefNotFound string string

record SessionRegistryOptions =
  oUserDataRoot :: string
  oPID :: int
  oScope :: string
  oOriginPath :: string

definition NewSessionRegistry :: "int \<Rightarrow> string \<Rightarrow> SessionRegistryOptions \<Rightarrow> SessionRegistry" where
  "NewSessionRegistry getpid defaultUserDataRoot options =
     (let root = (if oUserDataRoot options = [] then defaultUserDataRoot else oUserDataRoot options)
      in \<lparr>userDataRoot = Clean root, rpid = (if oPID options = 0 then getpid else oPID options),
          rscope = oScope options, roriginPath = oOriginPath options, sessions = []\<rparr>)"

definition Ensure ::
  "(string \<Rightarrow> string option) \<Rightarrow> go_time \<Rightarrow> SessionRegistry \<Rightarrow> string \<Rightarrow> (registry_error + Session) \<times> SessionRegistry" where
  "Ensure mkdir now r name =
     (if \<not> validSession name then (Inl (ErrInvalidSession name), r)
      else (case map_of (sessions r) name of
              Some s \<Rightarrow> (Inr s, r)
            | None \<Rightarrow>
                (let dir = Join [userDataRoot r, name] in
                 case mkdir dir of
                   Some err \<Rightarrow> (Inl (ErrDirectory name err), r)
                 | None \<Rightarrow>
                     (let s = \<lparr>Name = name, PID = rpid r, UserDataDir = dir, BrowserContextID = ''context-'' @ name,
                               startedAt = now, lastActivity = now, activeTabs = 0, refs = [],
                               sscope = rscope r, soriginPath = roriginPath r\<rparr>
                      in (Inr s, r\<lparr>sessions := AList.update name s (sessions r)\<rparr>)))))"

definition info :: "Session \<Rightarrow> SessionInfo" where
  "info s = \<lparr>iName = Name s, iPID = PID s, iStartedAt = startedAt s, iActiveTabs = activeTabs s,
     iLastActivity = lastActivity s, iUserDataDir = UserDataDir s, iBrowserContextID = BrowserContextID s,
     iRefCount = length (refs s), iScope = sscope s, iOriginPath = soriginPath s\<rparr>"

definition registry_get :: "SessionRegistry \<Rightarrow> string \<Rightarrow> registry_error + SessionInfo" where
  "registry_get r name =
     (case map_of (sessions r) name of None \<Rightarrow> Inl (ErrSessionNotFound name) | Some s \<Rightarrow> Inr (info s))"

definition registry_list :: "SessionRegistry \<Rightarrow> SessionInfo list" where
  "registry_list r = map (\<lambda>name. info (the (map_of (sessions r) name))) (sort (map fst (sessions r)))"

definition with_session ::
  "SessionRegistry \<Rightarrow> string \<Rightarrow> (Session \<Rightarrow> Session) \<Rightarrow> registry_error option \<times> SessionRegistry" where
  "with_session r name f =
     (case map_of (sessions r) name of
        None \<Rightarrow> (Some (ErrSessionNotFound name), r)
      | Some s \<Rightarrow> (None, r\<lparr>sessions := AList.update name (f s) (sessions r)\<rparr>))"

definition Touch :: "go_time \<Rightarrow> SessionRegistry \<Rightarrow> string \<Rightarrow> registry_error option \<times> SessionRegistry" where
  "Touch now r name = with_session r name (\<lambda>s. s\<lparr>lastActivity := now\<rparr>)"

definition SetActiveTabs :: "SessionRegistry \<Rightarrow> string \<Rightarrow> int \<Rightarrow> registry_error option \<times> SessionRegistry" where
  "SetActiveTabs r name count =
     (if count < 0 then (Some ErrNegativeTabs, r)
      else with_session r name (\<lambda>s. s\<lparr>activeTabs := count\<rparr>))"

definition SetRef :: "SessionRegistry \<Rightarrow> string \<Rightarrow> string \<Rightarrow> string \<Rightarrow> registry_error option \<times> SessionRegistry" where
  "SetRef r name key ref =
     (if key = [] \<or> ref = [] then (Some ErrRefRequired, r)
      else with_session r name (\<lambda>s. s\<lparr>refs := AList.update key ref (refs s)\<rparr>))"

definition Ref :: "SessionRegistry \<Rightarrow> string \<Rightarrow> string \<Rightarrow> registry_error + string" where
  "Ref r name key =
     (case map_of (sessions r) name of
        None \<Rightarrow> Inl (ErrSessionNotFound name)
      | Some s \<Rightarrow> (case map_of (refs s) key of None \<Rightarrow> Inl (ErrRefNotFound key name) | Some ref \<Rightarrow> Inr ref))"

definition RefTable :: "SessionRegistry \<Rightarrow> string \<Rightarrow> registry_error + (string \<times> string) list" where
  "RefTable r name =
     (case map_of (sessions r) name of None \<Rightarrow> Inl (ErrSessionNotFound name) | Some s \<Rightarrow> Inr (refs s))"

definition Clear :: "SessionRegistry \<Rightarrow> SessionRegistry" where
  "Clear r = r\<lparr>sessions := []\<rparr>"

section \<open>Runs\<close>

datatype reg_event =
    EvEnsure "string \<Rightarrow> string option" go_time string
  | EvTouch go_time string
  | EvTabs string int
  | EvSetRef string string string
  | EvClear

primrec reg_step :: "SessionRegistry \<Rightarrow> reg_event \<Rightarrow> SessionRegistry" where
  "reg_step r (EvEnsure mkdir now name) = snd (Ensure mkdir now r name)"
| "reg_step r (EvTouch now name) = snd (Touch now r name)"
| "reg_step r (EvTabs name count) = snd (SetActiveTabs r name count)"
| "reg_step r (EvSetRef name key ref) = snd (SetRef r name key ref)"
| "reg_step r EvClear = Clear r"

definition event_session :: "reg_event \<Rightarrow> string option" where
  "event_session e =
     (case e of EvEnsure _ _ n \<Rightarrow> Some n | EvTouch _ n \<Rightarrow> Some n | EvTabs n _ \<Rightarrow> Some n
      | EvSetRef n _ _ \<Rightarrow> Some n | EvClear \<Rightarrow> None)"

section \<open>Lemmas\<close>

lemma validSession_plain:
  assumes "validSession n"
  shows "plain_name n"
proof -
  from assms obtain c cs where n: "n = c # cs" "c \<in> set alnum_chars" "list_all (\<lambda>x. x \<in> set alnum_chars \<or> x \<in> set ''._-'') cs"
    by (auto simp: validSession_def split: list.splits)
  have a: "CHR ''/'' \<notin> set alnum_chars" "CHR ''.'' \<notin> set alnum_chars" by code_simp+
  with n show ?thesis by (auto simp: plain_name_def list_all_iff)
qed

definition wf_sessions :: "string \<Rightarrow> SessionRegistry \<Rightarrow> bool" where
  "wf_sessions root r \<longleftrightarrow> userDataRoot r = root
     \<and> (\<forall>name s. map_of (sessions r) name = Some s \<longrightarrow>
          validSession name \<and> Name s = name \<and> UserDataDir s = dir_prefix root @ name \<and> 0 \<le> activeTabs s)"

lemma with_session_wf:
  assumes "wf_sessions root r"
    and "\<And>s. Name (f s) = Name s \<and> UserDataDir (f s) = UserDataDir s \<and> (0 \<le> activeTabs s \<longrightarrow> 0 \<le> activeTabs (f s))"
  shows "wf_sessions root (snd (with_session r name f))"
  using assms by (auto simp: wf_sessions_def with_session_def AList.update_conv' split: option.splits)

lemma Ensure_wf:
  assumes "wf_sessions root r" and "root \<noteq> []"
  shows "wf_sessions root (snd (Ensure mkdir now r name))"
  using assms validSession_plain [of name]
  by (auto simp: wf_sessions_def Ensure_def Let_def AList.update_conv' Join_dir_prefix split: option.splits)

lemma reg_step_wf: "wf_sessions root r \<Longrightarrow> root \<noteq> [] \<Longrightarrow> wf_sessions root (reg_step r e)"
  by (cases e) (auto simp: Ensure_wf Touch_def SetActiveTabs_def SetRef_def Clear_def intro!: with_session_wf,
      simp add: wf_sessions_def)

lemma Clean_nonempty: "Clean p \<noteq> []"
  by (simp add: Clean_def render_path_def Let_def)

definition registry_at :: "string \<Rightarrow> SessionRegistry" where
  "registry_at root = NewSessionRegistry 1 root \<lparr>oUserDataRoot = [], oPID = 0, oScope = [], oOriginPath = []\<rparr>"

interpretation registry: state_machine "NewSessionRegistry pid d opts" reg_step
    "wf_sessions (userDataRoot (NewSessionRegistry pid d opts))"
  for pid d opts
proof
  show "wf_sessions (userDataRoot (NewSessionRegistry pid d opts)) (NewSessionRegistry pid d opts)"
    by (simp add: wf_sessions_def NewSessionRegistry_def Let_def)
  have "userDataRoot (NewSessionRegistry pid d opts) \<noteq> []" by (simp add: NewSessionRegistry_def Let_def Clean_nonempty)
  then show "wf_sessions (userDataRoot (NewSessionRegistry pid d opts)) (reg_step r e)"
    if "wf_sessions (userDataRoot (NewSessionRegistry pid d opts)) r" for r e
    using that by (simp add: reg_step_wf)
qed

lemma Ensure_other: "m \<noteq> n \<Longrightarrow> map_of (sessions (snd (Ensure mkdir now r m))) n = map_of (sessions r) n"
  by (simp add: Ensure_def Let_def AList.update_conv' split: option.split)

lemma with_session_other: "m \<noteq> n \<Longrightarrow> map_of (sessions (snd (with_session r m f))) n = map_of (sessions r) n"
  by (simp add: with_session_def AList.update_conv' split: option.split)

lemma step_other_session: "event_session e \<noteq> Some n \<Longrightarrow> e \<noteq> EvClear \<Longrightarrow> map_of (sessions (reg_step r e)) n = map_of (sessions r) n"
  by (cases e) (simp_all add: event_session_def Ensure_other with_session_other Touch_def SetActiveTabs_def SetRef_def)

section \<open>Properties\<close>

text \<open>Profiles are private and confined: in every registry reachable by any operations, each session
  has a valid name, and its profile directory is that name directly under the registry's root, so
  two sessions never share a directory and no name leads outside the root.\<close>

theorem profiles_confined:
  assumes "r = foldl reg_step (NewSessionRegistry pid d opts) es"
    and "map_of (sessions r) m = Some s" and "map_of (sessions r) n = Some t"
  shows "validSession m \<and> Name s = m \<and> plain_name m \<and> UserDataDir s = dir_prefix (userDataRoot r) @ m
    \<and> (dir_prefix (userDataRoot r) = [] \<or> last (dir_prefix (userDataRoot r)) = CHR ''/'')
    \<and> (UserDataDir s = UserDataDir t \<longleftrightarrow> m = n)"
proof -
  have "wf_sessions (userDataRoot (NewSessionRegistry pid d opts)) r" unfolding assms(1) by (rule registry.inv_run)
  then have w: "userDataRoot r = userDataRoot (NewSessionRegistry pid d opts)"
    "validSession m" "Name s = m" "UserDataDir s = dir_prefix (userDataRoot r) @ m" "UserDataDir t = dir_prefix (userDataRoot r) @ n"
    using assms(2,3) by (auto simp: wf_sessions_def)
  with validSession_plain dir_prefix_slash show ?thesis by simp
qed

theorem profiles_confined_witness:
  "\<exists>s t. map_of (sessions (foldl reg_step (registry_at ''/home/u/./x/../p/'') [EvEnsure (\<lambda>_. None) 1 ''a'', EvEnsure (\<lambda>_. None) 2 ''b''])) ''a'' = Some s
     \<and> map_of (sessions (foldl reg_step (registry_at ''/home/u/./x/../p/'') [EvEnsure (\<lambda>_. None) 1 ''a'', EvEnsure (\<lambda>_. None) 2 ''b''])) ''b'' = Some t
     \<and> UserDataDir s = ''/home/u/p/a'' \<and> UserDataDir s \<noteq> UserDataDir t"
proof -
  let ?r = "foldl reg_step (registry_at ''/home/u/./x/../p/'') [EvEnsure (\<lambda>_. None) 1 ''a'', EvEnsure (\<lambda>_. None) 2 ''b'']"
  have "map_option UserDataDir (map_of (sessions ?r) ''a'') = Some ''/home/u/p/a''"
    "map_option UserDataDir (map_of (sessions ?r) ''b'') = Some ''/home/u/p/b''" by code_simp+
  then obtain s t where st: "map_of (sessions ?r) ''a'' = Some s" "map_of (sessions ?r) ''b'' = Some t" "UserDataDir s = ''/home/u/p/a''"
    by auto
  from profiles_confined [OF refl st(1,2) [unfolded registry_at_def]] have "UserDataDir s = UserDataDir t \<longleftrightarrow> ''a'' = ''b''" by blast
  then have "UserDataDir s \<noteq> UserDataDir t" by simp
  with st show ?thesis by blast
qed

text \<open>Sessions are isolated: operations on other sessions, however many, change neither the
  references nor the metadata of a session; and a reference set in a session is the one it resolves
  to afterwards.\<close>

theorem sessions_isolated:
  assumes "\<forall>e \<in> set es. event_session e \<noteq> Some n \<and> e \<noteq> EvClear"
    and "SetRef r n key ref = (None, r1)"
  shows "Ref (foldl reg_step r1 es) n key = Inr ref
    \<and> registry_get (foldl reg_step r1 es) n = registry_get r1 n
    \<and> RefTable (foldl reg_step r1 es) n = RefTable r1 n"
proof -
  have "map_of (sessions (foldl reg_step r1 es)) n = map_of (sessions r1) n"
    using assms(1) by (induction es arbitrary: r1) (auto simp: step_other_session)
  moreover have "Ref r1 n key = Inr ref"
    using assms(2) by (auto simp: SetRef_def with_session_def Ref_def AList.update_conv' split: if_splits option.splits)
  ultimately show ?thesis by (simp add: Ref_def registry_get_def RefTable_def)
qed

theorem sessions_isolated_witness:
  "Ref (foldl reg_step (snd (SetRef (foldl reg_step (registry_at ''/r'') [EvEnsure (\<lambda>_. None) 1 ''a'']) ''a'' ''k'' ''e1''))
      [EvEnsure (\<lambda>_. None) 2 ''b'', EvSetRef ''b'' ''k'' ''e9'']) ''a'' ''k'' = Inr ''e1''"
proof -
  let ?r = "foldl reg_step (registry_at ''/r'') [EvEnsure (\<lambda>_. None) 1 ''a'']"
  have "fst (SetRef ?r ''a'' ''k'' ''e1'') = None" by code_simp
  then have s: "SetRef ?r ''a'' ''k'' ''e1'' = (None, snd (SetRef ?r ''a'' ''k'' ''e1''))" by (metis prod.collapse)
  from sessions_isolated [OF _ s, of "[EvEnsure (\<lambda>_. None) 2 ''b'', EvSetRef ''b'' ''k'' ''e9'']"]
  show ?thesis by (simp add: event_session_def)
qed

end
