(* ===== verification/FetchCache.thy ===== *)
theory FetchCache
  imports GoPaths
begin

text \<open>
  \<open>internal/fetch/cache\<close>: the response cache of the fetcher (\<open>cache.go\<close>), its size index (\<open>index.go\<close>)
  and the inspection operations (\<open>manage.go\<close>).

  The cache directory is part of the state: the body files, the metadata files (a file that does not
  parse is \<open>BadMeta\<close>) and the persisted index. Writing can fail: \<open>io\<close> gives the error of each writing
  step of an operation, if any; removing a file that is there succeeds. Temporary files are not
  modelled, a rename installs the written content. \<open>clock n\<close> is the n-th reading of the cache's clock
  in an operation and \<open>wall\<close> the wall clock read by \<open>save\<close>. SHA-256 is the parameter \<open>digest\<close>, and
  \<open>meta_size\<close> is the length of the marshalled metadata. \<open>sort.Slice\<close> is a sort by time; the order of
  entries with equal times, which Go leaves open, is the index order.
\<close>

section \<open>Data\<close>

record Meta =
  MURL :: string
  FinalURL :: string
  StatusCode :: int
  ContentType :: string
  Protocol :: string
  Headers :: "(string \<times> string list) list"
  StoredAt :: go_time
  MTTL :: duration

record indexEntry =
  Key :: string
  Size :: int
  EStoredAt :: go_time

record cacheIndex =
  TotalSize :: int
  IEntries :: "indexEntry list"
  UpdatedAt :: go_time

datatype meta_file = GoodMeta Meta | BadMeta
datatype index_file = NoIndex | BadIndex | GoodIndex cacheIndex

record indexManager =
  index :: cacheIndex
  loaded :: bool
  dirty :: bool

record fetch_cache =
  bodies :: "string \<rightharpoonup> string"
  metas :: "string \<rightharpoonup> meta_file"
  index_on_disk :: index_file
  cttl :: duration
  maxSize :: int
  indexMgr :: indexManager
  lastSave :: go_time
  lastEviction :: go_time

datatype io_step = MkShard | WriteBody | RenameBody | WriteMeta | RenameMeta | WriteIndex | RenameIndex

abbreviation defaultMaxSize :: int where "defaultMaxSize \<equiv> 100 * 1024 * 1024"
abbreviation evictionDebounce :: duration where "evictionDebounce \<equiv> 30 * second"

section \<open>The index\<close>

definition newIndexManager :: indexManager where
  "newIndexManager = \<lparr>index = \<lparr>TotalSize = 0, IEntries = [], UpdatedAt = 0\<rparr>, loaded = False, dirty = False\<rparr>"

definition load_index :: "index_file \<Rightarrow> indexManager \<Rightarrow> bool \<times> indexManager" where
  "load_index file im =
     (if loaded im then (False, im)
      else (case file of
              NoIndex \<Rightarrow> (False, im\<lparr>loaded := True\<rparr>)
            | BadIndex \<Rightarrow> (False, im\<lparr>loaded := True\<rparr>)
            | GoodIndex idx \<Rightarrow> (True, im\<lparr>index := idx, loaded := True\<rparr>)))"

fun add_loop :: "string \<Rightarrow> int \<Rightarrow> go_time \<Rightarrow> int \<Rightarrow> indexEntry list \<Rightarrow> int \<times> indexEntry list" where
  "add_loop key sz storedAt tot [] = (tot + sz, [\<lparr>Key = key, Size = sz, EStoredAt = storedAt\<rparr>])"
| "add_loop key sz storedAt tot (e # es) =
     (if Key e = key then (tot - Size e + sz, \<lparr>Key = key, Size = sz, EStoredAt = storedAt\<rparr> # es)
      else (case add_loop key sz storedAt tot es of (t, es') \<Rightarrow> (t, e # es')))"

definition addEntry :: "indexManager \<Rightarrow> string \<Rightarrow> int \<Rightarrow> go_time \<Rightarrow> indexManager" where
  "addEntry im key sz storedAt =
     (case add_loop key sz storedAt (TotalSize (index im)) (IEntries (index im)) of
        (tot, es) \<Rightarrow> im\<lparr>index := (index im)\<lparr>TotalSize := tot, IEntries := es\<rparr>, dirty := True\<rparr>)"

definition rebuild :: "indexManager \<Rightarrow> indexEntry list \<Rightarrow> int \<Rightarrow> indexManager" where
  "rebuild im entries totalSize = im\<lparr>index := (index im)\<lparr>IEntries := entries, TotalSize := totalSize\<rparr>, dirty := True\<rparr>"

fun remove_loop :: "string \<Rightarrow> indexEntry list \<Rightarrow> (indexEntry \<times> indexEntry list) option" where
  "remove_loop key [] = None"
| "remove_loop key (e # es) =
     (if Key e = key then Some (e, es) else map_option (\<lambda>(r, es'). (r, e # es')) (remove_loop key es))"

definition removeEntry :: "indexManager \<Rightarrow> string \<Rightarrow> bool \<times> indexManager" where
  "removeEntry im key =
     (case remove_loop key (IEntries (index im)) of
        None \<Rightarrow> (False, im)
      | Some (e, es) \<Rightarrow>
          (True, im\<lparr>index := (index im)\<lparr>TotalSize := TotalSize (index im) - Size e, IEntries := es\<rparr>, dirty := True\<rparr>))"

definition getTotalSize :: "indexManager \<Rightarrow> int" where
  "getTotalSize im = TotalSize (index im)"

definition getEntries :: "indexManager \<Rightarrow> indexEntry list" where
  "getEntries im = IEntries (index im)"

definition needsSave :: "indexManager \<Rightarrow> bool" where
  "needsSave im = dirty im"

definition save :: "go_time \<Rightarrow> (io_step \<Rightarrow> string option) \<Rightarrow> fetch_cache \<Rightarrow> string option \<times> fetch_cache" where
  "save wall io c =
     (let idx = (index (indexMgr c))\<lparr>UpdatedAt := wall\<rparr>;
          c1 = c\<lparr>indexMgr := (indexMgr c)\<lparr>index := idx\<rparr>\<rparr>
      in case io WriteIndex of
           Some err \<Rightarrow> (Some err, c1)
         | None \<Rightarrow>
             (case io RenameIndex of
                Some err \<Rightarrow> (Some err, c1)
              | None \<Rightarrow> (None, c1\<lparr>index_on_disk := GoodIndex idx, indexMgr := (indexMgr c1)\<lparr>dirty := False\<rparr>\<rparr>)))"

section \<open>Opening\<close>

text \<open>\<open>scan\<close> is the order in which \<open>WalkDir\<close> reaches the metadata files.\<close>

definition scan_entry :: "(Meta \<Rightarrow> int) \<Rightarrow> fetch_cache \<Rightarrow> string \<Rightarrow> indexEntry option" where
  "scan_entry meta_size c key =
     (case metas c key of
        Some (GoodMeta m) \<Rightarrow>
          Some \<lparr>Key = key, Size = meta_size m + (case bodies c key of None \<Rightarrow> 0 | Some b \<Rightarrow> int (length b)),
                EStoredAt = StoredAt m\<rparr>
      | _ \<Rightarrow> None)"

definition scanCache :: "(Meta \<Rightarrow> int) \<Rightarrow> string list \<Rightarrow> fetch_cache \<Rightarrow> int \<times> indexEntry list" where
  "scanCache meta_size scan c =
     (let es = List.map_filter (scan_entry meta_size c) scan in (sum_list (map Size es), es))"

definition reconcileIndex ::
  "go_time \<Rightarrow> (io_step \<Rightarrow> string option) \<Rightarrow> (Meta \<Rightarrow> int) \<Rightarrow> string list \<Rightarrow> fetch_cache \<Rightarrow> fetch_cache" where
  "reconcileIndex wall io meta_size scan c =
     (case scanCache meta_size scan c of
        (sz, es) \<Rightarrow> snd (save wall io (c\<lparr>indexMgr := rebuild (indexMgr c) es sz\<rparr>)))"

definition NewWithClock ::
  "go_time \<Rightarrow> (io_step \<Rightarrow> string option) \<Rightarrow> (Meta \<Rightarrow> int) \<Rightarrow> string list
     \<Rightarrow> (string \<rightharpoonup> string) \<Rightarrow> (string \<rightharpoonup> meta_file) \<Rightarrow> index_file \<Rightarrow> duration \<Rightarrow> int \<Rightarrow> fetch_cache" where
  "NewWithClock wall io meta_size scan disk_bodies disk_metas disk_index ttl sz =
     (case load_index disk_index newIndexManager of
        (valid, im) \<Rightarrow>
          (let c = \<lparr>bodies = disk_bodies, metas = disk_metas, index_on_disk = disk_index, cttl = ttl,
                    maxSize = (if sz \<le> 0 then defaultMaxSize else sz), indexMgr = im,
                    lastSave = 0, lastEviction = 0\<rparr>
           in if valid then c else reconcileIndex wall io meta_size scan c))"

section \<open>Get and Put\<close>

record request =
  qURL :: string
  qProfile :: string
  qFormat :: string
  qSession :: string
  qContentKey :: string

abbreviation cacheKeyVersion :: string where "cacheKeyVersion \<equiv> ''v3''"

definition key_payload :: "request \<Rightarrow> string" where
  "key_payload q = join ''|'' [cacheKeyVersion, qURL q, qProfile q, qFormat q, qSession q, qContentKey q]"

definition cache_key :: "(string \<Rightarrow> string) \<Rightarrow> request \<Rightarrow> string" where
  "cache_key digest q = digest (key_payload q)"

definition Get :: "(string \<Rightarrow> string) \<Rightarrow> go_time \<Rightarrow> fetch_cache \<Rightarrow> request \<Rightarrow> (string \<times> Meta) option" where
  "Get digest now c q =
     (let k = cache_key digest q in
      case metas c k of
        Some (GoodMeta m) \<Rightarrow>
          (let ttl = (if MTTL m \<le> 0 then cttl c else MTTL m) in
           if ttl < now - StoredAt m then None
           else (case bodies c k of None \<Rightarrow> None | Some body \<Rightarrow> Some (body, m)))
      | _ \<Rightarrow> None)"

definition remove_files :: "string \<Rightarrow> fetch_cache \<Rightarrow> fetch_cache" where
  "remove_files k c = c\<lparr>bodies := (bodies c)(k := None), metas := (metas c)(k := None)\<rparr>"

fun evict_loop :: "int \<Rightarrow> indexEntry list \<Rightarrow> fetch_cache \<Rightarrow> fetch_cache" where
  "evict_loop tot [] c = c"
| "evict_loop tot (e # es) c =
     (if tot \<le> maxSize c * 8 div 10 then c
      else (let c1 = remove_files (Key e) c
            in evict_loop (tot - Size e) es (c1\<lparr>indexMgr := snd (removeEntry (indexMgr c1) (Key e))\<rparr>)))"

definition evictIfOverSize ::
  "(nat \<Rightarrow> go_time) \<Rightarrow> go_time \<Rightarrow> (io_step \<Rightarrow> string option) \<Rightarrow> fetch_cache \<Rightarrow> fetch_cache" where
  "evictIfOverSize clock wall io c =
     (if clock 1 - lastEviction c < evictionDebounce then c
      else (let tot = getTotalSize (indexMgr c) in
            if tot \<le> maxSize c then c
            else (let c1 = evict_loop tot (sort_key EStoredAt (getEntries (indexMgr c))) c;
                      c2 = c1\<lparr>lastEviction := clock 2\<rparr>
                  in if needsSave (indexMgr c2) \<and> minute < clock 3 - lastSave c2
                     then (snd (save wall io c2))\<lparr>lastSave := clock 4\<rparr>
                     else c2)))"

definition Put ::
  "(string \<Rightarrow> string) \<Rightarrow> (Meta \<Rightarrow> int) \<Rightarrow> (nat \<Rightarrow> go_time) \<Rightarrow> go_time \<Rightarrow> (io_step \<Rightarrow> string option)
     \<Rightarrow> fetch_cache \<Rightarrow> request \<Rightarrow> string \<Rightarrow> Meta \<Rightarrow> string option \<times> fetch_cache" where
  "Put digest meta_size clock wall io c q body meta0 =
     (let k = cache_key digest q;
          meta = meta0\<lparr>StoredAt := clock 0, MTTL := cttl c\<rparr>;
          first_err = (case io MkShard of Some e \<Rightarrow> Some e
                       | None \<Rightarrow> (case io WriteBody of Some e \<Rightarrow> Some e | None \<Rightarrow> io RenameBody))
      in case first_err of
           Some e \<Rightarrow> (Some e, c)
         | None \<Rightarrow>
             (let c1 = c\<lparr>bodies := (bodies c)(k \<mapsto> body)\<rparr> in
              case (case io WriteMeta of Some e \<Rightarrow> Some e | None \<Rightarrow> io RenameMeta) of
                Some e \<Rightarrow> (Some e, c1)
              | None \<Rightarrow>
                  (let c2 = c1\<lparr>metas := (metas c1)(k \<mapsto> GoodMeta meta)\<rparr>;
                       c3 = c2\<lparr>indexMgr := addEntry (indexMgr c2) k (int (length body) + meta_size meta) (StoredAt meta)\<rparr>;
                       c4 = snd (save wall io c3)
                   in (None, evictIfOverSize clock wall io c4))))"

section \<open>Inspection\<close>

datatype cache_error = ErrNotFound string | ErrExpired string | ErrDecode

record Entry =
  NKey :: string
  NBytes :: int
  NStoredAt :: go_time
  NExpiresAt :: go_time

fun entries_loop :: "go_time \<Rightarrow> indexEntry list \<Rightarrow> fetch_cache \<Rightarrow> Entry list \<times> fetch_cache" where
  "entries_loop now [] c = ([], c)"
| "entries_loop now (e # es) c =
     (let expiresAt = (if 0 < cttl c then EStoredAt e + cttl c else 0);
          drop_index = (\<lambda>d. d\<lparr>indexMgr := snd (removeEntry (indexMgr d) (Key e))\<rparr>)
      in if \<not> is_zero_time expiresAt \<and> expiresAt < now then entries_loop now es (drop_index (remove_files (Key e) c))
         else if bodies c (Key e) = None then entries_loop now es (drop_index c)
         else (case entries_loop now es c of
                 (out, c') \<Rightarrow> (\<lparr>NKey = Key e, NBytes = Size e, NStoredAt = EStoredAt e, NExpiresAt = expiresAt\<rparr> # out, c')))"

definition Entries :: "go_time \<Rightarrow> go_time \<Rightarrow> (io_step \<Rightarrow> string option) \<Rightarrow> fetch_cache \<Rightarrow> Entry list \<times> fetch_cache" where
  "Entries now wall io c =
     (case entries_loop now (getEntries (indexMgr c)) c of
        (out, c1) \<Rightarrow>
          (sort_key NStoredAt out, if needsSave (indexMgr c1) then snd (save wall io c1) else c1))"

definition validFetchCacheKey :: "string \<Rightarrow> bool" where
  "validFetchCacheKey key = (length key = 64 \<and> trim_cutset key ''0123456789abcdef'' = [])"

definition LoadKey :: "go_time \<Rightarrow> fetch_cache \<Rightarrow> string \<Rightarrow> cache_error + string" where
  "LoadKey now c key =
     (if \<not> validFetchCacheKey key then Inl (ErrNotFound key)
      else (case metas c key of
              None \<Rightarrow> Inl (ErrNotFound key)
            | Some BadMeta \<Rightarrow> Inl ErrDecode
            | Some (GoodMeta m) \<Rightarrow>
                (let ttl = (if MTTL m \<le> 0 then cttl c else MTTL m) in
                 if 0 < ttl \<and> ttl < now - StoredAt m then Inl (ErrExpired key)
                 else (case bodies c key of None \<Rightarrow> Inl (ErrNotFound key) | Some body \<Rightarrow> Inr body))))"

definition Clear :: "go_time \<Rightarrow> (io_step \<Rightarrow> string option) \<Rightarrow> fetch_cache \<Rightarrow> string option \<times> fetch_cache" where
  "Clear wall io c =
     save wall io (c\<lparr>bodies := Map.empty, metas := Map.empty, indexMgr := rebuild (indexMgr c) [] 0\<rparr>)"

section \<open>Lemmas\<close>

text \<open>The index accounts every entry once, with a non-negative size.\<close>

definition wf_index :: "cacheIndex \<Rightarrow> bool" where
  "wf_index idx \<longleftrightarrow> TotalSize idx = sum_list (map Size (IEntries idx)) \<and> distinct (map Key (IEntries idx))
     \<and> (\<forall>e \<in> set (IEntries idx). 0 \<le> Size e)"

lemma add_loop_spec:
  "snd (add_loop key sz t tot es) = es' \<Longrightarrow>
   fst (add_loop key sz t tot es) - sum_list (map Size es') = tot - sum_list (map Size es)
   \<and> Key ` set es' = insert key (Key ` set es) \<and> (\<forall>e \<in> set es'. e \<in> set es \<or> Size e = sz)"
proof (induction es arbitrary: es')
  case (Cons a es)
  then show ?case by (cases "add_loop key sz t tot es") (auto, metis imageI insertE)
qed auto

lemma add_loop_distinct: "distinct (map Key es) \<Longrightarrow> distinct (map Key (snd (add_loop key sz t tot es)))"
proof (induction es)
  case (Cons a es)
  with add_loop_spec [OF refl, of key sz t tot es] show ?case by (cases "add_loop key sz t tot es") auto
qed simp

lemma addEntry_wf: "wf_index (index im) \<Longrightarrow> 0 \<le> sz \<Longrightarrow> wf_index (index (addEntry im key sz t))"
  using add_loop_spec [OF refl, of key sz t "TotalSize (index im)" "IEntries (index im)"]
    add_loop_distinct [of "IEntries (index im)" key sz t "TotalSize (index im)"]
  by (auto simp: addEntry_def wf_index_def split: prod.splits)

lemma remove_loop_spec:
  assumes "remove_loop key es = Some (e, es')"
  shows "\<exists>xs ys. es = xs @ e # ys \<and> es' = xs @ ys \<and> Key e = key"
  using assms
proof (induction es arbitrary: es')
  case (Cons a es)
  show ?case
  proof (cases "Key a = key")
    case True
    with Cons.prems have "a = e" "es = es'" "Key e = key" by auto
    then show ?thesis by (metis append_Nil)
  next
    case False
    with Cons obtain es1 where "remove_loop key es = Some (e, es1)" "es' = a # es1" by (auto split: prod.splits)
    with Cons.IH [of es1] show ?thesis by (metis append_Cons)
  qed
qed simp

lemma remove_loop_None: "remove_loop key es = None \<longleftrightarrow> key \<notin> set (map Key es)"
  by (induction es) auto

lemma removeEntry_wf: "wf_index (index im) \<Longrightarrow> wf_index (index (snd (removeEntry im key)))"
  by (fastforce simp: removeEntry_def wf_index_def split: option.splits prod.splits dest!: remove_loop_spec)

lemma removeEntry_hit:
  assumes "wf_index (index im)" and "e \<in> set (IEntries (index im))"
  shows "TotalSize (index (snd (removeEntry im (Key e)))) = TotalSize (index im) - Size e"
    and "set (IEntries (index (snd (removeEntry im (Key e))))) = set (IEntries (index im)) - {e}"
proof -
  obtain f es' where f: "remove_loop (Key e) (IEntries (index im)) = Some (f, es')"
    using assms(2) remove_loop_None [of "Key e" "IEntries (index im)"] by force
  from remove_loop_spec [OF f] obtain xs ys where x: "IEntries (index im) = xs @ f # ys" "es' = xs @ ys" "Key f = Key e" by blast
  with assms have "f = e" by (fastforce simp: wf_index_def)
  moreover from assms x have "f \<notin> set (xs @ ys)" by (force simp: wf_index_def)
  ultimately show "TotalSize (index (snd (removeEntry im (Key e)))) = TotalSize (index im) - Size e"
    and "set (IEntries (index (snd (removeEntry im (Key e))))) = set (IEntries (index im)) - {e}"
    using f x by (auto simp: removeEntry_def)
qed

lemma save_index [simp]:
  "TotalSize (index (indexMgr (snd (save wall io c)))) = TotalSize (index (indexMgr c))"
  "IEntries (index (indexMgr (snd (save wall io c)))) = IEntries (index (indexMgr c))"
  "bodies (snd (save wall io c)) = bodies c" "metas (snd (save wall io c)) = metas c"
  "maxSize (snd (save wall io c)) = maxSize c" "cttl (snd (save wall io c)) = cttl c"
  "lastEviction (snd (save wall io c)) = lastEviction c"
  by (auto simp: save_def Let_def split: option.splits)

lemma wf_index_save [simp]: "wf_index (index (indexMgr (snd (save wall io c)))) \<longleftrightarrow> wf_index (index (indexMgr c))"
  by (simp add: wf_index_def)

text \<open>The eviction loop over the remaining entries of the index.\<close>

lemma evict_loop_bound:
  assumes "wf_index (index (indexMgr c))" and "tot = TotalSize (index (indexMgr c))"
    and "set es = set (IEntries (index (indexMgr c)))" and "distinct es" and "0 \<le> maxSize c"
  shows "wf_index (index (indexMgr (evict_loop tot es c)))
    \<and> TotalSize (index (indexMgr (evict_loop tot es c))) \<le> maxSize c * 8 div 10
    \<and> maxSize (evict_loop tot es c) = maxSize c"
  using assms
proof (induction es arbitrary: tot c)
  case Nil
  then show ?case by (simp add: wf_index_def)
next
  case (Cons e es)
  show ?case
  proof (cases "tot \<le> maxSize c * 8 div 10")
    case True
    with Cons.prems show ?thesis by simp
  next
    case False
    let ?c = "(remove_files (Key e) c)\<lparr>indexMgr := snd (removeEntry (indexMgr c) (Key e))\<rparr>"
    have mem: "e \<in> set (IEntries (index (indexMgr c)))" using Cons.prems(3) by auto
    have "wf_index (index (indexMgr ?c))" "maxSize ?c = maxSize c"
      using removeEntry_wf [OF Cons.prems(1)] by (simp_all add: remove_files_def)
    with Cons.IH [of ?c "tot - Size e"] removeEntry_hit [OF Cons.prems(1) mem] Cons.prems False
    show ?thesis by (auto simp: remove_files_def Let_def)
  qed
qed

lemma evictIfOverSize_bound:
  assumes "wf_index (index (indexMgr c))" and "0 \<le> maxSize c" and "evictionDebounce \<le> clock 1 - lastEviction c"
  shows "TotalSize (index (indexMgr (evictIfOverSize clock wall io c))) \<le> maxSize c"
proof -
  let ?es = "sort_key EStoredAt (getEntries (indexMgr c))"
  have "distinct ?es" using assms(1) by (auto simp: wf_index_def getEntries_def distinct_map)
  with evict_loop_bound [OF assms(1) refl, of ?es] assms(2)
  have "TotalSize (index (indexMgr (evict_loop (TotalSize (index (indexMgr c))) ?es c))) \<le> maxSize c * 8 div 10"
    by (simp add: getEntries_def)
  also have "\<dots> \<le> maxSize c" using assms(2) by simp
  finally show ?thesis using assms(3) by (simp add: evictIfOverSize_def getTotalSize_def Let_def)
qed

lemma evictIfOverSize_wf:
  assumes "wf_index (index (indexMgr c))" and "0 \<le> maxSize c"
  shows "wf_index (index (indexMgr (evictIfOverSize clock wall io c)))"
proof -
  let ?es = "sort_key EStoredAt (getEntries (indexMgr c))"
  have "distinct ?es" using assms(1) by (auto simp: wf_index_def getEntries_def distinct_map)
  with evict_loop_bound [OF assms(1) refl, of ?es] assms(2)
  have "wf_index (index (indexMgr (evict_loop (TotalSize (index (indexMgr c))) ?es c)))"
    by (simp add: getEntries_def)
  then show ?thesis using assms(1) by (simp add: evictIfOverSize_def getTotalSize_def Let_def)
qed

lemma Put_success:
  assumes "Put digest meta_size clock wall io c q body meta = (None, c')"
  shows "c' = evictIfOverSize clock wall io (snd (save wall io
    (c\<lparr>bodies := (bodies c)(cache_key digest q \<mapsto> body),
       metas := (metas c)(cache_key digest q \<mapsto> GoodMeta (meta\<lparr>StoredAt := clock 0, MTTL := cttl c\<rparr>)),
       indexMgr := addEntry (indexMgr c) (cache_key digest q)
         (int (length body) + meta_size (meta\<lparr>StoredAt := clock 0, MTTL := cttl c\<rparr>)) (clock 0)\<rparr>)))"
  using assms by (auto simp: Put_def Let_def split: option.splits)

section \<open>Properties\<close>

text \<open>C16. The cache is bounded: a successful \<open>Put\<close> that is not debounced leaves an index whose accounted
  size is within the maximum, for whatever the index held before; and the accounting is exact: the
  total is the sum of the sizes of the entries, each key counted once.\<close>

theorem Put_bounds_size:
  assumes "wf_index (index (indexMgr c))" and "0 \<le> maxSize c" and "\<And>m. 0 \<le> meta_size m"
    and "Put digest meta_size clock wall io c q body meta = (None, c')"
    and "evictionDebounce \<le> clock 1 - lastEviction c"
  shows "TotalSize (index (indexMgr c')) \<le> maxSize c \<and> wf_index (index (indexMgr c'))"
proof -
  let ?k = "cache_key digest q" and ?m = "meta\<lparr>StoredAt := clock 0, MTTL := cttl c\<rparr>"
  let ?c = "snd (save wall io (c\<lparr>bodies := (bodies c)(?k \<mapsto> body), metas := (metas c)(?k \<mapsto> GoodMeta ?m),
     indexMgr := addEntry (indexMgr c) ?k (int (length body) + meta_size ?m) (clock 0)\<rparr>))"
  have c': "c' = evictIfOverSize clock wall io ?c" by (rule Put_success [OF assms(4)])
  have "wf_index (index (indexMgr ?c))" using addEntry_wf [OF assms(1)] assms(3) by simp
  with evictIfOverSize_bound [of ?c clock wall io] evictIfOverSize_wf [of ?c] assms(2,5) show ?thesis
    unfolding c' by simp
qed

theorem Put_bounds_size_witness:
  "\<exists>c'. Put (\<lambda>s. s) (\<lambda>_. 10) (\<lambda>_. 100 * second) 0 (\<lambda>_. None)
      (NewWithClock 0 (\<lambda>_. None) (\<lambda>_. 10) [] Map.empty Map.empty NoIndex hour 12)
      \<lparr>qURL = ''u'', qProfile = [], qFormat = [], qSession = [], qContentKey = []\<rparr> ''body''
      \<lparr>MURL = ''u'', FinalURL = ''u'', StatusCode = 200, ContentType = [], Protocol = [], Headers = [], StoredAt = 0, MTTL = 0\<rparr>
      = (None, c') \<and> TotalSize (index (indexMgr c')) \<le> 12"
proof -
  let ?c = "NewWithClock 0 (\<lambda>_. None) (\<lambda>_. 10) [] Map.empty Map.empty NoIndex hour 12"
  let ?p = "Put (\<lambda>s. s) (\<lambda>_. 10) (\<lambda>_. 100 * second) 0 (\<lambda>_. None) ?c
      \<lparr>qURL = ''u'', qProfile = [], qFormat = [], qSession = [], qContentKey = []\<rparr> ''body''
      \<lparr>MURL = ''u'', FinalURL = ''u'', StatusCode = 200, ContentType = [], Protocol = [], Headers = [], StoredAt = 0, MTTL = 0\<rparr>"
  have c: "wf_index (index (indexMgr ?c))" "maxSize ?c = 12" "lastEviction ?c = 0"
    by (simp_all add: NewWithClock_def load_index_def newIndexManager_def reconcileIndex_def scanCache_def rebuild_def
        save_def Let_def List.map_filter_def wf_index_def)
  have "fst ?p = None" by code_simp
  then have p: "?p = (None, snd ?p)" by (metis prod.collapse)
  from Put_bounds_size [OF c(1) _ _ p] c p show ?thesis by fastforce
qed



text \<open>The cache keys are ambiguous: the fields of a request are joined with a bar that may occur in
  them, so two different requests, one of another session's profile, have the same key for every
  hash function and each is served the other's response.\<close>

theorem cache_key_ambiguous:
  "cache_key digest \<lparr>qURL = ''http://a.test/?q=x'', qProfile = ''y|p'', qFormat = f, qSession = s, qContentKey = k\<rparr>
     = cache_key digest \<lparr>qURL = ''http://a.test/?q=x|y'', qProfile = ''p'', qFormat = f, qSession = s, qContentKey = k\<rparr>"
  by (simp add: cache_key_def key_payload_def)

text \<open>A time to live that is not positive means two things: for an entry stored without one in a cache
  without one, \<open>LoadKey\<close> serves it at any later time, while \<open>Get\<close> never does.\<close>

theorem zero_ttl_disagrees:
  assumes "metas c (cache_key digest q) = Some (GoodMeta m)" and "bodies c (cache_key digest q) = Some body"
    and "MTTL m = 0" and "cttl c = 0" and "StoredAt m < now" and "validFetchCacheKey (cache_key digest q)"
  shows "LoadKey now c (cache_key digest q) = Inr body \<and> Get digest now c q = None"
  using assms by (simp add: LoadKey_def Get_def Let_def)

end
