(* ===== verification/Utf8.thy ===== *)
theory Utf8
  imports Prelude
begin

text \<open>
  UTF-8 as the Go runtime reads and writes it: \<open>unicode/utf8.DecodeRune\<close> (an invalid byte is one
  replacement character of width one), the conversion of a string to runes and back, and the
  facts the truncating components need: runes read from a string are valid, and writing valid runes
  and reading them again gives the same runes.
\<close>

section \<open>Decoding and encoding\<close>

definition byte :: "char \<Rightarrow> int" where
  "byte c = of_char c"

abbreviation RuneError :: int where "RuneError \<equiv> 0xFFFD"

definition is_cont :: "char \<Rightarrow> bool" where
  "is_cont c \<longleftrightarrow> 0x80 \<le> byte c \<and> byte c \<le> 0xBF"

text \<open>The range of the second byte depends on the first one: no overlong forms, no surrogates, nothing
  above \<open>U+10FFFF\<close>.\<close>

definition second_ok :: "int \<Rightarrow> char \<Rightarrow> bool" where
  "second_ok b0 c \<longleftrightarrow>
     (if b0 = 0xE0 then 0xA0 else if b0 = 0xF0 then 0x90 else 0x80) \<le> byte c
     \<and> byte c \<le> (if b0 = 0xED then 0x9F else if b0 = 0xF4 then 0x8F else 0xBF)"

definition decode_rune :: "string \<Rightarrow> int \<times> nat" where
  "decode_rune s =
     (case s of
        [] \<Rightarrow> (RuneError, 0)
      | c0 # r \<Rightarrow>
          (let b0 = byte c0 in
           if b0 < 0x80 then (b0, 1)
           else if 0xC2 \<le> b0 \<and> b0 \<le> 0xDF then
             (case r of
                c1 # _ \<Rightarrow> if is_cont c1 then ((b0 - 0xC0) * 64 + (byte c1 - 0x80), 2) else (RuneError, 1)
              | _ \<Rightarrow> (RuneError, 1))
           else if 0xE0 \<le> b0 \<and> b0 \<le> 0xEF then
             (case r of
                c1 # c2 # _ \<Rightarrow>
                  if second_ok b0 c1 \<and> is_cont c2
                  then ((b0 - 0xE0) * 4096 + (byte c1 - 0x80) * 64 + (byte c2 - 0x80), 3) else (RuneError, 1)
              | _ \<Rightarrow> (RuneError, 1))
           else if 0xF0 \<le> b0 \<and> b0 \<le> 0xF4 then
             (case r of
                c1 # c2 # c3 # _ \<Rightarrow>
                  if second_ok b0 c1 \<and> is_cont c2 \<and> is_cont c3
                  then ((b0 - 0xF0) * 262144 + (byte c1 - 0x80) * 4096 + (byte c2 - 0x80) * 64 + (byte c3 - 0x80), 4)
                  else (RuneError, 1)
              | _ \<Rightarrow> (RuneError, 1))
           else (RuneError, 1)))"

lemma decode_rune_width: "s \<noteq> [] \<Longrightarrow> 0 < snd (decode_rune s) \<and> snd (decode_rune s) \<le> length s"
  by (auto simp: decode_rune_def Let_def split: list.splits)

function runes :: "string \<Rightarrow> int list" where
  "runes s = (if s = [] then [] else (case decode_rune s of (r, w) \<Rightarrow> r # runes (drop w s)))"
  by auto
termination
proof (relation "measure length", goal_cases)
  case (2 s x y)
  then have "0 < y" using decode_rune_width [of s] by (metis snd_conv)
  with 2 show ?case by (cases s) auto
qed simp

declare runes.simps [simp del]

definition valid_rune :: "int \<Rightarrow> bool" where
  "valid_rune r \<longleftrightarrow> 0 \<le> r \<and> r < 0xD800 \<or> 0xE000 \<le> r \<and> r \<le> 0x10FFFF"

definition encode_rune :: "int \<Rightarrow> string" where
  "encode_rune r0 =
     (let r = (if valid_rune r0 then r0 else RuneError) in
      if r < 0x80 then [char_of r]
      else if r < 0x800 then [char_of (0xC0 + r div 64), char_of (0x80 + r mod 64)]
      else if r < 0x10000 then
        [char_of (0xE0 + r div 4096), char_of (0x80 + r div 64 mod 64), char_of (0x80 + r mod 64)]
      else [char_of (0xF0 + r div 262144), char_of (0x80 + r div 4096 mod 64), char_of (0x80 + r div 64 mod 64),
            char_of (0x80 + r mod 64)])"

definition encode :: "int list \<Rightarrow> string" where
  "encode rs = concat (map encode_rune rs)"

section \<open>Lemmas\<close>

lemma byte_range: "0 \<le> byte c" "byte c < 256"
  unfolding byte_def using of_char_mod_256 [of c, where 'a = int]
  by (metis pos_mod_sign zero_less_numeral, metis pos_mod_bound zero_less_numeral)

lemma byte_char_of: "0 \<le> n \<Longrightarrow> n < 256 \<Longrightarrow> byte (char_of n) = n"
  by (simp add: byte_def)

lemma decode_valid: "s \<noteq> [] \<Longrightarrow> valid_rune (fst (decode_rune s))"
  using byte_range
  by (auto simp: decode_rune_def Let_def valid_rune_def is_cont_def second_ok_def split: list.splits if_splits)

lemma decode2:
  assumes "2 \<le> a" "a < 32" "0 \<le> b" "b < 64"
  shows "decode_rune (char_of (0xC0 + a :: int) # char_of (0x80 + b :: int) # s) = (a * 64 + b, 2)"
  using assms by (simp add: decode_rune_def Let_def byte_char_of is_cont_def)

lemma decode3:
  assumes "0 \<le> a" "a < 16" "0 \<le> b" "b < 64" "0 \<le> c" "c < 64" "a = 0 \<longrightarrow> 32 \<le> b" "a = 13 \<longrightarrow> b < 32"
  shows "decode_rune (char_of (0xE0 + a :: int) # char_of (0x80 + b :: int) # char_of (0x80 + c :: int) # s)
    = (a * 4096 + b * 64 + c, 3)"
  using assms by (auto simp: decode_rune_def Let_def byte_char_of is_cont_def second_ok_def)

lemma decode4:
  assumes "0 \<le> a" "a \<le> 4" "0 \<le> b" "b < 64" "0 \<le> c" "c < 64" "0 \<le> d" "d < 64" "a = 0 \<longrightarrow> 16 \<le> b" "a = 4 \<longrightarrow> b < 16"
  shows "decode_rune (char_of (0xF0 + a :: int) # char_of (0x80 + b :: int) # char_of (0x80 + c :: int) # char_of (0x80 + d :: int) # s)
    = (a * 262144 + b * 4096 + c * 64 + d, 4)"
  using assms by (auto simp: decode_rune_def Let_def byte_char_of is_cont_def second_ok_def)

lemma decode_encode:
  assumes "valid_rune r"
  shows "decode_rune (encode_rune r @ s) = (r, length (encode_rune r))"
proof -
  consider "r < 0x80" | "0x80 \<le> r" "r < 0x800" | "0x800 \<le> r" "r < 0x10000" | "0x10000 \<le> r" by linarith
  then show ?thesis
  proof cases
    case 1
    with assms show ?thesis by (auto simp: encode_rune_def decode_rune_def valid_rune_def byte_char_of)
  next
    case 2
    then have "2 \<le> r div 64" "r div 64 < 32" by auto
    with decode2 [of "r div 64" "r mod 64" s] 2 assms show ?thesis by (simp add: encode_rune_def)
  next
    case 3
    define q c where "q = r div 64" and "c = r mod 64"
    define a b where "a = q div 64" and "b = q mod 64"
    have q: "r = 64 * q + c" "q = 64 * a + b" unfolding q_def c_def a_def b_def by (simp_all only: mult_div_mod_eq)
    have m: "0 \<le> b" "b < 64" "0 \<le> c" "c < 64" by (simp_all add: b_def c_def)
    have e: "r div 64 mod 64 = b" "r mod 64 = c" by (simp_all only: q_def b_def c_def)
    have d: "r div 4096 = a" by (rule int_div_pos_eq [of _ _ _ "b * 64 + c"]) (use q m in linarith)+
    have g: "0 \<le> a" "a < 16" using q m 3 by linarith+
    have h: "a = 0 \<longrightarrow> 32 \<le> b" "a = 13 \<longrightarrow> b < 32" using q m 3 assms unfolding valid_rune_def by linarith+
    have "encode_rune r = [char_of (0xE0 + a), char_of (0x80 + b), char_of (0x80 + c)]"
      using 3 assms by (simp add: encode_rune_def d e)
    with decode3 [OF g m h, of s] q show ?thesis by simp
  next
    case 4
    define p d where "p = r div 64" and "d = r mod 64"
    define q c where "q = p div 64" and "c = p mod 64"
    define a b where "a = q div 64" and "b = q mod 64"
    have q: "r = 64 * p + d" "p = 64 * q + c" "q = 64 * a + b"
      unfolding p_def d_def q_def c_def a_def b_def by (simp_all only: mult_div_mod_eq)
    have m: "0 \<le> b" "b < 64" "0 \<le> c" "c < 64" "0 \<le> d" "d < 64" by (simp_all add: b_def c_def d_def)
    have e: "r div 64 mod 64 = c" "r mod 64 = d" by (simp_all only: p_def c_def d_def)
    have k: "r div 4096 = q" by (rule int_div_pos_eq [of _ _ _ "c * 64 + d"]) (use q m in linarith)+
    have l: "r div 262144 = a" by (rule int_div_pos_eq [of _ _ _ "b * 4096 + c * 64 + d"]) (use q m in linarith)+
    have r: "0 \<le> r" "r \<le> 0x10FFFF" using assms 4 by (auto simp: valid_rune_def)
    have g: "0 \<le> a" "a \<le> 4" using q m r by linarith+
    have h: "a = 0 \<longrightarrow> 16 \<le> b" "a = 4 \<longrightarrow> b < 16" using q m 4 r by linarith+
    have "encode_rune r = [char_of (0xF0 + a), char_of (0x80 + b), char_of (0x80 + c), char_of (0x80 + d)]"
      using 4 assms by (simp add: encode_rune_def k l e b_def [symmetric])
    with decode4 [OF g m h, of s] q show ?thesis by simp
  qed
qed

lemma encode_rune_nonempty: "encode_rune r \<noteq> []"
  by (simp add: encode_rune_def Let_def)

lemma runes_Nil [simp]: "runes [] = []"
  by (simp add: runes.simps)

lemma runes_encode: "\<forall>r \<in> set rs. valid_rune r \<Longrightarrow> runes (encode rs) = rs"
proof (induction rs)
  case (Cons r rs)
  then have "runes (encode_rune r @ encode rs) = r # runes (encode rs)"
    by (subst runes.simps) (simp add: decode_encode encode_rune_nonempty)
  with Cons show ?case by (simp add: encode_def)
qed (simp add: encode_def)

lemma runes_valid: "r \<in> set (runes s) \<Longrightarrow> valid_rune r"
proof (induction s rule: runes.induct)
  case (1 s)
  show ?case
  proof (cases "s = []")
    case False
    obtain x w where d: "decode_rune s = (x, w)" by fastforce
    then have "runes s = x # runes (drop w s)" using False by (subst runes.simps) simp
    with 1 False d decode_valid [OF False] show ?thesis by auto
  qed (use 1 in simp)
qed

end
