(* ===== verification/OutputBudget.thy ===== *)
theory OutputBudget
  imports Utf8 GoPaths
begin

text \<open>
  \<open>internal/budget/budget.go\<close>: the token estimate, the head-and-foot truncation, and the cache that
  keeps the full output behind a handle. The cache directory is the map of data files and the map of
  metadata files by id (a metadata file that does not parse is \<open>BadCacheMeta\<close>); \<open>io\<close> gives the error
  of each writing step, if any. \<open>json.Marshal\<close> is a parameter. Sizes and token counts are far below
  the 64-bit range, so they are integers; a slice out of range is \<^const>\<open>None\<close>.
\<close>

section \<open>Estimate and truncation\<close>

definition Estimate :: "string \<Rightarrow> int" where
  "Estimate text =
     (let n = int (length (runes text)) in
      if n = 0 then 0 else (let tokens = n div 4 in if tokens = 0 then 1 else tokens))"

text \<open>Integer division of Go truncates towards zero.\<close>

definition go_div :: "int \<Rightarrow> int \<Rightarrow> int" where
  "go_div a b = (if (a < 0) = (b < 0) then \<bar>a\<bar> div \<bar>b\<bar> else - (\<bar>a\<bar> div \<bar>b\<bar>))"

record truncation =
  t_head :: string
  t_foot :: string
  tokensReturned :: int
  tokensTotal :: int
  t_truncated :: bool

definition Truncate :: "string \<Rightarrow> int \<Rightarrow> truncation option" where
  "Truncate content maxTokens =
     (let all = Estimate content in
      if all \<le> maxTokens
      then Some \<lparr>t_head = content, t_foot = [], tokensReturned = all, tokensTotal = all, t_truncated = False\<rparr>
      else (let rs = runes content;
                n = int (length rs);
                headBudget = go_div (maxTokens * 6) 10;
                footBudget = maxTokens - headBudget;
                headEnd = (if n < headBudget * 4 then n else headBudget * 4);
                footStart0 = n - footBudget * 4;
                footStart = (if footStart0 < headEnd then headEnd else footStart0)
            in if headEnd < 0 \<or> footStart < 0 \<or> n < footStart then None
               else (let head = encode (take (nat headEnd) rs);
                         foot = encode (drop (nat footStart) rs)
                     in Some \<lparr>t_head = head, t_foot = foot, tokensReturned = Estimate head + Estimate foot,
                              tokensTotal = all, t_truncated = True\<rparr>)))"

section \<open>The output cache\<close>

record cacheMeta =
  cm_ID :: string
  cm_CreatedAt :: go_time
  cm_ExpiresAt :: go_time

datatype cache_meta_file = CacheMeta cacheMeta | BadCacheMeta

record out_cache =
  data_files :: "string \<rightharpoonup> string"
  meta_files :: "string \<rightharpoonup> cache_meta_file"
  out_ttl :: duration

definition NewCache :: "duration \<Rightarrow> (string \<rightharpoonup> string) \<Rightarrow> (string \<rightharpoonup> cache_meta_file) \<Rightarrow> out_cache" where
  "NewCache ttl data meta = \<lparr>data_files = data, meta_files = meta, out_ttl = ttl\<rparr>"

definition hex_digits :: string where
  "hex_digits = ''0123456789abcdef''"

definition hex_byte :: "int \<Rightarrow> string" where
  "hex_byte b = [hex_digits ! nat (b div 16), hex_digits ! nat (b mod 16)]"

definition NewID :: "go_time \<Rightarrow> string" where
  "NewID now = ''out_'' @ concat (map (\<lambda>i. hex_byte (now div 256 ^ i mod 256)) [0, 1, 2, 3, 4, 5])"

datatype out_step = MkRoot | WriteData | WriteCacheMeta

datatype budget_error =
    NotFound string
  | Expired string
  | MetaDecode
  | IoError out_step string
  | SerializeError string
  | NoCache
  | CacheUnavailable budget_error
  | BudgetPanic

text \<open>\<open>now\<close> is the clock read by \<open>NewID\<close> and \<open>now2\<close> the one that dates the entry.\<close>

definition Store ::
  "go_time \<Rightarrow> go_time \<Rightarrow> (out_step \<Rightarrow> string option) \<Rightarrow> out_cache \<Rightarrow> string \<Rightarrow> (budget_error + string) \<times> out_cache" where
  "Store now now2 io c data =
     (let i = NewID now;
          expires = (if 0 < out_ttl c then now2 + out_ttl c else 0)
      in case io MkRoot of
           Some e \<Rightarrow> (Inl (IoError MkRoot e), c)
         | None \<Rightarrow>
             (case io WriteData of
                Some e \<Rightarrow> (Inl (IoError WriteData e), c)
              | None \<Rightarrow>
                  (let c1 = c\<lparr>data_files := (data_files c)(i \<mapsto> data)\<rparr> in
                   case io WriteCacheMeta of
                     Some e \<Rightarrow> (Inl (IoError WriteCacheMeta e), c1)
                   | None \<Rightarrow>
                       (Inr i, c1\<lparr>meta_files := (meta_files c1)(i \<mapsto> CacheMeta \<lparr>cm_ID = i, cm_CreatedAt = now2, cm_ExpiresAt = expires\<rparr>)\<rparr>))))"

definition validCacheID :: "string \<Rightarrow> bool" where
  "validCacheID i =
     (if length i \<noteq> length ''out_'' + 12 \<or> \<not> has_prefix i ''out_'' then False
      else trim_cutset (drop (length ''out_'') i) hex_digits = [])"

definition loadMeta :: "out_cache \<Rightarrow> string \<Rightarrow> budget_error + cacheMeta" where
  "loadMeta c i =
     (case meta_files c i of
        None \<Rightarrow> Inl (NotFound i)
      | Some BadCacheMeta \<Rightarrow> Inl MetaDecode
      | Some (CacheMeta m) \<Rightarrow> Inr m)"

definition remove_entry :: "out_cache \<Rightarrow> string \<Rightarrow> out_cache" where
  "remove_entry c i = c\<lparr>data_files := (data_files c)(i := None), meta_files := (meta_files c)(i := None)\<rparr>"

definition expired_meta :: "go_time \<Rightarrow> cacheMeta \<Rightarrow> bool" where
  "expired_meta now m \<longleftrightarrow> \<not> is_zero_time (cm_ExpiresAt m) \<and> cm_ExpiresAt m < now"

definition Load :: "go_time \<Rightarrow> out_cache \<Rightarrow> string \<Rightarrow> (budget_error + string) \<times> out_cache" where
  "Load now c i =
     (if \<not> validCacheID i then (Inl (NotFound i), c)
      else (case loadMeta c i of
              Inl err \<Rightarrow> (Inl err, c)
            | Inr m \<Rightarrow>
                if expired_meta now m then (Inl (Expired i), remove_entry c i)
                else (case data_files c i of None \<Rightarrow> (Inl (NotFound i), c) | Some data \<Rightarrow> (Inr data, c))))"

text \<open>\<open>Glob\<close> returns the metadata files in some order, given by the list of their ids.\<close>

definition purgeExpiredLocked :: "go_time \<Rightarrow> string list \<Rightarrow> out_cache \<Rightarrow> out_cache" where
  "purgeExpiredLocked now glob c =
     (if out_ttl c \<le> 0 then c
      else foldl (\<lambda>c' i. case meta_files c' i of
                           Some (CacheMeta m) \<Rightarrow> if expired_meta now m then remove_entry c' (cm_ID m) else c'
                         | _ \<Rightarrow> c') c glob)"

definition PurgeExpired :: "go_time \<Rightarrow> string list \<Rightarrow> out_cache \<Rightarrow> out_cache" where
  "PurgeExpired now glob c = purgeExpiredLocked now glob c"

record out_entry =
  e_ID :: string
  e_Bytes :: int
  e_CreatedAt :: go_time
  e_ExpiresAt :: go_time
  e_Expired :: bool

definition list_entry :: "go_time \<Rightarrow> out_cache \<Rightarrow> string \<Rightarrow> out_entry option" where
  "list_entry now c i =
     (case meta_files c i of
        Some (CacheMeta m) \<Rightarrow>
          (case data_files c (cm_ID m) of
             None \<Rightarrow> None
           | Some data \<Rightarrow> Some \<lparr>e_ID = cm_ID m, e_Bytes = int (length data), e_CreatedAt = cm_CreatedAt m,
                                 e_ExpiresAt = cm_ExpiresAt m, e_Expired = expired_meta now m\<rparr>)
      | _ \<Rightarrow> None)"

definition cache_list :: "go_time \<Rightarrow> go_time \<Rightarrow> string list \<Rightarrow> out_cache \<Rightarrow> out_entry list \<times> out_cache" where
  "cache_list now now2 glob c =
     (let c1 = purgeExpiredLocked now glob c
      in (sort_key e_CreatedAt (List.map_filter (list_entry now2 c1) glob), c1))"

definition clear_cache :: "out_cache \<Rightarrow> out_cache" where
  "clear_cache c = c\<lparr>data_files := Map.empty, meta_files := Map.empty\<rparr>"

section \<open>Applying the budget\<close>

record Marker =
  m_Truncated :: bool
  m_TokensReturned :: int
  m_TokensTotal :: int
  m_CacheID :: string
  m_Hint :: string
  m_Head :: string
  m_Foot :: string

datatype 'a applied = Whole 'a | Marked Marker

definition budget_hint :: "string \<Rightarrow> string \<Rightarrow> string" where
  "budget_hint surface i =
     (if surface = ''mcp'' then ''Call the cache_get MCP tool with cache_id='' @ i @ '' and range=40-120''
      else ''symbrowse cache get '' @ i @ '' --range 40-120'')"

definition ApplyWithHint ::
  "('a \<Rightarrow> string + string) \<Rightarrow> go_time \<Rightarrow> go_time \<Rightarrow> (out_step \<Rightarrow> string option) \<Rightarrow> out_cache option \<Rightarrow> 'a \<Rightarrow> int \<Rightarrow> string
     \<Rightarrow> (budget_error + 'a applied) \<times> out_cache option" where
  "ApplyWithHint marshal now now2 io cache data maxTokens surface =
     (case marshal data of
        Inl err \<Rightarrow> (Inl (SerializeError err), cache)
      | Inr full \<Rightarrow>
          if maxTokens \<le> 0 then (Inr (Whole data), cache)
          else (case Truncate full maxTokens of
                  None \<Rightarrow> (Inl BudgetPanic, cache)
                | Some t \<Rightarrow>
                    if \<not> t_truncated t then (Inr (Whole data), cache)
                    else (case cache of
                            None \<Rightarrow> (Inl NoCache, cache)
                          | Some c \<Rightarrow>
                              (case Store now now2 io c full of
                                 (Inl err, c') \<Rightarrow> (Inl (CacheUnavailable err), Some c')
                               | (Inr i, c') \<Rightarrow>
                                   (Inr (Marked \<lparr>m_Truncated = True, m_TokensReturned = tokensReturned t,
                                      m_TokensTotal = tokensTotal t, m_CacheID = i, m_Hint = budget_hint surface i,
                                      m_Head = t_head t, m_Foot = t_foot t\<rparr>), Some c')))))"

definition Apply ::
  "('a \<Rightarrow> string + string) \<Rightarrow> go_time \<Rightarrow> go_time \<Rightarrow> (out_step \<Rightarrow> string option) \<Rightarrow> out_cache option \<Rightarrow> 'a \<Rightarrow> int
     \<Rightarrow> (budget_error + 'a applied) \<times> out_cache option" where
  "Apply marshal now now2 io cache data maxTokens = ApplyWithHint marshal now now2 io cache data maxTokens ''cli''"

definition LineRange :: "string \<Rightarrow> int \<Rightarrow> int \<Rightarrow> string" where
  "LineRange content a0 b0 =
     (let ls = split_on (CHR 0x0A) content;
          n = int (length ls);
          a = (if a0 < 1 then 1 else a0);
          b = (if b0 < a \<or> n < b0 then n else b0)
      in if n < a then [] else join [CHR 0x0A] (take (nat b - nat (a - 1)) (drop (nat (a - 1)) ls)))"

section \<open>Lemmas\<close>

lemma Estimate_encode:
  "\<forall>r \<in> set rs. valid_rune r \<Longrightarrow> Estimate (encode rs) = (if rs = [] then 0 else max 1 (int (length rs) div 4))"
  by (auto simp: Estimate_def Let_def runes_encode)

lemma Estimate_encode_le:
  assumes "\<forall>r \<in> set rs. valid_rune r" and "int (length rs) \<le> 4 * b"
  shows "Estimate (encode rs) \<le> b"
proof (cases "rs = []")
  case False
  then have "0 < int (length rs)" by simp
  with assms(2) have "1 \<le> b" "int (length rs) div 4 \<le> b" by linarith+
  with False show ?thesis by (simp add: Estimate_encode [OF assms(1)])
qed (use assms in \<open>simp add: Estimate_encode\<close>)

lemma go_div_nonneg: "0 \<le> a \<Longrightarrow> 0 < b \<Longrightarrow> go_div a b = a div b"
  by (simp add: go_div_def)

lemma Truncate_small: "Estimate s \<le> n \<Longrightarrow>
    Truncate s n = Some \<lparr>t_head = s, t_foot = [], tokensReturned = Estimate s, tokensTotal = Estimate s, t_truncated = False\<rparr>"
  by (simp add: Truncate_def Let_def)

lemma Estimate_div: "Estimate s \<le> int (length (runes s)) div 4 + 1"
  and Estimate_gt: "1 \<le> k \<Longrightarrow> k < Estimate s \<Longrightarrow> 4 * k < int (length (runes s))"
  by (auto simp: Estimate_def Let_def split: if_splits)

text \<open>The cut points of a truncation: the head takes four runes per token of its share, the foot the
  same of the rest, and the two do not overlap.\<close>

lemma Truncate_large:
  assumes "0 < maxTokens" and "maxTokens < Estimate s"
    and h_def: "h = maxTokens * 6 div 10" and rs_def: "rs = runes s"
    and k_def: "k = nat (4 * h)" and l_def: "l = nat (4 * (maxTokens - h))"
  shows "Truncate s maxTokens = Some \<lparr>t_head = encode (take k rs), t_foot = encode (drop (length rs - l) rs),
      tokensReturned = Estimate (encode (take k rs)) + Estimate (encode (drop (length rs - l) rs)),
      tokensTotal = Estimate s, t_truncated = True\<rparr>"
    and "k + l < length rs" and "0 \<le> h" and "h \<le> maxTokens"
proof -
  have n: "4 * maxTokens < int (length rs)" using Estimate_gt [of maxTokens s] assms(1,2) rs_def by simp
  show h: "0 \<le> h" "h \<le> maxTokens" using assms(1) h_def by auto
  have g: "go_div (maxTokens * 6) 10 = h" using assms(1) h_def by (simp add: go_div_nonneg)
  have i: "int k = 4 * h" "int l = 4 * (maxTokens - h)" using h k_def l_def by auto
  then have "int (k + l) < int (length rs)" using n by simp
  then show kl: "k + l < length rs" by (simp only: of_nat_less_iff)
  have "int (length rs) - (maxTokens - h) * 4 = int (length rs - l)" using kl i by (simp add: of_nat_diff)
  moreover have "\<not> int (length rs) < h * 4" "\<not> int (length rs - l) < h * 4" using n h i by (auto simp: of_nat_diff)
  ultimately show "Truncate s maxTokens = Some \<lparr>t_head = encode (take k rs), t_foot = encode (drop (length rs - l) rs),
      tokensReturned = Estimate (encode (take k rs)) + Estimate (encode (drop (length rs - l) rs)),
      tokensTotal = Estimate s, t_truncated = True\<rparr>"
    using assms(2) g h unfolding Truncate_def Let_def rs_def [symmetric]
    by (simp add: k_def mult.commute)
qed

lemma hex_digit_in: "0 \<le> b \<Longrightarrow> b < 16 \<Longrightarrow> hex_digits ! nat b \<in> set hex_digits"
  by (rule nth_mem) (simp add: hex_digits_def)

lemma hex_byte_digits [simp]: "set (hex_byte (x mod 256)) \<subseteq> set hex_digits" "length (hex_byte b) = 2"
  by (simp_all add: hex_byte_def hex_digit_in)

lemma NewID_valid: "validCacheID (NewID now)"
  by (simp add: validCacheID_def NewID_def trim_cutset_empty_iff)

lemma Store_success:
  assumes "Store now now2 io c data = (Inr i, c')"
  shows "i = NewID now \<and> data_files c' i = Some data \<and> out_ttl c' = out_ttl c
    \<and> meta_files c' i = Some (CacheMeta \<lparr>cm_ID = i, cm_CreatedAt = now2,
          cm_ExpiresAt = (if 0 < out_ttl c then now2 + out_ttl c else 0)\<rparr>)"
  using assms by (auto simp: Store_def Let_def split: option.splits)

lemma Truncate_budget:
  assumes "0 < maxTokens" and "maxTokens < Estimate s"
  shows "\<exists>t. Truncate s maxTokens = Some t \<and> t_truncated t \<and> tokensReturned t \<le> maxTokens \<and> tokensTotal t = Estimate s"
proof -
  define h rs where "h = maxTokens * 6 div 10" and "rs = runes s"
  define k l where "k = nat (4 * h)" and "l = nat (4 * (maxTokens - h))"
  note T = Truncate_large [OF assms h_def rs_def k_def l_def]
  have v: "\<forall>r \<in> set (take k rs). valid_rune r" "\<forall>r \<in> set (drop (length rs - l) rs). valid_rune r"
    using runes_valid rs_def by (auto dest: in_set_takeD in_set_dropD)
  have i: "int k = 4 * h" "int l = 4 * (maxTokens - h)" using T(3,4) k_def l_def by auto
  have "Estimate (encode (take k rs)) \<le> h" by (rule Estimate_encode_le [OF v(1)]) (use i in simp)
  moreover have "Estimate (encode (drop (length rs - l) rs)) \<le> maxTokens - h"
    by (rule Estimate_encode_le [OF v(2)]) (use i T(2) in simp)
  ultimately show ?thesis using T(1) by simp
qed

section \<open>Properties\<close>

text \<open>Truncation keeps the budget and loses only the middle: for a positive budget it always returns;
  an output within the budget is unchanged, and of a larger one the head and the foot are the two
  ends of the text, cut between characters and not overlapping, and together estimated at no more
  than the budget.\<close>

theorem Truncate_within_budget:
  assumes "0 < maxTokens"
  shows "\<exists>t. Truncate s maxTokens = Some t \<and> tokensTotal t = Estimate s
    \<and> tokensReturned t = Estimate (t_head t) + Estimate (t_foot t) \<and> tokensReturned t \<le> maxTokens
    \<and> (if t_truncated t
       then maxTokens < Estimate s \<and> (\<exists>middle. middle \<noteq> [] \<and> runes s = runes (t_head t) @ middle @ runes (t_foot t))
       else t_head t = s \<and> t_foot t = [])"
proof (cases "Estimate s \<le> maxTokens")
  case True
  then show ?thesis by (simp add: Truncate_small) (simp add: Estimate_def)
next
  case False
  define h rs where "h = maxTokens * 6 div 10" and "rs = runes s"
  define k l where "k = nat (4 * h)" and "l = nat (4 * (maxTokens - h))"
  note T = Truncate_large [OF assms _ h_def rs_def k_def l_def]
  have big: "maxTokens < Estimate s" using False by simp
  have v: "\<forall>r \<in> set rs. valid_rune r" using runes_valid rs_def by auto
  let ?head = "take k rs" and ?foot = "drop (length rs - l) rs"
  have vs: "\<forall>r \<in> set ?head. valid_rune r" "\<forall>r \<in> set ?foot. valid_rune r"
    using v by (auto dest: in_set_takeD in_set_dropD)
  have i: "int k = 4 * h" "int l = 4 * (maxTokens - h)" using T(3,4) [OF big] k_def l_def by auto
  have "Estimate (encode ?head) \<le> h" by (rule Estimate_encode_le [OF vs(1)]) (use i in simp)
  moreover have "Estimate (encode ?foot) \<le> maxTokens - h"
    by (rule Estimate_encode_le [OF vs(2)]) (use i T(2) [OF big] in simp)
  moreover have split: "runes s = ?head @ drop k (take (length rs - l) rs) @ ?foot"
  proof -
    have "take k (take (length rs - l) rs) = ?head" using T(2) [OF big] by (simp add: min_absorb1)
    then have "?head @ drop k (take (length rs - l) rs) = take (length rs - l) rs" by (metis append_take_drop_id)
    then show ?thesis using rs_def by (metis append.assoc append_take_drop_id)
  qed
  moreover have "drop k (take (length rs - l) rs) \<noteq> []" using T(2) [OF big] by simp
  ultimately have "\<exists>middle. middle \<noteq> [] \<and> runes s = runes (encode ?head) @ middle @ runes (encode ?foot)"
    and "Estimate (encode ?head) + Estimate (encode ?foot) \<le> maxTokens"
    unfolding runes_encode [OF vs(1)] runes_encode [OF vs(2)] by (blast, linarith)
  then show ?thesis using T(1) [OF big] big by simp
qed

theorem Truncate_within_budget_witness:
  "\<exists>t. Truncate ''0123456789abcdefghij'' 2 = Some t \<and> tokensReturned t \<le> 2"
  using Truncate_within_budget [of 2 "''0123456789abcdefghij''"] by auto

text \<open>C14. Nothing is lost and nothing slips through: when the budget replaces an output by a marker, the
  handle in it is a valid one and loads exactly the full serialization as long as the entry has not
  expired; and an output over the budget is never returned whole: without a usable cache the answer
  is an error.\<close>

theorem ApplyWithHint_recoverable:
  assumes "marshal data = Inr full" and "0 < maxTokens" and "maxTokens < Estimate full" and "0 < now2"
    and "ApplyWithHint marshal now now2 io cache data maxTokens surface = (res, cache')"
  shows "(\<exists>err. res = Inl err)
    \<or> (\<exists>m c'. res = Inr (Marked m) \<and> cache' = Some c' \<and> validCacheID (m_CacheID m)
         \<and> m_TokensReturned m \<le> maxTokens \<and> m_TokensTotal m = Estimate full
         \<and> (\<forall>t. out_ttl c' \<le> 0 \<or> t \<le> now2 + out_ttl c' \<longrightarrow> Load t c' (m_CacheID m) = (Inr full, c')))"
proof -
  obtain tr where tr: "Truncate full maxTokens = Some tr" "t_truncated tr" "tokensReturned tr \<le> maxTokens" "tokensTotal tr = Estimate full"
    using Truncate_budget [OF assms(2,3)] by blast
  show ?thesis
  proof (cases res)
    case (Inr a)
    with assms tr obtain c i c' where st: "Store now now2 io c full = (Inr i, c')" and cache': "cache' = Some c'"
      and a: "\<exists>m. a = Marked m \<and> m_CacheID m = i \<and> m_TokensReturned m = tokensReturned tr \<and> m_TokensTotal m = tokensTotal tr"
      by (auto simp: ApplyWithHint_def split: option.splits prod.splits sum.splits)
    note S = Store_success [OF st]
    have "Load t c' i = (Inr full, c')" if "out_ttl c' \<le> 0 \<or> t \<le> now2 + out_ttl c'" for t
      using S that NewID_valid [of now] by (auto simp: Load_def loadMeta_def expired_meta_def)
    with a tr cache' Inr S NewID_valid [of now] show ?thesis by auto
  qed simp
qed

theorem ApplyWithHint_recoverable_witness:
  "\<exists>m c'. ApplyWithHint Inr 5 5 (\<lambda>_. None) (Some (NewCache hour Map.empty Map.empty)) ''0123456789abcdefghij'' 2 ''mcp''
       = (Inr (Marked m), Some c') \<and> Load (5 + hour) c' (m_CacheID m) = (Inr ''0123456789abcdefghij'', c')"
proof -
  let ?s = "''0123456789abcdefghij''"
  let ?r = "ApplyWithHint Inr 5 5 (\<lambda>_. None) (Some (NewCache hour Map.empty Map.empty)) ?s 2 ''mcp''"
  have e: "2 < Estimate ?s" by code_simp
  have r: "(case fst ?r of Inl _ \<Rightarrow> False | Inr _ \<Rightarrow> True)" "map_option out_ttl (snd ?r) = Some hour" by code_simp+
  have p: "?r = (fst ?r, snd ?r)" by simp
  from ApplyWithHint_recoverable [OF refl _ e _ p] r show ?thesis by (auto split: sum.splits) (metis order_refl prod.collapse)
qed

end
