(* ===== verification/FormFlow.thy ===== *)
theory FormFlow
  imports NetAddr RiskPolicy
begin

text \<open>
  \<open>formflow/\<close>: the form automation contract. A \<open>Driver\<close> is an interface of the code, so it is a record
  of functions over an arbitrary browser state; the runner is a function of the driver. The run of a
  form is a sequence of phases, each of which either goes on with a new browser state or stops with an
  \<open>Outcome\<close>; \<open>fail\<close> then collects the evidence. The context only bounds the driver's calls, whose errors
  are arbitrary; a call that fails delivers no value (the empty one); elapsed times and the clock of the pacer are arguments. \<open>NewEngineDriver\<close>'s element
  resolution is modelled over the page's finder.
\<close>

section \<open>Specs and outcomes\<close>

type_synonym Code = string

abbreviation "CodeSuccess \<equiv> ''success''"
abbreviation "CodeInvalidSpec \<equiv> ''invalid_spec''"
abbreviation "CodeNavigationTimeout \<equiv> ''navigation_timeout''"
abbreviation "CodeFormNotFound \<equiv> ''form_not_found''"
abbreviation "CodeFieldNotFound \<equiv> ''field_not_found''"
abbreviation "CodeBlockedCaptcha \<equiv> ''blocked_captcha''"
abbreviation "CodeBlockedBotwall \<equiv> ''blocked_botwall''"
abbreviation "CodeInteractionFailed \<equiv> ''interaction_failed''"
abbreviation "CodeSubmitFailed \<equiv> ''submit_failed''"
abbreviation "CodeConfirmationFailed \<equiv> ''confirmation_failed''"

record Outcome =
  OCode :: Code
  OStep :: string
  OField :: string
  OMessage :: string
  OHint :: string

definition Blocked :: "Outcome \<Rightarrow> bool" where
  "Blocked o1 \<longleftrightarrow> OCode o1 = CodeBlockedCaptcha \<or> OCode o1 = CodeBlockedBotwall"

record Selector =
  CSS :: string
  Label :: string
  SelRole :: string
  SelText :: string
  Placeholder :: string
  TestID :: string
  Exact :: bool

definition selector_empty :: "Selector \<Rightarrow> bool" where
  "selector_empty s \<longleftrightarrow> CSS s = [] \<and> Label s = [] \<and> SelRole s = [] \<and> SelText s = [] \<and> Placeholder s = [] \<and> TestID s = []"

record Field =
  FName :: string
  FSelector :: Selector
  FValue :: string
  Required :: bool
  Sensitive :: bool

record FormSpec =
  SpecName :: string
  StartURL :: string
  Domains :: "string list"
  Fields :: "Field list"
  Submit :: Selector
  SuccessURLGlob :: string
  SpecTimeout :: duration

definition field_problems :: "Field \<Rightarrow> string list" where
  "field_problems f =
     (if trim_space (FName f) = [] then [''every field needs a name'']
      else if selector_empty (FSelector f) then [''field '' @ go_quote (FName f) @ '' has no selector'']
      else [])"

definition spec_problems :: "FormSpec \<Rightarrow> string list" where
  "spec_problems s =
     (if trim_space (SpecName s) = [] then [''name is required''] else [])
     @ (if trim_space (StartURL s) = [] then [''start_url is required''] else [])
     @ (if Fields s = [] then [''at least one field is required''] else [])
     @ concat (map field_problems (Fields s))
     @ (if selector_empty (Submit s) then [''submit selector is required''] else [])"

definition ValidateSpec :: "FormSpec \<Rightarrow> Outcome option" where
  "ValidateSpec s =
     (let problems = spec_problems s in
      if problems \<noteq> [] then
        Some \<lparr>OCode = CodeInvalidSpec, OStep = [], OField = [],
              OMessage = ''invalid form spec: '' @ join ''; '' problems,
              OHint = ''fix the spec and retry; no page was touched''\<rparr>
      else None)"

abbreviation DefaultRunTimeout :: duration where "DefaultRunTimeout \<equiv> 60 * second"

definition spec_timeout :: "FormSpec \<Rightarrow> duration" where
  "spec_timeout s = (if 0 < SpecTimeout s then SpecTimeout s else DefaultRunTimeout)"

section \<open>Block detection\<close>

definition captchaMarkers :: "string list" where
  "captchaMarkers =
     [''g-recaptcha'', ''recaptcha/api.js'', ''h-captcha'', ''hcaptcha.com'', ''cf-turnstile'', ''data-sitekey'',
      ''funcaptcha'', ''arkoselabs'']"

definition captchaText :: "string list" where
  "captchaText =
     [''i'' @ [CHR 0x27] @ ''m not a robot'', ''ich bin kein roboter'', ''prove you are human'', ''verify that you are human'']"

definition botwallText :: "string list" where
  "botwallText =
     [''checking your browser'', ''verify you are human'', ''unusual traffic'', ''attention required'', ''access denied'',
      ''please enable javascript and cookies'', ''are you a robot'', ''too many requests'', ''rate limit exceeded'',
      ''zugriff verweigert'', ''ungew'' @ [CHR 0xC3, CHR 0xB6] @ ''hnlicher datenverkehr'']"

definition DetectBlock :: "string \<Rightarrow> string \<Rightarrow> Code" where
  "DetectBlock pageText pageHTML =
     (let lowerHTML = to_lower pageHTML;
          haystack = to_lower pageText @ [CHR 0x0A] @ lowerHTML
      in if list_ex (contains lowerHTML) captchaMarkers then CodeBlockedCaptcha
         else if list_ex (contains haystack) captchaText then CodeBlockedCaptcha
         else if list_ex (contains haystack) botwallText then CodeBlockedBotwall
         else [])"

section \<open>Pacing\<close>

abbreviation DefaultMinHostInterval :: duration where "DefaultMinHostInterval \<equiv> 5 * second"

record Pacer =
  minInterval :: duration
  last_run :: "string \<Rightarrow> go_time"

definition NewPacer :: "duration \<Rightarrow> Pacer" where
  "NewPacer d = \<lparr>minInterval = (if d \<le> 0 then DefaultMinHostInterval else d), last_run = (\<lambda>_. 0)\<rparr>"

text \<open>The pause that has to be slept, if any, and the pacer with the slot reserved.\<close>

definition pacer_wait :: "go_time \<Rightarrow> Pacer \<Rightarrow> string \<Rightarrow> duration option \<times> Pacer" where
  "pacer_wait now p host =
     (let deadline = last_run p host + minInterval p in
      if now < deadline then (Some (deadline - now), p\<lparr>last_run := (last_run p)(host := deadline)\<rparr>)
      else (None, p\<lparr>last_run := (last_run p)(host := now)\<rparr>))"

section \<open>The driver\<close>

datatype err_kind = KNotFound | KTimeout | KOther
datatype drv_error = DErr (dkind: err_kind) (dmsg: string)

record 'w Driver =
  Navigate :: "string \<Rightarrow> 'w \<Rightarrow> drv_error option \<times> 'w"
  CurrentURL :: "'w \<Rightarrow> (drv_error + string) \<times> 'w"
  PageText :: "'w \<Rightarrow> (drv_error + string) \<times> 'w"
  PageHTML :: "'w \<Rightarrow> (drv_error + string) \<times> 'w"
  Screenshot :: "'w \<Rightarrow> (drv_error + string) \<times> 'w"
  Fill :: "Selector \<Rightarrow> string \<Rightarrow> 'w \<Rightarrow> drv_error option \<times> 'w"
  Click :: "Selector \<Rightarrow> 'w \<Rightarrow> drv_error option \<times> 'w"
  WaitForURL :: "string \<Rightarrow> 'w \<Rightarrow> drv_error option \<times> 'w"
  WaitSettled :: "'w \<Rightarrow> drv_error option \<times> 'w"

record Evidence =
  FinalURL :: string
  EPageText :: string
  PreSubmitScreenshot :: string
  PostSubmitScreenshot :: string

record Result =
  RCode :: Code
  RMessage :: string
  FailedStep :: string
  FailedField :: string
  RHint :: string
  Skipped :: "string list"
  REvidence :: "Evidence option"
  DurationMS :: int

definition empty_evidence :: Evidence where
  "empty_evidence = \<lparr>FinalURL = [], EPageText = [], PreSubmitScreenshot = [], PostSubmitScreenshot = []\<rparr>"

definition outcome :: "Code \<Rightarrow> string \<Rightarrow> string \<Rightarrow> string \<Rightarrow> string \<Rightarrow> Outcome" where
  "outcome code step fld msg hint = \<lparr>OCode = code, OStep = step, OField = fld, OMessage = msg, OHint = hint\<rparr>"

definition failed :: "int \<Rightarrow> Outcome \<Rightarrow> Result" where
  "failed elapsed o1 =
     \<lparr>RCode = OCode o1, RMessage = OMessage o1, FailedStep = OStep o1, FailedField = OField o1, RHint = OHint o1,
      Skipped = [], REvidence = None, DurationMS = elapsed\<rparr>"

definition or_empty :: "drv_error + string \<Rightarrow> string" where
  "or_empty r = (case r of Inl _ \<Rightarrow> [] | Inr s \<Rightarrow> s)"

definition fail :: "'w Driver \<Rightarrow> int \<Rightarrow> Outcome \<Rightarrow> 'w \<Rightarrow> Result \<times> 'w" where
  "fail d elapsed o1 w =
     (case CurrentURL d w of
        (url, w1) \<Rightarrow>
          (case PageText d w1 of
             (text, w2) \<Rightarrow>
               (case Screenshot d w2 of
                  (shot, w3) \<Rightarrow>
                    ((failed elapsed o1)\<lparr>REvidence := Some (empty_evidence\<lparr>FinalURL := or_empty url,
                        EPageText := or_empty text, PostSubmitScreenshot := or_empty shot\<rparr>)\<rparr>, w3))))"

section \<open>Phases\<close>

type_synonym ('w, 'a) phase = "'w \<Rightarrow> (Outcome + 'a) \<times> 'w"

definition phase_bind :: "('w, 'a) phase \<Rightarrow> ('a \<Rightarrow> ('w, 'b) phase) \<Rightarrow> ('w, 'b) phase" where
  "phase_bind m f w = (case m w of (Inl o1, w') \<Rightarrow> (Inl o1, w') | (Inr a, w') \<Rightarrow> f a w')"

definition classifyNavigation :: "drv_error \<Rightarrow> Code" where
  "classifyNavigation err = (if dkind err = KTimeout then CodeNavigationTimeout else CodeInteractionFailed)"

definition navigate_phase :: "'w Driver \<Rightarrow> string \<Rightarrow> string \<Rightarrow> ('w, unit) phase" where
  "navigate_phase d url hint w =
     (case Navigate d url w of
        (Some err, w') \<Rightarrow> (Inl (outcome (classifyNavigation err) ''navigate'' [] (dmsg err) hint), w')
      | (None, w') \<Rightarrow> (Inr (), w'))"

definition detectBlock :: "'w Driver \<Rightarrow> 'w \<Rightarrow> (drv_error + Code) \<times> 'w" where
  "detectBlock d w =
     (case PageText d w of
        (Inl err, w1) \<Rightarrow> (Inl err, w1)
      | (Inr text, w1) \<Rightarrow>
          (case PageHTML d w1 of
             (Inl err, w2) \<Rightarrow> (Inl err, w2)
           | (Inr html, w2) \<Rightarrow> (Inr (DetectBlock text html), w2)))"

definition detect_phase :: "'w Driver \<Rightarrow> string \<Rightarrow> string \<Rightarrow> string \<Rightarrow> ('w, unit) phase" where
  "detect_phase d step msg hint w =
     (case detectBlock d w of
        (Inl err, w') \<Rightarrow> (Inl (outcome CodeInteractionFailed ''detect'' [] (dmsg err) []), w')
      | (Inr code, w') \<Rightarrow> if code \<noteq> [] then (Inl (outcome code step [] msg hint), w') else (Inr (), w'))"

definition formPresent :: "'w Driver \<Rightarrow> 'w \<Rightarrow> bool \<times> 'w" where
  "formPresent d w =
     (case PageHTML d w of
        (Inl _, w') \<Rightarrow> (True, w')
      | (Inr html, w') \<Rightarrow> (contains (to_lower html) ''<form'', w'))"

abbreviation dash :: string where "dash \<equiv> [CHR 0xE2, CHR 0x80, CHR 0x94]"

fun fill_loop :: "'w Driver \<Rightarrow> Field list \<Rightarrow> nat \<Rightarrow> string list \<Rightarrow> ('w, nat \<times> string list) phase" where
  "fill_loop d [] filled skipped w = (Inr (filled, skipped), w)"
| "fill_loop d (f # fs) filled skipped w =
     (case (if Required f then formPresent d w else (True, w)) of
        (False, w1) \<Rightarrow> (Inl (outcome CodeFormNotFound ''fill'' [] ''no fillable form on the page'' []), w1)
      | (True, w1) \<Rightarrow>
          (case Fill d (FSelector f) (FValue f) w1 of
             (None, w2) \<Rightarrow> fill_loop d fs (Suc filled) skipped w2
           | (Some err, w2) \<Rightarrow>
               if dkind err = KNotFound then
                 (if Required f then
                    (Inl (outcome CodeFieldNotFound ''fill'' (FName f)
                       (''required field could not be located '' @ dash @ '' the broker page may have changed'')
                       ''update the field map for this broker; the request was NOT submitted''), w2)
                  else fill_loop d fs filled (skipped @ [FName f]) w2)
               else (Inl (outcome CodeInteractionFailed ''fill'' (FName f) (dmsg err) []), w2)))"

definition fill_phase :: "'w Driver \<Rightarrow> Field list \<Rightarrow> ('w, string list) phase" where
  "fill_phase d fs w =
     (case fill_loop d fs 0 [] w of
        (Inl o1, w') \<Rightarrow> (Inl o1, w')
      | (Inr (filled, skipped), w') \<Rightarrow>
          if filled = 0 \<and> fs \<noteq> []
          then (Inl (outcome CodeFormNotFound ''fill'' [] ''no field of the field map matched the page'' []), w')
          else (Inr skipped, w'))"

definition shot_phase :: "'w Driver \<Rightarrow> ('w, string) phase" where
  "shot_phase d w =
     (case Screenshot d w of
        (Inl err, w') \<Rightarrow> (Inl (outcome CodeInteractionFailed ''evidence'' [] (dmsg err) []), w')
      | (Inr shot, w') \<Rightarrow> (Inr shot, w'))"

definition click_phase :: "'w Driver \<Rightarrow> Selector \<Rightarrow> ('w, unit) phase" where
  "click_phase d sel w =
     (case Click d sel w of
        (Some err, w') \<Rightarrow>
          (Inl (outcome (if dkind err = KNotFound then CodeFormNotFound else CodeSubmitFailed) ''submit'' [] (dmsg err) []), w')
      | (None, w') \<Rightarrow> (Inr (), w'))"

definition settle_phase :: "'w Driver \<Rightarrow> Code \<Rightarrow> string \<Rightarrow> string \<Rightarrow> string \<Rightarrow> ('w, unit) phase" where
  "settle_phase d code glob msg hint w =
     (if glob \<noteq> [] then
        (case WaitForURL d glob w of
           (Some err, w') \<Rightarrow> (Inl (outcome code ''wait'' [] (msg @ dmsg err) hint), w')
         | (None, w') \<Rightarrow> (Inr (), w'))
      else (case WaitSettled d w of (_, w') \<Rightarrow> (Inr (), w')))"

definition evidence_phase :: "'w Driver \<Rightarrow> string \<Rightarrow> ('w, Evidence) phase" where
  "evidence_phase d preShot w =
     (case Screenshot d w of
        (shot, w1) \<Rightarrow>
          (case CurrentURL d w1 of
             (url, w2) \<Rightarrow>
               (case PageText d w2 of
                  (text, w3) \<Rightarrow>
                    (Inr \<lparr>FinalURL = or_empty url, EPageText = or_empty text, PreSubmitScreenshot = preShot,
                          PostSubmitScreenshot = or_empty shot\<rparr>, w3))))"

section \<open>The runner\<close>

record 'w Runner =
  RDriver :: "'w Driver option"
  RPacer :: "Pacer option"

text \<open>\<open>parseURL\<close> is \<open>url.Parse\<close>; \<open>sleep\<close> is the pacer's sleep, which a cancelled context interrupts.\<close>

definition flow_hostOf :: "(string \<Rightarrow> string + url) \<Rightarrow> string \<Rightarrow> string" where
  "flow_hostOf parseURL raw =
     (case parseURL raw of Inl _ \<Rightarrow> raw | Inr u \<Rightarrow> if Host u = [] then raw else Host u)"

definition pace :: "(duration \<Rightarrow> drv_error option) \<Rightarrow> go_time \<Rightarrow> Pacer option \<Rightarrow> string \<Rightarrow> drv_error option \<times> Pacer option" where
  "pace sleep now pacer host =
     (case pacer of
        None \<Rightarrow> (None, None)
      | Some p \<Rightarrow>
          (case pacer_wait now p host of
             (None, p') \<Rightarrow> (None, Some p')
           | (Some dur, p') \<Rightarrow> (sleep dur, Some p')))"

definition submit_flow :: "'w Driver \<Rightarrow> FormSpec \<Rightarrow> ('w, string list \<times> Evidence) phase" where
  "submit_flow d spec =
     phase_bind (navigate_phase d (StartURL spec) ''check the URL, network reachability and the per-run timeout'') (\<lambda>_.
     phase_bind (detect_phase d ''navigate'' ''bot protection detected on the form page''
                  ''route to the human task queue; symbrowse does not solve CAPTCHAs'') (\<lambda>_.
     phase_bind (fill_phase d (Fields spec)) (\<lambda>skipped.
     phase_bind (shot_phase d) (\<lambda>preShot.
     phase_bind (click_phase d (Submit spec)) (\<lambda>_.
     phase_bind (settle_phase d CodeSubmitFailed (SuccessURLGlob spec) ''did not reach the contracted success URL: ''
                  ''the submission may have failed silently; treat as NOT submitted'') (\<lambda>_.
     phase_bind (detect_phase d ''post-submit'' ''bot protection appeared after submit''
                  ''route to the human task queue; submission state is unknown'') (\<lambda>_.
     phase_bind (evidence_phase d preShot) (\<lambda>ev w. (Inr (skipped, ev), w)))))))))"

definition finish_flow :: "'w Driver \<Rightarrow> int \<Rightarrow> (Outcome + string list \<times> Evidence) \<times> 'w \<Rightarrow> Result \<times> 'w" where
  "finish_flow d elapsed res =
     (case res of
        (Inl o1, w) \<Rightarrow> fail d elapsed o1 w
      | (Inr (skipped, ev), w) \<Rightarrow>
          (\<lparr>RCode = CodeSuccess, RMessage = [], FailedStep = [], FailedField = [], RHint = [], Skipped = skipped,
            REvidence = Some ev, DurationMS = elapsed\<rparr>, w))"

definition SubmitForm ::
  "(string \<Rightarrow> string + url) \<Rightarrow> (duration \<Rightarrow> drv_error option) \<Rightarrow> go_time \<Rightarrow> int \<Rightarrow> 'w Runner \<Rightarrow> FormSpec \<Rightarrow> 'w
     \<Rightarrow> Result option \<times> 'w Runner \<times> 'w" where
  "SubmitForm parseURL sleep now elapsed r spec w =
     (case RDriver r of
        None \<Rightarrow> (None, r, w)
      | Some d \<Rightarrow>
          (case ValidateSpec spec of
             Some o1 \<Rightarrow> (Some (failed elapsed o1), r, w)
           | None \<Rightarrow>
               (case pace sleep now (RPacer r) (flow_hostOf parseURL (StartURL spec)) of
                  (Some err, pacer) \<Rightarrow>
                    (case fail d elapsed (outcome CodeNavigationTimeout ''pace'' [] (''pacing wait interrupted: '' @ dmsg err) []) w of
                       (res, w') \<Rightarrow> (Some res, r\<lparr>RPacer := pacer\<rparr>, w'))
                | (None, pacer) \<Rightarrow>
                    (case finish_flow d elapsed (submit_flow d spec w) of
                       (res, w') \<Rightarrow> (Some res, r\<lparr>RPacer := pacer\<rparr>, w')))))"

section \<open>Confirmation links\<close>

record ConfirmationSpec =
  LinkURL :: string
  Candidates :: "string list"
  CSuccessURLGlob :: string
  CTimeout :: duration

definition DefaultConfirmCandidates :: "string list" where
  "DefaultConfirmCandidates =
     [''confirm'', ''best'' @ [CHR 0xC3, CHR 0xA4] @ ''tigen'', ''verify'', ''activate'', ''confirm email'',
      ''abschlie'' @ [CHR 0xC3, CHR 0x9F] @ ''en'', ''weiter'']"

definition no_selector :: Selector where
  "no_selector = \<lparr>CSS = [], Label = [], SelRole = [], SelText = [], Placeholder = [], TestID = [], Exact = False\<rparr>"

definition confirm_selectors :: "string list \<Rightarrow> Selector list" where
  "confirm_selectors cs = concat (map (\<lambda>c. [no_selector\<lparr>Label := c\<rparr>, no_selector\<lparr>SelText := c\<rparr>]) cs)"

fun confirm_loop :: "'w Driver \<Rightarrow> Selector list \<Rightarrow> ('w, unit) phase" where
  "confirm_loop d [] w =
     (Inl (outcome CodeConfirmationFailed ''confirm'' [] ''no confirmation control found on the page''
        ''the broker confirmation page may have changed; handle manually''), w)"
| "confirm_loop d (sel # sels) w =
     (case Click d sel w of
        (None, w') \<Rightarrow> (Inr (), w')
      | (Some err, w') \<Rightarrow>
          if dkind err = KNotFound then confirm_loop d sels w'
          else (Inl (outcome CodeInteractionFailed ''confirm'' [] (dmsg err) []), w'))"

definition confirm_flow :: "'w Driver \<Rightarrow> ConfirmationSpec \<Rightarrow> ('w, string list \<times> Evidence) phase" where
  "confirm_flow d spec =
     phase_bind (navigate_phase d (LinkURL spec) []) (\<lambda>_.
     phase_bind (detect_phase d ''navigate'' ''bot protection detected on the confirmation page''
                  ''route to the human task queue'') (\<lambda>_.
     phase_bind (confirm_loop d (confirm_selectors (if Candidates spec = [] then DefaultConfirmCandidates else Candidates spec))) (\<lambda>_.
     phase_bind (settle_phase d CodeConfirmationFailed (CSuccessURLGlob spec) ''did not reach the contracted confirmed URL: '' []) (\<lambda>_.
     phase_bind (detect_phase d ''post-confirm'' ''bot protection appeared after confirmation'' []) (\<lambda>_.
     phase_bind (evidence_phase d []) (\<lambda>ev w. (Inr ([], ev), w)))))))"

definition ConfirmLink ::
  "(string \<Rightarrow> string + url) \<Rightarrow> (duration \<Rightarrow> drv_error option) \<Rightarrow> go_time \<Rightarrow> int \<Rightarrow> 'w Runner \<Rightarrow> ConfirmationSpec \<Rightarrow> 'w
     \<Rightarrow> Result option \<times> 'w Runner \<times> 'w" where
  "ConfirmLink parseURL sleep now elapsed r spec w =
     (case RDriver r of
        None \<Rightarrow> (None, r, w)
      | Some d \<Rightarrow>
          if LinkURL spec = [] then (Some (failed elapsed (outcome CodeInvalidSpec [] [] ''link_url is required'' [])), r, w)
          else (case pace sleep now (RPacer r) (flow_hostOf parseURL (LinkURL spec)) of
                  (Some err, pacer) \<Rightarrow>
                    (case fail d elapsed (outcome CodeNavigationTimeout ''pace'' [] (dmsg err) []) w of
                       (res, w') \<Rightarrow> (Some res, r\<lparr>RPacer := pacer\<rparr>, w'))
                | (None, pacer) \<Rightarrow>
                    (case finish_flow d elapsed (confirm_flow d spec w) of
                       (res, w') \<Rightarrow> (Some res, r\<lparr>RPacer := pacer\<rparr>, w'))))"

section \<open>Element resolution\<close>

text \<open>\<open>finder\<close> is the page's finder: the reference it found for a kind and a query, empty when none, or an
  error.\<close>

definition attempts :: "Selector \<Rightarrow> (string \<times> string) list" where
  "attempts sel = [(''label'', Label sel), (''placeholder'', Placeholder sel), (''testid'', TestID sel),
     (''role'', SelRole sel), (''text'', SelText sel)]"

fun resolve_loop :: "(string \<Rightarrow> string \<Rightarrow> bool \<Rightarrow> drv_error + string) \<Rightarrow> bool \<Rightarrow> (string \<times> string) list \<Rightarrow> string option" where
  "resolve_loop finder exact [] = None"
| "resolve_loop finder exact ((kind, query) # rest) =
     (if query = [] then resolve_loop finder exact rest
      else (case finder kind query exact of
              Inl _ \<Rightarrow> resolve_loop finder exact rest
            | Inr ref \<Rightarrow> if ref = [] then resolve_loop finder exact rest else Some ref))"

definition describe :: "Selector \<Rightarrow> string" where
  "describe sel =
     (if Label sel \<noteq> [] then ''label '' @ Label sel
      else if Placeholder sel \<noteq> [] then ''placeholder '' @ Placeholder sel
      else if TestID sel \<noteq> [] then ''testid '' @ TestID sel
      else if SelRole sel \<noteq> [] then ''role '' @ SelRole sel
      else if SelText sel \<noteq> [] then ''text '' @ SelText sel
      else if CSS sel \<noteq> [] then ''css '' @ CSS sel
      else ''empty selector'')"

definition resolve_selector :: "(string \<Rightarrow> string \<Rightarrow> bool \<Rightarrow> drv_error + string) \<Rightarrow> Selector \<Rightarrow> drv_error + string" where
  "resolve_selector finder sel =
     (case resolve_loop finder (Exact sel) (attempts sel) of
        Some ref \<Rightarrow> Inr ref
      | None \<Rightarrow>
          if CSS sel \<noteq> [] then Inr (CSS sel)
          else Inl (DErr KNotFound (''formflow: element not found: '' @ describe sel)))"

section \<open>The calls of a run\<close>

text \<open>A driver that records its calls, with whether each succeeded, beside the browser state of any
  driver. What a run does is read off this record.\<close>

datatype call =
    CNavigate string bool
  | CPage
  | CShot bool
  | CFill Selector string bool
  | CClick Selector bool
  | CWait string bool

definition log_unit :: "(bool \<Rightarrow> call) \<Rightarrow> ('w \<Rightarrow> drv_error option \<times> 'w) \<Rightarrow> 'w \<times> call list \<Rightarrow> drv_error option \<times> 'w \<times> call list" where
  "log_unit c op wl = (case op (fst wl) of (e, w') \<Rightarrow> (e, w', snd wl @ [c (e = None)]))"

definition log_value :: "(bool \<Rightarrow> call) \<Rightarrow> ('w \<Rightarrow> (drv_error + string) \<times> 'w) \<Rightarrow> 'w \<times> call list \<Rightarrow> (drv_error + string) \<times> 'w \<times> call list" where
  "log_value c op wl = (case op (fst wl) of (r, w') \<Rightarrow> (r, w', snd wl @ [c (\<not> isl r)]))"

definition logged :: "'w Driver \<Rightarrow> ('w \<times> call list) Driver" where
  "logged d = \<lparr>Navigate = (\<lambda>url. log_unit (CNavigate url) (Navigate d url)),
     CurrentURL = log_value (\<lambda>_. CPage) (CurrentURL d),
     PageText = log_value (\<lambda>_. CPage) (PageText d),
     PageHTML = log_value (\<lambda>_. CPage) (PageHTML d),
     Screenshot = log_value CShot (Screenshot d),
     Fill = (\<lambda>sel v. log_unit (CFill sel v) (Fill d sel v)),
     Click = (\<lambda>sel. log_unit (CClick sel) (Click d sel)),
     WaitForURL = (\<lambda>glob. log_unit (CWait glob) (WaitForURL d glob)),
     WaitSettled = log_unit (CWait []) (WaitSettled d)\<rparr>"

lemma logged_simps [simp]:
  "Navigate (logged d) url = log_unit (CNavigate url) (Navigate d url)"
  "CurrentURL (logged d) = log_value (\<lambda>_. CPage) (CurrentURL d)"
  "PageText (logged d) = log_value (\<lambda>_. CPage) (PageText d)"
  "PageHTML (logged d) = log_value (\<lambda>_. CPage) (PageHTML d)"
  "Screenshot (logged d) = log_value CShot (Screenshot d)"
  "Fill (logged d) sel v = log_unit (CFill sel v) (Fill d sel v)"
  "Click (logged d) sel = log_unit (CClick sel) (Click d sel)"
  "WaitForURL (logged d) glob = log_unit (CWait glob) (WaitForURL d glob)"
  "WaitSettled (logged d) = log_unit (CWait []) (WaitSettled d)"
  by (simp_all add: logged_def)

definition is_click :: "call \<Rightarrow> bool" where
  "is_click c = (case c of CClick _ _ \<Rightarrow> True | _ \<Rightarrow> False)"

definition no_click :: "call list \<Rightarrow> bool" where
  "no_click l \<longleftrightarrow> (\<forall>c \<in> set l. \<not> is_click c)"

text \<open>What a phase does to the record: \<open>triple P m Q E\<close> says that from a record with \<open>P\<close> the phase
  goes on with a value and a record with \<open>Q\<close>, or stops with a record with \<open>E\<close>.\<close>

definition triple ::
  "(call list \<Rightarrow> bool) \<Rightarrow> ('w \<times> call list, 'a) phase \<Rightarrow> ('a \<Rightarrow> call list \<Rightarrow> bool) \<Rightarrow> (Outcome \<Rightarrow> call list \<Rightarrow> bool) \<Rightarrow> bool" where
  "triple P m Q E \<longleftrightarrow>
     (\<forall>w l r w' l'. P l \<longrightarrow> m (w, l) = (r, w', l') \<longrightarrow> (case r of Inr a \<Rightarrow> Q a l' | Inl o1 \<Rightarrow> E o1 l'))"

lemma tripleI:
  "(\<And>w l a w' l'. P l \<Longrightarrow> m (w, l) = (Inr a, w', l') \<Longrightarrow> Q a l') \<Longrightarrow>
   (\<And>w l o1 w' l'. P l \<Longrightarrow> m (w, l) = (Inl o1, w', l') \<Longrightarrow> E o1 l') \<Longrightarrow> triple P m Q E"
  unfolding triple_def by (auto split: sum.splits)

lemma triple_Inr: "triple P m Q E \<Longrightarrow> P l \<Longrightarrow> m (w, l) = (Inr a, w', l') \<Longrightarrow> Q a l'"
  and triple_Inl: "triple P m Q E \<Longrightarrow> P l \<Longrightarrow> m (w, l) = (Inl o1, w', l') \<Longrightarrow> E o1 l'"
  unfolding triple_def by fastforce+

lemma triple_bind:
  assumes "triple P m Q E" and "\<And>a. triple (Q a) (f a) R E"
  shows "triple P (phase_bind m f) R E"
proof (rule tripleI)
  fix w l b w' l'
  assume "P l" "phase_bind m f (w, l) = (Inr b, w', l')"
  then obtain a w1 l1 where "m (w, l) = (Inr a, w1, l1)" "f a (w1, l1) = (Inr b, w', l')"
    by (auto simp: phase_bind_def split: prod.splits sum.splits)
  with triple_Inr [OF assms(1) \<open>P l\<close>] triple_Inr [OF assms(2)] show "R b l'" by blast
next
  fix w l o1 w' l'
  assume "P l" "phase_bind m f (w, l) = (Inl o1, w', l')"
  then consider "m (w, l) = (Inl o1, w', l')" | a w1 l1 where "m (w, l) = (Inr a, w1, l1)" "f a (w1, l1) = (Inl o1, w', l')"
    by (auto simp: phase_bind_def split: prod.splits sum.splits)
  then show "E o1 l'"
    using triple_Inr [OF assms(1) \<open>P l\<close>] triple_Inl [OF assms(1) \<open>P l\<close>] triple_Inl [OF assms(2)] by cases blast+
qed

lemma triple_weaken:
  assumes "triple P m Q E" and "\<And>l. P' l \<Longrightarrow> P l" and "\<And>a l. Q a l \<Longrightarrow> Q' a l" and "\<And>o1 l. E o1 l \<Longrightarrow> E' o1 l"
  shows "triple P' m Q' E'"
  using assms(2-4) triple_Inr [OF assms(1)] triple_Inl [OF assms(1)] by (intro tripleI) blast+

text \<open>One round of the fill loop: the calls it makes for a field, and that it goes on only when a required
  field was filled.\<close>

lemma formPresent_logged:
  assumes "(if req then formPresent (logged d) (w, l) else (True, w, l)) = (b, w1, l1)"
  obtains pre where "l1 = l @ pre" "set pre \<subseteq> {CPage}"
proof (cases req)
  case True
  then have "l1 = l @ [CPage]"
    using assms by (auto simp: formPresent_def log_value_def split: prod.splits sum.splits)
  then show ?thesis using that by simp
qed (use assms that [of "[]"] in simp)

lemma fill_loop_step:
  assumes "fill_loop (logged d) (f # fs) n sk (w, l) = (r, w', l')"
  obtains (stopped) o1 calls where "r = Inl o1" "OStep o1 = ''fill''" "l' = l @ calls" "\<forall>c \<in> set calls. \<not> is_click c"
    | (continued) calls ok n1 sk1 w1 where
        "fill_loop (logged d) fs n1 sk1 (w1, l @ calls @ [CFill (FSelector f) (FValue f) ok]) = (r, w', l')"
        "\<forall>c \<in> set calls. \<not> is_click c" "Required f \<longrightarrow> ok"
proof -
  obtain b w1 l1 where present: "(if Required f then formPresent (logged d) (w, l) else (True, w, l)) = (b, w1, l1)"
    by (metis prod_cases3)
  then obtain pre where pre: "l1 = l @ pre" "set pre \<subseteq> {CPage}" by (rule formPresent_logged)
  then have quiet: "\<forall>c \<in> set pre. \<not> is_click c" by (auto simp: is_click_def)
  show thesis
  proof (cases b)
    case False
    with assms present pre have "r = Inl (outcome CodeFormNotFound ''fill'' [] ''no fillable form on the page'' [])" "l' = l @ pre"
      by auto
    then show ?thesis using stopped quiet by (simp add: outcome_def)
  next
    case b: True
    obtain e w2 where fill: "Fill d (FSelector f) (FValue f) w1 = (e, w2)" by fastforce
    let ?c = "CFill (FSelector f) (FValue f) (e = None)"
    have call: "Fill (logged d) (FSelector f) (FValue f) (w1, l1) = (e, w2, l @ pre @ [?c])"
      using fill pre by (simp add: log_unit_def)
    show ?thesis
    proof (cases e)
      case None
      then show ?thesis using assms present b call continued [of "Suc n" sk w2 pre True] quiet by simp
    next
      case (Some err)
      show ?thesis
      proof (cases "dkind err = KNotFound \<and> \<not> Required f")
        case True
        then show ?thesis using assms present b call Some continued [of n "sk @ [FName f]" w2 pre False] quiet by simp
      next
        case False
        then have "\<exists>o1. r = Inl o1 \<and> OStep o1 = ''fill''" "l' = l @ pre @ [?c]" using assms present b call Some by (auto simp: outcome_def split: if_splits)
        then show ?thesis using stopped [of _ "pre @ [?c]"] quiet by (auto simp: is_click_def)
      qed
    qed
  qed
qed

text \<open>A property of records that survives every call but a click survives every phase but the clicking ones.\<close>

lemmas call_defs = log_unit_def log_value_def is_click_def outcome_def
lemmas phase_splits = prod.splits option.splits sum.splits if_splits

locale click_free =
  fixes K :: "call list \<Rightarrow> bool"
  assumes keep: "K l \<Longrightarrow> \<not> is_click c \<Longrightarrow> K (l @ [c])"
begin

lemma navigate_keeps: "triple K (navigate_phase (logged d) url hint) (\<lambda>_. K) (\<lambda>o1 l. K l \<and> OStep o1 = ''navigate'')"
  by (rule tripleI) (auto simp: navigate_phase_def call_defs keep split: phase_splits)

lemma detect_keeps:
  "triple K (detect_phase (logged d) step msg hint) (\<lambda>_. K) (\<lambda>o1 l. K l \<and> OStep o1 \<in> {''detect'', step})"
  by (rule tripleI) (auto simp: detect_phase_def detectBlock_def call_defs keep simp del: append_assoc split: phase_splits)

lemma settle_keeps: "triple K (settle_phase (logged d) code glob msg hint) (\<lambda>_. K) (\<lambda>o1 l. K l \<and> OStep o1 = ''wait'')"
  by (rule tripleI) (auto simp: settle_phase_def call_defs keep split: phase_splits)

lemma evidence_keeps: "triple K (evidence_phase (logged d) shot) (\<lambda>_. K) (\<lambda>_ _. False)"
  by (rule tripleI) (auto simp: evidence_phase_def call_defs keep simp del: append_assoc split: phase_splits)

lemma fail_keeps: "K l \<Longrightarrow> fail (logged d) elapsed o1 (w, l) = (res, w', l') \<Longrightarrow> K l'"
  by (auto simp: fail_def call_defs keep simp del: append_assoc split: prod.splits)

lemma keep_all: "K l \<Longrightarrow> \<forall>c \<in> set cs. \<not> is_click c \<Longrightarrow> K (l @ cs)"
proof (induction cs rule: rev_induct)
  case (snoc c cs)
  then show ?case using keep [of "l @ cs" c] by simp
qed simp

lemma fill_loop_keeps:
  "fill_loop (logged d) fs n sk (w, l) = (r, w', l') \<Longrightarrow> K l \<Longrightarrow> K l' \<and> (\<forall>o1. r = Inl o1 \<longrightarrow> OStep o1 = ''fill'')"
proof (induction fs arbitrary: n sk w l)
  case (Cons f fs)
  from Cons.prems(1) show ?case
  proof (cases rule: fill_loop_step)
    case (stopped o1 calls)
    then show ?thesis using keep_all Cons.prems(2) by simp
  next
    case (continued calls ok n1 sk1 w1)
    then have "K (l @ calls @ [CFill (FSelector f) (FValue f) ok])"
      using keep_all [OF Cons.prems(2)] by (simp add: is_click_def)
    then show ?thesis using Cons.IH continued(1) by blast
  qed
qed auto

lemma fill_keeps: "triple K (fill_phase (logged d) fs) (\<lambda>_. K) (\<lambda>o1 l. K l \<and> OStep o1 = ''fill'')"
  by (rule tripleI) (auto simp: fill_phase_def outcome_def split: phase_splits dest: fill_loop_keeps)

lemma shot_keeps: "triple K (shot_phase (logged d)) (\<lambda>_. K) (\<lambda>o1 l. K l \<and> OStep o1 = ''evidence'')"
  by (rule tripleI) (auto simp: shot_phase_def call_defs keep split: phase_splits)

end

text \<open>Nothing of the record is lost, and phases other than the clicking ones do not click.\<close>

interpretation calls: click_free "\<lambda>l. c \<in> set l" for c
  by unfold_locales auto

interpretation unclicked: click_free no_click
  by unfold_locales (auto simp: no_click_def)

lemma fill_loop_required:
  "fill_loop (logged d) fs n sk (w, l) = (Inr res, w', l') \<Longrightarrow> f \<in> set fs \<Longrightarrow> Required f \<Longrightarrow>
   CFill (FSelector f) (FValue f) True \<in> set l'"
proof (induction fs arbitrary: n sk w l)
  case (Cons g fs)
  from Cons.prems(1) show ?case
  proof (cases rule: fill_loop_step)
    case (continued calls ok n1 sk1 w1)
    show ?thesis
    proof (cases "f = g")
      case True
      then show ?thesis
        using continued(3) Cons.prems(3) calls.fill_loop_keeps [OF continued(1), of "CFill (FSelector f) (FValue f) True"] by simp
    next
      case False
      then show ?thesis using Cons.IH [OF continued(1)] Cons.prems by simp
    qed
  qed simp
qed simp

section \<open>What a submission does\<close>

definition prepared :: "FormSpec \<Rightarrow> call list \<Rightarrow> bool" where
  "prepared spec l \<longleftrightarrow> no_click l \<and> (\<forall>f \<in> set (Fields spec). Required f \<longrightarrow> CFill (FSelector f) (FValue f) True \<in> set l)"

definition submitted :: "FormSpec \<Rightarrow> bool \<Rightarrow> call list \<Rightarrow> bool" where
  "submitted spec ok l \<longleftrightarrow>
     (\<exists>pre post. l = pre @ CShot True # CClick (Submit spec) ok # post \<and> prepared spec pre \<and> no_click post)"

definition completed :: "FormSpec \<Rightarrow> call list \<Rightarrow> bool" where
  "completed spec l \<longleftrightarrow>
     (\<exists>pre post ok. l = pre @ CShot True # CClick (Submit spec) True # CWait (SuccessURLGlob spec) ok # post
        \<and> prepared spec pre \<and> no_click post \<and> (SuccessURLGlob spec \<noteq> [] \<longrightarrow> ok))"

definition clicked :: "FormSpec \<Rightarrow> bool \<Rightarrow> call list \<Rightarrow> bool" where
  "clicked spec ok l \<longleftrightarrow> (\<exists>pre. l = pre @ [CShot True, CClick (Submit spec) ok] \<and> prepared spec pre)"

lemma submittedI:
  "l = pre @ CShot True # CClick (Submit spec) ok # post \<Longrightarrow> prepared spec pre \<Longrightarrow> no_click post \<Longrightarrow> submitted spec ok l"
  unfolding submitted_def by blast

lemma completedI:
  "l = pre @ CShot True # CClick (Submit spec) True # CWait (SuccessURLGlob spec) ok # post \<Longrightarrow> prepared spec pre \<Longrightarrow>
   no_click post \<Longrightarrow> (SuccessURLGlob spec \<noteq> [] \<Longrightarrow> ok) \<Longrightarrow> completed spec l"
  unfolding completed_def by blast

lemma no_click_simps [simp]: "no_click []" "no_click (c # l) \<longleftrightarrow> \<not> is_click c \<and> no_click l"
  "no_click (l @ l2) \<longleftrightarrow> no_click l \<and> no_click l2"
  by (auto simp: no_click_def)

lemma is_click_simps [simp]: "is_click (CClick s b)" "\<not> is_click (CNavigate u b)" "\<not> is_click CPage" "\<not> is_click (CShot b)"
  "\<not> is_click (CFill s v b)" "\<not> is_click (CWait u b)"
  by (simp_all add: is_click_def)

interpretation sent: click_free "submitted spec ok" for spec ok
proof (unfold_locales, goal_cases)
  case (1 l c)
  then obtain pre post where l: "l = pre @ CShot True # CClick (Submit spec) ok # post" "prepared spec pre" "no_click post"
    unfolding submitted_def by blast
  show ?case by (rule submittedI [of _ pre _ _ "post @ [c]"]) (use l 1(2) in simp_all)
qed

interpretation finished: click_free "completed spec" for spec
proof (unfold_locales, goal_cases)
  case (1 l c)
  then obtain pre post ok where l: "l = pre @ CShot True # CClick (Submit spec) True # CWait (SuccessURLGlob spec) ok # post"
    "prepared spec pre" "no_click post" "SuccessURLGlob spec \<noteq> [] \<longrightarrow> ok"
    unfolding completed_def by blast
  show ?case by (rule completedI [of _ pre _ ok "post @ [c]"]) (use l 1(2) in simp_all)
qed

lemma clicked_submitted: "clicked spec ok l \<Longrightarrow> submitted spec ok l"
  unfolding clicked_def by (elim exE conjE, rule submittedI [where post = "[]"]) simp_all

lemma completed_submitted:
  assumes "completed spec l" shows "submitted spec True l"
proof -
  obtain pre post ok where l: "l = pre @ CShot True # CClick (Submit spec) True # CWait (SuccessURLGlob spec) ok # post"
    "prepared spec pre" "no_click post" using assms unfolding completed_def by blast
  show ?thesis by (rule submittedI [of _ pre _ _ "CWait (SuccessURLGlob spec) ok # post"]) (use l in simp_all)
qed

lemma wait_completes: 
  assumes "clicked spec True l" and "SuccessURLGlob spec \<noteq> [] \<Longrightarrow> ok"
  shows "completed spec (l @ [CWait (SuccessURLGlob spec) ok])"
proof -
  obtain pre where l: "l = pre @ [CShot True, CClick (Submit spec) True]" "prepared spec pre"
    using assms unfolding clicked_def by blast
  show ?thesis by (rule completedI [of _ pre _ ok "[]"]) (use l assms(2) in simp_all)
qed

lemma fill_prepares:
  "triple no_click (fill_phase (logged d) (Fields spec)) (\<lambda>_. prepared spec) (\<lambda>o1 l. no_click l \<and> OStep o1 = ''fill'')"
proof (rule tripleI)
  fix w l a w' l'
  assume a: "no_click l" "fill_phase (logged d) (Fields spec) (w, l) = (Inr a, w', l')"
  then obtain n where "fill_loop (logged d) (Fields spec) 0 [] (w, l) = (Inr (n, a), w', l')"
    by (auto simp: fill_phase_def split: phase_splits)
  then show "prepared spec l'"
    using triple_Inr [OF unclicked.fill_keeps a] by (auto simp: prepared_def intro: fill_loop_required)
qed (rule triple_Inl [OF unclicked.fill_keeps])

lemma shot_prepares:
  "triple (prepared spec) (shot_phase (logged d)) (\<lambda>_ l. \<exists>pre. l = pre @ [CShot True] \<and> prepared spec pre)
     (\<lambda>o1 l. no_click l \<and> OStep o1 = ''evidence'')"
  by (rule tripleI) (auto simp: shot_phase_def call_defs prepared_def no_click_def split: phase_splits)

lemma click_submits:
  "triple (\<lambda>l. \<exists>pre. l = pre @ [CShot True] \<and> prepared spec pre) (click_phase (logged d) (Submit spec)) (\<lambda>_. clicked spec True)
     (\<lambda>o1 l. clicked spec False l \<and> OStep o1 = ''submit'')"
  by (rule tripleI) (auto simp: click_phase_def log_unit_def outcome_def clicked_def split: phase_splits)

lemma settle_completes:
  "triple (clicked spec True) (settle_phase (logged d) code (SuccessURLGlob spec) msg hint) (\<lambda>_. completed spec)
     (\<lambda>o1 l. submitted spec True l \<and> OStep o1 = ''wait'')"
proof (rule tripleI)
  fix w l o1 w' l'
  assume "clicked spec True l" "settle_phase (logged d) code (SuccessURLGlob spec) msg hint (w, l) = (Inl o1, w', l')"
  then show "submitted spec True l' \<and> OStep o1 = ''wait''"
    by (rule triple_Inl [OF sent.settle_keeps clicked_submitted])
next
  fix w l u w' l'
  assume *: "clicked spec True l" "settle_phase (logged d) code (SuccessURLGlob spec) msg hint (w, l) = (Inr u, w', l')"
  then have "\<exists>ok. l' = l @ [CWait (SuccessURLGlob spec) ok] \<and> (SuccessURLGlob spec \<noteq> [] \<longrightarrow> ok)"
    by (auto simp: settle_phase_def log_unit_def split: if_splits prod.splits option.splits)
  with wait_completes [OF *(1)] show "completed spec l'" by blast
qed

definition flow_error :: "FormSpec \<Rightarrow> Outcome \<Rightarrow> call list \<Rightarrow> bool" where
  "flow_error spec o1 l \<longleftrightarrow>
     no_click l \<and> OStep o1 \<in> {''navigate'', ''detect'', ''fill'', ''evidence''}
     \<or> (\<exists>ok. submitted spec ok l \<and> OStep o1 \<in> {''submit'', ''wait'', ''detect'', ''post-submit''})"

lemma submit_flow_calls: "triple no_click (submit_flow (logged d) spec) (\<lambda>_. completed spec) (flow_error spec)"
  unfolding submit_flow_def
proof (rule triple_bind)
  show "triple no_click (navigate_phase (logged d) u h) (\<lambda>_. no_click) (flow_error spec)" for u h
    by (rule triple_weaken [OF unclicked.navigate_keeps]) (auto simp: flow_error_def)
next
  let ?P = "\<lambda>l. \<exists>pre. l = pre @ [CShot True] \<and> prepared spec pre"
  have d1: "triple no_click (detect_phase (logged d) ''navigate'' m h) (\<lambda>_. no_click) (flow_error spec)" for m h
    by (rule triple_weaken [OF unclicked.detect_keeps]) (auto simp: flow_error_def)
  have fill: "triple no_click (fill_phase (logged d) (Fields spec)) (\<lambda>_. prepared spec) (flow_error spec)"
    by (rule triple_weaken [OF fill_prepares]) (auto simp: flow_error_def)
  have shot: "triple (prepared spec) (shot_phase (logged d)) (\<lambda>_. ?P) (flow_error spec)"
    by (rule triple_weaken [OF shot_prepares]) (auto simp: flow_error_def)
  have click: "triple ?P (click_phase (logged d) (Submit spec)) (\<lambda>_. clicked spec True) (flow_error spec)"
    by (rule triple_weaken [OF click_submits]) (auto simp: flow_error_def dest!: clicked_submitted)
  have settle: "triple (clicked spec True) (settle_phase (logged d) c (SuccessURLGlob spec) m h) (\<lambda>_. completed spec) (flow_error spec)" for c m h
    by (rule triple_weaken [OF settle_completes]) (auto simp: flow_error_def)
  have d2: "triple (completed spec) (detect_phase (logged d) ''post-submit'' m h) (\<lambda>_. completed spec) (flow_error spec)" for m h
    by (rule triple_weaken [OF finished.detect_keeps]) (auto simp: flow_error_def dest!: completed_submitted)
  have ev: "triple (completed spec) (evidence_phase (logged d) s) (\<lambda>_. completed spec) (flow_error spec)" for s
    by (rule triple_weaken [OF finished.evidence_keeps]) auto
  have ret: "triple (completed spec) (\<lambda>w. (Inr x, w)) (\<lambda>_. completed spec) (flow_error spec)" for x
    by (rule tripleI) auto
  show "triple no_click
     (phase_bind (detect_phase (logged d) ''navigate'' ''bot protection detected on the form page''
                  ''route to the human task queue; symbrowse does not solve CAPTCHAs'') (\<lambda>_.
     phase_bind (fill_phase (logged d) (Fields spec)) (\<lambda>skipped.
     phase_bind (shot_phase (logged d)) (\<lambda>preShot.
     phase_bind (click_phase (logged d) (Submit spec)) (\<lambda>_.
     phase_bind (settle_phase (logged d) CodeSubmitFailed (SuccessURLGlob spec) ''did not reach the contracted success URL: ''
                  ''the submission may have failed silently; treat as NOT submitted'') (\<lambda>_.
     phase_bind (detect_phase (logged d) ''post-submit'' ''bot protection appeared after submit''
                  ''route to the human task queue; submission state is unknown'') (\<lambda>_.
     phase_bind (evidence_phase (logged d) preShot) (\<lambda>ev w. (Inr (skipped, ev), w))))))))) (\<lambda>_. completed spec) (flow_error spec)"
    by (rule triple_bind [OF d1 triple_bind [OF fill triple_bind [OF shot triple_bind [OF click triple_bind [OF settle
          triple_bind [OF d2 triple_bind [OF ev ret]]]]]]])
qed

text \<open>A phase that stops never stops with the success code.\<close>

definition honest :: "('w, 'a) phase \<Rightarrow> bool" where
  "honest m \<longleftrightarrow> (\<forall>w o1 w'. m w = (Inl o1, w') \<longrightarrow> OCode o1 \<noteq> CodeSuccess)"

lemma honest_bind: "honest m \<Longrightarrow> (\<And>a. honest (f a)) \<Longrightarrow> honest (phase_bind m f)"
  unfolding honest_def phase_bind_def by (auto split: prod.splits sum.splits)

lemma DetectBlock_code: "DetectBlock text html \<noteq> CodeSuccess"
  by (simp add: DetectBlock_def Let_def)

lemma honest_fill_loop: "fill_loop d fs n sk w = (Inl o1, w') \<Longrightarrow> OCode o1 \<noteq> CodeSuccess"
  by (induction d fs n sk w rule: fill_loop.induct) (auto simp: outcome_def split: phase_splits bool.splits)

lemma honest_confirm_loop: "confirm_loop d sels w = (Inl o1, w') \<Longrightarrow> OCode o1 \<noteq> CodeSuccess"
  by (induction d sels w rule: confirm_loop.induct) (auto simp: outcome_def split: phase_splits)

lemma honest_phases:
  "honest (navigate_phase d url hint)" "honest (detect_phase d step msg hint)" "honest (fill_phase d fs)"
  "honest (shot_phase d)" "honest (click_phase d sel)" "honest (evidence_phase d shot)" "honest (confirm_loop d sels)"
  "code \<noteq> CodeSuccess \<Longrightarrow> honest (settle_phase d code glob msg hint)" "honest (\<lambda>w. (Inr a, w))"
  unfolding honest_def
  by (auto simp: navigate_phase_def classifyNavigation_def detect_phase_def detectBlock_def fill_phase_def shot_phase_def
        click_phase_def evidence_phase_def settle_phase_def outcome_def DetectBlock_code [THEN not_sym] DetectBlock_code
        dest: honest_fill_loop honest_confirm_loop split: phase_splits)

lemma honest_submit_flow: "honest (submit_flow d spec)"
  unfolding submit_flow_def by (intro honest_bind honest_phases) simp

lemma honest_confirm_flow: "honest (confirm_flow d spec)"
  unfolding confirm_flow_def by (intro honest_bind honest_phases) simp

lemma fail_reports: "fail d elapsed o1 w = (res, w') \<Longrightarrow> RCode res = OCode o1 \<and> FailedStep res = OStep o1"
  by (auto simp: fail_def failed_def split: prod.splits)

text \<open>The ways a submission ends.\<close>

lemma SubmitForm_ends:
  assumes "SubmitForm parseURL sleep now elapsed \<lparr>RDriver = Some (logged d), RPacer = p\<rparr> spec (w, []) = (Some res, r', w', l)"
  obtains (unsent) "no_click l" "RCode res \<noteq> CodeSuccess" "FailedStep res \<notin> {''submit'', ''wait'', ''post-submit''}"
    | (sent) ok where "submitted spec ok l" "RCode res \<noteq> CodeSuccess" "FailedStep res \<in> {''submit'', ''wait'', ''detect'', ''post-submit''}"
    | (success) "completed spec l" "RCode res = CodeSuccess" "FailedStep res = []"
proof (cases "ValidateSpec spec")
  case (Some o1)
  then have "OCode o1 = CodeInvalidSpec" "OStep o1 = []" by (auto simp: ValidateSpec_def Let_def split: if_splits)
  then show ?thesis using assms Some unsent by (auto simp: SubmitForm_def failed_def)
next
  case None
  obtain e pacer where pace: "pace sleep now p (flow_hostOf parseURL (StartURL spec)) = (e, pacer)" by fastforce
  show ?thesis
  proof (cases e)
    case (Some err)
    then obtain o1 where o1: "fail (logged d) elapsed o1 (w, []) = (res, w', l)" "OCode o1 = CodeNavigationTimeout" "OStep o1 = ''pace''"
      using assms None pace by (auto simp: SubmitForm_def outcome_def split: prod.splits)
    show ?thesis using unclicked.fail_keeps [OF _ o1(1)] fail_reports [OF o1(1)] o1 unsent by simp
  next
    case no_err: None
    obtain res1 w1 l1 where flow: "submit_flow (logged d) spec (w, []) = (res1, w1, l1)" by (metis prod_cases3)
    then have fin: "finish_flow (logged d) elapsed (res1, w1, l1) = (res, w', l)"
      using assms None no_err pace by (auto simp: SubmitForm_def split: prod.splits)
    show ?thesis
    proof (cases res1)
      case (Inl o1)
      with fin have fail: "fail (logged d) elapsed o1 (w1, l1) = (res, w', l)" by (simp add: finish_flow_def)
      have "flow_error spec o1 l1" using triple_Inl [OF submit_flow_calls _ flow [unfolded Inl]] by simp
      moreover have "OCode o1 \<noteq> CodeSuccess" by (rule honest_submit_flow [unfolded honest_def, rule_format, OF flow [unfolded Inl]])
      ultimately show ?thesis
        using unclicked.fail_keeps [OF _ fail] sent.fail_keeps [OF _ fail] fail_reports [OF fail] unsent sent
        unfolding flow_error_def by auto
    next
      case (Inr a)
      have "completed spec l1" using triple_Inr [OF submit_flow_calls _ flow [unfolded Inr]] by simp
      then show ?thesis using fin Inr success by (cases a) (auto simp: finish_flow_def)
    qed
  qed
qed

text \<open>C5. A form run never submits a partially filled form: the record of the driver calls of any run, on
  any page, either holds no click at all, or holds exactly one, on the spec's submit control, made after
  every required field had been filled with its value and right after the evidence screenshot was taken.
  Steps reported before the submission mean that nothing was clicked.\<close>

theorem no_partial_submission:
  assumes "SubmitForm parseURL sleep now elapsed \<lparr>RDriver = Some (logged d), RPacer = p\<rparr> spec (w, []) = (Some res, r', w', l)"
  shows "no_click l \<and> RCode res \<noteq> CodeSuccess \<or>
         (\<exists>pre ok post. l = pre @ CShot True # CClick (Submit spec) ok # post \<and> no_click pre \<and> no_click post
            \<and> (\<forall>f \<in> set (Fields spec). Required f \<longrightarrow> CFill (FSelector f) (FValue f) True \<in> set pre))
         \<and> FailedStep res \<notin> {''navigate'', ''fill'', ''evidence'', ''pace''}"
  using assms
proof (cases rule: SubmitForm_ends)
  case (sent ok)
  then show ?thesis unfolding submitted_def prepared_def by auto
next
  case success
  then show ?thesis using completed_submitted [OF success(1)] unfolding submitted_def prepared_def by auto
qed simp

definition demo_field :: Field where
  "demo_field = \<lparr>FName = ''email'', FSelector = no_selector\<lparr>Label := ''Email''\<rparr>, FValue = ''a@b.c'', Required = True, Sensitive = False\<rparr>"

definition demo_spec :: FormSpec where
  "demo_spec = \<lparr>SpecName = ''opt-out'', StartURL = ''https://broker.example/'', Domains = [], Fields = [demo_field],
     Submit = no_selector\<lparr>SelText := ''Send''\<rparr>, SuccessURLGlob = ''*/done'', SpecTimeout = 0\<rparr>"

text \<open>A page on which every call succeeds; the browser state is the number of calls.\<close>

definition demo_driver :: "nat Driver" where
  "demo_driver = \<lparr>Navigate = (\<lambda>_ n. (None, Suc n)), CurrentURL = (\<lambda>n. (Inr ''https://broker.example/done'', Suc n)),
     PageText = (\<lambda>n. (Inr ''Thanks'', Suc n)), PageHTML = (\<lambda>n. (Inr ''<FORM></FORM>'', Suc n)), Screenshot = (\<lambda>n. (Inr ''PNG'', Suc n)),
     Fill = (\<lambda>_ _ n. (None, Suc n)), Click = (\<lambda>_ n. (None, Suc n)), WaitForURL = (\<lambda>_ n. (None, Suc n)),
     WaitSettled = (\<lambda>n. (None, Suc n))\<rparr>"

abbreviation "demo_run \<equiv> SubmitForm (\<lambda>_. Inl ''no host'') (\<lambda>_. None) 0 7 \<lparr>RDriver = Some (logged demo_driver), RPacer = None\<rparr> demo_spec (0, [])"

lemma demo_run_success: "map_option RCode (fst demo_run) = Some CodeSuccess"
  by code_simp

lemma demo_run_clicks: "list_ex is_click (snd (snd (snd demo_run)))"
  by code_simp

lemma demo_run_result:
  obtains res r' w' l where "demo_run = (Some res, r', w', l)" "RCode res = CodeSuccess" "list_ex is_click l"
proof -
  obtain x r' w' l where run: "demo_run = (x, r', w', l)" by (rule prod_cases4)
  then obtain res where "x = Some res" "RCode res = CodeSuccess" using demo_run_success by (cases x) auto
  then show thesis using that run demo_run_clicks by simp
qed

theorem no_partial_submission_witness:
  "\<exists>res r' w' l. demo_run = (Some res, r', w', l) \<and> list_ex is_click l \<and> FailedStep res \<noteq> ''fill''"
proof -
  obtain res r' w' l where run: "demo_run = (Some res, r', w', l)" "RCode res = CodeSuccess" "list_ex is_click l"
    by (rule demo_run_result)
  show ?thesis using no_partial_submission [OF run(1)] run by auto
qed

text \<open>Success is reported only for a run that clicked the submit control without an error after the form
  was complete and then, when the spec has a success URL pattern, saw that URL.\<close>

theorem success_is_confirmed:
  assumes "SubmitForm parseURL sleep now elapsed \<lparr>RDriver = Some (logged d), RPacer = p\<rparr> spec (w, []) = (Some res, r', w', l)"
    and "RCode res = CodeSuccess"
  shows "\<exists>pre post ok. l = pre @ CShot True # CClick (Submit spec) True # CWait (SuccessURLGlob spec) ok # post
           \<and> no_click pre \<and> no_click post \<and> (SuccessURLGlob spec \<noteq> [] \<longrightarrow> ok)
           \<and> (\<forall>f \<in> set (Fields spec). Required f \<longrightarrow> CFill (FSelector f) (FValue f) True \<in> set pre)"
  using assms(1)
proof (cases rule: SubmitForm_ends)
  case success
  then show ?thesis unfolding completed_def prepared_def by blast
qed (use assms(2) in simp_all)

theorem success_is_confirmed_witness:
  "\<exists>res r' w' l. demo_run = (Some res, r', w', l) \<and> RCode res = CodeSuccess \<and> CWait ''*/done'' True \<in> set l"
proof -
  obtain res r' w' l where run: "demo_run = (Some res, r', w', l)" "RCode res = CodeSuccess" "list_ex is_click l"
    by (rule demo_run_result)
  show ?thesis using success_is_confirmed [OF run(1,2)] run by (auto simp: demo_spec_def)
qed

section \<open>Pacing is spacing\<close>

text \<open>The moments at which the runs of a sequence of arrivals start, when their sleeps complete.\<close>

fun start_times :: "Pacer \<Rightarrow> (go_time \<times> string) list \<Rightarrow> (string \<times> go_time) list" where
  "start_times p [] = []"
| "start_times p ((now, host) # ws) =
     (case pacer_wait now p host of (pause, p') \<Rightarrow>
        (host, now + (case pause of None \<Rightarrow> 0 | Some dur \<Rightarrow> dur)) # start_times p' ws)"

lemma pacer_wait_slot:
  assumes "pacer_wait now p host = (pause, p')"
  shows "now + (case pause of None \<Rightarrow> 0 | Some dur \<Rightarrow> dur) = max now (last_run p host + minInterval p)"
    and "p' = p\<lparr>last_run := (last_run p)(host := max now (last_run p host + minInterval p))\<rparr>"
  using assms by (auto simp: pacer_wait_def Let_def split: if_splits)

lemma start_after_last: "(host, t) \<in> set (start_times p ws) \<Longrightarrow> 0 \<le> minInterval p \<Longrightarrow> last_run p host + minInterval p \<le> t"
proof (induction ws arbitrary: p)
  case (Cons a ws)
  obtain now h where a: "a = (now, h)" by fastforce
  obtain pause p' where w: "pacer_wait now p h = (pause, p')" by fastforce
  note slot = pacer_wait_slot [OF w]
  from Cons.prems consider "h = host" "t = max now (last_run p h + minInterval p)" | "(host, t) \<in> set (start_times p' ws)"
    using slot(1) by (auto simp: a w)
  then show ?case
  proof cases
    case 2
    then have "last_run p' host + minInterval p' \<le> t" using Cons.IH [of p'] Cons.prems(2) slot(2) by simp
    then show ?thesis using Cons.prems(2) slot(2) by (auto split: if_splits)
  qed simp
qed simp

text \<open>Whatever the order in which runs arrive, two runs on one host start at least the pacer's interval
  apart.\<close>

theorem pacer_spaces_runs:
  "sorted_wrt (\<lambda>a b. fst a = fst b \<longrightarrow> snd a + minInterval (NewPacer d) \<le> snd b) (start_times (NewPacer d) ws)"
proof -
  have "sorted_wrt (\<lambda>a b. fst a = fst b \<longrightarrow> snd a + minInterval p \<le> snd b) (start_times p ws)" if "0 \<le> minInterval p" for p
    using that
  proof (induction ws arbitrary: p)
    case (Cons a ws)
    obtain now h where a: "a = (now, h)" by fastforce
    obtain pause p' where w: "pacer_wait now p h = (pause, p')" by fastforce
    note slot = pacer_wait_slot [OF w]
    have "max now (last_run p h + minInterval p) + minInterval p \<le> t" if "(h, t) \<in> set (start_times p' ws)" for t
      using start_after_last [OF that] Cons.prems slot(2) by simp
    then show ?case using Cons.IH [of p'] Cons.prems slot by (auto simp: a w)
  qed simp
  moreover have "0 \<le> minInterval (NewPacer d)" by (simp add: NewPacer_def)
  ultimately show ?thesis by blast
qed

theorem pacer_spaces_runs_witness:
  "start_times (NewPacer 10) [(100, ''a''), (101, ''b''), (102, ''a'')] = [(''a'', 100), (''b'', 101), (''a'', 110)]
   \<and> sorted_wrt (\<lambda>a b. fst a = fst b \<longrightarrow> snd a + minInterval (NewPacer 10) \<le> snd b)
       (start_times (NewPacer 10) [(100, ''a''), (101, ''b''), (102, ''a'')])"
  using pacer_spaces_runs [of 10 "[(100, ''a''), (101, ''b''), (102, ''a'')]"]
  by (simp add: NewPacer_def pacer_wait_def)

text \<open>A selector with a CSS part is never reported missing, whatever the page holds: the CSS string is
  returned unchecked.\<close>

lemma css_selector_never_missing: "CSS sel \<noteq> [] \<Longrightarrow> \<exists>ref. resolve_selector finder sel = Inr ref"
  by (simp add: resolve_selector_def split: option.split)

end
