(* ===== verification/JsonText.thy ===== *)
theory JsonText
  imports Utf8
begin

text \<open>
  The text form of JSON values as \<open>encoding/json\<close> writes and reads it, as far as the sources use it on
  values of type \<open>any\<close>: \<open>Marshal\<close> with its HTML escaping and its treatment of invalid UTF-8, and
  \<open>Unmarshal\<close>. Numbers are opaque texts of the JSON number grammar (their conversion to \<open>float64\<close> and back
  is not modelled). \<open>Unmarshal\<close> into \<open>any\<close> makes a Go map of an object: of equal keys the last one counts,
  and \<open>Marshal\<close> writes the keys of a map in byte order; \<open>map_form\<close> is that normal form. The parser
  recurses with fuel, and a fuel of the length of the text is enough for every text that \<open>marshal\<close> writes
  (\<open>unmarshal_marshal\<close>); Go's limit of 10000 nested values is not modelled.
\<close>

section \<open>Writing\<close>

definition escape_byte :: "int \<Rightarrow> string" where
  "escape_byte n =
     (if n = 8 then [CHR 0x5C, CHR ''b'']
      else if n = 9 then [CHR 0x5C, CHR ''t'']
      else if n = 10 then [CHR 0x5C, CHR ''n'']
      else if n = 12 then [CHR 0x5C, CHR ''f'']
      else if n = 13 then [CHR 0x5C, CHR ''r'']
      else [CHR 0x5C, CHR ''u'', CHR ''0'', CHR ''0'', hex_digit (nat n div 16), hex_digit (nat n)])"

text \<open>The text of one character; \<open>bad\<close> marks a byte that is not valid UTF-8.\<close>

definition escape_rune :: "bool \<Rightarrow> int \<Rightarrow> string" where
  "escape_rune bad r =
     (if bad then CHR 0x5C # ''ufffd''
      else if r = 0x22 \<or> r = 0x5C then [CHR 0x5C, char_of r]
      else if r < 0x20 \<or> r = 0x3C \<or> r = 0x3E \<or> r = 0x26 then escape_byte r
      else if r = 0x2028 then CHR 0x5C # ''u2028''
      else if r = 0x2029 then CHR 0x5C # ''u2029''
      else encode_rune r)"

function json_escape :: "string \<Rightarrow> string" where
  "json_escape s =
     (if s = [] then []
      else (case decode_rune s of (r, w) \<Rightarrow> escape_rune (r = RuneError \<and> w = 1) r @ json_escape (drop w s)))"
  by auto
termination
proof (relation "measure length", goal_cases)
  case (2 s x y)
  then have "0 < y" using decode_rune_width [of s] by (metis snd_conv)
  with 2 show ?case by (cases s) auto
qed simp

declare json_escape.simps [simp del]

definition json_quote :: "string \<Rightarrow> string" where
  "json_quote s = [CHR 0x22] @ json_escape s @ [CHR 0x22]"

fun marshal :: "json \<Rightarrow> string" where
  "marshal JNull = ''null''"
| "marshal (JBool b) = (if b then ''true'' else ''false'')"
| "marshal (JNum n) = n"
| "marshal (JStr s) = json_quote s"
| "marshal (JArr xs) = ''['' @ join '','' (map marshal xs) @ '']''"
| "marshal (JObj kvs) = ''{'' @ join '','' (map (\<lambda>kv. json_quote (fst kv) @ '':'' @ marshal (snd kv)) kvs) @ ''}''"

section \<open>Reading\<close>

fun skip_ws :: "string \<Rightarrow> string" where
  "skip_ws [] = []"
| "skip_ws (c # s) = (if c = CHR '' '' \<or> c = CHR 0x09 \<or> c = CHR 0x0A \<or> c = CHR 0x0D then skip_ws s else c # s)"

definition hex_value :: "char \<Rightarrow> int option" where
  "hex_value c =
     (if is_digit c then Some (byte c - 48)
      else if CHR ''a'' \<le> c \<and> c \<le> CHR ''f'' then Some (byte c - 87)
      else if CHR ''A'' \<le> c \<and> c \<le> CHR ''F'' then Some (byte c - 55)
      else None)"

definition hex4 :: "char \<Rightarrow> char \<Rightarrow> char \<Rightarrow> char \<Rightarrow> int option" where
  "hex4 a b c d =
     (case (hex_value a, hex_value b, hex_value c, hex_value d) of
        (Some w, Some x, Some y, Some z) \<Rightarrow> Some (w * 4096 + x * 256 + y * 16 + z)
      | _ \<Rightarrow> None)"

definition simple_escape :: "char \<Rightarrow> char option" where
  "simple_escape c = map_of [(CHR 0x22, CHR 0x22), (CHR 0x5C, CHR 0x5C), (CHR ''/'', CHR ''/''), (CHR ''b'', CHR 0x08),
     (CHR ''f'', CHR 0x0C), (CHR ''n'', CHR 0x0A), (CHR ''r'', CHR 0x0D), (CHR ''t'', CHR 0x09)] c"

definition surrogate_pair :: "int \<Rightarrow> string \<Rightarrow> int option" where
  "surrogate_pair hi s =
     (case s of
        b # u # p # q # x # y # _ \<Rightarrow>
          if b = CHR 0x5C \<and> u = CHR ''u'' \<and> 0xD800 \<le> hi \<and> hi < 0xDC00 then
            (case hex4 p q x y of
               Some lo \<Rightarrow> if 0xDC00 \<le> lo \<and> lo < 0xE000 then Some ((hi - 0xD800) * 1024 + (lo - 0xDC00) + 0x10000) else None
             | None \<Rightarrow> None)
          else None
      | _ \<Rightarrow> None)"

text \<open>The characters of a string up to its closing quote, and what follows it. An unpaired surrogate is
  written as the replacement character, which \<open>encode_rune\<close> does.\<close>

function parse_chars :: "string \<Rightarrow> (string \<times> string) option" where
  "parse_chars [] = None"
| "parse_chars (c # s) =
     (if c = CHR 0x22 then Some ([], s)
      else if c = CHR 0x5C then
        (case s of
           [] \<Rightarrow> None
         | e # t \<Rightarrow>
             if e = CHR ''u'' then
               (case t of
                  p # q # x # y # u \<Rightarrow>
                    (case hex4 p q x y of
                       None \<Rightarrow> None
                     | Some r \<Rightarrow>
                         (case surrogate_pair r u of
                            Some r2 \<Rightarrow> map_option (apfst (append (encode_rune r2))) (parse_chars (drop 6 u))
                          | None \<Rightarrow> map_option (apfst (append (encode_rune r))) (parse_chars u)))
                | _ \<Rightarrow> None)
             else (case simple_escape e of
                     None \<Rightarrow> None
                   | Some x \<Rightarrow> map_option (apfst (Cons x)) (parse_chars t)))
      else if byte c < 0x20 then None
      else map_option (apfst (Cons c)) (parse_chars s))"
  by pat_completeness auto
termination
  by (relation "measure length") auto

text \<open>Bytes of a string that are not valid UTF-8 are read as replacement characters.\<close>

definition to_valid :: "string \<Rightarrow> string" where
  "to_valid s = encode (runes s)"

definition parse_string :: "string \<Rightarrow> (string \<times> string) option" where
  "parse_string s = map_option (apfst to_valid) (parse_chars s)"

definition number_char :: "char \<Rightarrow> bool" where
  "number_char c \<longleftrightarrow> is_digit c \<or> c \<in> set ''+-.eE''"

fun exponent_ok :: "string \<Rightarrow> bool" where
  "exponent_ok [] = True"
| "exponent_ok (e # s) =
     ((e = CHR ''e'' \<or> e = CHR ''E'')
      \<and> (let t = (case s of [] \<Rightarrow> [] | c # u \<Rightarrow> if c = CHR ''+'' \<or> c = CHR ''-'' then u else s)
         in t \<noteq> [] \<and> list_all is_digit t))"

definition fraction_ok :: "string \<Rightarrow> bool" where
  "fraction_ok s =
     (case s of
        [] \<Rightarrow> True
      | c # t \<Rightarrow>
          if c = CHR ''.'' then takeWhile is_digit t \<noteq> [] \<and> exponent_ok (dropWhile is_digit t)
          else exponent_ok s)"

definition number_body :: "string \<Rightarrow> bool" where
  "number_body t =
     (case t of
        [] \<Rightarrow> False
      | c # u \<Rightarrow> if c = CHR ''0'' then fraction_ok u else is_digit c \<and> fraction_ok (dropWhile is_digit u))"

definition valid_number :: "string \<Rightarrow> bool" where
  "valid_number s = (if has_prefix s ''-'' then number_body (drop 1 s) else number_body s)"

declare exponent_ok.simps [simp del]

fun parse_value :: "nat \<Rightarrow> string \<Rightarrow> (json \<times> string) option"
and parse_elements :: "nat \<Rightarrow> string \<Rightarrow> (json list \<times> string) option"
and parse_members :: "nat \<Rightarrow> string \<Rightarrow> ((string \<times> json) list \<times> string) option" where
  "parse_value 0 s = None"
| "parse_value (Suc n) s =
     (case skip_ws s of
        [] \<Rightarrow> None
      | c # t \<Rightarrow>
          if c = CHR 0x22 then map_option (apfst JStr) (parse_string t)
          else if c = CHR ''['' then
            (case skip_ws t of
               [] \<Rightarrow> None
             | d # u \<Rightarrow> if d = CHR '']'' then Some (JArr [], u) else map_option (apfst JArr) (parse_elements n t))
          else if c = CHR ''{'' then
            (case skip_ws t of
               [] \<Rightarrow> None
             | d # u \<Rightarrow> if d = CHR ''}'' then Some (JObj [], u) else map_option (apfst JObj) (parse_members n t))
          else if has_prefix (c # t) ''null'' then Some (JNull, drop 4 (c # t))
          else if has_prefix (c # t) ''true'' then Some (JBool True, drop 4 (c # t))
          else if has_prefix (c # t) ''false'' then Some (JBool False, drop 5 (c # t))
          else (let num = takeWhile number_char (c # t) in
                if valid_number num then Some (JNum num, drop (length num) (c # t)) else None))"
| "parse_elements 0 s = None"
| "parse_elements (Suc n) s =
     (case parse_value n s of
        None \<Rightarrow> None
      | Some (v, t) \<Rightarrow>
          (case skip_ws t of
             [] \<Rightarrow> None
           | c # u \<Rightarrow>
               if c = CHR '']'' then Some ([v], u)
               else if c = CHR '','' then map_option (apfst (Cons v)) (parse_elements n u)
               else None))"
| "parse_members 0 s = None"
| "parse_members (Suc n) s =
     (case skip_ws s of
        [] \<Rightarrow> None
      | q # s1 \<Rightarrow>
          if q \<noteq> CHR 0x22 then None
          else (case parse_string s1 of
             None \<Rightarrow> None
           | Some (k, s2) \<Rightarrow>
               (case skip_ws s2 of
                  [] \<Rightarrow> None
                | col # s3 \<Rightarrow>
                    if col \<noteq> CHR '':'' then None
                    else (case parse_value n s3 of
                       None \<Rightarrow> None
                     | Some (v, s4) \<Rightarrow>
                         (case skip_ws s4 of
                            [] \<Rightarrow> None
                          | c # u \<Rightarrow>
                              if c = CHR ''}'' then Some ([(k, v)], u)
                              else if c = CHR '','' then map_option (apfst (Cons (k, v))) (parse_members n u)
                              else None)))))"

definition unmarshal :: "string \<Rightarrow> json option" where
  "unmarshal s =
     (case parse_value (length s) s of
        Some (v, rest) \<Rightarrow> if skip_ws rest = [] then Some v else None
      | None \<Rightarrow> None)"

section \<open>Strings are read back\<close>

declare parse_chars.simps(2) [simp del]

lemma parse_chars_close: "parse_chars (CHR 0x22 # s) = Some ([], s)"
  and parse_chars_plain: "0x20 \<le> byte c \<Longrightarrow> c \<noteq> CHR 0x22 \<Longrightarrow> c \<noteq> CHR 0x5C \<Longrightarrow>
    parse_chars (c # s) = map_option (apfst (Cons c)) (parse_chars s)"
  and parse_chars_simple: "e \<noteq> CHR ''u'' \<Longrightarrow> simple_escape e = Some x \<Longrightarrow>
    parse_chars (CHR 0x5C # e # s) = map_option (apfst (Cons x)) (parse_chars s)"
  and parse_chars_unicode: "hex4 p q x y = Some r \<Longrightarrow> surrogate_pair r s = None \<Longrightarrow>
    parse_chars (CHR 0x5C # CHR ''u'' # p # q # x # y # s) = map_option (apfst (append (encode_rune r))) (parse_chars s)"
  by (simp_all add: parse_chars.simps(2))

lemma parse_plain:
  "\<forall>c \<in> set bs. 0x20 \<le> byte c \<and> c \<noteq> CHR 0x22 \<and> c \<noteq> CHR 0x5C \<Longrightarrow>
   parse_chars (bs @ t) = map_option (apfst (append bs)) (parse_chars t)"
proof (induction bs)
  case Nil
  then show ?case by (cases "parse_chars t") auto
next
  case (Cons c bs)
  then have "parse_chars (c # bs @ t) = map_option (apfst (Cons c)) (parse_chars (bs @ t))" by (intro parse_chars_plain) auto
  moreover have "parse_chars (bs @ t) = map_option (apfst (append bs)) (parse_chars t)" using Cons by simp
  ultimately show ?case by (cases "parse_chars t") (simp_all add: apfst_compose comp_def)
qed

lemma escaped_bytes:
  "\<forall>n \<in> set ([0..<32] @ [0x26, 0x3C, 0x3E]). hex4 (CHR ''0'') (CHR ''0'') (hex_digit (n div 16)) (hex_digit n) = Some (int n)"
  by code_simp

lemma surrogate_pair_low: "r < 0xD800 \<Longrightarrow> surrogate_pair r s = None"
  by (auto simp: surrogate_pair_def split: list.splits)

lemma encode_ascii: "0 \<le> r \<Longrightarrow> r < 0x80 \<Longrightarrow> encode_rune r = [char_of r]"
  by (simp add: encode_rune_def valid_rune_def)

lemma parse_escape_byte:
  assumes "0 \<le> r \<and> r < 0x20 \<or> r = 0x3C \<or> r = 0x3E \<or> r = 0x26"
  shows "parse_chars (escape_byte r @ t) = map_option (apfst (append (encode_rune r))) (parse_chars t)"
proof -
  have "nat r \<in> set ([0..<32] @ [0x26, 0x3C, 0x3E])" using assms by auto
  with escaped_bytes have h: "hex4 (CHR ''0'') (CHR ''0'') (hex_digit (nat r div 16)) (hex_digit (nat r)) = Some r"
    using assms by fastforce
  have e: "encode_rune r = [char_of r]" using assms by (intro encode_ascii) auto
  consider "r \<in> {8, 9, 10, 12, 13}"
    | "escape_byte r = [CHR 0x5C, CHR ''u'', CHR ''0'', CHR ''0'', hex_digit (nat r div 16), hex_digit (nat r)]"
    unfolding escape_byte_def by (cases "r \<in> {8, 9, 10, 12, 13}") auto
  then show ?thesis
  proof cases
    case 1
    then obtain c where "escape_byte r = [CHR 0x5C, c]" "c \<noteq> CHR ''u''" "simple_escape c = Some (char_of r)"
      by (auto simp: escape_byte_def simple_escape_def char_of_def)
    then show ?thesis using e by (simp add: parse_chars_simple) (cases "parse_chars t"; simp)
  next
    case 2
    have "surrogate_pair r t = None" using assms by (intro surrogate_pair_low) auto
    then show ?thesis unfolding 2 using h by (simp add: parse_chars_unicode)
  qed
qed

lemma encode_plain:
  assumes "valid_rune r" and "0x20 \<le> r" and "r \<noteq> 0x22" and "r \<noteq> 0x5C"
  shows "\<forall>c \<in> set (encode_rune r). 0x20 \<le> byte c \<and> c \<noteq> CHR 0x22 \<and> c \<noteq> CHR 0x5C"
proof -
  have ne: "c \<noteq> CHR 0x22 \<and> c \<noteq> CHR 0x5C" if "byte c \<noteq> 0x22" "byte c \<noteq> 0x5C" for c
    using that by (auto simp: byte_def)
  have r: "0 \<le> r" "r \<le> 0x10FFFF" using assms by (auto simp: valid_rune_def)
  have hi: "byte (char_of (a + n)) = a + n" if "0x80 \<le> a" "a + n < 256" "0 \<le> n" for a n
    by (rule byte_char_of) (use that in linarith)+
  have m: "0 \<le> x mod 64" "x mod 64 < 64" for x :: int by simp_all
  consider "r < 0x80" | "0x80 \<le> r" "r < 0x800" | "0x800 \<le> r" "r < 0x10000" | "0x10000 \<le> r" by linarith
  then have "(r < 0x80 \<and> encode_rune r = [char_of r]) \<or> (\<forall>c \<in> set (encode_rune r). 0x80 \<le> byte c)"
  proof cases
    case 1
    then show ?thesis using r by (simp add: encode_ascii)
  next
    case 2
    then have "0 \<le> r div 64" "r div 64 < 32" by auto
    then show ?thesis using 2 assms(1) m [of r] by (simp add: encode_rune_def hi)
  next
    case 3
    then have "0 \<le> r div 4096" "r div 4096 < 16" by auto
    then show ?thesis using 3 assms(1) m [of r] m [of "r div 64"] by (simp add: encode_rune_def hi)
  next
    case 4
    then have "0 \<le> r div 262144" "r div 262144 \<le> 4" using r by auto
    then show ?thesis using 4 assms(1) m [of r] m [of "r div 64"] m [of "r div 4096"] by (simp add: encode_rune_def hi)
  qed
  then show ?thesis
  proof
    assume "r < 0x80 \<and> encode_rune r = [char_of r]"
    moreover have "byte (char_of r) = r" using assms calculation by (intro byte_char_of) auto
    ultimately show ?thesis using assms ne [of "char_of r"] by simp
  next
    assume *: "\<forall>c \<in> set (encode_rune r). 0x80 \<le> byte c"
    show ?thesis
    proof
      fix c assume "c \<in> set (encode_rune r)"
      with * have "0x80 \<le> byte c" by blast
      then show "0x20 \<le> byte c \<and> c \<noteq> CHR 0x22 \<and> c \<noteq> CHR 0x5C" using ne [of c] by simp
    qed
  qed
qed

lemma parse_escape_rune:
  assumes "valid_rune r" and "bad \<longrightarrow> r = RuneError"
  shows "parse_chars (escape_rune bad r @ t) = map_option (apfst (append (encode_rune r))) (parse_chars t)"
proof -
  have nn: "0 \<le> r" using assms(1) by (auto simp: valid_rune_def)
  have hex: "hex4 (CHR ''f'') (CHR ''f'') (CHR ''f'') (CHR ''d'') = Some RuneError"
    "hex4 (CHR ''2'') (CHR ''0'') (CHR ''2'') (CHR ''8'') = Some 0x2028"
    "hex4 (CHR ''2'') (CHR ''0'') (CHR ''2'') (CHR ''9'') = Some 0x2029" by code_simp+
  have err: "surrogate_pair RuneError s = None" for s by (auto simp: surrogate_pair_def split: list.splits)
  consider "bad" | "\<not> bad" "r = 0x22 \<or> r = 0x5C" | "\<not> bad" "r < 0x20 \<or> r = 0x3C \<or> r = 0x3E \<or> r = 0x26"
    | "\<not> bad" "r = 0x2028 \<or> r = 0x2029"
    | "\<not> bad" "\<not> (r = 0x22 \<or> r = 0x5C)" "\<not> (r < 0x20 \<or> r = 0x3C \<or> r = 0x3E \<or> r = 0x26)" "\<not> (r = 0x2028 \<or> r = 0x2029)"
    by blast
  then show ?thesis
  proof cases
    case 1
    then show ?thesis using assms(2) hex(1) err by (simp add: escape_rune_def parse_chars_unicode)
  next
    case 2
    have "simple_escape (char_of x) = Some (char_of x) \<and> char_of x \<noteq> CHR ''u''" if "x \<in> {0x22, 0x5C}" for x :: int
    proof -
      have "\<forall>x \<in> set [0x22, 0x5C :: int]. simple_escape (char_of x) = Some (char_of x) \<and> char_of x \<noteq> CHR ''u''" by code_simp
      then show ?thesis using that by auto
    qed
    with 2 have "simple_escape (char_of r) = Some (char_of r)" "char_of r \<noteq> CHR ''u''" by auto
    moreover have "escape_rune bad r = [CHR 0x5C, char_of r]" using 2 by (simp add: escape_rune_def)
    moreover have "encode_rune r = [char_of r]" using 2 by (intro encode_ascii) auto
    ultimately show ?thesis by (simp add: parse_chars_simple) (cases "parse_chars t"; simp)
  next
    case 3
    then have "escape_rune bad r = escape_byte r" by (auto simp: escape_rune_def)
    then show ?thesis using parse_escape_byte [of r t] 3 nn by simp
  next
    case 4
    then show ?thesis using hex(2,3) surrogate_pair_low [of r t] by (auto simp: escape_rune_def parse_chars_unicode)
  next
    case 5
    then have "escape_rune bad r = encode_rune r" by (simp add: escape_rune_def)
    then show ?thesis using 5 parse_plain [OF encode_plain [OF assms(1)]] by simp
  qed
qed

lemma parse_json_escape: "parse_chars (json_escape s @ CHR 0x22 # t) = Some (to_valid s, t)"
proof (induction s rule: json_escape.induct)
  case (1 s)
  show ?case
  proof (cases "s = []")
    case True
    then show ?thesis by (simp add: json_escape.simps parse_chars_close to_valid_def encode_def)
  next
    case False
    obtain r w where d: "decode_rune s = (r, w)" by fastforce
    have "valid_rune r" using decode_valid [OF False] d by simp
    moreover have "runes s = r # runes (drop w s)" using False d by (subst runes.simps) simp
    ultimately show ?thesis
      using 1 [OF False d [symmetric]] False d
      by (subst json_escape.simps) (simp add: parse_escape_rune to_valid_def encode_def)
  qed
qed

lemma to_valid_idem [simp]: "to_valid (to_valid s) = to_valid s"
  by (simp add: to_valid_def runes_encode runes_valid)

lemma parse_string_quote: "parse_string (json_escape s @ CHR 0x22 # t) = Some (to_valid s, t)"
  by (simp add: parse_string_def parse_json_escape)

section \<open>Values are read back\<close>

fun wf_json :: "json \<Rightarrow> bool" where
  "wf_json (JNum n) = valid_number n"
| "wf_json (JStr s) = (to_valid s = s)"
| "wf_json (JArr xs) = (\<forall>x \<in> set xs. wf_json x)"
| "wf_json (JObj kvs) = (\<forall>kv \<in> set kvs. to_valid (fst kv) = fst kv \<and> wf_json (snd kv))"
| "wf_json _ = True"

text \<open>The fuel a value needs.\<close>

fun json_fuel :: "json \<Rightarrow> nat" where
  "json_fuel (JArr xs) = Suc (sum_list (map (\<lambda>x. Suc (json_fuel x)) xs))"
| "json_fuel (JObj kvs) = Suc (sum_list (map (\<lambda>kv. Suc (json_fuel (snd kv))) kvs))"
| "json_fuel _ = 1"

definition ends_value :: "string \<Rightarrow> bool" where
  "ends_value rest \<longleftrightarrow> (case rest of [] \<Rightarrow> True | c # _ \<Rightarrow> \<not> number_char c)"

definition value_start :: "char \<Rightarrow> bool" where
  "value_start c \<longleftrightarrow> c \<notin> set '' ]},:'' \<and> c \<noteq> CHR 0x09 \<and> c \<noteq> CHR 0x0A \<and> c \<noteq> CHR 0x0D"

lemma digit_number_char: "is_digit c \<Longrightarrow> number_char c"
  by (simp add: number_char_def)

lemma digits_number_chars: "list_all is_digit s \<Longrightarrow> list_all number_char s"
  by (auto simp: list_all_iff digit_number_char)

lemma dropWhile_digits: "list_all number_char (dropWhile is_digit s) \<Longrightarrow> list_all number_char s"
  by (induction s) (auto simp: digit_number_char split: if_splits)

lemma exponent_chars:
  assumes "exponent_ok s" shows "list_all number_char s"
proof (cases s)
  case (Cons e t)
  define u where "u = (case t of [] \<Rightarrow> [] | c # v \<Rightarrow> if c = CHR ''+'' \<or> c = CHR ''-'' then v else t)"
  have e: "e = CHR ''e'' \<or> e = CHR ''E''" and u: "list_all is_digit u"
    using assms unfolding Cons u_def exponent_ok.simps Let_def by blast+
  have "t = u \<or> (\<exists>c. t = c # u \<and> (c = CHR ''+'' \<or> c = CHR ''-''))"
    unfolding u_def by (cases t) simp_all
  then have "list_all number_char t"
    using digits_number_chars [OF u] by (elim disjE exE conjE) (simp_all add: number_char_def [of "CHR ''+''"] number_char_def [of "CHR ''-''"])
  with e Cons show ?thesis by (elim disjE) (simp_all add: number_char_def [of "CHR ''e''"] number_char_def [of "CHR ''E''"])
qed simp

lemma fraction_chars:
  assumes "fraction_ok s" shows "list_all number_char s"
proof (cases s)
  case (Cons c t)
  show ?thesis
  proof (cases "c = CHR ''.''")
    case True
    then have "exponent_ok (dropWhile is_digit t)" using assms Cons by (simp add: fraction_ok_def)
    then have "list_all number_char t" by (rule dropWhile_digits [OF exponent_chars])
    then show ?thesis using True Cons by (simp add: number_char_def)
  next
    case False
    then have "exponent_ok s" using assms Cons by (simp add: fraction_ok_def)
    then show ?thesis by (rule exponent_chars)
  qed
qed simp

lemma number_body_chars:
  assumes "number_body t" shows "list_all number_char t \<and> (\<exists>c u. t = c # u \<and> is_digit c)"
proof (cases t)
  case (Cons c u)
  show ?thesis
  proof (cases "c = CHR ''0''")
    case True
    then show ?thesis using assms Cons by (simp add: number_body_def fraction_chars number_char_def)
  next
    case False
    then have "is_digit c" "fraction_ok (dropWhile is_digit u)" using assms Cons by (simp_all add: number_body_def)
    then show ?thesis using dropWhile_digits [OF fraction_chars] Cons digit_number_char by auto
  qed
qed (use assms in \<open>simp add: number_body_def\<close>)

lemma valid_number_chars:
  assumes "valid_number s"
  shows "list_all number_char s \<and> (\<exists>c t. s = c # t \<and> (is_digit c \<or> c = CHR ''-''))"
proof (cases "has_prefix s ''-''")
  case True
  then obtain t where "s = CHR ''-'' # t" by (auto simp: prefix_def)
  moreover have "list_all number_char t" using assms True calculation number_body_chars by (simp add: valid_number_def)
  ultimately show ?thesis by (simp add: number_char_def)
next
  case False
  then have "number_body s" using assms by (simp add: valid_number_def)
  from number_body_chars [OF this] show ?thesis by auto
qed

lemma json_quote_start: "\<exists>t. json_quote s = CHR 0x22 # t"
  by (simp add: json_quote_def)

lemma digit_start: "is_digit c \<or> c = CHR ''-'' \<Longrightarrow> value_start c"
  by (auto simp: value_start_def less_eq_char_def)

lemma marshal_start:
  assumes "wf_json v" shows "\<exists>c t. marshal v = c # t \<and> value_start c"
proof (cases v)
  case (JNum n)
  then have "valid_number n" using assms by simp
  from valid_number_chars [OF this] JNum digit_start show ?thesis by auto
qed (auto simp: value_start_def json_quote_def)

declare skip_ws.simps(2) [simp del]

lemma skip_ws_start [simp]: "value_start c \<Longrightarrow> skip_ws (c # t) = c # t"
  by (auto simp: value_start_def skip_ws.simps(2))

lemma parse_number:
  assumes "valid_number n" and "ends_value rest"
  shows "parse_value (Suc k) (n @ rest) = Some (JNum n, rest)"
proof -
  obtain c t where n: "n = c # t" "is_digit c \<or> c = CHR ''-''" and all: "list_all number_char n"
    using valid_number_chars [OF assms(1)] by blast
  have take: "takeWhile number_char (n @ rest) = n"
    using all assms(2) by (cases rest) (auto simp: takeWhile_append2 list_all_iff ends_value_def)
  have ne: "c \<noteq> CHR 0x22" "c \<noteq> CHR ''[''" "c \<noteq> CHR ''{''" "c \<noteq> CHR ''n''" "c \<noteq> CHR ''t''" "c \<noteq> CHR ''f''"
    using n(2) by (auto simp: less_eq_char_def)
  have ws: "skip_ws (n @ rest) = n @ rest" using digit_start [OF n(2)] n(1) by simp
  show ?thesis using take assms(1) ne ws unfolding n(1) by (simp add: Let_def)
qed

lemma skip_ws_marshal: "wf_json v \<Longrightarrow> skip_ws (marshal v @ t) = marshal v @ t"
  using marshal_start [of v] by auto

lemma skip_ws_punct [simp]: "c \<in> set ''[]{},:ntf'' \<or> c = CHR 0x22 \<Longrightarrow> skip_ws (c # t) = c # t"
  by (auto simp: skip_ws.simps(2))

lemma ends_value_punct [simp]: "c \<in> set '']},'' \<Longrightarrow> ends_value (c # t)"
  by (auto simp: ends_value_def number_char_def less_eq_char_def)

text \<open>The list \<open>xs\<close> is read back, given that its elements are.\<close>

lemma parse_elements_join:
  assumes "\<And>x n rest. x \<in> set xs \<Longrightarrow> json_fuel x \<le> n \<Longrightarrow> ends_value rest \<Longrightarrow> parse_value n (marshal x @ rest) = Some (x, rest)"
    and "xs \<noteq> []" and "sum_list (map (\<lambda>x. Suc (json_fuel x)) xs) \<le> n"
  shows "parse_elements n (join '','' (map marshal xs) @ CHR '']'' # rest) = Some (xs, rest)"
  using assms
proof (induction xs arbitrary: n)
  case (Cons x xs)
  then obtain m where m: "n = Suc m" "json_fuel x \<le> m" by (cases n) auto
  show ?case
  proof (cases xs)
    case Nil
    then show ?thesis using Cons.prems(1) [of x m "CHR '']'' # rest"] m by simp
  next
    case (Cons y ys)
    have "parse_elements m (join '','' (map marshal xs) @ CHR '']'' # rest) = Some (xs, rest)"
      by (rule Cons.IH) (use Cons.prems Cons m in auto)
    moreover have "parse_value m (marshal x @ CHR '','' # join '','' (map marshal xs) @ CHR '']'' # rest)
        = Some (x, CHR '','' # join '','' (map marshal xs) @ CHR '']'' # rest)"
      using Cons.prems(1) [of x m] m by simp
    ultimately show ?thesis using m Cons by simp
  qed
qed simp

lemma parse_members_join:
  assumes "\<And>kv n rest. kv \<in> set kvs \<Longrightarrow> json_fuel (snd kv) \<le> n \<Longrightarrow> ends_value rest \<Longrightarrow>
      parse_value n (marshal (snd kv) @ rest) = Some (snd kv, rest)"
    and "\<And>kv. kv \<in> set kvs \<Longrightarrow> to_valid (fst kv) = fst kv"
    and "kvs \<noteq> []" and "sum_list (map (\<lambda>kv. Suc (json_fuel (snd kv))) kvs) \<le> n"
  shows "parse_members n (join '','' (map (\<lambda>kv. json_quote (fst kv) @ '':'' @ marshal (snd kv)) kvs) @ CHR ''}'' # rest) = Some (kvs, rest)"
  using assms
proof (induction kvs arbitrary: n)
  case (Cons kv kvs)
  obtain k v where kv: "kv = (k, v)" by fastforce
  from Cons obtain m where m: "n = Suc m" "json_fuel v \<le> m" by (cases n) (auto simp: kv)
  let ?mem = "\<lambda>kv. json_quote (fst kv) @ '':'' @ marshal (snd kv)"
  have k: "parse_string (json_escape k @ CHR 0x22 # t) = Some (k, t)" for t
    using Cons.prems(2) [of kv] by (simp add: parse_string_quote kv)
  have v: "parse_value m (marshal v @ c # t) = Some (v, c # t)" if "c \<in> set '']},''" for c t
    using Cons.prems(1) [of kv m "c # t"] m that by (simp add: kv)
  show ?case
  proof (cases kvs)
    case Nil
    then show ?thesis using k v [of "CHR ''}''"] m by (simp add: kv json_quote_def)
  next
    case (Cons y ys)
    have "parse_members m (join '','' (map ?mem kvs) @ CHR ''}'' # rest) = Some (kvs, rest)"
      by (rule Cons.IH) (use Cons.prems Cons m in \<open>auto simp: kv\<close>)
    then show ?thesis using k v [of "CHR '',''"] m Cons by (simp add: kv json_quote_def)
  qed
qed simp

lemma parse_marshal:
  "wf_json v \<Longrightarrow> json_fuel v \<le> n \<Longrightarrow> ends_value rest \<Longrightarrow> parse_value n (marshal v @ rest) = Some (v, rest)"
proof (induction v arbitrary: n rest)
  case JNull
  then obtain m where "n = Suc m" by (cases n) auto
  then show ?case by simp
next
  case (JBool b)
  then obtain m where "n = Suc m" by (cases n) auto
  then show ?case by (cases b) simp_all
next
  case (JNum x)
  then show ?case using parse_number by (cases n) auto
next
  case (JStr x)
  then show ?case by (cases n) (simp_all add: json_quote_def parse_string_quote)
next
  case (JArr xs)
  then obtain m where m: "n = Suc m" by (cases n) auto
  show ?case
  proof (cases xs)
    case Nil
    then show ?thesis using m by simp
  next
    case (Cons y ys)
    obtain c t where y: "marshal y = c # t" "value_start c" using marshal_start [of y] JArr.prems(1) Cons by auto
    then obtain t' where j: "join '','' (map marshal xs) = c # t'" using Cons by (cases ys) auto
    have "parse_elements m (join '','' (map marshal xs) @ CHR '']'' # rest) = Some (xs, rest)"
      by (rule parse_elements_join) (use JArr m Cons in auto)
    with m j y(2) show ?thesis by (simp add: value_start_def)
  qed
next
  case (JObj kvs)
  then obtain m where m: "n = Suc m" by (cases n) auto
  show ?case
  proof (cases kvs)
    case Nil
    then show ?thesis using m by simp
  next
    case (Cons y ys)
    let ?mem = "\<lambda>kv. json_quote (fst kv) @ '':'' @ marshal (snd kv)"
    obtain t' where j: "join '','' (map ?mem kvs) = CHR 0x22 # t'" using Cons by (cases ys) (auto simp: json_quote_def)
    have v: "parse_value i (marshal (snd kv) @ r) = Some (snd kv, r)"
      if "kv \<in> set kvs" "json_fuel (snd kv) \<le> i" "ends_value r" for kv i r
      by (rule JObj.IH [OF that(1) _ _ that(2,3)]) (use JObj.prems(1) that(1) in \<open>simp_all add: snds.simps prod_eq_iff\<close>)
    have "parse_members m (join '','' (map ?mem kvs) @ CHR ''}'' # rest) = Some (kvs, rest)"
      by (rule parse_members_join, erule (2) v) (use JObj.prems m Cons in auto)
    with m j show ?thesis by simp
  qed
qed

lemma length_join: "xs \<noteq> [] \<Longrightarrow> Suc (length (join '','' xs)) = sum_list (map (\<lambda>x. Suc (length x)) xs)"
  by (induction "'','' :: string" xs rule: join.induct) auto

lemma json_fuel_length: "wf_json v \<Longrightarrow> json_fuel v \<le> length (marshal v)"
proof (induction v)
  case (JNum n)
  then show ?case using marshal_start [of "JNum n"] by auto
next
  case (JArr xs)
  have "sum_list (map (\<lambda>x. Suc (json_fuel x)) xs) \<le> sum_list (map (\<lambda>x. Suc (length (marshal x))) xs)"
    by (rule sum_list_mono) (use JArr in simp)
  with length_join [of "map marshal xs"] show ?case by (cases xs) (auto simp: comp_def)
next
  case (JObj kvs)
  have le: "json_fuel (snd kv) \<le> length (marshal (snd kv))" if "kv \<in> set kvs" for kv
    by (rule JObj.IH [OF that]) (use JObj.prems that in \<open>cases kv; auto\<close>)+
  let ?mem = "\<lambda>kv. json_quote (fst kv) @ '':'' @ marshal (snd kv)"
  have "sum_list (map (\<lambda>kv. Suc (json_fuel (snd kv))) kvs) \<le> sum_list (map (\<lambda>kv. Suc (length (?mem kv))) kvs)"
    by (rule sum_list_mono) (use le in \<open>fastforce simp: json_quote_def\<close>)
  with length_join [of "map ?mem kvs"] show ?case by (cases kvs) (auto simp: comp_def)
qed (auto simp: json_quote_def)

text \<open>Every value with valid texts and numbers is read back from its text.\<close>

theorem unmarshal_marshal: "wf_json v \<Longrightarrow> unmarshal (marshal v) = Some v"
  using parse_marshal [of v "length (marshal v)" "[]"] json_fuel_length [of v]
  by (simp add: unmarshal_def ends_value_def)

section \<open>Texts are single lines\<close>

definition one_line :: "string \<Rightarrow> bool" where
  "one_line s \<longleftrightarrow> (\<forall>c \<in> set s. 0x20 \<le> byte c)"

lemma one_line_simps [simp]: "one_line []" "one_line (c # s) \<longleftrightarrow> 0x20 \<le> byte c \<and> one_line s"
  "one_line (s @ t) \<longleftrightarrow> one_line s \<and> one_line t"
  by (auto simp: one_line_def)

lemma one_line_hex: "0x20 \<le> byte (hex_digit n)"
proof -
  have "\<forall>m \<in> set [0..<16]. 0x20 \<le> byte (hex_digit m)" by code_simp
  then have "0x20 \<le> byte (hex_digit (n mod 16))" by simp
  then show ?thesis by (simp add: hex_digit_def)
qed

lemma one_line_escape_rune: "valid_rune r \<Longrightarrow> one_line (escape_rune bad r)"
  using encode_plain [of r] unfolding one_line_def
  by (auto simp: escape_rune_def escape_byte_def one_line_hex [unfolded byte_def] byte_def split: if_splits)

lemma one_line_escape: "one_line (json_escape s)"
proof (induction s rule: json_escape.induct)
  case (1 s)
  obtain r w where d: "decode_rune s = (r, w)" by fastforce
  show ?case
  proof (cases "s = []")
    case False
    then show ?thesis using 1 [OF False d [symmetric]] decode_valid [OF False] d
      by (subst json_escape.simps) (simp add: one_line_escape_rune)
  qed (simp add: json_escape.simps)
qed

lemma one_line_quote [simp]: "one_line (json_quote s)"
  by (simp add: json_quote_def one_line_escape byte_def)

lemma one_line_join: "one_line (join '','' xs) \<longleftrightarrow> (\<forall>x \<in> set xs. one_line x)"
  by (induction "'','' :: string" xs rule: join.induct) (auto simp: byte_def)

lemma number_char_byte: "number_char c \<Longrightarrow> 0x20 \<le> byte c"
proof -
  assume "number_char c"
  then have "48 \<le> (of_char c :: nat) \<or> c \<in> set ''+-.eE''" by (auto simp: number_char_def less_eq_char_def)
  moreover have "byte c = int (of_char c)" unfolding byte_def by (rule of_nat_of_char [symmetric])
  ultimately show ?thesis by (auto simp: byte_def)
qed

lemma one_line_number: "valid_number n \<Longrightarrow> one_line n"
  using valid_number_chars [of n] by (simp add: one_line_def list_all_iff number_char_byte)

lemma marshal_one_line: "wf_json v \<Longrightarrow> one_line (marshal v)"
proof (induction v)
  case (JObj kvs)
  then show ?case by (auto simp: one_line_join byte_def)
qed (auto simp: one_line_number one_line_join byte_def)

end
