(* ===== verification/Journal.thy ===== *)
theory Journal
  imports JsonText JsonArgs GoPaths PolicyGate
begin

text \<open>
  \<open>internal/journal/journal.go\<close> and \<open>internal/daemon/journal_runtime.go\<close>: the redactor, the append-only
  JSONL file, reading it back, and the wrapper that journals every handled frame. The directory is a
  map from paths to contents; each writing step may fail, and a failing write may leave a part of the
  line behind. A value of type \<open>any\<close> is a JSON value, or \<^const>\<open>None\<close> when it cannot be marshalled. The
  timestamp of the clock is an argument (its formatted text), as are measured durations.
\<close>

section \<open>Decoded values\<close>

text \<open>The Go value of a JSON value: objects are maps, written in key order.\<close>

fun key_insert :: "string \<Rightarrow> 'v \<Rightarrow> (string \<times> 'v) list \<Rightarrow> (string \<times> 'v) list" where
  "key_insert k v [] = [(k, v)]"
| "key_insert k v (e # es) =
     (if k < fst e then (k, v) # e # es else if k = fst e then (k, v) # es else e # key_insert k v es)"

fun map_form :: "json \<Rightarrow> json" where
  "map_form (JArr xs) = JArr (map map_form xs)"
| "map_form (JObj kvs) = JObj (foldl (\<lambda>m kv. key_insert (fst kv) (snd kv) m) [] (map (\<lambda>kv. (fst kv, map_form (snd kv))) kvs))"
| "map_form j = j"

definition decode_any :: "string \<Rightarrow> json option" where
  "decode_any s = map_option map_form (unmarshal s)"

section \<open>Redaction\<close>

record Redactor =
  Keys :: "string list"
  Values :: "string list"

definition DefaultRedactor :: Redactor where
  "DefaultRedactor = \<lparr>Keys = [''password'', ''pass'', ''secret'', ''token'', ''authorization'', ''api_key'', ''apikey'',
     ''cookie'', ''credential'', ''value''], Values = []\<rparr>"

definition mask :: string where
  "mask = concat (replicate 4 [CHR 0xE2, CHR 0x80, CHR 0xA2])"

definition masksKey :: "Redactor \<Rightarrow> string \<Rightarrow> bool" where
  "masksKey r key =
     (let lower = to_lower key in
      list_ex (\<lambda>c. lower = c \<or> has_suffix lower (''_'' @ c) \<or> has_suffix lower (''-'' @ c)) (Keys r))"

fun redactValue :: "Redactor \<Rightarrow> json \<Rightarrow> json" where
  "redactValue r (JObj kvs) = JObj (map (\<lambda>kv. (fst kv, if masksKey r (fst kv) then JStr mask else redactValue r (snd kv))) kvs)"
| "redactValue r (JArr xs) = JArr (map (redactValue r) xs)"
| "redactValue r j = j"

definition RedactString :: "Redactor \<Rightarrow> string \<Rightarrow> string" where
  "RedactString r text = foldl (\<lambda>t secret. if secret \<noteq> [] then replace_all secret mask t else t) text (Values r)"

definition redacted_marker :: json where
  "redacted_marker = JObj [(''redacted'', JBool True)]"

definition Redact :: "Redactor \<Rightarrow> json option \<Rightarrow> json" where
  "Redact r val =
     (case val of
        None \<Rightarrow> redacted_marker
      | Some v \<Rightarrow>
          (case decode_any (marshal v) of
             None \<Rightarrow> redacted_marker
           | Some decoded \<Rightarrow>
               (case decode_any (RedactString r (marshal (redactValue r decoded))) of
                  None \<Rightarrow> JNull
                | Some result \<Rightarrow> result)))"

section \<open>Entries\<close>

abbreviation JournalSchemaVersion :: int where "JournalSchemaVersion \<equiv> 1"

record Entry =
  SchemaVersionOf :: int
  Timestamp :: string
  EntrySession :: string
  Command :: string
  EntryArgs :: json
  EntryRefKey :: string
  URLBefore :: string
  URLAfter :: string
  EntryRiskClass :: string
  Decider :: string
  EntryResult :: string
  EntryDurationMS :: int
  EntryReason :: string

definition zero_entry :: Entry where
  "zero_entry = \<lparr>SchemaVersionOf = 0, Timestamp = [], EntrySession = [], Command = [], EntryArgs = JNull, EntryRefKey = [],
     URLBefore = [], URLAfter = [], EntryRiskClass = [], Decider = [], EntryResult = [], EntryDurationMS = 0, EntryReason = []\<rparr>"

definition opt_str :: "string \<Rightarrow> string \<Rightarrow> (string \<times> json) list" where
  "opt_str name s = (if s = [] then [] else [(name, JStr s)])"

definition entry_fields :: "Entry \<Rightarrow> (string \<times> json) list" where
  "entry_fields e =
     [(''schema_version'', JNum (int_str (SchemaVersionOf e))), (''timestamp'', JStr (Timestamp e)),
      (''session'', JStr (EntrySession e)), (''command'', JStr (Command e))]
     @ (if EntryArgs e = JNull then [] else [(''args'', EntryArgs e)])
     @ opt_str ''refkey'' (EntryRefKey e) @ opt_str ''url_before'' (URLBefore e) @ opt_str ''url_after'' (URLAfter e)
     @ opt_str ''risk_class'' (EntryRiskClass e) @ opt_str ''decider'' (Decider e) @ opt_str ''result'' (EntryResult e)
     @ (if EntryDurationMS e = 0 then [] else [(''duration_ms'', JNum (int_str (EntryDurationMS e)))])
     @ opt_str ''reason'' (EntryReason e)"

definition entry_line :: "Entry \<Rightarrow> string" where
  "entry_line e = marshal (JObj (entry_fields e))"

text \<open>A number read into an integer field: an optional sign and digits within 64 bits.\<close>

fun as_int :: "json \<Rightarrow> int option" where
  "as_int (JNum n) =
     (let neg = has_prefix n ''-''; ds = (if neg then drop 1 n else n);
          i = (if neg then - int (str_value ds) else int (str_value ds))
      in if ds \<noteq> [] \<and> list_all is_digit ds \<and> - (2 ^ 63) \<le> i \<and> i < 2 ^ 63 then Some i else None)"
| "as_int _ = None"

definition any_field :: "string \<Rightarrow> (string \<times> json) list \<Rightarrow> json" where
  "any_field name obj =
     (let vs = map snd (filter (\<lambda>kv. to_lower (fst kv) = name) obj) in if vs = [] then JNull else map_form (last vs))"

definition sum_value :: "'a \<Rightarrow> 'e + 'a \<Rightarrow> 'a" where
  "sum_value d r = (case r of Inl _ \<Rightarrow> d | Inr x \<Rightarrow> x)"

definition entry_of_fields :: "(string \<times> json) list \<Rightarrow> Entry option" where
  "entry_of_fields obj =
     (let str = (\<lambda>name. string_field name obj); num = (\<lambda>name. decode_field as_int 0 name obj);
          names = [''timestamp'', ''session'', ''command'', ''refkey'', ''url_before'', ''url_after'', ''risk_class'', ''decider'',
                   ''result'', ''reason'']
      in if list_ex (\<lambda>n. isl (str n)) names \<or> isl (num ''schema_version'') \<or> isl (num ''duration_ms'') then None
         else Some \<lparr>SchemaVersionOf = sum_value 0 (num ''schema_version''), Timestamp = sum_value [] (str ''timestamp''),
                EntrySession = sum_value [] (str ''session''), Command = sum_value [] (str ''command''), EntryArgs = any_field ''args'' obj,
                EntryRefKey = sum_value [] (str ''refkey''), URLBefore = sum_value [] (str ''url_before''),
                URLAfter = sum_value [] (str ''url_after''), EntryRiskClass = sum_value [] (str ''risk_class''),
                Decider = sum_value [] (str ''decider''), EntryResult = sum_value [] (str ''result''),
                EntryDurationMS = sum_value 0 (num ''duration_ms''), EntryReason = sum_value [] (str ''reason'')\<rparr>)"

definition decode_entry :: "string \<Rightarrow> Entry option" where
  "decode_entry line =
     (case unmarshal line of
        None \<Rightarrow> None
      | Some j \<Rightarrow> (case object_fields j of Inl _ \<Rightarrow> None | Inr obj \<Rightarrow> entry_of_fields obj))"

section \<open>The journal file\<close>

record Journal =
  jdir :: string
  jsession :: string
  redactor :: Redactor

datatype journal_step = JMkdir | JCreate | JOpen | JSync | JRead

datatype journal_error =
    DirRequired
  | SessionRequired
  | JournalIO journal_step string
  | JournalWrite string
  | JournalOther string

text \<open>\<open>io\<close> tells which steps fail; \<open>wr\<close> how the write fails, if it does, and how much of the line was
  written before.\<close>

definition New_journal ::
  "(journal_step \<Rightarrow> string option) \<Rightarrow> string \<Rightarrow> string \<Rightarrow> Redactor option \<Rightarrow> journal_error + Journal" where
  "New_journal io dir session red =
     (if dir = [] then Inl DirRequired
      else if session = [] then Inl SessionRequired
      else (case io JMkdir of
              Some e \<Rightarrow> Inl (JournalIO JMkdir e)
            | None \<Rightarrow> Inr \<lparr>jdir = dir, jsession = session,
                           redactor = (case red of None \<Rightarrow> DefaultRedactor | Some r \<Rightarrow> r)\<rparr>))"

definition journal_path :: "Journal \<Rightarrow> string" where
  "journal_path j = Join [jdir j, jsession j @ ''.jsonl'']"

definition appendLine ::
  "(journal_step \<Rightarrow> string option) \<Rightarrow> (string \<times> nat) option \<Rightarrow> (string \<rightharpoonup> string) \<Rightarrow> string \<Rightarrow> string
     \<Rightarrow> journal_error option \<times> (string \<rightharpoonup> string)" where
  "appendLine io wr files path line =
     (let created = (if files path = None then (if io JCreate = None then Inr (files(path \<mapsto> [])) else Inl (the (io JCreate)))
                     else Inr files)
      in case created of
           Inl e \<Rightarrow> (Some (JournalIO JCreate e), files)
         | Inr files1 \<Rightarrow>
             (case io JOpen of
                Some e \<Rightarrow> (Some (JournalIO JOpen e), files1)
              | None \<Rightarrow>
                  (let content = the (files1 path); bytes = line @ [CHR 0x0A] in
                   case wr of
                     Some (e, k) \<Rightarrow> (Some (JournalWrite e), files1(path \<mapsto> content @ take k bytes))
                   | None \<Rightarrow> (map_option (JournalIO JSync) (io JSync), files1(path \<mapsto> content @ bytes)))))"

definition stamped :: "string \<Rightarrow> Journal \<Rightarrow> Entry \<Rightarrow> json option \<Rightarrow> Entry" where
  "stamped now j entry args =
     entry\<lparr>SchemaVersionOf := JournalSchemaVersion,
       Timestamp := (if Timestamp entry = [] then now else Timestamp entry),
       EntryArgs := Redact (redactor j) args,
       EntryReason := RedactString (redactor j) (EntryReason entry),
       EntryResult := (if EntryResult entry \<noteq> [] \<and> \<not> has_prefix (EntryResult entry) ''error'' then ''ok'' else EntryResult entry)\<rparr>"

definition Append ::
  "(journal_step \<Rightarrow> string option) \<Rightarrow> (string \<times> nat) option \<Rightarrow> string \<Rightarrow> (string \<rightharpoonup> string) \<Rightarrow> Journal \<Rightarrow> Entry \<Rightarrow> json option
     \<Rightarrow> (journal_error + Entry) \<times> (string \<rightharpoonup> string)" where
  "Append io wr now files j entry args =
     (let e = stamped now j entry args in
      case appendLine io wr files (journal_path j) (entry_line e) of
        (Some err, files') \<Rightarrow> (Inl err, files')
      | (None, files') \<Rightarrow> (Inr e, files'))"

definition corrupt_entry :: "string \<Rightarrow> Entry" where
  "corrupt_entry line = zero_entry\<lparr>SchemaVersionOf := JournalSchemaVersion, Command := ''<corrupt>'', EntryResult := ''error:corrupt'',
     EntryArgs := JStr line\<rparr>"

definition journal_lines :: "string \<Rightarrow> string list" where
  "journal_lines raw = filter (\<lambda>l. trim_space l \<noteq> []) (split_on (CHR 0x0A) (trim_right_cutset raw [CHR 0x0A]))"

definition read_line :: "string \<Rightarrow> Entry" where
  "read_line line = (case decode_entry line of None \<Rightarrow> corrupt_entry line | Some e \<Rightarrow> e)"

definition Read_journal :: "(journal_step \<Rightarrow> string option) \<Rightarrow> (string \<rightharpoonup> string) \<Rightarrow> Journal \<Rightarrow> journal_error + Entry list" where
  "Read_journal io files j =
     (case io JRead of
        Some e \<Rightarrow> Inl (JournalIO JRead e)
      | None \<Rightarrow>
          (case files (journal_path j) of
             None \<Rightarrow> Inr []
           | Some raw \<Rightarrow> Inr (map read_line (journal_lines raw))))"

definition Tail :: "(journal_step \<Rightarrow> string option) \<Rightarrow> (string \<rightharpoonup> string) \<Rightarrow> Journal \<Rightarrow> int \<Rightarrow> journal_error + Entry list" where
  "Tail io files j n =
     (case Read_journal io files j of
        Inl err \<Rightarrow> Inl err
      | Inr entries \<Rightarrow>
          if n \<le> 0 \<or> int (length entries) \<le> n then Inr entries else Inr (drop (length entries - nat n) entries))"

text \<open>\<open>names\<close> are the directory's entries with whether each is a directory; \<^const>\<open>None\<close> is a missing one.\<close>

definition Sessions :: "(journal_step \<Rightarrow> string option) \<Rightarrow> (string \<times> bool) list option \<Rightarrow> journal_error + string list" where
  "Sessions io names =
     (case io JRead of
        Some e \<Rightarrow> Inl (JournalIO JRead e)
      | None \<Rightarrow>
          (case names of
             None \<Rightarrow> Inr []
           | Some es \<Rightarrow> Inr (sort (map (\<lambda>e. trim_suffix (fst e) ''.jsonl'') (filter (\<lambda>e. \<not> snd e \<and> has_suffix (fst e) ''.jsonl'') es)))))"

section \<open>The journaling runtime\<close>

record Warning =
  WKind :: string
  Severity :: string
  WMessage :: string

datatype handler_error = HandlerError (hcode: string) (hmsg: string)

type_synonym 'd reply = "'d option \<times> Warning list \<times> handler_error option"

definition errorKind :: "handler_error \<Rightarrow> string" where
  "errorKind err = (if hcode err \<noteq> [] then hcode err else ''failed'')"

definition frameJournalURL :: "Frame \<Rightarrow> string" where
  "frameJournalURL frame =
     (case Args frame of
        None \<Rightarrow> []
      | Some j \<Rightarrow>
          (case object_fields j of
             Inl _ \<Rightarrow> []
           | Inr obj \<Rightarrow>
               (case (string_field ''url'' obj, strings_field ''urls'' obj) of
                  (Inr url, Inr urls) \<Rightarrow> if url \<noteq> [] then url else (case urls of [] \<Rightarrow> [] | u # _ \<Rightarrow> u)
                | _ \<Rightarrow> [])))"

definition or_frame_url :: "Frame \<Rightarrow> string \<Rightarrow> string" where
  "or_frame_url frame url = (if url = [] then frameJournalURL frame else url)"

definition frame_args :: "Frame \<Rightarrow> json" where
  "frame_args frame = (case Args frame of None \<Rightarrow> JNull | Some j \<Rightarrow> j)"

definition result_text :: "handler_error option \<Rightarrow> string" where
  "result_text err = (case err of None \<Rightarrow> ''ok'' | Some e \<Rightarrow> ''error:'' @ errorKind e)"

definition append_warning :: "(journal_error \<Rightarrow> string) \<Rightarrow> journal_error + Entry \<Rightarrow> Warning list" where
  "append_warning text res =
     (case res of
        Inl err \<Rightarrow> [\<lparr>WKind = ''journal'', Severity = ''warning'', WMessage = ''journal append failed: '' @ text err\<rparr>]
      | Inr _ \<Rightarrow> [])"

definition frame_entry :: "Frame \<Rightarrow> string \<Rightarrow> string \<Rightarrow> string \<Rightarrow> int \<Rightarrow> handler_error option \<Rightarrow> Entry" where
  "frame_entry frame urlBefore urlAfter who duration err =
     zero_entry\<lparr>EntrySession := FSession frame, Command := Cmd frame, URLBefore := urlBefore, URLAfter := urlAfter,
       EntryRiskClass := ClassForCommand (Cmd frame), Decider := who, EntryDurationMS := duration, EntryResult := result_text err\<rparr>"

text \<open>\<open>origin\<close> is the URL of the session's active page, empty when there is none.\<close>

definition HandleFuncWithDecider ::
  "(journal_error \<Rightarrow> string) \<Rightarrow> (journal_step \<Rightarrow> string option) \<Rightarrow> (string \<times> nat) option \<Rightarrow> string \<Rightarrow> int \<Rightarrow> (string \<Rightarrow> 'w \<Rightarrow> string)
     \<Rightarrow> Journal option \<Rightarrow> Frame \<Rightarrow> string \<Rightarrow> (Frame \<Rightarrow> 'w \<Rightarrow> 'd reply \<times> 'w) option \<Rightarrow> (string \<rightharpoonup> string) \<times> 'w
     \<Rightarrow> 'd reply \<times> (string \<rightharpoonup> string) \<times> 'w" where
  "HandleFuncWithDecider text io wr now duration origin jrn frame who handler fw =
     (case handler of
        None \<Rightarrow> ((None, [], Some (HandlerError [] ''journal handler is nil'')), fw)
      | Some h \<Rightarrow>
          (case jrn of
             None \<Rightarrow> (case h frame (snd fw) of (rep, w') \<Rightarrow> (rep, fst fw, w'))
           | Some j \<Rightarrow>
               (let urlBefore = or_frame_url frame (origin (FSession frame) (snd fw)) in
                case h frame (snd fw) of
                  ((data, warnings, err), w') \<Rightarrow>
                    (let urlAfter = or_frame_url frame (origin (FSession frame) w') in
                     case Append io wr now (fst fw) j (frame_entry frame urlBefore urlAfter who duration err) (Some (frame_args frame)) of
                       (res, files') \<Rightarrow> ((data, warnings @ append_warning text res, err), files', w')))))"

definition HandleOOB ::
  "(journal_error \<Rightarrow> string) \<Rightarrow> (journal_step \<Rightarrow> string option) \<Rightarrow> (string \<times> nat) option \<Rightarrow> string \<Rightarrow> int
     \<Rightarrow> Journal option \<Rightarrow> Frame \<Rightarrow> (Frame \<Rightarrow> 'w \<Rightarrow> 'd reply \<times> 'w) \<Rightarrow> (string \<rightharpoonup> string) \<times> 'w
     \<Rightarrow> 'd reply \<times> (string \<rightharpoonup> string) \<times> 'w" where
  "HandleOOB text io wr now duration jrn frame h fw =
     (case jrn of
        None \<Rightarrow> (case h frame (snd fw) of (rep, w') \<Rightarrow> (rep, fst fw, w'))
      | Some j \<Rightarrow>
          (case h frame (snd fw) of
             ((data, warnings, err), w') \<Rightarrow>
               (case Append io wr now (fst fw) j (frame_entry frame [] [] ''human'' duration err) (Some (frame_args frame)) of
                  (res, files') \<Rightarrow> ((data, warnings @ append_warning text res, err), files', w'))))"

record journal_view =
  jv_session :: string
  jv_entries :: "Entry list"

text \<open>The journal named by a request; another session's is opened in the directory of this one.\<close>

definition requested_journal ::
  "(journal_step \<Rightarrow> string option) \<Rightarrow> (string \<Rightarrow> string) \<Rightarrow> Journal \<Rightarrow> string \<Rightarrow> journal_error + Journal" where
  "requested_journal io dirname j session =
     (if session \<noteq> [] \<and> session \<noteq> jsession j then New_journal io (dirname (journal_path j)) session None else Inr j)"

text \<open>Inspection frames decode their arguments without looking at the error: what could not be read is
  zero.\<close>

definition optional_field :: "(json \<Rightarrow> 'a option) \<Rightarrow> 'a \<Rightarrow> string \<Rightarrow> Frame \<Rightarrow> 'a" where
  "optional_field conv zero name frame =
     (case Args frame of
        None \<Rightarrow> zero
      | Some j \<Rightarrow> (case object_fields j of Inl _ \<Rightarrow> zero | Inr obj \<Rightarrow> sum_value zero (decode_field conv zero name obj)))"

definition journal_inspect ::
  "(journal_step \<Rightarrow> string option) \<Rightarrow> (string \<Rightarrow> string) \<Rightarrow> (string \<rightharpoonup> string) \<Rightarrow> Journal option \<Rightarrow> Frame \<Rightarrow> journal_error + journal_view" where
  "journal_inspect io dirname files jrn frame =
     (case jrn of
        None \<Rightarrow> Inl (JournalOther ''journal is not enabled'')
      | Some j0 \<Rightarrow>
          if Cmd frame \<noteq> ''journal.tail'' \<and> Cmd frame \<noteq> ''journal.show'' then Inl (JournalOther ''unknown journal command'')
          else (case requested_journal io dirname j0 (optional_field as_string [] ''session'' frame) of
                  Inl err \<Rightarrow> Inl err
                | Inr j \<Rightarrow>
                    (case (if Cmd frame = ''journal.tail'' then Tail io files j (optional_field as_int 0 ''lines'' frame)
                           else Read_journal io files j) of
                       Inl err \<Rightarrow> Inl err
                     | Inr es \<Rightarrow> Inr \<lparr>jv_session = jsession j, jv_entries = es\<rparr>)))"

section \<open>Decoded values are canonical\<close>

fun canonical :: "json \<Rightarrow> bool" where
  "canonical (JArr xs) = (\<forall>x \<in> set xs. canonical x)"
| "canonical (JObj kvs) = (sorted_wrt (<) (map fst kvs) \<and> (\<forall>kv \<in> set kvs. canonical (snd kv)))"
| "canonical _ = True"

abbreviation insert_all :: "(string \<times> 'v) list \<Rightarrow> (string \<times> 'v) list \<Rightarrow> (string \<times> 'v) list" where
  "insert_all m kvs \<equiv> foldl (\<lambda>m kv. key_insert (fst kv) (snd kv) m) m kvs"

lemma key_insert_set: "set (key_insert k v m) \<subseteq> insert (k, v) (set m)"
  by (induction m) auto

lemma key_insert_keys: "fst ` set (key_insert k v m) = insert k (fst ` set m)"
  by (induction m) auto

lemma key_insert_sorted: "sorted_wrt (<) (map fst m) \<Longrightarrow> sorted_wrt (<) (map fst (key_insert k v m))"
proof (induction m)
  case (Cons e es)
  have "fst e < k'" if "\<not> k < fst e" "k \<noteq> fst e" "k' \<in> fst ` set (key_insert k v es)" for k'
    using that Cons.prems key_insert_keys [of k v es] by auto
  with Cons show ?case by (auto simp: image_iff)
qed simp

lemma key_insert_last: "\<forall>e \<in> set m. fst e < k \<Longrightarrow> key_insert k v m = m @ [(k, v)]"
  by (induction m) auto

lemma insert_all_set: "set (insert_all m kvs) \<subseteq> set m \<union> set kvs"
proof (induction kvs arbitrary: m)
  case (Cons kv kvs)
  then show ?case using key_insert_set [of "fst kv" "snd kv" m] by fastforce
qed simp

lemma insert_all_sorted: "sorted_wrt (<) (map fst m) \<Longrightarrow> sorted_wrt (<) (map fst (insert_all m kvs))"
  by (induction kvs arbitrary: m) (auto intro: key_insert_sorted)

lemma insert_all_id: "sorted_wrt (<) (map fst (m @ kvs)) \<Longrightarrow> insert_all m kvs = m @ kvs"
proof (induction kvs arbitrary: m)
  case (Cons kv kvs)
  then have "key_insert (fst kv) (snd kv) m = m @ [kv]" by (subst key_insert_last) (auto simp: sorted_wrt_append)
  with Cons show ?case by simp
qed simp

lemma map_form_canonical: "canonical (map_form v)"
proof (induction v)
  case (JObj kvs)
  have "canonical (snd kv)" if "kv \<in> set (insert_all [] (map (\<lambda>kv. (fst kv, map_form (snd kv))) kvs))" for kv
    using that insert_all_set [of "[]" "map (\<lambda>kv. (fst kv, map_form (snd kv))) kvs"] JObj by (auto simp: snds.simps)
  then show ?case using insert_all_sorted [of "[]"] by simp
qed auto

lemma canonical_map_form: "canonical v \<Longrightarrow> map_form v = v"
proof (induction v)
  case (JArr xs)
  then show ?case by (simp add: map_idI)
next
  case (JObj kvs)
  have "map (\<lambda>kv. (fst kv, map_form (snd kv))) kvs = kvs"
    by (rule map_idI) (use JObj in \<open>auto simp: snds.simps prod_eq_iff\<close>)
  then show ?case using JObj.prems insert_all_id [of "[]" kvs] by simp
qed auto

lemma redactValue_canonical: "canonical v \<Longrightarrow> canonical (redactValue r v)"
proof (induction v)
  case (JObj kvs)
  then show ?case by (auto simp: snds.simps comp_def)
qed auto

section \<open>Redaction\<close>

lemma parse_string_valid: "parse_string s = Some (k, t) \<Longrightarrow> to_valid k = k"
  by (auto simp: parse_string_def)

lemma parse_wf:
  "parse_value n s = Some (v, t) \<Longrightarrow> wf_json v"
  "parse_elements n s = Some (vs, t) \<Longrightarrow> (\<forall>x \<in> set vs. wf_json x)"
  "parse_members n s = Some (kvs, t) \<Longrightarrow> (\<forall>kv \<in> set kvs. to_valid (fst kv) = fst kv \<and> wf_json (snd kv))"
proof (induction n s and n s and n s arbitrary: v t and vs t and kvs t rule: parse_value_parse_elements_parse_members.induct)
  case (2 n s)
  show ?case
  proof (cases "skip_ws s")
    case Nil
    with 2 show ?thesis by simp
  next
    case (Cons c u)
    note eq = "2.prems" [unfolded parse_value.simps Cons list.case]
    show ?thesis
    proof (cases "c \<in> set ''[{'' \<or> c = CHR 0x22")
      case True
      then show ?thesis using eq "2.IH" Cons by (auto split: list.splits if_splits dest: parse_string_valid)
    next
      case False
      then have "v \<in> {JNull, JBool True, JBool False} \<or> (\<exists>num. v = JNum num \<and> valid_number num)"
        using eq by (simp add: Let_def split: if_splits) auto
      then show ?thesis by auto
    qed
  qed
next
  case (4 n s)
  then show ?case by (auto split: list.splits if_splits option.splits)
next
  case (6 n s)
  then show ?case by (auto split: list.splits if_splits option.splits) (fastforce dest: parse_string_valid)+
qed simp_all

lemma unmarshal_wf: "unmarshal s = Some v \<Longrightarrow> wf_json v"
  by (auto simp: unmarshal_def split: option.splits if_splits dest: parse_wf)

lemma map_form_wf: "wf_json v \<Longrightarrow> wf_json (map_form v)"
proof (induction v)
  case (JObj kvs)
  have "to_valid (fst kv) = fst kv \<and> wf_json (snd kv)" if "kv \<in> set (insert_all [] (map (\<lambda>kv. (fst kv, map_form (snd kv))) kvs))" for kv
    using that insert_all_set [of "[]" "map (\<lambda>kv. (fst kv, map_form (snd kv))) kvs"] JObj by (force simp: snds.simps)
  then show ?case by simp
qed auto

lemma mask_valid: "to_valid mask = mask"
  by code_simp

lemma redactValue_wf: "wf_json v \<Longrightarrow> wf_json (redactValue r v)"
proof (induction v)
  case (JObj kvs)
  then show ?case by (auto simp: snds.simps mask_valid)
qed auto

lemma decode_marshal: "wf_json v \<Longrightarrow> decode_any (marshal v) = Some (map_form v)"
  by (simp add: decode_any_def unmarshal_marshal)

text \<open>Every member whose key is masked holds the mask, at every depth.\<close>

fun masked :: "Redactor \<Rightarrow> json \<Rightarrow> bool" where
  "masked r (JArr xs) = (\<forall>x \<in> set xs. masked r x)"
| "masked r (JObj kvs) = (\<forall>kv \<in> set kvs. if masksKey r (fst kv) then snd kv = JStr mask else masked r (snd kv))"
| "masked r _ = True"

lemma redactValue_masked: "masked r (redactValue r v)"
proof (induction v)
  case (JObj kvs)
  then show ?case by (auto simp: snds.simps)
qed auto

lemma RedactString_none: "Values r = [] \<Longrightarrow> RedactString r s = s"
  by (simp add: RedactString_def)

lemma Redact_keys: "wf_json v \<Longrightarrow> Values r = [] \<Longrightarrow> Redact r (Some v) = redactValue r (map_form v)"
  by (simp add: Redact_def decode_marshal map_form_wf redactValue_wf RedactString_none redactValue_canonical
      map_form_canonical canonical_map_form)

lemma Redact_form: "wf_json (Redact r (Some v)) \<and> canonical (Redact r (Some v))"
proof -
  have m: "wf_json redacted_marker \<and> canonical redacted_marker" by code_simp
  have d: "wf_json x \<and> canonical x" if "decode_any s = Some x" for s x
    using that by (auto simp: decode_any_def map_form_canonical intro: map_form_wf dest: unmarshal_wf)
  show ?thesis using m d by (auto simp: Redact_def split: option.splits)
qed

section \<open>Entries are read back\<close>

lemma nat_str_digit: "list_all is_digit (nat_str n)"
  using nat_str_digits [of _ n] by (auto simp: list_all_iff less_eq_char_def)

lemma nat_str_lead: "0 < n \<Longrightarrow> hd (nat_str n) \<noteq> CHR ''0''"
proof (induction n rule: nat_str.induct)
  case (1 n)
  have "digit_char n \<noteq> CHR ''0''" if "n < 10" using that 1 of_digit_char [of n] by auto
  with 1 show ?case by (cases "n < 10") (auto simp: nat_str.simps [of n])
qed

lemma number_body_nat: "number_body (nat_str n)"
proof (cases "n = 0")
  case True
  then show ?thesis by (simp add: nat_str.simps digit_char_def) code_simp
next
  case False
  then obtain c u where cu: "nat_str n = c # u" and "c \<noteq> CHR ''0''"
    using nat_str_lead [of n] nat_str_nonempty [of n] by (cases "nat_str n") auto
  moreover have "is_digit c" "list_all is_digit u" using nat_str_digit [of n] cu by auto
  moreover have "dropWhile is_digit u = []" using \<open>list_all is_digit u\<close> unfolding dropWhile_eq_Nil_conv by (simp add: list_all_iff)
  ultimately show ?thesis by (simp add: number_body_def fraction_ok_def del: dropWhile_eq_Nil_conv)
qed

lemma nat_str_no_minus: "\<not> has_prefix (nat_str n) ''-''"
  using nat_str_digit [of n] by (cases "nat_str n") (auto simp: less_eq_char_def)

lemma valid_int_str: "valid_number (int_str i)"
  using number_body_nat nat_str_no_minus by (simp add: valid_number_def int_str_def)

lemma as_int_str: "- (2 ^ 63) \<le> i \<Longrightarrow> i < 2 ^ 63 \<Longrightarrow> as_int (JNum (int_str i)) = Some i"
  using nat_str_digit nat_str_no_minus by (auto simp: int_str_def Let_def str_value_nat_str)

definition entry_ok :: "Entry \<Rightarrow> bool" where
  "entry_ok e \<longleftrightarrow> wf_json (EntryArgs e) \<and> canonical (EntryArgs e)
     \<and> list_all (\<lambda>s. to_valid s = s) [Timestamp e, EntrySession e, Command e, EntryRefKey e, URLBefore e, URLAfter e, EntryRiskClass e,
          Decider e, EntryResult e, EntryReason e]
     \<and> list_all (\<lambda>i. - (2 ^ 63) \<le> i \<and> i < 2 ^ 63) [SchemaVersionOf e, EntryDurationMS e]"

lemma field_values_append [simp]: "field_values name (xs @ ys) = field_values name xs @ field_values name ys"
  by (simp add: field_values_def)

lemma field_values_Cons: "field_values name ((k, v) # xs) = (if to_lower k = name \<and> v \<noteq> JNull then [v] else []) @ field_values name xs"
  by (simp add: field_values_def)

lemma field_values_Nil [simp]: "field_values name [] = []"
  by (simp add: field_values_def)

lemma field_values_opt:
  "field_values name (opt_str k s) = (if to_lower k = name \<and> s \<noteq> [] then [JStr s] else [])"
  by (simp add: opt_str_def field_values_Cons)

lemma to_lower_names:
  "to_lower ''schema_version'' = ''schema_version''" "to_lower ''timestamp'' = ''timestamp''" "to_lower ''session'' = ''session''"
  "to_lower ''command'' = ''command''" "to_lower ''args'' = ''args''" "to_lower ''refkey'' = ''refkey''" "to_lower ''url_before'' = ''url_before''"
  "to_lower ''url_after'' = ''url_after''" "to_lower ''risk_class'' = ''risk_class''" "to_lower ''decider'' = ''decider''"
  "to_lower ''result'' = ''result''" "to_lower ''duration_ms'' = ''duration_ms''" "to_lower ''reason'' = ''reason''"
  by code_simp+

lemma string_fields:
  "string_field ''timestamp'' (entry_fields e) = Inr (Timestamp e)" "string_field ''session'' (entry_fields e) = Inr (EntrySession e)"
  "string_field ''command'' (entry_fields e) = Inr (Command e)" "string_field ''refkey'' (entry_fields e) = Inr (EntryRefKey e)"
  "string_field ''url_before'' (entry_fields e) = Inr (URLBefore e)" "string_field ''url_after'' (entry_fields e) = Inr (URLAfter e)"
  "string_field ''risk_class'' (entry_fields e) = Inr (EntryRiskClass e)" "string_field ''decider'' (entry_fields e) = Inr (Decider e)"
  "string_field ''result'' (entry_fields e) = Inr (EntryResult e)" "string_field ''reason'' (entry_fields e) = Inr (EntryReason e)"
  by (simp_all add: decode_field_def entry_fields_def field_values_Cons field_values_opt to_lower_names)

lemma int_fields:
  assumes "entry_ok e"
  shows "decode_field as_int 0 ''schema_version'' (entry_fields e) = Inr (SchemaVersionOf e)"
    and "decode_field as_int 0 ''duration_ms'' (entry_fields e) = Inr (EntryDurationMS e)"
  using assms as_int_str [of "SchemaVersionOf e"] as_int_str [of "EntryDurationMS e"]
  by (simp_all del: as_int.simps add: entry_ok_def decode_field_def entry_fields_def field_values_Cons field_values_opt to_lower_names)

lemma args_field:
  assumes "entry_ok e" shows "any_field ''args'' (entry_fields e) = EntryArgs e"
  using assms by (simp add: any_field_def entry_fields_def opt_str_def to_lower_names entry_ok_def canonical_map_form)

lemma entry_round: "entry_ok e \<Longrightarrow> entry_of_fields (entry_fields e) = Some e"
  by (simp add: entry_of_fields_def string_fields int_fields args_field sum_value_def Let_def)

lemma entry_fields_wf: "entry_ok e \<Longrightarrow> wf_json (JObj (entry_fields e))"
proof -
  assume "entry_ok e"
  moreover have "\<forall>k \<in> set [''schema_version'', ''timestamp'', ''session'', ''command'', ''args'', ''refkey'', ''url_before'', ''url_after'',
      ''risk_class'', ''decider'', ''result'', ''duration_ms'', ''reason'']. to_valid k = k" by code_simp
  ultimately show ?thesis by (simp add: entry_fields_def opt_str_def entry_ok_def valid_int_str)
qed

lemma decode_entry_line: "entry_ok e \<Longrightarrow> decode_entry (entry_line e) = Some e"
  by (simp add: decode_entry_def entry_line_def unmarshal_marshal entry_fields_wf entry_round del: marshal.simps wf_json.simps)

section \<open>Lines of the file\<close>

text \<open>The journal file is complete when every line of it is ended.\<close>

definition complete :: "string \<Rightarrow> bool" where
  "complete raw \<longleftrightarrow> raw = [] \<or> last raw = CHR 0x0A"

abbreviation nonblank :: "string \<Rightarrow> bool" where
  "nonblank l \<equiv> trim_space l \<noteq> []"

lemma nonblank_split_snoc: "filter nonblank (split_on c (s @ [c])) = filter nonblank (split_on c s)"
  using split_on_append [of c s "[]"] by simp

lemma nonblank_split_rev: "filter nonblank (split_on c (rev (dropWhile (\<lambda>x. x = c) s))) = filter nonblank (split_on c (rev s))"
  by (induction s) (auto simp: nonblank_split_snoc)

lemma journal_lines_raw: "journal_lines raw = filter nonblank (split_on (CHR 0x0A) raw)"
  using nonblank_split_rev [of "CHR 0x0A" "rev raw"] by (simp add: journal_lines_def trim_right_cutset_def)

lemma journal_lines_snoc:
  assumes "complete raw" and "CHR 0x0A \<notin> set line" and "nonblank line"
  shows "journal_lines (raw @ line @ [CHR 0x0A]) = journal_lines raw @ [line]"
proof (cases "raw = []")
  case True
  then show ?thesis using assms split_on_append [of "CHR 0x0A" line "[]"] by (simp add: journal_lines_raw split_on_plain)
next
  case False
  then obtain r where raw: "raw = r @ [CHR 0x0A]" using assms(1) by (metis complete_def append_butlast_last_id)
  have "split_on (CHR 0x0A) (raw @ line @ [CHR 0x0A]) = split_on (CHR 0x0A) r @ [line, []]"
    using split_on_append [of "CHR 0x0A" r "line @ [CHR 0x0A]"] split_on_append [of "CHR 0x0A" line "[]"] assms(2) raw
    by (simp add: split_on_plain)
  then show ?thesis using assms(3) raw by (simp add: journal_lines_raw nonblank_split_snoc)
qed

lemma ws_ends: "w \<in> set ws_runes \<Longrightarrow> hd w \<noteq> CHR ''{'' \<and> last w \<noteq> CHR ''}''"
proof -
  have "\<forall>w \<in> set ws_runes. hd w \<noteq> CHR ''{'' \<and> last w \<noteq> CHR ''}''" by code_simp
  then show "w \<in> set ws_runes \<Longrightarrow> hd w \<noteq> CHR ''{'' \<and> last w \<noteq> CHR ''}''" by blast
qed

lemma braces_nonblank:
  assumes "s = CHR ''{'' # t @ [CHR ''}'']" shows "trim_space s = s"
proof -
  have "ws_prefix s = None"
    unfolding ws_prefix_def find_None_iff using ws_ends ws_runes_nonempty assms by (metis list.sel(1) neq_Nil_conv prefix_Cons)
  moreover have "ws_suffix s = None"
  proof -
    have "\<not> suffix w s" if "w \<in> set ws_runes" for w
      using ws_ends [OF that] ws_runes_nonempty [OF that] assms
      by (metis last_appendR last_snoc append_Cons suffix_def)
    then show ?thesis unfolding ws_suffix_def find_None_iff by blast
  qed
  ultimately show ?thesis
    by (simp add: trim_space_def trim_left_space.simps [of s] trim_right_space.simps [of s])
qed

lemma entry_line_ok:
  assumes "entry_ok e"
  shows "CHR 0x0A \<notin> set (entry_line e)" and "nonblank (entry_line e)"
proof -
  have "one_line (entry_line e)"
    unfolding entry_line_def by (rule marshal_one_line [OF entry_fields_wf [OF assms]])
  then show "CHR 0x0A \<notin> set (entry_line e)" by (auto simp: one_line_def byte_def)
  have "trim_space (entry_line e) = entry_line e" by (rule braces_nonblank) (simp add: entry_line_def)
  then show "nonblank (entry_line e)" by (simp add: entry_line_def)
qed

definition writable :: "(journal_step \<Rightarrow> string option) \<Rightarrow> bool" where
  "writable io \<longleftrightarrow> (\<forall>s \<in> set [JCreate, JOpen, JSync, JRead]. io s = None)"

definition complete_file :: "(string \<rightharpoonup> string) \<Rightarrow> string \<Rightarrow> bool" where
  "complete_file files path \<longleftrightarrow> (case files path of None \<Rightarrow> True | Some raw \<Rightarrow> complete raw)"

lemma appendLine_ok:
  "writable io \<Longrightarrow> appendLine io None files path line =
     (None, files(path \<mapsto> (case files path of None \<Rightarrow> [] | Some raw \<Rightarrow> raw) @ line @ [CHR 0x0A]))"
  by (cases "files path") (auto simp: appendLine_def writable_def)

text \<open>Append and read back. What is read after an append is what was read before and the entry.\<close>

lemma Read_after_Append:
  assumes io: "writable io" and c: "complete_file files (journal_path j)" and e: "entry_ok (stamped now j entry args)"
    and a: "Append io None now files j entry args = (res, files')"
  shows "res = Inr (stamped now j entry args)" and "complete_file files' (journal_path j)"
    and "Read_journal io files' j = map_sum id (\<lambda>es. es @ [stamped now j entry args]) (Read_journal io files j)"
    and "\<forall>p. p \<noteq> journal_path j \<longrightarrow> files' p = files p"
proof -
  let ?e = "stamped now j entry args" and ?p = "journal_path j"
  let ?raw = "case files ?p of None \<Rightarrow> [] | Some raw \<Rightarrow> raw"
  from a have f: "files' = files(?p \<mapsto> ?raw @ entry_line ?e @ [CHR 0x0A])" and r: "res = Inr ?e"
    by (auto simp: Append_def Let_def appendLine_ok [OF io])
  show "res = Inr ?e" by (fact r)
  show "complete_file files' ?p" by (simp add: f complete_file_def complete_def)
  show "\<forall>p. p \<noteq> ?p \<longrightarrow> files' p = files p" by (simp add: f)
  have raw: "complete ?raw" using c by (auto simp: complete_file_def complete_def split: option.splits)
  have "journal_lines (?raw @ entry_line ?e @ [CHR 0x0A]) = journal_lines ?raw @ [entry_line ?e]"
    by (rule journal_lines_snoc [OF raw entry_line_ok [OF e]])
  moreover have "read_line (entry_line ?e) = ?e" by (simp add: read_line_def decode_entry_line [OF e])
  moreover have "journal_lines [] = []" by code_simp
  ultimately show "Read_journal io files' j = map_sum id (\<lambda>es. es @ [?e]) (Read_journal io files j)"
    using io by (auto simp: Read_journal_def f writable_def split: option.splits)
qed

section \<open>Properties\<close>

lemma ok_valid: "to_valid ''ok'' = ''ok''"
  by code_simp

lemma stamped_ok:
  assumes "entry_ok entry" and "to_valid now = now" and "Values (redactor j) = []"
  shows "entry_ok (stamped now j entry (Some v))"
  using assms Redact_form [of "redactor j" v] by (simp add: stamped_def entry_ok_def RedactString_none ok_valid)

lemma stamped_result:
  "EntryResult entry = result_text err \<Longrightarrow> EntryResult (stamped now j entry args) = result_text err"
  by (auto simp: stamped_def result_text_def split: option.splits)

lemma appendLine_extends:
  assumes "appendLine io wr files path line = (r, files')"
  shows "(\<forall>p. p \<noteq> path \<longrightarrow> files' p = files p) \<and> (\<forall>p raw. files p = Some raw \<longrightarrow> (\<exists>more. files' p = Some (raw @ more)))"
proof -
  from assms consider "files' = files" | more where "files' = files(path \<mapsto> the (files path) @ more)" "files path \<noteq> None"
    | more where "files' = files(path \<mapsto> more)" "files path = None"
    by (cases "files path") (auto simp: appendLine_def Let_def split: if_splits option.splits prod.splits)
  then show ?thesis by cases auto
qed





section \<open>What the code does not do\<close>

text \<open>The session name of an inspection frame is not checked: it may name a file outside the journal directory.\<close>

lemma inspection_leaves_directory:
  "map_sum id journal_path (requested_journal (\<lambda>_. None) (\<lambda>_. ''/state/journal'')
       \<lparr>jdir = ''/state/journal'', jsession = ''s'', redactor = DefaultRedactor\<rparr> ''../../tmp/x'')
     = Inr ''/tmp/x.jsonl''"
  by code_simp

text \<open>Exact-value masking looks for the secret in the JSON text, where characters may be escaped.\<close>

lemma escaped_secret_not_masked:
  "Redact \<lparr>Keys = [], Values = [''a&b'']\<rparr> (Some (JStr ''a&b'')) = JStr ''a&b''"
  by code_simp

end
