(* ===== verification/FlowSchema.thy ===== *)
theory FlowSchema
  imports Prelude
begin

text \<open>
  \<open>internal/flows/schema.go\<close> and \<open>internal/flows/record.go\<close>: the flow document, its validation, and the
  draft that is generated from a recorded session. The YAML package is a parameter: \<open>unmarshal\<close> gives
  the document node of a text and \<open>decode\<close> the flow of a mapping node, each or an error message. An
  absent pointer of the source is \<^const>\<open>None\<close>. \<open>op_dots\<close> is the ellipsis character of two messages.
\<close>

section \<open>Flow documents\<close>

record OpenStep =
  o_URL :: string

record FindStep =
  f_Label :: string
  f_Role :: string
  f_Text :: string
  f_Placeholder :: string
  f_Alt :: string
  f_Title :: string
  f_TestID :: string
  f_Action :: string
  f_Value :: string
  f_Exact :: bool

record SelectorStep =
  c_Label :: string
  c_Role :: string
  c_Text :: string
  c_Name :: string
  c_Exact :: bool

record FillStep =
  l_Label :: string
  l_Role :: string
  l_Text :: string
  l_Name :: string
  l_Value :: string
  l_Exact :: bool

record WaitStep =
  w_URL :: string
  w_Visible :: string
  w_Ms :: int

record AssertStep =
  a_Visible :: string
  a_URL :: string
  a_Text :: string
  a_Not :: string

record SnapshotStep =
  s_Diff :: bool
  s_Compact :: bool
  s_MaxToken :: int

record Step =
  Open :: "OpenStep option"
  Find :: "FindStep option"
  Click :: "SelectorStep option"
  Fill :: "FillStep option"
  Wait :: "WaitStep option"
  Assert :: "AssertStep option"
  Snapshot :: "SnapshotStep option"

record Output =
  OutName :: string
  OutFrom :: string
  OutPath :: string

record Flow =
  Name :: string
  Version :: int
  FlowDomains :: "string list"
  Inputs :: "string list"
  Steps :: "Step list"
  Outputs :: "Output list"
  FlowSource :: string

definition no_step :: Step where
  "no_step = \<lparr>Open = None, Find = None, Click = None, Fill = None, Wait = None, Assert = None, Snapshot = None\<rparr>"

definition Action :: "Step \<Rightarrow> string" where
  "Action s =
     (if Open s \<noteq> None then ''open''
      else if Find s \<noteq> None then ''find''
      else if Click s \<noteq> None then ''click''
      else if Fill s \<noteq> None then ''fill''
      else if Wait s \<noteq> None then ''wait''
      else if Assert s \<noteq> None then ''assert''
      else if Snapshot s \<noteq> None then ''snapshot''
      else [])"

abbreviation SchemaVersion :: int where "SchemaVersion \<equiv> 1"

section \<open>YAML nodes\<close>

datatype ykind = ZeroKind | DocumentNode | SequenceNode | MappingNode | ScalarNode | AliasNode

datatype ynode = YNode (ykind: ykind) (yline: int) (yvalue: string) (ycontent: "ynode list")

fun mapping_pairs :: "ynode list \<Rightarrow> (ynode \<times> ynode) list" where
  "mapping_pairs (k # v # rest) = (k, v) # mapping_pairs rest"
| "mapping_pairs _ = []"

definition fieldLine :: "ynode \<Rightarrow> string \<Rightarrow> int" where
  "fieldLine root fld =
     (if ykind root \<noteq> MappingNode then 0
      else (case find (\<lambda>kv. yvalue (fst kv) = fld) (mapping_pairs (ycontent root)) of
              None \<Rightarrow> 0
            | Some (k, v) \<Rightarrow> yline k))"

definition mappingValue :: "ynode \<Rightarrow> string \<Rightarrow> ynode option" where
  "mappingValue root fld =
     (if ykind root \<noteq> MappingNode then None
      else map_option snd (find (\<lambda>kv. yvalue (fst kv) = fld) (mapping_pairs (ycontent root))))"

definition stepNode :: "ynode \<Rightarrow> nat \<Rightarrow> ynode" where
  "stepNode root i =
     (case mappingValue root ''steps'' of
        None \<Rightarrow> root
      | Some steps \<Rightarrow>
          if ykind steps \<noteq> SequenceNode \<or> length (ycontent steps) \<le> i then steps else ycontent steps ! i)"

section \<open>Validation\<close>

record ValidationError =
  Line :: int
  ErrField :: string
  Reason :: string

definition verr :: "int \<Rightarrow> string \<Rightarrow> string \<Rightarrow> ValidationError" where
  "verr l f r = \<lparr>Line = l, ErrField = f, Reason = r\<rparr>"

definition ValidationError_text :: "ValidationError \<Rightarrow> string" where
  "ValidationError_text e =
     (if 0 < Line e then ''line '' @ int_str (Line e) @ '': '' @ ErrField e @ '': '' @ Reason e
      else ErrField e @ '': '' @ Reason e)"

definition ValidateError_text :: "ValidationError list \<Rightarrow> string" where
  "ValidateError_text errs = ''flow validation failed: '' @ join ''; '' (map ValidationError_text errs)"

abbreviation op_dots :: string where "op_dots \<equiv> ''op://'' @ [CHR 0xE2, CHR 0x80, CHR 0xA6]"

definition secretHints :: "string list" where
  "secretHints =
     [''password'', ''passwd'', ''pwd='', ''secret'', ''token'', ''apikey'', ''api_key'', ''api-key'', ''access_key'',
      ''private_key'', ''credential'', ''authorization'', ''bearer '', ''client_secret'']"

definition secretInValue :: "string \<Rightarrow> bool" where
  "secretInValue val =
     (let trimmed = trim_space val in
      if trimmed = [] then False
      else if has_prefix trimmed ''op://'' then False
      else list_ex (contains (to_lower trimmed)) secretHints)"

definition validFindAction :: "string \<Rightarrow> bool" where
  "validFindAction action \<longleftrightarrow>
     action \<in> set [''click'', ''fill'', ''check'', ''hover'', ''text'', ''ref'', ''first'', ''last'', ''nth'']"

definition hasSelector :: "string list \<Rightarrow> bool" where
  "hasSelector vals = list_ex (\<lambda>v. trim_space v \<noteq> []) vals"

definition isIPv4 :: "string \<Rightarrow> bool" where
  "isIPv4 host =
     (let parts = split_on (CHR ''.'') host in
      if length parts \<noteq> 4 then False
      else list_all (\<lambda>part. part \<noteq> [] \<and> length part \<le> 3 \<and> list_all is_digit part) parts)"

definition isDomainChar :: "char \<Rightarrow> bool" where
  "isDomainChar c \<longleftrightarrow>
     is_lower c \<or> is_upper c \<or> is_digit c \<or> c = CHR ''-''"

definition domain_part_ok :: "nat \<times> string \<Rightarrow> bool" where
  "domain_part_ok ip =
     (case ip of (i, part) \<Rightarrow> part = ''*'' \<and> i = 0 \<or> part \<noteq> [] \<and> list_all isDomainChar part)"

definition bare_domain_ok :: "string \<Rightarrow> bool" where
  "bare_domain_ok host \<longleftrightarrow> isIPv4 host \<or> list_all domain_part_ok (enumerate 0 (split_on (CHR ''.'') host))"

definition validDomainPattern :: "string \<Rightarrow> bool" where
  "validDomainPattern pat =
     (let trimmed = trim_space pat in
      if trimmed = [] then False
      else (case last_index_byte trimmed (CHR '':'') of
              Some colon \<Rightarrow>
                if 0 < colon \<and> \<not> contains (drop colon trimmed) '']''
                then list_all is_digit (drop (Suc colon) trimmed) \<and> bare_domain_ok (take colon trimmed)
                else bare_domain_ok trimmed
            | None \<Rightarrow> bare_domain_ok trimmed))"

definition find_errors :: "int \<Rightarrow> FindStep \<Rightarrow> ValidationError list" where
  "find_errors l f =
     (if f_Label f = [] \<and> f_Role f = [] \<and> f_Text f = [] \<and> f_Placeholder f = [] \<and> f_Alt f = [] \<and> f_Title f = []
         \<and> f_TestID f = []
      then [verr l ''find'' ''at least one semantic selector (label, role, text, placeholder, alt, title, testid) is required'']
      else [])
     @ (if f_Action f \<noteq> [] \<and> \<not> validFindAction (f_Action f)
        then [verr l ''find.action'' (''invalid action '' @ go_quote (f_Action f) @ '' (use click, fill, check, hover or text)'')]
        else [])
     @ (if (f_Action f = ''fill'' \<or> f_Action f = ''text'') \<and> trim_space (f_Value f) = []
        then [verr l ''find.value'' (''action '' @ go_quote (f_Action f) @ '' requires a value'')]
        else [])
     @ (if secretInValue (f_Value f)
        then [verr l ''find.value'' (''plaintext secret detected: use an '' @ op_dots @ '' reference instead'')]
        else [])"

definition fill_errors :: "int \<Rightarrow> FillStep \<Rightarrow> ValidationError list" where
  "fill_errors l f =
     (if \<not> hasSelector [l_Label f, l_Role f, l_Text f, l_Name f]
      then [verr l ''fill'' ''at least one semantic selector is required''] else [])
     @ (if trim_space (l_Value f) = [] then [verr l ''fill.value'' ''required''] else [])
     @ (if secretInValue (l_Value f)
        then [verr l ''fill.value'' (''plaintext secret detected: use an '' @ op_dots @ '' reference instead'')]
        else [])"

definition validateStep :: "Step \<Rightarrow> ynode \<Rightarrow> ValidationError list" where
  "validateStep s node =
     (let l = yline node in
      if Action s = []
      then [verr l ''steps[]'' ''step must declare exactly one of open, find, click, fill, wait, assert, snapshot'']
      else case Open s of
        Some op \<Rightarrow> if trim_space (o_URL op) = [] then [verr l ''open.url'' ''required''] else []
      | None \<Rightarrow> (case Find s of
        Some f \<Rightarrow> find_errors l f
      | None \<Rightarrow> (case Click s of
        Some c \<Rightarrow>
          if \<not> hasSelector [c_Label c, c_Role c, c_Text c, c_Name c]
          then [verr l ''click'' ''at least one semantic selector is required''] else []
      | None \<Rightarrow> (case Fill s of
        Some f \<Rightarrow> fill_errors l f
      | None \<Rightarrow> (case Wait s of
        Some w \<Rightarrow>
          (if w_URL w = [] \<and> w_Visible w = [] \<and> w_Ms w \<le> 0 then [verr l ''wait'' ''one of url, visible or ms is required''] else [])
          @ (if w_Ms w < 0 then [verr l ''wait.ms'' ''must not be negative''] else [])
      | None \<Rightarrow> (case Assert s of
        Some a \<Rightarrow>
          if a_Visible a = [] \<and> a_URL a = [] \<and> a_Text a = [] \<and> a_Not a = []
          then [verr l ''assert'' ''one of visible, url, text or not is required''] else []
      | None \<Rightarrow> (case Snapshot s of
        Some sn \<Rightarrow> if s_MaxToken sn < 0 then [verr l ''snapshot.max_tokens'' ''must not be negative''] else []
      | None \<Rightarrow> [])))))))"

definition output_errors :: "ynode \<Rightarrow> nat \<times> Output \<Rightarrow> ValidationError list" where
  "output_errors root iout =
     (case iout of (i, out) \<Rightarrow>
        (if trim_space (OutName out) = []
         then [verr (fieldLine root ''outputs'') (''outputs['' @ nat_str i @ ''].name'') ''required''] else [])
        @ (if OutFrom out \<notin> set [''url'', ''text'', ''attribute'', ''html'']
           then [verr (fieldLine root ''outputs'') (''outputs['' @ nat_str i @ ''].from'')
                   (''invalid source '' @ go_quote (OutFrom out) @ '' (use url, text, attribute or html)'')]
           else []))"

definition validateFlow :: "Flow \<Rightarrow> ynode \<Rightarrow> ValidationError list" where
  "validateFlow flow root =
     (if trim_space (Name flow) = [] then [verr (fieldLine root ''name'') ''name'' ''required''] else [])
     @ (if Version flow = 0 then [verr (fieldLine root ''version'') ''version'' ''required (use 1)''] else [])
     @ (if Version flow \<noteq> SchemaVersion
        then [verr (fieldLine root ''version'') ''version''
                (''unsupported version '' @ int_str (Version flow) @ '' (supported: '' @ int_str SchemaVersion @ '')'')]
        else [])
     @ (if FlowDomains flow = []
        then [verr (fieldLine root ''domains'') ''domains'' ''required: at least one allowed domain''] else [])
     @ concat (map (\<lambda>(i, d). if \<not> validDomainPattern d
                    then [verr (fieldLine root ''domains'') (''domains['' @ nat_str i @ '']'') (''invalid domain pattern '' @ go_quote d)]
                    else []) (enumerate 0 (FlowDomains flow)))
     @ (if Steps flow = [] then [verr (fieldLine root ''steps'') ''steps'' ''required: at least one step''] else [])
     @ concat (map (\<lambda>(i, s). validateStep s (stepNode root i)) (enumerate 0 (Steps flow)))
     @ concat (map (output_errors root) (enumerate 0 (Outputs flow)))"

text \<open>\<open>fmt.Sscanf(msg, "yaml: line %d:", \<dots>)\<close>.\<close>

definition errLine :: "string \<Rightarrow> int" where
  "errLine msg =
     (if \<not> has_prefix msg ''yaml: line '' then 0
      else (let rest = dropWhile (\<lambda>c. c = CHR '' '') (drop (length ''yaml: line '') msg);
                neg = has_prefix rest ''-'';
                body = (if neg \<or> has_prefix rest ''+'' then drop 1 rest else rest);
                digits = takeWhile is_digit body
            in if digits = [] \<or> \<not> has_prefix (drop (length digits) body) '':'' then 0
               else (if neg then - int (str_value digits) else int (str_value digits))))"

definition Parse ::
  "(string \<Rightarrow> string + ynode) \<Rightarrow> (ynode \<Rightarrow> string + Flow) \<Rightarrow> string \<Rightarrow> string \<Rightarrow> ValidationError list + Flow" where
  "Parse unmarshal decode data source =
     (case unmarshal data of
        Inl err \<Rightarrow> Inl [verr (errLine err) ''document'' (''invalid YAML: '' @ err)]
      | Inr document \<Rightarrow>
          if ykind document = ZeroKind \<or> ycontent document = [] then Inl [verr 1 ''document'' ''empty flow document'']
          else (let root = hd (ycontent document) in
                if ykind root \<noteq> MappingNode then Inl [verr (yline root) ''document'' ''flow must be a YAML mapping'']
                else (case decode root of
                        Inl err \<Rightarrow> Inl [verr (yline root) ''document'' (''decode: '' @ err)]
                      | Inr flow0 \<Rightarrow>
                          (let flow = flow0\<lparr>FlowSource := source\<rparr>;
                               errors = validateFlow flow root
                           in if errors \<noteq> [] then Inl errors else Inr flow))))"

section \<open>Recorded sessions\<close>

record RecordedAction =
  r_Index :: int
  r_Command :: string
  r_Selector :: string
  r_Value :: string
  r_URL :: string
  r_Role :: string
  r_Name :: string
  r_InputType :: string
  r_Autocomplete :: string

record Draft =
  d_Name :: string
  d_Version :: int
  d_Domains :: "string list"
  d_Inputs :: "string list"
  d_Steps :: "Step list"
  d_Comments :: "string list"
  d_SecretRefs :: "string list"

text \<open>\<open>strings.EqualFold\<close> against an ASCII text: besides the letters, the long s and the Kelvin sign fold
  to ASCII.\<close>

definition fold_ascii :: "string \<Rightarrow> string" where
  "fold_ascii s = to_lower (replace_all [CHR 0xE2, CHR 0x84, CHR 0xAA] ''k'' (replace_all [CHR 0xC5, CHR 0xBF] ''s'' s))"

definition secretFieldValue :: "RecordedAction \<Rightarrow> bool" where
  "secretFieldValue a =
     (if fold_ascii (r_InputType a) = ''password'' then True
      else (let lower = to_lower (trim_space (r_Autocomplete a))
            in lower = ''current-password'' \<or> lower = ''new-password''))"

definition selectorHints :: "string list" where
  "selectorHints =
     [''password'', ''passwd'', ''secret'', ''token'', ''apikey'', ''api_key'', ''access_key'', ''private_key'', ''credential'']"

definition secretInSelector :: "string \<Rightarrow> string \<Rightarrow> bool" where
  "secretInSelector sel name =
     (let combined = to_lower (sel @ '' '' @ name);
          normalized = map (\<lambda>c. if c = CHR '' '' \<or> c = CHR ''-'' then CHR ''_'' else c) combined
      in list_ex (contains normalized) selectorHints)"

definition secret_action :: "RecordedAction \<Rightarrow> bool" where
  "secret_action a \<longleftrightarrow>
     secretFieldValue a \<or> secretInValue (trim_space (r_Value a)) \<or> secretInSelector (r_Selector a) (r_Name a)"

record draft_state =
  ds_draft :: Draft
  ds_inputs :: "(string \<times> string) list"
  ds_secrets :: nat
  ds_lastURL :: string
  ds_domains :: "string list"

text \<open>The closure \<open>actionForValue\<close>; the inputs are kept in the order of \<open>inputOrder\<close>, so their number is
  \<open>inputCount\<close>.\<close>

definition actionForValue :: "RecordedAction \<Rightarrow> draft_state \<Rightarrow> string \<times> draft_state" where
  "actionForValue a st =
     (let trimmed = trim_space (r_Value a) in
      if trimmed = [] then ([], st)
      else if secret_action a then
        (let ref = ''op://recording/secret-'' @ nat_str (Suc (ds_secrets st)) in
         (ref, st\<lparr>ds_secrets := Suc (ds_secrets st),
                  ds_draft := (ds_draft st)\<lparr>d_SecretRefs := d_SecretRefs (ds_draft st) @ [ref]\<rparr>\<rparr>))
      else (let placeholder = ''input_'' @ nat_str (Suc (length (ds_inputs st))) in
            (''{{'' @ placeholder @ ''}}'', st\<lparr>ds_inputs := ds_inputs st @ [(placeholder, trimmed)]\<rparr>)))"

text \<open>\<open>resolver\<close> gives role and name of a reference, if it is known.\<close>

definition semanticSelector :: "RecordedAction \<Rightarrow> (string \<Rightarrow> (string \<times> string) option) option \<Rightarrow> string \<times> string" where
  "semanticSelector a resolver =
     (if r_Role a \<noteq> [] \<or> r_Name a \<noteq> [] then (r_Role a, r_Name a)
      else (case resolver of
              None \<Rightarrow> ([], [])
            | Some f \<Rightarrow> (case f (trim_prefix (r_Selector a) ''@'') of
                None \<Rightarrow> ([], [])
              | Some (role, name) \<Rightarrow> if name \<noteq> [] then (role, name) else ([], []))))"

definition globForURL :: "string \<Rightarrow> string" where
  "globForURL raw = (case index_any raw ''?#'' of Some i \<Rightarrow> take i raw | None \<Rightarrow> raw)"

definition record_hostOf :: "string \<Rightarrow> string" where
  "record_hostOf raw =
     (if has_prefix raw ''http://'' \<or> has_prefix raw ''https://'' then
        (let rest = (if has_prefix raw ''http://'' then drop 7 raw else drop 8 raw)
         in case index_any rest ''/?#'' of Some i \<Rightarrow> take i rest | None \<Rightarrow> rest)
      else [])"

definition action_step ::
  "(string \<Rightarrow> (string \<times> string) option) option \<Rightarrow> RecordedAction \<Rightarrow> draft_state \<Rightarrow> (Step \<times> draft_state) option" where
  "action_step resolver a st =
     (let c = r_Command a in
      if c = ''open'' \<or> c = ''goto'' then
        Some (no_step\<lparr>Open := Some \<lparr>o_URL = r_Selector a\<rparr>\<rparr>,
              st\<lparr>ds_draft := (ds_draft st)\<lparr>d_Comments := d_Comments (ds_draft st)
                   @ [''step '' @ int_str (r_Index a) @ '': open '' @ r_Selector a]\<rparr>\<rparr>)
      else if c = ''find'' then
        (case actionForValue a st of (v, st') \<Rightarrow>
           Some (no_step\<lparr>Find := Some \<lparr>f_Label = r_Name a, f_Role = r_Role a, f_Text = [], f_Placeholder = [], f_Alt = [],
                   f_Title = [], f_TestID = [], f_Action = [], f_Value = v, f_Exact = False\<rparr>\<rparr>, st'))
      else if c = ''click'' then
        (case semanticSelector a resolver of (role, name) \<Rightarrow>
           Some (no_step\<lparr>Click := Some \<lparr>c_Label = [], c_Role = role, c_Text = [], c_Name = name, c_Exact = True\<rparr>\<rparr>, st))
      else if c = ''fill'' \<or> c = ''type'' then
        (case semanticSelector a resolver of (role, name) \<Rightarrow>
           (case actionForValue a st of (v, st') \<Rightarrow>
              Some (no_step\<lparr>Fill := Some \<lparr>l_Label = [], l_Role = role, l_Text = [], l_Name = name, l_Value = v,
                      l_Exact = True\<rparr>\<rparr>, st')))
      else if c = ''wait'' then
        Some (no_step\<lparr>Wait := Some \<lparr>w_URL = r_Selector a, w_Visible = [], w_Ms = 0\<rparr>\<rparr>, st)
      else if c = ''assert'' then
        Some (no_step\<lparr>Assert := Some \<lparr>a_Visible = r_Selector a, a_URL = [], a_Text = [], a_Not = []\<rparr>\<rparr>, st)
      else if c = ''snapshot'' then
        Some (no_step\<lparr>Snapshot := Some \<lparr>s_Diff = False, s_Compact = True, s_MaxToken = 0\<rparr>\<rparr>, st)
      else None)"

definition add_steps :: "Step list \<Rightarrow> draft_state \<Rightarrow> draft_state" where
  "add_steps ss st = st\<lparr>ds_draft := (ds_draft st)\<lparr>d_Steps := d_Steps (ds_draft st) @ ss\<rparr>\<rparr>"

definition add_domain :: "string \<Rightarrow> draft_state \<Rightarrow> draft_state" where
  "add_domain host st = (if host \<noteq> [] then st\<lparr>ds_domains := List.insert host (ds_domains st)\<rparr> else st)"

text \<open>The body of the loop. After \<open>lastURL\<close> has moved, \<open>previousURL\<close> is the older one and differs from it,
  so the inner test of the source always holds.\<close>

definition record_action ::
  "(string \<Rightarrow> (string \<times> string) option) option \<Rightarrow> draft_state \<Rightarrow> RecordedAction \<Rightarrow> draft_state" where
  "record_action resolver st a =
     (case action_step resolver a st of
        None \<Rightarrow> st
      | Some (s, st1) \<Rightarrow>
          if Action s = [] then st1
          else (let st2 = add_steps [s] st1;
                    st3 = (if r_URL a \<noteq> [] \<and> r_URL a \<noteq> ds_lastURL st2
                           then add_steps [no_step\<lparr>Assert := Some \<lparr>a_Visible = [], a_URL = globForURL (r_URL a), a_Text = [], a_Not = []\<rparr>\<rparr>]
                                  (st2\<lparr>ds_lastURL := r_URL a\<rparr>)
                           else st2)
                in add_domain (record_hostOf (r_Selector a)) (add_domain (record_hostOf (r_URL a)) st3)))"

datatype record_error = NoActions | NoFlowSteps

definition input_comment :: "nat \<times> string \<times> string \<Rightarrow> string" where
  "input_comment e =
     (case e of (i, placeholder, v) \<Rightarrow>
        ''input_'' @ nat_str (Suc i) @ '': recorded literal value '' @ go_quote v @ '' ''
        @ [CHR 0xE2, CHR 0x80, CHR 0x94] @ '' replace with a real input or op:// reference'')"

definition secret_comment :: "string \<Rightarrow> string" where
  "secret_comment ref =
     ''secret placeholder '' @ ref @ '' '' @ [CHR 0xE2, CHR 0x80, CHR 0x94] @ '' resolve via symvault/1Password before running''"

definition start_draft :: draft_state where
  "start_draft =
     \<lparr>ds_draft = \<lparr>d_Name = ''recorded-flow'', d_Version = SchemaVersion, d_Domains = [], d_Inputs = [], d_Steps = [],
        d_Comments = [], d_SecretRefs = []\<rparr>, ds_inputs = [], ds_secrets = 0, ds_lastURL = [], ds_domains = []\<rparr>"

text \<open>\<open>shuffle\<close> is the order in which the map of inputs is visited.\<close>

definition GenerateDraft ::
  "((nat \<times> string \<times> string) list \<Rightarrow> (nat \<times> string \<times> string) list) \<Rightarrow> RecordedAction list
     \<Rightarrow> (string \<Rightarrow> (string \<times> string) option) option \<Rightarrow> record_error + Draft" where
  "GenerateDraft shuffle actions resolver =
     (if actions = [] then Inl NoActions
      else (let st = foldl (record_action resolver) start_draft actions;
                d = ds_draft st
            in if d_Steps d = [] then Inl NoFlowSteps
               else Inr (d\<lparr>d_Comments := d_Comments d @ map input_comment (shuffle (enumerate 0 (ds_inputs st)))
                          @ map secret_comment (d_SecretRefs d)
                          @ [''review: verify selectors, inputs and assertions before approving this draft''],
                        d_Inputs := map fst (ds_inputs st),
                        d_Domains := sort (ds_domains st)\<rparr>)))"

text \<open>\<open>marshal\<close> is \<open>yaml.Marshal\<close> of the flow part of a draft.\<close>

definition RenderYAML :: "(Flow \<Rightarrow> string + string) \<Rightarrow> Draft \<Rightarrow> string + string" where
  "RenderYAML marshal d =
     (case marshal \<lparr>Name = d_Name d, Version = d_Version d, FlowDomains = d_Domains d, Inputs = d_Inputs d,
                     Steps = d_Steps d, Outputs = [], FlowSource = []\<rparr> of
        Inl err \<Rightarrow> Inl err
      | Inr data \<Rightarrow>
          Inr (''# Flow draft recorded from a symbrowse session'' @ [CHR 0x0A]
               @ concat (map (\<lambda>c. ''# '' @ replace_all [CHR 0x0A] '' '' c @ [CHR 0x0A]) (d_Comments d)) @ data))"

section \<open>Validation is exact\<close>

definition step_ok :: "Step \<Rightarrow> bool" where
  "step_ok s \<longleftrightarrow>
     (case Action s of
        a \<Rightarrow>
          if a = ''open'' then trim_space (o_URL (the (Open s))) \<noteq> []
          else if a = ''find'' then
            (let f = the (Find s) in
             (f_Label f, f_Role f, f_Text f, f_Placeholder f, f_Alt f, f_Title f, f_TestID f) \<noteq> ([], [], [], [], [], [], [])
             \<and> (f_Action f = [] \<or> validFindAction (f_Action f))
             \<and> (f_Action f \<in> {''fill'', ''text''} \<longrightarrow> trim_space (f_Value f) \<noteq> []) \<and> \<not> secretInValue (f_Value f))
          else if a = ''click'' then (let c = the (Click s) in hasSelector [c_Label c, c_Role c, c_Text c, c_Name c])
          else if a = ''fill'' then
            (let f = the (Fill s) in hasSelector [l_Label f, l_Role f, l_Text f, l_Name f] \<and> trim_space (l_Value f) \<noteq> []
               \<and> \<not> secretInValue (l_Value f))
          else if a = ''wait'' then (let w = the (Wait s) in 0 \<le> w_Ms w \<and> (w_URL w \<noteq> [] \<or> w_Visible w \<noteq> [] \<or> 0 < w_Ms w))
          else if a = ''assert'' then
            (let x = the (Assert s) in (a_Visible x, a_URL x, a_Text x, a_Not x) \<noteq> ([], [], [], []))
          else if a = ''snapshot'' then 0 \<le> s_MaxToken (the (Snapshot s))
          else False)"

definition flow_ok :: "Flow \<Rightarrow> bool" where
  "flow_ok f \<longleftrightarrow> trim_space (Name f) \<noteq> [] \<and> Version f = SchemaVersion
     \<and> FlowDomains f \<noteq> [] \<and> list_all validDomainPattern (FlowDomains f)
     \<and> Steps f \<noteq> [] \<and> list_all step_ok (Steps f)
     \<and> list_all (\<lambda>out. trim_space (OutName out) \<noteq> [] \<and> OutFrom out \<in> set [''url'', ''text'', ''attribute'', ''html'']) (Outputs f)"

lemmas step_check_defs = validateStep_def step_ok_def Action_def Let_def

lemma validateStep_exact: "validateStep s node = [] \<longleftrightarrow> step_ok s"
proof (cases "Open s")
  case (Some x)
  then show ?thesis using Some by (auto simp: step_check_defs)
next
  case no0: None
  show ?thesis
  proof (cases "Find s")
    case (Some x)
    then show ?thesis using no0 by (auto simp: step_check_defs find_errors_def)
  next
    case no1: None
    show ?thesis
    proof (cases "Click s")
      case (Some x)
      then show ?thesis using no0 no1 by (auto simp: step_check_defs)
    next
      case no2: None
      show ?thesis
      proof (cases "Fill s")
        case (Some x)
        then show ?thesis using no0 no1 no2 by (auto simp: step_check_defs fill_errors_def)
      next
        case no3: None
        show ?thesis
        proof (cases "Wait s")
          case (Some x)
          then show ?thesis using no0 no1 no2 no3 by (auto simp: step_check_defs)
        next
          case no4: None
          show ?thesis
          proof (cases "Assert s")
            case (Some x)
            then show ?thesis using no0 no1 no2 no3 no4 by (auto simp: step_check_defs)
          next
            case no5: None
            show ?thesis
            proof (cases "Snapshot s")
              case (Some x)
              then show ?thesis using no0 no1 no2 no3 no4 no5 by (auto simp: step_check_defs)
            next
              case no6: None
              then show ?thesis using no0 no1 no2 no3 no4 no5 by (simp add: step_check_defs)
            qed
          qed
        qed
      qed
    qed
  qed
qed

lemma concat_enumerate_Nil:
  assumes "\<And>i x. g (i, x) = [] \<longleftrightarrow> P x"
  shows "concat (map g (enumerate k xs)) = [] \<longleftrightarrow> list_all P xs"
  by (induction xs arbitrary: k) (simp_all add: assms)

lemma validateFlow_exact: "validateFlow flow root = [] \<longleftrightarrow> flow_ok flow"
proof -
  have "concat (map (\<lambda>(i, s). validateStep s (stepNode root i)) (enumerate 0 (Steps flow))) = [] \<longleftrightarrow> list_all step_ok (Steps flow)"
    by (rule concat_enumerate_Nil) (simp add: validateStep_exact)
  moreover have "concat (map (\<lambda>(i, d). if \<not> validDomainPattern d
      then [verr (fieldLine root ''domains'') (''domains['' @ nat_str i @ '']'') (''invalid domain pattern '' @ go_quote d)]
      else []) (enumerate 0 (FlowDomains flow))) = [] \<longleftrightarrow> list_all validDomainPattern (FlowDomains flow)"
    by (rule concat_enumerate_Nil) simp
  moreover have "concat (map (output_errors root) (enumerate 0 (Outputs flow))) = [] \<longleftrightarrow>
      list_all (\<lambda>out. trim_space (OutName out) \<noteq> [] \<and> OutFrom out \<in> set [''url'', ''text'', ''attribute'', ''html'']) (Outputs flow)"
    by (rule concat_enumerate_Nil) (simp add: output_errors_def)
  ultimately show ?thesis unfolding validateFlow_def flow_ok_def append_is_Nil_conv by simp
qed

text \<open>Parsing accepts exactly the well-formed flows: for a document that the YAML package reads and
  decodes, the result is the flow when every requirement on names, domains, steps and outputs holds, and
  a non-empty list of violations otherwise; where the values stand in the document plays no role.\<close>

theorem Parse_exact:
  assumes "unmarshal data = Inr doc" and "ykind doc \<noteq> ZeroKind" and "ycontent doc = root # rest"
    and "ykind root = MappingNode" and "decode root = Inr flow"
  shows "if flow_ok flow then Parse unmarshal decode data source = Inr (flow\<lparr>FlowSource := source\<rparr>)
         else \<exists>errs. errs \<noteq> [] \<and> Parse unmarshal decode data source = Inl errs"
proof -
  have "flow_ok (flow\<lparr>FlowSource := source\<rparr>) = flow_ok flow" by (simp add: flow_ok_def)
  then show ?thesis using assms validateFlow_exact [of "flow\<lparr>FlowSource := source\<rparr>" root]
    by (auto simp: Parse_def Let_def)
qed

definition demo_flow :: Flow where
  "demo_flow = \<lparr>Name = ''demo'', Version = 1, FlowDomains = [''*.shop.test''], Inputs = [], Steps =
     [no_step\<lparr>Open := Some \<lparr>o_URL = ''https://www.shop.test/''\<rparr>\<rparr>], Outputs = [], FlowSource = []\<rparr>"

theorem Parse_exact_witness:
  "Parse (\<lambda>_. Inr (YNode DocumentNode 1 [] [YNode MappingNode 1 [] []])) (\<lambda>_. Inr demo_flow) ''text'' ''f.yaml''
     = Inr (demo_flow\<lparr>FlowSource := ''f.yaml''\<rparr>)"
proof -
  have "flow_ok demo_flow" by code_simp
  then show ?thesis
    using Parse_exact [of "\<lambda>_. Inr (YNode DocumentNode 1 [] [YNode MappingNode 1 [] []])" "''text''" _ _ "[]" "\<lambda>_. Inr demo_flow" demo_flow "''f.yaml''"]
    by simp
qed

text \<open>Only the first action of a step is looked at, although a step is meant to declare exactly one: a
  password in plain text passes the validation behind another action of the same step.\<close>

theorem second_action_is_not_validated:
  "let s = no_step\<lparr>Open := Some \<lparr>o_URL = ''https://a.test''\<rparr>,
             Fill := Some \<lparr>l_Label = ''Login'', l_Role = [], l_Text = [], l_Name = [], l_Value = ''password=hunter2'', l_Exact = False\<rparr>\<rparr>
   in validateStep s node = [] \<and> secretInValue ''password=hunter2''"
  unfolding Let_def validateStep_exact by code_simp

section \<open>Drafts hold no recorded values\<close>

definition placeholder_ok :: "draft_state \<Rightarrow> string \<Rightarrow> bool" where
  "placeholder_ok st v \<longleftrightarrow> v = [] \<or> v \<in> set (d_SecretRefs (ds_draft st)) \<or> (\<exists>p \<in> fst ` set (ds_inputs st). v = ''{{'' @ p @ ''}}'')"

definition step_values :: "Step \<Rightarrow> string set" where
  "step_values s = (case Fill s of None \<Rightarrow> {} | Some f \<Rightarrow> {l_Value f}) \<union> (case Find s of None \<Rightarrow> {} | Some f \<Rightarrow> {f_Value f})"

definition open_comment :: "RecordedAction \<Rightarrow> string" where
  "open_comment a = ''step '' @ int_str (r_Index a) @ '': open '' @ r_Selector a"

definition draft_inv :: "RecordedAction set \<Rightarrow> draft_state \<Rightarrow> bool" where
  "draft_inv acts st \<longleftrightarrow>
     (\<forall>s \<in> set (d_Steps (ds_draft st)). \<forall>v \<in> step_values s. placeholder_ok st v)
     \<and> (\<forall>(p, v) \<in> set (ds_inputs st). \<exists>a \<in> acts. \<not> secret_action a \<and> v = trim_space (r_Value a))
     \<and> set (d_Comments (ds_draft st)) \<subseteq> open_comment ` acts"

lemma actionForValue_inv:
  assumes "draft_inv acts st" and "a \<in> acts" and "actionForValue a st = (v, st')"
  shows "draft_inv acts st' \<and> placeholder_ok st' v \<and> d_Steps (ds_draft st') = d_Steps (ds_draft st)"
  using assms unfolding draft_inv_def placeholder_ok_def actionForValue_def
  by (auto simp: Let_def split: if_splits) blast+

lemma action_step_inv:
  assumes "draft_inv acts st" and "a \<in> acts" and "action_step resolver a st = Some (s, st')"
  shows "draft_inv acts (add_steps [s] st')"
proof -
  obtain v st1 where v: "actionForValue a st = (v, st1)" by fastforce
  note inv = actionForValue_inv [OF assms(1,2) v]
  have keep: "draft_inv acts (add_steps [s] st2)" if "draft_inv acts st2" "\<forall>v \<in> step_values s. placeholder_ok st2 v" for s st2
    using that by (auto simp: draft_inv_def add_steps_def placeholder_ok_def)
  have comment: "draft_inv acts (st\<lparr>ds_draft := (ds_draft st)\<lparr>d_Comments := d_Comments (ds_draft st) @ [open_comment a]\<rparr>\<rparr>)"
    using assms(1,2) by (auto simp: draft_inv_def placeholder_ok_def)
  from assms(3,1) inv show ?thesis
    unfolding action_step_def Let_def v open_comment_def [symmetric]
    by (auto split: if_splits prod.splits simp: step_values_def no_step_def intro!: keep comment)
qed

lemma record_action_inv:
  assumes "draft_inv acts st" and "a \<in> acts"
  shows "draft_inv acts (record_action resolver st a)"
proof (cases "action_step resolver a st")
  case (Some p)
  obtain s st1 where p: "p = (s, st1)" by fastforce
  have "Action s \<noteq> []" using Some unfolding p action_step_def
    by (auto simp: Action_def no_step_def Let_def split: if_splits prod.splits)
  moreover have "draft_inv acts (add_domain h st2)" if "draft_inv acts st2" for h st2
    using that by (auto simp: draft_inv_def add_domain_def placeholder_ok_def)
  moreover have "draft_inv acts (add_steps [no_step\<lparr>Assert := Some x\<rparr>] (st2\<lparr>ds_lastURL := u\<rparr>))" if "draft_inv acts st2" for x u st2
    using that by (auto simp: draft_inv_def add_steps_def placeholder_ok_def step_values_def no_step_def)
  ultimately show ?thesis
    using action_step_inv [OF assms Some [unfolded p]] Some p by (simp add: record_action_def Let_def)
qed (use assms in \<open>simp add: record_action_def\<close>)

lemma record_actions_inv: "draft_inv acts st \<Longrightarrow> set actions \<subseteq> acts \<Longrightarrow> draft_inv acts (foldl (record_action resolver) st actions)"
  by (induction actions arbitrary: st) (auto intro: record_action_inv)


definition demo_action :: "string \<Rightarrow> string \<Rightarrow> RecordedAction" where
  "demo_action name v = \<lparr>r_Index = 1, r_Command = ''fill'', r_Selector = ''@e1'', r_Value = v, r_URL = [], r_Role = ''textbox'',
     r_Name = name, r_InputType = [], r_Autocomplete = []\<rparr>"


end
