(* ===== verification/FetchTruncate.thy ===== *)
theory FetchTruncate
  imports OutputBudget GoPaths
begin

text \<open>
  \<open>internal/fetch/pipeline/truncate.go\<close> and the cut of \<open>phases.go\<close>: long fetch results are cut to a head and a
  tail, and the full text is kept in the output cache (\<open>OutputBudget\<close>) or in a file. The sizes of the two
  windows come from products of 64-bit floats; the two conversions are the parameters \<open>whole\<close> and \<open>share\<close>.
  Texts are byte strings, and the program walks them rune by rune.
\<close>

section \<open>Rune offsets\<close>

text \<open>The offsets at which \<open>for i := range s\<close> stops.\<close>

function rune_starts :: "nat \<Rightarrow> string \<Rightarrow> nat list" where
  "rune_starts i s = (if s = [] then [] else i # rune_starts (i + snd (decode_rune s)) (drop (snd (decode_rune s)) s))"
  by pat_completeness auto
termination
proof (relation "measure (length \<circ> snd)")
  fix i and s :: string assume "s \<noteq> []"
  then show "((i + snd (decode_rune s), drop (snd (decode_rune s)) s), i, s) \<in> measure (length \<circ> snd)"
    using decode_rune_width [of s] by auto
qed simp

declare rune_starts.simps [simp del]

text \<open>\<open>len(string(s[i]))\<close> converts a byte, not a rune, to a string.\<close>

definition byte_string_len :: "char \<Rightarrow> nat" where
  "byte_string_len c = (if byte c < 0x80 then 1 else 2)"

text \<open>\<^const>\<open>None\<close> is the panic of a slice beyond the end.\<close>

definition truncateTo :: "string \<Rightarrow> int \<Rightarrow> string option" where
  "truncateTo s n =
     (let offs = rune_starts 0 s in
      if 1 \<le> n \<and> n \<le> int (length offs) then
        (let i = offs ! nat (n - 1); e = i + byte_string_len (s ! i)
         in if e \<le> length s then Some (take e s) else None)
      else Some s)"

definition tailOf :: "string \<Rightarrow> int \<Rightarrow> string" where
  "tailOf s n =
     (let charCount = int (length (runes s)); offs = rune_starts 0 s in
      if charCount \<le> n then s
      else if 0 \<le> charCount - n \<and> charCount - n < int (length offs) then drop (offs ! nat (charCount - n)) s
      else s)"

definition computeTailOffset :: "string \<Rightarrow> int \<Rightarrow> int" where
  "computeTailOffset s n =
     (let charCount = int (length (runes s)); offs = rune_starts 0 s in
      if charCount \<le> n then 0
      else if 0 \<le> charCount - n \<and> charCount - n < int (length offs) then int (offs ! nat (charCount - n))
      else int (length s))"

fun cap_runes :: "nat \<Rightarrow> int \<Rightarrow> int list \<Rightarrow> string" where
  "cap_runes count maxBytes [] = []"
| "cap_runes count maxBytes (r # rs) =
     (let w = encode_rune r in
      if maxBytes < int (count + length w) then [] else w @ cap_runes (count + length w) maxBytes rs)"

definition capBytes :: "string \<Rightarrow> int \<Rightarrow> string" where
  "capBytes s maxBytes = (if int (length s) \<le> maxBytes then s else cap_runes 0 maxBytes (runes s))"

text \<open>The cut of the rendered body, \<open>truncateRunes\<close> of \<open>phases.go\<close>, with the marker as an argument.\<close>

fun cut_offset :: "nat \<Rightarrow> string \<Rightarrow> nat" where
  "cut_offset 0 s = 0"
| "cut_offset (Suc k) s = (if s = [] then 0 else snd (decode_rune s) + cut_offset k (drop (snd (decode_rune s)) s))"

definition truncateRunes :: "string \<Rightarrow> string \<Rightarrow> int \<Rightarrow> string \<times> bool" where
  "truncateRunes marker s budget =
     (let b = max 0 budget in
      if int (length (runes s)) \<le> b then (s, False)
      else (let room = max 0 (b - int (length (runes marker)))
            in (trim_right_cutset (take (cut_offset (nat room) s) s) [CHR 0x20, CHR 0x0A, CHR 0x09] @ marker, True)))"

section \<open>Truncate and store\<close>

record StoreOptions =
  CharLimit :: int
  StoreDir :: string
  MaxStored :: int

abbreviation DefaultCharLimit :: int where "DefaultCharLimit \<equiv> 15000"
abbreviation DefaultMaxStored :: int where "DefaultMaxStored \<equiv> 2 * 1024 * 1024"

definition setDefaults :: "StoreOptions \<Rightarrow> StoreOptions" where
  "setDefaults o1 =
     (let o2 = (if CharLimit o1 \<le> 0 then o1\<lparr>CharLimit := DefaultCharLimit\<rparr> else o1)
      in if MaxStored o2 \<le> 0 then o2\<lparr>MaxStored := DefaultMaxStored\<rparr> else o2)"

record text_store =
  ts_cache :: "out_cache option"
  ts_files :: "string \<rightharpoonup> string"

datatype trunc_error = NoStoreDir | MkStoreDir string | StoreCacheFailed budget_error | WriteStored string | TruncPanic

record store_world =
  clock1 :: go_time
  clock2 :: go_time
  cacheIO :: "out_step \<Rightarrow> string option"
  mkdirIO :: "string option"
  writeIO :: "string option"
  hashName :: "string \<Rightarrow> string"

definition window_sizes :: "(int \<Rightarrow> int) \<Rightarrow> (int \<Rightarrow> int) \<Rightarrow> int \<Rightarrow> int \<times> int" where
  "window_sizes whole share limit =
     (let w0 = whole limit; w = (if w0 \<le> 0 then limit else w0); h = share w; t = w - h
      in (if h \<le> 0 then 1 else h, if t \<le> 0 then 1 else t))"

definition gap :: string where
  "gap = [CHR 0x0A, CHR 0x0A] @ ''...'' @ [CHR 0x0A, CHR 0x0A]"

definition stored_footer :: "string \<Rightarrow> string" where
  "stored_footer what = [CHR 0x0A, CHR 0x0A] @ ''--- Full text stored: '' @ what @ '' ---''"

text \<open>The answer is the text, whether it was stored, and an error; the text is the content itself whenever
  nothing was stored.\<close>

definition TruncateAndStore ::
  "(int \<Rightarrow> int) \<Rightarrow> (int \<Rightarrow> int) \<Rightarrow> store_world \<Rightarrow> text_store \<Rightarrow> string \<Rightarrow> StoreOptions \<Rightarrow> (string \<times> bool \<times> trunc_error option) \<times> text_store" where
  "TruncateAndStore whole share w ts content opts0 =
     (let opts = setDefaults opts0 in
      if int (length (runes content)) \<le> CharLimit opts then ((content, False, None), ts)
      else if StoreDir opts = [] \<and> ts_cache ts = None then ((content, False, Some NoStoreDir), ts)
      else if ts_cache ts = None \<and> mkdirIO w \<noteq> None then ((content, False, Some (MkStoreDir (the (mkdirIO w)))), ts)
      else (case window_sizes whole share (CharLimit opts) of
              (headSize, tailSize) \<Rightarrow>
                (case truncateTo content headSize of
                   None \<Rightarrow> ((content, False, Some TruncPanic), ts)
                 | Some head \<Rightarrow>
                     (let tl1 = tailOf content tailSize;
                          storedText = (if MaxStored opts < int (length content) then capBytes content (MaxStored opts) else content)
                      in case ts_cache ts of
                           Some c \<Rightarrow>
                             (case Store (clock1 w) (clock2 w) (cacheIO w) c storedText of
                                (Inl err, c') \<Rightarrow> ((content, False, Some (StoreCacheFailed err)), ts\<lparr>ts_cache := Some c'\<rparr>)
                              | (Inr i, c') \<Rightarrow>
                                  ((head @ gap @ tl1 @ stored_footer (''cache_id='' @ i), True, None), ts\<lparr>ts_cache := Some c'\<rparr>))
                         | None \<Rightarrow>
                             (let path = Join [StoreDir opts, hashName w content @ ''.txt''] in
                              case writeIO w of
                                Some err \<Rightarrow> ((content, False, Some (WriteStored err)), ts)
                              | None \<Rightarrow>
                                  ((head @ gap @ tl1 @ stored_footer (path @ '' (offset='' @ int_str (computeTailOffset content tailSize) @ '')''), True, None),
                                   ts\<lparr>ts_files := (ts_files ts)(path \<mapsto> storedText)\<rparr>))))))"

definition CacheIDFromOutput :: "string \<Rightarrow> string" where
  "CacheIDFromOutput out =
     (case index_of out ''cache_id='' of
        None \<Rightarrow> []
      | Some idx \<Rightarrow>
          (let val0 = drop (idx + length ''cache_id='') out;
               val = (case index_any val0 [CHR 0x20, CHR 0x0A, CHR 0x0D, CHR '')''] of Some e \<Rightarrow> take e val0 | None \<Rightarrow> val0)
           in if length val \<noteq> length ''out_'' + 12 \<or> \<not> has_prefix val ''out_'' then []
              else if trim_cutset (drop (length ''out_'') val) ''0123456789abcdef'' \<noteq> [] then []
              else val))"

section \<open>Lemmas\<close>

lemma rune_starts_length [simp]: "length (rune_starts i s) = length (runes s)"
proof (induction i s rule: rune_starts.induct)
  case (1 i s)
  then show ?case by (subst rune_starts.simps, subst runes.simps) (simp add: case_prod_beta)
qed

lemma cut_offset_spec:
  assumes "k < length (runes s)"
  shows "rune_starts i s ! k = i + cut_offset k s \<and> cut_offset k s < length s \<and> runes (drop (cut_offset k s) s) = drop k (runes s)"
  using assms
proof (induction k arbitrary: i s)
  case 0
  then have "s \<noteq> []" by auto
  then show ?case by (simp add: rune_starts.simps [of i s])
next
  case (Suc k)
  let ?w = "snd (decode_rune s)"
  have s: "s \<noteq> []" using Suc.prems by auto
  then have w: "0 < ?w" "?w \<le> length s" using decode_rune_width by auto
  have r: "runes s = fst (decode_rune s) # runes (drop ?w s)" using s by (subst runes.simps) (simp add: case_prod_beta)
  then have "k < length (runes (drop ?w s))" using Suc.prems by simp
  from Suc.IH [OF this, of "i + ?w"] s w r show ?case
    by (auto simp: rune_starts.simps [of i s] add.commute [of ?w])
qed

lemma cut_offset_mono:
  assumes "Suc k < length (runes s)"
  shows "cut_offset k s < cut_offset (Suc k) s"
  using assms
proof (induction k arbitrary: s)
  case 0
  then have "s \<noteq> []" by auto
  then show ?case using decode_rune_width [of s] by simp
next
  case (Suc k)
  have s: "s \<noteq> []" using Suc.prems by auto
  have "runes s = fst (decode_rune s) # runes (drop (snd (decode_rune s)) s)" using s by (subst runes.simps) (simp add: case_prod_beta)
  with Suc.IH [of "drop (snd (decode_rune s)) s"] Suc.prems s show ?case by simp
qed

lemma truncateTo_prefix:
  assumes "1 \<le> n" and "n < int (length (runes s))"
  shows "\<exists>h. truncateTo s n = Some h \<and> prefix h s"
proof -
  define k where "k = nat (n - 1)"
  have k: "Suc k < length (runes s)" using assms by (simp add: k_def)
  have "cut_offset (Suc k) s < length s" using cut_offset_spec [OF k, of 0] by simp
  then have "cut_offset k s + 2 \<le> length s" using cut_offset_mono [OF k] by simp
  then show ?thesis
    using assms cut_offset_spec [of k s 0] k by (auto simp: truncateTo_def Let_def byte_string_len_def take_is_prefix simp flip: k_def)
qed

lemma tailOf_suffix:
  assumes "0 < n" and "n < int (length (runes s))"
  shows "suffix (tailOf s n) s" and "int (length (runes (tailOf s n))) = n"
proof -
  define k where "k = nat (int (length (runes s)) - n)"
  have k: "k < length (runes s)" "int k = int (length (runes s)) - n" using assms by (auto simp: k_def)
  have t: "tailOf s n = drop (cut_offset k s) s"
    using assms cut_offset_spec [OF k(1), of 0] by (simp add: tailOf_def Let_def flip: k_def)
  show "suffix (tailOf s n) s" unfolding t by (rule suffix_drop)
  show "int (length (runes (tailOf s n))) = n" unfolding t using cut_offset_spec [OF k(1), of 0] k by simp
qed

lemma index_of_skip:
  assumes "\<not> sublist sub x" and "index_of (c # y) sub = Some j" and "c \<notin> set sub"
  shows "index_of (x @ c # y) sub = Some (length x + j)"
  using assms(1)
proof (induction x)
  case (Cons a x)
  have "\<not> prefix sub ((a # x) @ c # y)"
  proof
    assume "prefix sub ((a # x) @ c # y)"
    then consider "prefix sub (a # x)" | us where "sub = (a # x) @ us" "prefix us (c # y)" unfolding prefix_append by blast
    then show False
    proof cases
      case 1
      then show ?thesis using Cons.prems prefix_imp_sublist by blast
    next
      case 2
      then show ?thesis using Cons.prems assms(3) by (cases us) auto
    qed
  qed
  moreover have "\<not> sublist sub x" using Cons.prems by (meson sublist_Cons_right)
  ultimately show ?case using Cons.IH by simp
qed (use assms(2) in simp)

lemma trim_hex_id: "validCacheID i \<Longrightarrow> length i = 16 \<and> has_prefix i ''out_'' \<and> trim_cutset (drop (length ''out_'') i) ''0123456789abcdef'' = []"
  by (auto simp: validCacheID_def hex_digits_def split: if_splits)

lemma valid_id_chars: "validCacheID i \<Longrightarrow> c \<in> set i \<Longrightarrow> c \<notin> {CHR 0x20, CHR 0x0A, CHR 0x0D, CHR '')''}"
proof -
  assume v: "validCacheID i" and c: "c \<in> set i"
  from trim_hex_id [OF v] obtain h where "i = ''out_'' @ h" "set h \<subseteq> set ''0123456789abcdef''"
    by (auto simp: prefix_def trim_cutset_empty_iff)
  with c show ?thesis by auto
qed

lemma index_any_first: "set a \<inter> set cs = {} \<Longrightarrow> c \<in> set cs \<Longrightarrow> index_any (a @ c # b) cs = Some (length a)"
  by (induction a) auto

lemma CacheIDFromOutput_footer:
  assumes "validCacheID i" and "\<not> sublist ''cache_id='' x"
  shows "CacheIDFromOutput (x @ stored_footer (''cache_id='' @ i)) = i"
proof -
  let ?f = "stored_footer (''cache_id='' @ i)"
  have "index_of ?f ''cache_id='' = Some 24" by (simp add: stored_footer_def)
  then have idx: "index_of (x @ ?f) ''cache_id='' = Some (length x + 24)"
    using index_of_skip [OF assms(2), of "CHR 0x0A" "tl ?f" 24] by (simp add: stored_footer_def)
  have rest: "drop (length x + 24 + length ''cache_id='') (x @ ?f) = i @ CHR 0x20 # ''---''" by (simp add: stored_footer_def)
  have "index_any (i @ CHR 0x20 # ''---'') [CHR 0x20, CHR 0x0A, CHR 0x0D, CHR '')''] = Some (length i)"
    using valid_id_chars [OF assms(1)] by (intro index_any_first) auto
  then show ?thesis
    unfolding CacheIDFromOutput_def idx option.case Let_def rest using trim_hex_id [OF assms(1)] by simp
qed

section \<open>Properties\<close>


definition demo_store :: store_world where
  "demo_store = \<lparr>clock1 = 5, clock2 = 5, cacheIO = (\<lambda>_. None), mkdirIO = None, writeIO = None, hashName = (\<lambda>_. ''h'')\<rparr>"

abbreviation demo_truncate :: "string \<Rightarrow> (string \<times> bool \<times> trunc_error option) \<times> text_store" where
  "demo_truncate content \<equiv> TruncateAndStore (\<lambda>n. n) (\<lambda>n. 4 * n div 5) demo_store
     \<lparr>ts_cache = Some (NewCache hour Map.empty Map.empty), ts_files = Map.empty\<rparr> content \<lparr>CharLimit = 5, StoreDir = [], MaxStored = 0\<rparr>"


text \<open>A page can name the handle: the first mention in the shown text is taken for the footer's.\<close>

lemma page_names_the_handle:
  "CacheIDFromOutput (''see cache_id=out_aaaaaaaaaaaa here'' @ gap @ stored_footer (''cache_id='' @ NewID 5)) = ''out_aaaaaaaaaaaa''"
  by code_simp

text \<open>The head can end inside a rune: only one byte beyond the first byte of its last rune is kept.\<close>

lemma head_cut_inside_rune: "truncateTo [CHR 0xE2, CHR 0x82, CHR 0xAC, CHR ''x'', CHR ''y''] 1 = Some [CHR 0xE2, CHR 0x82]"
  by code_simp

end
