(* ===== verification/RuneCuts.thy ===== *)
theory RuneCuts
  imports FetchTruncate
begin

text \<open>
  Lemmas on cutting and joining UTF-8 texts that several components share: an ASCII byte always begins a new
  character, decoding does not look beyond the character it returns, and a cut after a number of characters leaves
  at most that many.
\<close>

section \<open>ASCII bytes separate\<close>

lemma decode_ascii_cut:
  assumes "a \<noteq> []" and "byte c < 0x80"
  shows "decode_rune (a @ c # b) = decode_rune a"
proof -
  have nc: "\<not> is_cont c" "\<not> second_ok n c" for n using assms(2) by (auto simp: is_cont_def second_ok_def)
  from assms(1) obtain a1 r where "a = a1 # r" by (cases a) auto
  then show ?thesis
    by (cases r rule: list.exhaust; cases "tl r" rule: list.exhaust; cases "tl (tl r)" rule: list.exhaust)
      (simp_all add: decode_rune_def nc Let_def split: list.splits)
qed

lemma runes_ascii_cut: "byte c < 0x80 \<Longrightarrow> runes (a @ c # b) = runes a @ runes (c # b)"
proof (induction a rule: runes.induct)
  case (1 a)
  show ?case
  proof (cases "a = []")
    case False
    obtain r w where d: "decode_rune a = (r, w)" by fastforce
    then have "w \<le> length a" using decode_rune_width [OF False] by simp
    moreover have "decode_rune (a @ c # b) = (r, w)" using decode_ascii_cut [OF False 1(2)] d by simp
    moreover have "runes (drop w a @ c # b) = runes (drop w a) @ runes (c # b)" using 1(1) [OF False d [symmetric] 1(2)] by simp
    ultimately show ?thesis using False d by (simp add: runes.simps [of "a @ c # b"] runes.simps [of a])
  qed simp
qed

lemma runes_ascii_Cons: "byte c < 0x80 \<Longrightarrow> runes (c # b) = byte c # runes b"
  by (subst runes.simps) (simp add: decode_rune_def Let_def)

text \<open>A text that ends with an ASCII byte counts separately from what follows.\<close>

lemma runes_after_ascii: "byte c < 0x80 \<Longrightarrow> runes ((a @ [c]) @ b) = runes (a @ [c]) @ runes b"
  using runes_ascii_cut [of c a b] runes_ascii_cut [of c a "[]"] by (simp add: runes_ascii_Cons)

lemma runes_trim_right:
  assumes "\<forall>c \<in> set cs. byte c < 0x80"
  shows "length (runes (trim_right_cutset s cs)) \<le> length (runes s)"
proof -
  let ?t = "trim_right_cutset s cs"
  obtain w where w: "s = ?t @ w" "\<forall>c \<in> set w. c \<in> set cs"
  proof
    let ?P = "\<lambda>c. c \<in> set cs"
    have "rev (rev s) = rev (takeWhile ?P (rev s) @ dropWhile ?P (rev s))" by simp
    then show "s = ?t @ rev (takeWhile ?P (rev s))" unfolding rev_append by (simp add: trim_right_cutset_def)
    show "\<forall>c \<in> set (rev (takeWhile ?P (rev s))). c \<in> set cs" by (auto dest: set_takeWhileD)
  qed
  show ?thesis
  proof (cases w)
    case Nil
    with w(1) show ?thesis by simp
  next
    case (Cons c v)
    then have "runes s = runes ?t @ runes (c # v)" using w assms runes_ascii_cut [of c ?t v] by simp
    then show ?thesis by simp
  qed
qed

section \<open>Cuts after characters\<close>

lemma decode_take: "snd (decode_rune s) \<le> n \<Longrightarrow> 0 < n \<Longrightarrow> decode_rune (take n s) = decode_rune s"
proof -
  assume n: "snd (decode_rune s) \<le> n" "0 < n"
  then obtain m where m: "n = Suc m" by (cases n) auto
  show ?thesis
  proof (cases s)
    case (Cons c r)
    show ?thesis
      using n unfolding m Cons
      by (cases m rule: nat.exhaust; cases "m - 1" rule: nat.exhaust; cases "m - 2" rule: nat.exhaust)
        (auto simp: decode_rune_def Let_def split: list.splits if_splits)
  qed simp
qed

lemma runes_cut: "length (runes (take (cut_offset k s) s)) \<le> k"
proof (induction k arbitrary: s)
  case (Suc k)
  show ?case
  proof (cases "s = []")
    case False
    let ?w = "snd (decode_rune s)" and ?n = "cut_offset k (drop (snd (decode_rune s)) s)"
    have w: "0 < ?w" "?w \<le> length s" using decode_rune_width [OF False] by auto
    have d: "decode_rune (take (?w + ?n) s) = decode_rune s" using w by (intro decode_take) auto
    have "take (?w + ?n) s \<noteq> []" using w False by simp
    then have "runes (take (?w + ?n) s) = fst (decode_rune s) # runes (drop ?w (take (?w + ?n) s))"
      by (subst runes.simps) (simp add: d split_def)
    moreover have "drop ?w (take (?w + ?n) s) = take ?n (drop ?w s)" by (simp add: drop_take)
    ultimately show ?thesis using Suc [of "drop ?w s"] False by simp
  qed simp
qed simp

text \<open>\<open>truncateRunes\<close> keeps a text within its budget, up to the length of the marker.\<close>

lemma truncateRunes_bound:
  assumes "truncateRunes marker s budget = (t, c_flag)" and "marker = c # m" and "byte c < 0x80"
  shows "int (length (runes t)) \<le> max (max 0 budget) (int (length (runes marker)))"
    and "int (length (runes t)) \<le> max (int (length (runes s))) (int (length (runes marker)))"
    and "\<not> c_flag \<longleftrightarrow> int (length (runes s)) \<le> max 0 budget"
    and "\<not> c_flag \<Longrightarrow> t = s"
proof -
  let ?room = "max 0 (max 0 budget - int (length (runes marker)))"
  let ?u = "trim_right_cutset (take (cut_offset (nat ?room) s) s) [CHR 0x20, CHR 0x0A, CHR 0x09]"
  have "\<forall>c \<in> set [CHR 0x20, CHR 0x0A, CHR 0x09]. byte c < 0x80" by code_simp
  from runes_trim_right [OF this, of "take (cut_offset (nat ?room) s) s"]
  have u: "length (runes ?u) \<le> nat ?room" using runes_cut [of "nat ?room" s] by linarith
  have join: "runes (?u @ marker) = runes ?u @ runes marker" using runes_ascii_cut [OF assms(3), of ?u m] by (simp add: assms(2))
  show "\<not> c_flag \<longleftrightarrow> int (length (runes s)) \<le> max 0 budget" and "\<not> c_flag \<Longrightarrow> t = s"
    using assms(1) by (auto simp: truncateRunes_def Let_def split: if_splits)
  have *: "(int (length (runes s)) \<le> max 0 budget \<and> t = s) \<or> (max 0 budget < int (length (runes s)) \<and> t = ?u @ marker)"
    using assms(1) by (auto simp: truncateRunes_def Let_def split: if_splits)
  have "int (length (runes ?u)) \<le> ?room" using u le_nat_iff [of ?room "length (runes ?u)"] by (metis max.cobounded1)
  then have len: "int (length (runes (?u @ marker))) \<le> ?room + int (length (runes marker))" unfolding join length_append of_nat_add by (rule add_right_mono)
  have "?room + int (length (runes marker)) = max (max 0 budget) (int (length (runes marker)))" by (simp add: max_def)
  with len have fits: "int (length (runes (?u @ marker))) \<le> max (max 0 budget) (int (length (runes marker)))" by (simp only:)
  from * show "int (length (runes t)) \<le> max (max 0 budget) (int (length (runes marker)))"
  proof
    assume "int (length (runes s)) \<le> max 0 budget \<and> t = s"
    then show ?thesis by auto
  next
    assume "max 0 budget < int (length (runes s)) \<and> t = ?u @ marker"
    then show ?thesis using fits by (simp only:)
  qed
  from * show "int (length (runes t)) \<le> max (int (length (runes s))) (int (length (runes marker)))"
  proof
    assume "int (length (runes s)) \<le> max 0 budget \<and> t = s"
    then show ?thesis by simp
  next
    assume "max 0 budget < int (length (runes s)) \<and> t = ?u @ marker"
    then have "max 0 budget < int (length (runes s))" "t = ?u @ marker" by blast+
    then show ?thesis using fits by (simp only:) linarith
  qed
qed

end
