(* ===== verification/FlowRunner.thy ===== *)
theory FlowRunner
  imports FlowSchema JsonText JsonArgs PolicyGate RuneCuts
begin

text \<open>
  \<open>internal/flows/runner.go\<close> and \<open>internal/flows/diagnose.go\<close>: running a flow stp by stp over an executor
  that sends frames to the daemon, and the diagnosis of a failed stp. The executor is a function of the
  frame and of a world it changes; \<open>clk\<close> reads the clock in the world. An input map is an association
  list with distinct keys. The iteration order of that map in the \<open>substitute\<close> call of a stp is the parameter
  \<open>perm\<close>: by phase (domain check or execution) and step index it gives the order. \<open>parseURL\<close> gives the host
  of a URL (with its port) or \<^const>\<open>None\<close> where \<open>url.Parse\<close> fails, \<open>jerr\<close> the text of a JSON decoding error.
  The regular expression that \<open>globMatch\<close> builds is represented by its tokens, matched on runes.
\<close>

section \<open>Requests\<close>

record Response =
  RespSuccess :: bool
  RespData :: json
  RespError :: "string option"

type_synonym 'w executor = "Frame \<Rightarrow> 'w \<Rightarrow> (string + Response) \<times> 'w"
type_synonym ('a, 'w) act = "'w \<Rightarrow> (string + 'a) \<times> 'w"

definition and_then :: "('a, 'w) act \<Rightarrow> ('a \<Rightarrow> ('b, 'w) act) \<Rightarrow> ('b, 'w) act" where
  "and_then a f w = (case a w of (Inl err, w') \<Rightarrow> (Inl err, w') | (Inr x, w') \<Rightarrow> f x w')"

definition return :: "'a \<Rightarrow> ('a, 'w) act" where
  "return x w = (Inr x, w)"

definition failure :: "string \<Rightarrow> ('a, 'w) act" where
  "failure err w = (Inl err, w)"

definition map_error :: "(string \<Rightarrow> string) \<Rightarrow> ('a, 'w) act \<Rightarrow> ('a, 'w) act" where
  "map_error g a w = (case a w of (r, w') \<Rightarrow> (map_sum g id r, w'))"

definition frame_of :: "string \<Rightarrow> string \<Rightarrow> json \<Rightarrow> Frame" where
  "frame_of session command args = \<lparr>Cmd = command, Args = Some args, FSession = session\<rparr>"

definition request :: "'w executor \<Rightarrow> string \<Rightarrow> string \<Rightarrow> json \<Rightarrow> (json, 'w) act" where
  "request exec session command args w =
     (case exec (frame_of session command args) w of
        (Inl err, w') \<Rightarrow> (Inl err, w')
      | (Inr response, w') \<Rightarrow>
          (if \<not> RespSuccess response then
             (Inl (case RespError response of Some msg \<Rightarrow> msg | None \<Rightarrow> command @ '' failed''), w')
           else (Inr (RespData response), w')))"

definition responseString :: "json \<Rightarrow> string" where
  "responseString response =
     (case response of
        JStr s \<Rightarrow> to_valid s
      | JNull \<Rightarrow> []
      | _ \<Rightarrow> trim_space (marshal response))"

definition readOutputString :: "'w executor \<Rightarrow> string \<Rightarrow> string \<Rightarrow> json \<Rightarrow> (string, 'w) act" where
  "readOutputString exec session command args = and_then (request exec session command args) (\<lambda>r. return (responseString r))"

section \<open>Inputs\<close>

function inputReferences :: "string \<Rightarrow> string list" where
  "inputReferences rest =
     (case index_of rest ''{{'' of
        None \<Rightarrow> []
      | Some start \<Rightarrow>
          (case index_of (drop start rest) ''}}'' of
             None \<Rightarrow> []
           | Some e \<Rightarrow>
               (let name = trim_space (drop (start + 2) (take (start + e) rest)) in
                (if name \<noteq> [] then [name] else []) @ inputReferences (drop (start + e + 2) rest))))"
  by auto
termination
proof (relation "measure length", goal_cases)
  case (2 rest start e)
  then have "rest \<noteq> []" by auto
  then show ?case by simp
qed simp

declare inputReferences.simps [simp del]

fun uniqueStrings_loop :: "string set \<Rightarrow> string list \<Rightarrow> string list" where
  "uniqueStrings_loop seen [] = []"
| "uniqueStrings_loop seen (v # vs) =
     (if v \<notin> seen then v # uniqueStrings_loop (insert v seen) vs else uniqueStrings_loop seen vs)"

definition uniqueStrings :: "string list \<Rightarrow> string list" where
  "uniqueStrings vs = uniqueStrings_loop {} vs"

type_synonym inputs = "(string \<times> string) list"

text \<open>The closure \<open>collect\<close>, on the names seen and the names missing.\<close>

fun collect_names :: "inputs \<Rightarrow> string set \<times> string list \<Rightarrow> string list \<Rightarrow> string set \<times> string list" where
  "collect_names resolved (seen, missing) [] = (seen, missing)"
| "collect_names resolved (seen, missing) (name # names) =
     (if name \<in> seen then collect_names resolved (seen, missing) names
      else collect_names resolved (insert name seen, if map_of resolved name = None then missing @ [name] else missing) names)"

text \<open>The value of a step that may refer to inputs.\<close>

definition step_template :: "Step \<Rightarrow> string option" where
  "step_template stp =
     (case Open stp of
        Some o1 \<Rightarrow> Some (o_URL o1)
      | None \<Rightarrow>
          (case Find stp of
             Some f \<Rightarrow> Some (f_Value f)
           | None \<Rightarrow> (case Fill stp of Some l \<Rightarrow> Some (l_Value l) | None \<Rightarrow> None)))"

definition collect_step :: "inputs \<Rightarrow> string set \<times> string list \<Rightarrow> Step \<Rightarrow> string set \<times> string list" where
  "collect_step resolved st stp =
     (case step_template stp of None \<Rightarrow> st | Some v \<Rightarrow> collect_names resolved st (inputReferences v))"

definition missing_inputs :: "Flow \<Rightarrow> inputs \<Rightarrow> string list" where
  "missing_inputs flow resolved =
     snd (foldl (collect_step resolved) ({}, filter (\<lambda>n. map_of resolved n = None) (Inputs flow)) (Steps flow))"

definition resolveInputs :: "Flow \<Rightarrow> inputs \<Rightarrow> string + inputs" where
  "resolveInputs flow ins =
     (let missing = missing_inputs flow ins in
      if missing \<noteq> [] then
        Inl (''missing required inputs: '' @ join '', '' (uniqueStrings missing) @ '' (pass them with --input '' @ hd missing @ ''=...)'')
      else Inr ins)"

text \<open>The order of the list is the iteration order of the map.\<close>

definition substitute :: "inputs \<Rightarrow> string \<Rightarrow> string" where
  "substitute ins val = foldl (\<lambda>v nr. replace_all (''{{'' @ fst nr @ ''}}'') (snd nr) v) val ins"

section \<open>Domains\<close>

record RunError =
  re_StepIndex :: nat
  re_Action :: string
  re_Message :: string
  re_Hint :: string

definition RunError_text :: "RunError \<Rightarrow> string" where
  "RunError_text e = ''flow step '' @ nat_str (re_StepIndex e) @ '' ('' @ re_Action e @ '') failed: '' @ re_Message e"

definition cut_port :: "string \<Rightarrow> string" where
  "cut_port host = (case last_index_byte host (CHR '':'') of Some i \<Rightarrow> if 0 < i then take i host else host | None \<Rightarrow> host)"

definition pattern_allows :: "string \<Rightarrow> string \<Rightarrow> bool" where
  "pattern_allows host raw =
     (let pattern = cut_port (to_lower (trim_space raw))
      in pattern = host \<or> has_prefix pattern ''*.'' \<and> has_suffix host (trim_prefix pattern ''*''))"

definition domainAllowed :: "string \<Rightarrow> string list \<Rightarrow> bool" where
  "domainAllowed host domains = list_ex (pattern_allows (cut_port (to_lower (trim_space host)))) domains"

datatype phase = Checking | Executing

type_synonym orders = "phase \<Rightarrow> nat \<Rightarrow> inputs \<Rightarrow> inputs"

definition open_error :: "(string \<Rightarrow> string option) \<Rightarrow> string list \<Rightarrow> nat \<Rightarrow> string \<Rightarrow> RunError option" where
  "open_error parseURL domains i raw =
     (let unparsed = Some \<lparr>re_StepIndex = i, re_Action = ''open'', re_Message = ''cannot parse open URL '' @ go_quote raw, re_Hint = []\<rparr> in
      case parseURL raw of
        None \<Rightarrow> unparsed
      | Some host \<Rightarrow>
          if host = [] then unparsed
          else if \<not> domainAllowed host domains then
            Some \<lparr>re_StepIndex = i, re_Action = ''open'',
              re_Message = ''domain '' @ go_quote host @ '' is not allowed by flow domains ['' @ join '' '' domains @ '']'',
              re_Hint = ''add the domain to the flow's domains list or fix the URL''\<rparr>
          else None)"

fun enforceDomains_loop ::
  "(string \<Rightarrow> string option) \<Rightarrow> orders \<Rightarrow> string list \<Rightarrow> inputs \<Rightarrow> (nat \<times> Step) list \<Rightarrow> RunError option" where
  "enforceDomains_loop parseURL perm domains ins [] = None"
| "enforceDomains_loop parseURL perm domains ins ((i, stp) # rest) =
     (case Open stp of
        None \<Rightarrow> enforceDomains_loop parseURL perm domains ins rest
      | Some o1 \<Rightarrow>
          (case open_error parseURL domains i (substitute (perm Checking i ins) (o_URL o1)) of
             Some err \<Rightarrow> Some err
           | None \<Rightarrow> enforceDomains_loop parseURL perm domains ins rest))"

definition enforceDomains :: "(string \<Rightarrow> string option) \<Rightarrow> orders \<Rightarrow> Flow \<Rightarrow> inputs \<Rightarrow> RunError option" where
  "enforceDomains parseURL perm flow ins = enforceDomains_loop parseURL perm (FlowDomains flow) ins (enumerate 0 (Steps flow))"

section \<open>Steps\<close>

record FindRequest =
  q_Kind :: string
  q_Query :: string
  q_Action :: string
  q_Value :: string
  q_Name :: string
  q_Exact :: bool

definition omit_str :: "string \<Rightarrow> string \<Rightarrow> (string \<times> json) list" where
  "omit_str name s = (if s = [] then [] else [(name, JStr s)])"

definition omit_bool :: "string \<Rightarrow> bool \<Rightarrow> (string \<times> json) list" where
  "omit_bool name b = (if b then [(name, JBool True)] else [])"

definition find_args :: "FindRequest \<Rightarrow> json" where
  "find_args q = JObj ([(''kind'', JStr (q_Kind q)), (''query'', JStr (q_Query q)), (''action'', JStr (q_Action q))]
     @ omit_str ''value'' (q_Value q) @ omit_str ''name'' (q_Name q) @ omit_bool ''exact'' (q_Exact q))"

definition interaction_args :: "string \<Rightarrow> string \<Rightarrow> string \<Rightarrow> json" where
  "interaction_args action selector val =
     JObj ([(''action'', JStr action), (''selector'', JStr selector)] @ omit_str ''value'' val)"

text \<open>The first non-empty text of a list of alternatives, with its kind.\<close>

definition first_kind :: "(string \<times> string) list \<Rightarrow> string \<times> string" where
  "first_kind alts = (case find (\<lambda>kq. snd kq \<noteq> []) alts of Some kq \<Rightarrow> kq | None \<Rightarrow> ([], []))"

definition finderRequest :: "FindStep \<Rightarrow> string \<Rightarrow> FindRequest" where
  "finderRequest f val =
     (let kq = first_kind [(''label'', f_Label f), (''role'', f_Role f), (''text'', f_Text f), (''placeholder'', f_Placeholder f),
                 (''alt'', f_Alt f), (''title'', f_Title f), (''testid'', f_TestID f)]
      in \<lparr>q_Kind = fst kq, q_Query = snd kq,
          q_Action = (if f_Action f \<in> set [''click'', ''fill'', ''check'', ''hover'', ''text''] then f_Action f else ''ref''),
          q_Value = val, q_Name = [], q_Exact = f_Exact f\<rparr>)"

definition target_request :: "string \<Rightarrow> string \<Rightarrow> string \<Rightarrow> string \<Rightarrow> bool \<Rightarrow> FindRequest" where
  "target_request label role text name exact =
     (let kq = first_kind [(''label'', label), (''role'', role), (''text'', text)]
      in \<lparr>q_Kind = fst kq, q_Query = snd kq, q_Action = ''ref'', q_Value = [], q_Name = name, q_Exact = exact\<rparr>)"

definition resultRef :: "(json \<Rightarrow> string) \<Rightarrow> json \<Rightarrow> string + string" where
  "resultRef jerr result =
     (case object_fields result of
        Inl _ \<Rightarrow> Inl (''decode find result: '' @ jerr result)
      | Inr obj \<Rightarrow>
          (case string_field ''ref'' obj of
             Inl _ \<Rightarrow> Inl (''decode find result: '' @ jerr result)
           | Inr ref \<Rightarrow> if ref = [] then Inl ''find returned no element ref'' else Inr ref))"

definition lift_result :: "string + 'a \<Rightarrow> ('a, 'w) act" where
  "lift_result r w = (r, w)"

definition executeOpen :: "'w executor \<Rightarrow> string \<Rightarrow> string \<Rightarrow> (json, 'w) act" where
  "executeOpen exec session url = request exec session ''open'' (JObj [(''url'', JStr url)])"

definition executeFind :: "'w executor \<Rightarrow> string \<Rightarrow> FindStep \<Rightarrow> inputs \<Rightarrow> (json, 'w) act" where
  "executeFind exec session f ins = request exec session ''find'' (find_args (finderRequest f (substitute ins (f_Value f))))"

text \<open>What \<open>executeClick\<close> and \<open>executeFill\<close> share: find the element, scroll it into view, act on it.\<close>

definition find_scroll_act :: "(json \<Rightarrow> string) \<Rightarrow> 'w executor \<Rightarrow> string \<Rightarrow> FindRequest \<Rightarrow> string \<Rightarrow> string \<Rightarrow> (json, 'w) act" where
  "find_scroll_act jerr exec session q action val =
     and_then (request exec session ''find'' (find_args q)) (\<lambda>result.
     and_then (lift_result (resultRef jerr result)) (\<lambda>ref.
     and_then (request exec session ''scrollintoview'' (interaction_args ''scrollintoview'' (''@'' @ ref) [])) (\<lambda>_.
     request exec session action (interaction_args action (''@'' @ ref) val))))"

definition executeClick :: "(json \<Rightarrow> string) \<Rightarrow> 'w executor \<Rightarrow> string \<Rightarrow> SelectorStep \<Rightarrow> (json, 'w) act" where
  "executeClick jerr exec session c =
     find_scroll_act jerr exec session (target_request (c_Label c) (c_Role c) (c_Text c) (c_Name c) (c_Exact c)) ''click'' []"

definition executeFill :: "(json \<Rightarrow> string) \<Rightarrow> 'w executor \<Rightarrow> string \<Rightarrow> FillStep \<Rightarrow> inputs \<Rightarrow> (json, 'w) act" where
  "executeFill jerr exec session l ins =
     find_scroll_act jerr exec session (target_request (l_Label l) (l_Role l) (l_Text l) (l_Name l) (l_Exact l)) ''fill''
       (substitute ins (l_Value l))"

definition wait_args :: "WaitStep \<Rightarrow> json" where
  "wait_args w1 =
     (if w_URL w1 \<noteq> [] then JObj [(''kind'', JStr ''url''), (''value'', JStr (w_URL w1))]
      else if w_Visible w1 \<noteq> [] then
        JObj [(''kind'', JStr ''selector''), (''value'', JStr (w_Visible w1)), (''state'', JStr ''visible'')]
      else (let d = wrap64 (w_Ms w1 * millisecond)
            in JObj ((''kind'', JStr ''milliseconds'') # (if d = 0 then [] else [(''duration'', JNum (int_str d))]))))"

definition executeWait :: "'w executor \<Rightarrow> string \<Rightarrow> WaitStep \<Rightarrow> (json, 'w) act" where
  "executeWait exec session w1 = request exec session ''wait'' (wait_args w1)"

section \<open>Glob patterns\<close>

datatype glob_token = AnyRunes | SegmentRunes | Literal "int list"

function glob_tokens :: "string \<Rightarrow> glob_token list" where
  "glob_tokens rest =
     (if rest = [] then []
      else if has_prefix rest ''**'' then AnyRunes # glob_tokens (drop 2 rest)
      else if has_prefix rest ''*'' then SegmentRunes # glob_tokens (drop 1 rest)
      else (case index_any rest ''*'' of
              None \<Rightarrow> [Literal (runes rest)]
            | Some nx \<Rightarrow> Literal (runes (take nx rest)) # glob_tokens (drop nx rest)))"
  by auto
termination
proof (relation "measure length", goal_cases)
  case (4 rest nx)
  then have "0 < nx" by (cases rest) (auto split: if_splits)
  with 4 show ?case by simp
qed simp_all

declare glob_tokens.simps [simp del]

text \<open>\<open>.*\<close> does not match a newline, \<open>[^/]*\<close> does not match a slash.\<close>

definition token_rune :: "glob_token \<Rightarrow> int \<Rightarrow> bool" where
  "token_rune t r \<longleftrightarrow> (case t of AnyRunes \<Rightarrow> r \<noteq> 10 | SegmentRunes \<Rightarrow> r \<noteq> 47 | Literal _ \<Rightarrow> False)"

fun match_tokens :: "glob_token list \<Rightarrow> int list \<Rightarrow> bool" where
  "match_tokens [] rs = (rs = [])"
| "match_tokens (Literal l # ts) rs = (prefix l rs \<and> match_tokens ts (drop (length l) rs))"
| "match_tokens (t # ts) [] = match_tokens ts []"
| "match_tokens (t # ts) (r # rs) = (match_tokens ts (r # rs) \<or> token_rune t r \<and> match_tokens (t # ts) rs)"

text \<open>A pattern that is not valid UTF-8 does not compile.\<close>

definition globMatch :: "string \<Rightarrow> string \<Rightarrow> bool" where
  "globMatch pattern val = (to_valid pattern = pattern \<and> match_tokens (glob_tokens pattern) (runes val))"

section \<open>Assertions and outputs\<close>

definition text_request :: "string \<Rightarrow> FindRequest" where
  "text_request text = \<lparr>q_Kind = ''text'', q_Query = text, q_Action = ''first'', q_Value = [], q_Name = [], q_Exact = False\<rparr>"

definition executeAssert :: "'w executor \<Rightarrow> string \<Rightarrow> AssertStep \<Rightarrow> (json, 'w) act" where
  "executeAssert exec session a =
     (if a_Visible a \<noteq> [] then
        map_error (\<lambda>e. ''assert visible '' @ go_quote (a_Visible a) @ '' failed: '' @ e)
          (request exec session ''find'' (find_args (text_request (a_Visible a))))
      else if a_URL a \<noteq> [] then
        and_then (request exec session ''get.url'' (JObj [])) (\<lambda>response.
          let current = responseString response in
          if \<not> globMatch (a_URL a) current then
            failure (''assert url '' @ go_quote (a_URL a) @ '' failed: current url is '' @ go_quote current)
          else return (JObj [(''actual'', JStr current), (''expected'', JStr (a_URL a))]))
      else if a_Text a \<noteq> [] then
        map_error (\<lambda>e. ''assert text '' @ go_quote (a_Text a) @ '' failed: '' @ e)
          (request exec session ''find'' (find_args (text_request (a_Text a))))
      else if a_Not a \<noteq> [] then
        (\<lambda>w. case request exec session ''find'' (find_args (text_request (a_Not a))) w of
               (Inr _, w') \<Rightarrow> (Inl (''assert not '' @ go_quote (a_Not a) @ '' failed: element is present''), w')
             | (Inl _, w') \<Rightarrow> (Inr (JObj [(''absent'', JStr (a_Not a))]), w'))
      else failure ''unsupported assert'')"

definition snapshot_args :: "bool \<Rightarrow> bool \<Rightarrow> json" where
  "snapshot_args compact diff = JObj (omit_bool ''compact'' compact @ omit_bool ''diff'' diff)"

definition executeSnapshot :: "'w executor \<Rightarrow> string \<Rightarrow> SnapshotStep \<Rightarrow> (json, 'w) act" where
  "executeSnapshot exec session s = request exec session ''snapshot'' (snapshot_args (s_Compact s) (s_Diff s))"

definition executeStep :: "(json \<Rightarrow> string) \<Rightarrow> 'w executor \<Rightarrow> string \<Rightarrow> Step \<Rightarrow> inputs \<Rightarrow> (json, 'w) act" where
  "executeStep jerr exec session stp ins =
     (case Open stp of Some o1 \<Rightarrow> executeOpen exec session (substitute ins (o_URL o1))
      | None \<Rightarrow>
     (case Find stp of Some f \<Rightarrow> executeFind exec session f ins
      | None \<Rightarrow>
     (case Click stp of Some c \<Rightarrow> executeClick jerr exec session c
      | None \<Rightarrow>
     (case Fill stp of Some l \<Rightarrow> executeFill jerr exec session l ins
      | None \<Rightarrow>
     (case Step.Wait stp of Some w1 \<Rightarrow> executeWait exec session w1
      | None \<Rightarrow>
     (case Assert stp of Some a \<Rightarrow> executeAssert exec session a
      | None \<Rightarrow>
     (case Step.Snapshot stp of Some s \<Rightarrow> executeSnapshot exec session s
      | None \<Rightarrow> failure ''unsupported step'')))))))"

definition output_value :: "'w executor \<Rightarrow> string \<Rightarrow> Output \<Rightarrow> (string, 'w) act" where
  "output_value exec session out =
     (if OutFrom out = ''url'' then readOutputString exec session ''get.url'' (JObj [])
      else if OutFrom out = ''html'' then readOutputString exec session ''get.html'' (JObj [])
      else if OutFrom out = ''text'' then readOutputString exec session ''get.text'' (JObj [(''selector'', JStr (OutPath out))])
      else if OutFrom out = ''attribute'' then
        (case index_byte (OutPath out) (CHR ''@'') of
           None \<Rightarrow> failure (''output '' @ go_quote (OutName out) @ '': attribute path must be selector@attribute'')
         | Some i \<Rightarrow> readOutputString exec session ''get.attr''
                      (JObj [(''attribute'', JStr (drop (i + 1) (OutPath out))), (''selector'', JStr (take i (OutPath out)))]))
      else failure (''output '' @ go_quote (OutName out) @ '': unsupported source '' @ go_quote (OutFrom out)))"

fun extractOutputs_loop :: "'w executor \<Rightarrow> string \<Rightarrow> (string \<rightharpoonup> string) \<Rightarrow> Output list \<Rightarrow> (string \<rightharpoonup> string, 'w) act" where
  "extractOutputs_loop exec session m [] = return m"
| "extractOutputs_loop exec session m (out # outs) =
     and_then (map_error (\<lambda>e. ''extract output '' @ go_quote (OutName out) @ '': '' @ e) (output_value exec session out))
       (\<lambda>v. extractOutputs_loop exec session (m(OutName out \<mapsto> v)) outs)"

definition extractOutputs :: "'w executor \<Rightarrow> string \<Rightarrow> Flow \<Rightarrow> (string \<rightharpoonup> string, 'w) act" where
  "extractOutputs exec session flow = extractOutputs_loop exec session Map.empty (FlowSchema.Outputs flow)"

section \<open>Diagnosis\<close>

record Diagnosis =
  d_StepIndex :: nat
  d_Action :: string
  d_Selector :: string
  d_Expected :: string
  d_Actual :: string
  d_Message :: string
  d_SnapshotDiff :: string
  d_RepairSuggestion :: string

definition finderDescription :: "FindStep \<Rightarrow> string" where
  "finderDescription f =
     (case find (\<lambda>nv. snd nv \<noteq> []) [(''label'', f_Label f), (''role'', f_Role f), (''text'', f_Text f), (''placeholder'', f_Placeholder f),
             (''alt'', f_Alt f), (''title'', f_Title f), (''testid'', f_TestID f)] of
        Some nv \<Rightarrow> fst nv @ ''='' @ go_quote (snd nv)
      | None \<Rightarrow> [])"

definition selectorDescription :: "string list \<Rightarrow> string" where
  "selectorDescription vs = (case find (\<lambda>v. v \<noteq> []) vs of Some v \<Rightarrow> v | None \<Rightarrow> [])"

definition waitDescription :: "WaitStep \<Rightarrow> string" where
  "waitDescription w1 =
     (if w_URL w1 \<noteq> [] then ''url='' @ w_URL w1
      else if w_Visible w1 \<noteq> [] then ''visible='' @ w_Visible w1
      else ''ms='' @ int_str (w_Ms w1))"

definition assertDescription :: "AssertStep \<Rightarrow> string" where
  "assertDescription a =
     (if a_Visible a \<noteq> [] then ''visible='' @ a_Visible a
      else if a_URL a \<noteq> [] then ''url='' @ a_URL a
      else if a_Text a \<noteq> [] then ''text='' @ a_Text a
      else if a_Not a \<noteq> [] then ''not='' @ a_Not a
      else [])"

definition stepSelector :: "Step \<Rightarrow> string" where
  "stepSelector stp =
     (case Open stp of Some o1 \<Rightarrow> o_URL o1
      | None \<Rightarrow>
     (case Find stp of Some f \<Rightarrow> finderDescription f
      | None \<Rightarrow>
     (case Click stp of Some c \<Rightarrow> selectorDescription [c_Label c, c_Role c, c_Text c, c_Name c]
      | None \<Rightarrow>
     (case Fill stp of Some l \<Rightarrow> selectorDescription [l_Label l, l_Role l, l_Text l, l_Name l]
      | None \<Rightarrow>
     (case Step.Wait stp of Some w1 \<Rightarrow> waitDescription w1
      | None \<Rightarrow>
     (case Assert stp of Some a \<Rightarrow> assertDescription a
      | None \<Rightarrow> []))))))"

definition stepExpected :: "Step \<Rightarrow> string" where
  "stepExpected stp =
     (case Assert stp of Some a \<Rightarrow> assertDescription a
      | None \<Rightarrow>
     (case Step.Wait stp of Some w1 \<Rightarrow> waitDescription w1
      | None \<Rightarrow>
        if (case Find stp of Some f \<Rightarrow> f_Action f \<noteq> [] | None \<Rightarrow> False) then
          (let f = the (Find stp) in f_Action f @ '' '' @ finderDescription f)
        else if Click stp \<noteq> None then ''element clickable''
        else if Fill stp \<noteq> None then ''element fillable''
        else []))"

text \<open>An observation never fails; what cannot be read is left out.\<close>

definition observe_url :: "'w executor \<Rightarrow> string \<Rightarrow> 'w \<Rightarrow> string option \<times> 'w" where
  "observe_url exec session w =
     (case readOutputString exec session ''get.url'' (JObj []) w of
        (Inr v, w') \<Rightarrow> (Some (''url='' @ v), w')
      | (Inl _, w') \<Rightarrow> (None, w'))"

definition observeActual :: "'w executor \<Rightarrow> string \<Rightarrow> Step \<Rightarrow> 'w \<Rightarrow> string \<times> 'w" where
  "observeActual exec session stp w =
     (let first = (if (case Assert stp of Some a \<Rightarrow> a_URL a \<noteq> [] | None \<Rightarrow> False) then observe_url exec session w else (None, w)) in
      case first of
        (Some v, w1) \<Rightarrow> (v, w1)
      | (None, w1) \<Rightarrow>
          if (case Assert stp of Some a \<Rightarrow> a_Visible a \<noteq> [] | None \<Rightarrow> False) then (''element not found'', w1)
          else if Step.Wait stp \<noteq> None then
            (case observe_url exec session w1 of (Some v, w2) \<Rightarrow> (v, w2) | (None, w2) \<Rightarrow> ([], w2))
          else ([], w1))"

definition observeSnapshotDiff :: "'w executor \<Rightarrow> string \<Rightarrow> 'w \<Rightarrow> string \<times> 'w" where
  "observeSnapshotDiff exec session w =
     (case exec (frame_of session ''snapshot'' (snapshot_args False True)) w of
        (Inl _, w') \<Rightarrow> ([], w')
      | (Inr response, w') \<Rightarrow>
          (if \<not> RespSuccess response then ([], w')
           else (case object_fields (RespData response) of
                   Inl _ \<Rightarrow> ([], w')
                 | Inr obj \<Rightarrow>
                     (case string_field ''tree'' obj of Inl _ \<Rightarrow> ([], w') | Inr tree \<Rightarrow> (trim_space tree, w')))))"

definition em_dash :: string where
  "em_dash = [CHR 0xE2, CHR 0x80, CHR 0x94]"

definition repairSuggestion :: "Step \<Rightarrow> string \<Rightarrow> string \<Rightarrow> string" where
  "repairSuggestion stp message selector =
     (let lower = to_lower message in
      if Step.Wait stp \<noteq> None then
        ''the wait condition was not met; extend the wait or adjust the condition (url/visible/ms)''
      else if Assert stp \<noteq> None then
        ''the assertion failed; compare the expected state with the snapshot diff and adjust the selector or the assertion''
      else if Open stp \<noteq> None then
        (if contains lower ''not allowed'' then
           ''the URL domain is outside the flow'' @ [CHR 0x27] @ ''s domains list; add the domain or fix the URL''
         else ''the page could not be opened; check the URL and network reachability'')
      else if Find stp \<noteq> None \<or> Click stp \<noteq> None \<or> Fill stp \<noteq> None then
        (if contains lower ''matched no elements'' \<or> contains lower ''not found'' then
           ''selector '' @ go_quote selector
             @ '' matched no element; check the label/role/text against the current page (see snapshot diff)''
         else if contains lower ''matched %d'' \<or> contains lower ''matched'' \<and> contains lower ''elements'' then
           ''selector '' @ go_quote selector @ '' is ambiguous; add name=, exact: true, or a more specific role to disambiguate''
         else if contains lower ''obstructed'' \<or> contains lower ''covered'' \<or> contains lower ''overlay'' then
           ''another element covers the target; use a more specific selector or dismiss the overlay first''
         else if contains lower ''stale'' then
           ''the element ref is stale; the page changed between steps '' @ em_dash @ '' add a wait or snapshot step before this one''
         else ''verify the selector against the snapshot diff; the page may have changed'')
      else [])"

definition diagnoseFailure :: "'w executor \<Rightarrow> string \<Rightarrow> nat \<Rightarrow> Step \<Rightarrow> string \<Rightarrow> 'w \<Rightarrow> Diagnosis \<times> 'w" where
  "diagnoseFailure exec session i stp message w =
     (case observeActual exec session stp w of
        (actual, w1) \<Rightarrow>
          (case observeSnapshotDiff exec session w1 of
             (diff, w2) \<Rightarrow>
               (\<lparr>d_StepIndex = i, d_Action = FlowSchema.Action stp, d_Selector = stepSelector stp, d_Expected = stepExpected stp, d_Actual = actual,
                 d_Message = message, d_SnapshotDiff = diff, d_RepairSuggestion = repairSuggestion stp message (stepSelector stp)\<rparr>, w2)))"

section \<open>Runs\<close>

record StepRun =
  sr_Index :: nat
  sr_Action :: string
  sr_RiskClass :: RiskClass
  sr_Success :: bool
  sr_Error :: string
  sr_Data :: json
  sr_DurationMS :: int

record RunPlanItem =
  rp_Index :: nat
  rp_Action :: string
  rp_RiskClass :: RiskClass

record RunReport =
  rr_FlowID :: string
  rr_Name :: string
  rr_Version :: int
  rr_DryRun :: bool
  rr_Steps :: "StepRun list"
  rr_Plan :: "RunPlanItem list"
  rr_Outputs :: "string \<rightharpoonup> string"
  rr_Success :: bool
  rr_Error :: string
  rr_DurationMS :: int

datatype flow_error = PlainError string | StepError RunError Diagnosis

definition riskForStep :: "Step \<Rightarrow> RiskClass" where
  "riskForStep stp =
     (if FlowSchema.Action stp \<in> set [''open'', ''wait''] then ClassForCommand ''open''
      else if FlowSchema.Action stp \<in> set [''find'', ''click'', ''fill''] then ClassForCommand ''click''
      else ClassRead)"

definition buildPlan :: "Flow \<Rightarrow> RunPlanItem list" where
  "buildPlan flow = map (\<lambda>(i, s). \<lparr>rp_Index = i, rp_Action = FlowSchema.Action s, rp_RiskClass = riskForStep s\<rparr>) (enumerate 0 (Steps flow))"

definition since_ms :: "('w \<Rightarrow> go_time) \<Rightarrow> 'w \<Rightarrow> 'w \<Rightarrow> int" where
  "since_ms clk w w' = (clk w' - clk w) div millisecond"

definition new_report :: "string \<Rightarrow> Flow \<Rightarrow> bool \<Rightarrow> RunReport" where
  "new_report flowID flow dry = \<lparr>rr_FlowID = flowID, rr_Name = Name flow, rr_Version = Version flow, rr_DryRun = dry, rr_Steps = [],
     rr_Plan = [], rr_Outputs = Map.empty, rr_Success = False, rr_Error = [], rr_DurationMS = 0\<rparr>"

text \<open>The loop over the steps: the records of the steps that ran, and the error and index of the one that
  failed.\<close>

fun run_steps ::
  "('w \<Rightarrow> go_time) \<Rightarrow> (json \<Rightarrow> string) \<Rightarrow> 'w executor \<Rightarrow> orders \<Rightarrow> string \<Rightarrow> inputs \<Rightarrow> StepRun list \<Rightarrow> (nat \<times> Step) list \<Rightarrow> 'w
     \<Rightarrow> (StepRun list \<times> (nat \<times> Step \<times> string) option) \<times> 'w" where
  "run_steps clk jerr exec perm session ins acc [] w = ((acc, None), w)"
| "run_steps clk jerr exec perm session ins acc ((i, stp) # rest) w =
     (case executeStep jerr exec session stp (perm Executing i ins) w of
        (Inl err, w') \<Rightarrow>
          ((acc @ [\<lparr>sr_Index = i, sr_Action = FlowSchema.Action stp, sr_RiskClass = riskForStep stp, sr_Success = False, sr_Error = err,
                    sr_Data = JNull, sr_DurationMS = since_ms clk w w'\<rparr>], Some (i, stp, err)), w')
      | (Inr data, w') \<Rightarrow>
          run_steps clk jerr exec perm session ins
            (acc @ [\<lparr>sr_Index = i, sr_Action = FlowSchema.Action stp, sr_RiskClass = riskForStep stp, sr_Success = True, sr_Error = [],
                    sr_Data = data, sr_DurationMS = since_ms clk w w'\<rparr>]) rest w')"

definition step_failure :: "nat \<Rightarrow> Step \<Rightarrow> string \<Rightarrow> Diagnosis \<Rightarrow> flow_error" where
  "step_failure i stp err d =
     StepError \<lparr>re_StepIndex = i, re_Action = FlowSchema.Action stp, re_Message = err, re_Hint = d_RepairSuggestion d\<rparr> d"

definition Run ::
  "('w \<Rightarrow> go_time) \<Rightarrow> (json \<Rightarrow> string) \<Rightarrow> (string \<Rightarrow> string option) \<Rightarrow> string \<Rightarrow> orders \<Rightarrow> 'w executor \<Rightarrow> Flow \<Rightarrow> inputs \<Rightarrow> string \<Rightarrow> bool \<Rightarrow> 'w
     \<Rightarrow> (RunReport option \<times> flow_error option) \<times> 'w" where
  "Run clk jerr parseURL flowID perm exec flow ins session dry w =
     (case resolveInputs flow ins of
        Inl err \<Rightarrow> ((None, Some (PlainError err)), w)
      | Inr resolved \<Rightarrow>
          (let report = new_report flowID flow dry in
           if dry then ((Some (report\<lparr>rr_Plan := buildPlan flow, rr_Success := True, rr_DurationMS := since_ms clk w w\<rparr>), None), w)
           else (case enforceDomains parseURL perm flow resolved of
             Some runErr \<Rightarrow>
               (case diagnoseFailure exec session (re_StepIndex runErr) (Steps flow ! re_StepIndex runErr) (RunError_text runErr) w of
                  (diagnosis, w') \<Rightarrow> ((None, Some (StepError runErr diagnosis)), w'))
           | None \<Rightarrow>
               (case run_steps clk jerr exec perm session resolved [] (enumerate 0 (Steps flow)) w of
                  ((runs, Some (i, stp, err)), w1) \<Rightarrow>
                    (case diagnoseFailure exec session i stp err w1 of
                       (diagnosis, w2) \<Rightarrow>
                         ((Some (report\<lparr>rr_Steps := runs, rr_Success := False, rr_Error := err, rr_DurationMS := since_ms clk w w1\<rparr>),
                           Some (step_failure i stp err diagnosis)), w2))
                | ((runs, None), w1) \<Rightarrow>
                    (case extractOutputs exec session flow w1 of
                       (Inl err, w2) \<Rightarrow>
                         ((Some (report\<lparr>rr_Steps := runs, rr_Success := False, rr_Error := err, rr_DurationMS := since_ms clk w w2\<rparr>),
                           Some (PlainError err)), w2)
                     | (Inr outputs, w2) \<Rightarrow>
                         ((Some (report\<lparr>rr_Steps := runs, rr_Outputs := outputs, rr_Success := True,
                             rr_DurationMS := since_ms clk w w2\<rparr>), None), w2))))))"

section \<open>Globs\<close>

definition piece_ok :: "glob_token \<Rightarrow> int list \<Rightarrow> bool" where
  "piece_ok t p = (case t of Literal l \<Rightarrow> p = l | _ \<Rightarrow> list_all (token_rune t) p)"

text \<open>The texts a list of tokens denotes: one piece per token, one after the other.\<close>

primrec denotes :: "glob_token list \<Rightarrow> int list \<Rightarrow> bool" where
  "denotes [] rs = (rs = [])"
| "denotes (t # ts) rs = (\<exists>p q. rs = p @ q \<and> piece_ok t p \<and> denotes ts q)"

lemma star_pieces:
  "(\<exists>p q. r # rs = p @ q \<and> list_all T p \<and> D q) \<longleftrightarrow> D (r # rs) \<or> T r \<and> (\<exists>p q. rs = p @ q \<and> list_all T p \<and> D q)"
  (is "?L \<longleftrightarrow> ?R")
proof
  assume ?L
  then show ?R by (auto simp: Cons_eq_append_conv) blast
next
  assume ?R
  then show ?L
  proof
    assume "D (r # rs)"
    then have "r # rs = [] @ (r # rs) \<and> list_all T [] \<and> D (r # rs)" by simp
    then show ?L by blast
  next
    assume "T r \<and> (\<exists>p q. rs = p @ q \<and> list_all T p \<and> D q)"
    then obtain p q where "r # rs = (r # p) @ q \<and> list_all T (r # p) \<and> D q" by auto
    then show ?L by blast
  qed
qed

lemma match_tokens_denotes: "match_tokens ts rs \<longleftrightarrow> denotes ts rs"
proof (induction ts rs rule: match_tokens.induct)
  case (2 l ts rs)
  then show ?case by (auto simp: piece_ok_def prefix_def)
qed (simp_all add: piece_ok_def star_pieces)

fun token_text :: "glob_token \<Rightarrow> string" where
  "token_text AnyRunes = ''**''"
| "token_text SegmentRunes = ''*''"
| "token_text (Literal l) = encode l"

lemma to_valid_cut: "byte c < 0x80 \<Longrightarrow> to_valid (a @ c # b) = to_valid a @ to_valid (c # b)"
  by (simp add: to_valid_def runes_ascii_cut encode_def)

lemma to_valid_ascii: "byte c < 0x80 \<Longrightarrow> to_valid (c # b) = c # to_valid b"
proof -
  assume c: "byte c < 0x80"
  then have "runes (c # b) = byte c # runes b" by (subst runes.simps) (simp add: decode_rune_def Let_def)
  moreover have "encode_rune (byte c) = [c]" using c byte_range [of c] by (simp add: encode_ascii byte_def)
  ultimately show ?thesis by (simp add: to_valid_def encode_def)
qed

lemma index_star:
  "index_any s ''*'' = None \<longleftrightarrow> CHR ''*'' \<notin> set s"
  "index_any s ''*'' = Some n \<Longrightarrow> s = take n s @ CHR ''*'' # drop (Suc n) s \<and> drop n s = CHR ''*'' # drop (Suc n) s"
  by (auto simp: index_any_None dest!: index_any_Some) (metis id_take_nth_drop, metis Cons_nth_drop_Suc)

lemma glob_tokens_text: "concat (map token_text (glob_tokens s)) = to_valid s"
proof (induction s rule: glob_tokens.induct)
  case (1 s)
  have star: "byte (CHR ''*'') < 0x80" by code_simp
  consider "s = []" | t where "s = ''**'' @ t" | t where "s = CHR ''*'' # t" "\<not> has_prefix s ''**''"
    | "s \<noteq> []" "\<not> has_prefix s ''*''"
    by (cases "has_prefix s ''*''") (auto simp: prefix_def)
  then show ?case
  proof cases
    case 1
    then show ?thesis by (simp add: glob_tokens.simps to_valid_def encode_def)
  next
    case 2
    then show ?thesis using 1(1) by (simp add: glob_tokens.simps [of "CHR ''*'' # CHR ''*'' # t"] to_valid_ascii star)
  next
    case 3
    then show ?thesis using 1(2) by (simp add: glob_tokens.simps [of "CHR ''*'' # t"] to_valid_ascii star)
  next
    case 4
    then have n: "\<not> has_prefix s ''**''" by (cases s) auto
    show ?thesis
    proof (cases "index_any s ''*''")
      case None
      then show ?thesis using 4 n by (simp add: glob_tokens.simps [of s] to_valid_def)
    next
      case (Some i)
      note s = index_star(2) [OF Some]
      have "to_valid s = to_valid (take i s) @ to_valid (drop i s)" using to_valid_cut [OF star] s by metis
      moreover have "concat (map token_text (glob_tokens (drop i s))) = to_valid (drop i s)" using 1(3) [OF 4(1) n 4(2) Some] .
      ultimately show ?thesis using 4 n Some by (simp add: glob_tokens.simps [of s] to_valid_def)
    qed
  qed
qed

text \<open>A valid glob matches a URL exactly when the URL is a sequence of pieces, one for each token of the
  pattern, and the tokens spell the pattern: \<open>**\<close> stands for runes other than newlines, \<open>*\<close> for runes
  other than slashes, everything else for itself. An invalid glob matches nothing.\<close>

theorem globMatch_spec:
  "(globMatch pattern val \<longleftrightarrow> to_valid pattern = pattern \<and> denotes (glob_tokens pattern) (runes val))
   \<and> concat (map token_text (glob_tokens pattern)) = to_valid pattern"
  by (simp add: globMatch_def match_tokens_denotes glob_tokens_text)

section \<open>Inputs\<close>

definition supplied :: "inputs \<Rightarrow> string \<Rightarrow> bool" where
  "supplied ins n \<longleftrightarrow> map_of ins n \<noteq> None"

definition collected :: "inputs \<Rightarrow> string set \<times> string list \<Rightarrow> bool" where
  "collected ins st \<longleftrightarrow> (snd st = [] \<longrightarrow> (\<forall>n \<in> fst st. supplied ins n))"

lemma collect_names_exact:
  "collected ins st \<Longrightarrow> collected ins (collect_names ins st names)
     \<and> (snd (collect_names ins st names) = [] \<longleftrightarrow> snd st = [] \<and> (\<forall>n \<in> set names. supplied ins n))"
proof (induction ins st names rule: collect_names.induct)
  case (2 ins seen missing name names)
  show ?case
  proof (cases "name \<in> seen")
    case True
    then show ?thesis using 2(1) [OF True] 2(3) by (auto simp: collected_def)
  next
    case False
    have "collected ins (insert name seen, if map_of ins name = None then missing @ [name] else missing)"
      using 2(3) by (auto simp: collected_def supplied_def)
    then show ?thesis using 2(2) [OF False] False by (auto simp: supplied_def)
  qed
qed simp

definition step_supplied :: "inputs \<Rightarrow> Step \<Rightarrow> bool" where
  "step_supplied ins s \<longleftrightarrow> (\<forall>v. step_template s = Some v \<longrightarrow> (\<forall>n \<in> set (inputReferences v). supplied ins n))"

lemma collect_steps_exact:
  "collected ins st \<Longrightarrow> snd (foldl (collect_step ins) st ss) = [] \<longleftrightarrow> snd st = [] \<and> (\<forall>s \<in> set ss. step_supplied ins s)"
proof (induction ss arbitrary: st)
  case (Cons s ss)
  have "collected ins (collect_step ins st s) \<and> (snd (collect_step ins st s) = [] \<longleftrightarrow> snd st = [] \<and> step_supplied ins s)"
    using collect_names_exact [OF Cons.prems] Cons.prems by (auto simp: collect_step_def step_supplied_def split: option.splits)
  then show ?case using Cons.IH [of "collect_step ins st s"] by auto
qed simp

lemma missing_inputs_exact:
  "missing_inputs flow ins = [] \<longleftrightarrow> (\<forall>n \<in> set (Inputs flow). supplied ins n) \<and> (\<forall>s \<in> set (Steps flow). step_supplied ins s)"
  unfolding missing_inputs_def
  by (subst collect_steps_exact) (auto simp: collected_def filter_empty_conv supplied_def)

section \<open>The frames a run sends\<close>

text \<open>An executor that also keeps the frames it was given.\<close>

definition logged :: "'w executor \<Rightarrow> (Frame list \<times> 'w) executor" where
  "logged exec f lw = (case exec f (snd lw) of (r, w') \<Rightarrow> (r, fst lw @ [f], w'))"

text \<open>The log of one state continues that of another by frames of which \<open>P\<close> holds.\<close>

definition extends :: "(Frame \<Rightarrow> bool) \<Rightarrow> Frame list \<times> 'w \<Rightarrow> Frame list \<times> 'w \<Rightarrow> bool" where
  "extends P lw lw' \<longleftrightarrow> (\<exists>fs. fst lw' = fst lw @ fs \<and> list_all P fs)"

definition sends :: "(Frame \<Rightarrow> bool) \<Rightarrow> (Frame list \<times> 'w \<Rightarrow> 'a \<times> Frame list \<times> 'w) \<Rightarrow> bool" where
  "sends P a \<longleftrightarrow> (\<forall>lw. extends P lw (snd (a lw)))"

lemma extends_refl [simp]: "extends P lw lw"
  by (simp add: extends_def)

lemma extends_trans:
  assumes "extends P lw lw1" and "extends P lw1 lw2" shows "extends P lw lw2"
proof -
  from assms obtain fs gs where "fst lw2 = fst lw @ (fs @ gs)" "list_all P (fs @ gs)" by (auto simp: extends_def)
  then show ?thesis unfolding extends_def by blast
qed

lemma sendsI: "(\<And>lw. extends P lw (snd (a lw))) \<Longrightarrow> sends P a"
  by (simp add: sends_def)

lemma sendsD: "sends P a \<Longrightarrow> a lw = (r, lw') \<Longrightarrow> extends P lw lw'"
  by (metis sends_def snd_conv)

lemma sends_exec: "P f \<Longrightarrow> sends P (logged exec f)"
  by (auto simp: sends_def extends_def logged_def split: prod.splits)

lemma sends_request:
  assumes "P (frame_of session cmd args)" shows "sends P (request (logged exec) session cmd args)"
proof (rule sendsI)
  fix lw
  obtain r lw' where l: "logged exec (frame_of session cmd args) lw = (r, lw')" by (rule prod.exhaust)
  moreover have "snd (request (logged exec) session cmd args lw) = lw'"
    using l by (simp add: request_def split: sum.splits)
  ultimately show "extends P lw (snd (request (logged exec) session cmd args lw))"
    using sendsD [OF sends_exec [of P, OF assms] l] by simp
qed

lemma sends_and_then:
  assumes "sends P a" and "\<And>x. sends P (f x)" shows "sends P (and_then a f)"
proof (rule sendsI)
  fix lw
  obtain r lw1 where a: "a lw = (r, lw1)" by (rule prod.exhaust)
  have "extends P lw1 (snd (f x lw1))" for x using assms(2) unfolding sends_def by blast
  then have "extends P lw1 (snd (and_then a f lw))" using a by (cases r) (simp_all add: and_then_def)
  then show "extends P lw (snd (and_then a f lw))" by (rule extends_trans [OF sendsD [OF assms(1) a]])
qed

lemma sends_same: "sends P a \<Longrightarrow> (\<And>lw. snd (b lw) = snd (a lw)) \<Longrightarrow> sends P b"
  by (simp add: sends_def)

lemma sends_basic: "sends P (return x)" "sends P (failure e)" "sends P (lift_result r)" "sends P a \<Longrightarrow> sends P (map_error g a)"
  by (auto simp: return_def failure_def lift_result_def sends_def map_error_def split: prod.splits) (metis fst_conv snd_conv)

lemma sends_read: "P (frame_of session cmd args) \<Longrightarrow> sends P (readOutputString (logged exec) session cmd args)"
  unfolding readOutputString_def by (intro sends_and_then sends_request sends_basic)

text \<open>A condition on frames that only \<open>open\<close> frames can break: everything a run does but \<open>executeOpen\<close>
  keeps it.\<close>

locale open_guard =
  fixes ok :: "Frame \<Rightarrow> bool"
  assumes other: "Cmd f \<noteq> ''open'' \<Longrightarrow> ok f"
begin

lemma other_frame: "cmd \<noteq> ''open'' \<Longrightarrow> ok (frame_of session cmd args)"
  by (rule other) (simp add: frame_of_def)

lemma find_scroll_act_sends: "action \<noteq> ''open'' \<Longrightarrow> sends ok (find_scroll_act jerr (logged exec) session q action val)"
  unfolding find_scroll_act_def by (intro sends_and_then sends_request sends_basic other_frame) auto

lemma executeAssert_sends: "sends ok (executeAssert (logged exec) session a)"
proof -
  have find: "sends ok (request (logged exec) session ''find'' q)" for q by (intro sends_request other_frame) simp
  have neg: "sends ok (\<lambda>w. case request (logged exec) session ''find'' q w of
        (Inr x, w') \<Rightarrow> (Inl e, w') | (Inl x, w') \<Rightarrow> (Inr d, w'))" for q and e :: string and d :: json
    by (rule sends_same [OF find [of q]]) (auto split: prod.splits sum.splits)
  show ?thesis
    unfolding executeAssert_def Let_def
    by (auto intro!: sends_and_then sends_request sends_basic find neg other_frame)
qed

lemma other_step_sends: "Open s = None \<Longrightarrow> sends ok (executeStep jerr (logged exec) session s ins)"
  unfolding executeStep_def executeFind_def executeClick_def executeFill_def executeWait_def executeSnapshot_def
  by (auto split: option.splits intro!: executeAssert_sends sends_request sends_basic other_frame find_scroll_act_sends)

lemma extractOutputs_loop_sends: "sends ok (extractOutputs_loop (logged exec) session m outs)"
proof (induction outs arbitrary: m)
  case (Cons out outs)
  have "sends ok (output_value (logged exec) session out)"
    unfolding output_value_def by (auto split: option.splits intro!: sends_read sends_basic other_frame)
  with Cons show ?case by (auto intro!: sends_and_then sends_basic)
qed (simp add: sends_basic)

lemma observe_url_sends: "sends ok (observe_url (logged exec) session)"
  by (rule sends_same [OF sends_read [of ok session "''get.url''" "JObj []" exec]])
    (auto simp: observe_url_def other_frame split: prod.splits sum.splits)

lemma observeActual_sends: "sends ok (observeActual (logged exec) session s)"
proof (rule sendsI)
  fix lw
  let ?url = "case Assert s of Some a \<Rightarrow> a_URL a \<noteq> [] | None \<Rightarrow> False"
  obtain v lw1 where first: "(if ?url then observe_url (logged exec) session lw else (None, lw)) = (v, lw1)" by (rule prod.exhaust)
  then have 1: "extends ok lw lw1" by (cases ?url) (simp_all add: sendsD [OF observe_url_sends])
  obtain u lw2 where second: "observe_url (logged exec) session lw1 = (u, lw2)" by (rule prod.exhaust)
  have 2: "extends ok lw1 lw2" by (rule sendsD [OF observe_url_sends second])
  have "snd (observeActual (logged exec) session s lw) \<in> {lw1, lw2}"
    using first second by (auto simp: observeActual_def Let_def split: option.splits)
  then show "extends ok lw (snd (observeActual (logged exec) session s lw))" using 1 extends_trans [OF 1 2] by auto
qed

lemma observeSnapshotDiff_sends: "sends ok (observeSnapshotDiff (logged exec) session)"
  by (rule sends_same [OF sends_exec [of ok "frame_of session ''snapshot'' (snapshot_args False True)" exec]])
    (auto simp: observeSnapshotDiff_def other_frame split: prod.splits sum.splits)

lemma diagnoseFailure_sends: "sends ok (diagnoseFailure (logged exec) session i s msg)"
proof (rule sendsI)
  fix lw
  obtain a lw1 where a: "observeActual (logged exec) session s lw = (a, lw1)" by (rule prod.exhaust)
  obtain d lw2 where d: "observeSnapshotDiff (logged exec) session lw1 = (d, lw2)" by (rule prod.exhaust)
  have "extends ok lw lw2"
    by (rule extends_trans [OF sendsD [OF observeActual_sends a] sendsD [OF observeSnapshotDiff_sends d]])
  then show "extends ok lw (snd (diagnoseFailure (logged exec) session i s msg lw))" using a d by (simp add: diagnoseFailure_def)
qed

lemma run_steps_sends:
  "(\<And>i s. (i, s) \<in> set iss \<Longrightarrow> sends ok (executeStep jerr (logged exec) session s (perm Executing i ins))) \<Longrightarrow>
   extends ok lw (snd (run_steps clk jerr (logged exec) perm session ins acc iss lw))"
proof (induction iss arbitrary: acc lw)
  case (Cons e iss)
  obtain i s where e: "e = (i, s)" by fastforce
  obtain r lw1 where x: "executeStep jerr (logged exec) session s (perm Executing i ins) lw = (r, lw1)" by (rule prod.exhaust)
  have "extends ok lw lw1" by (rule sendsD [OF Cons.prems x]) (simp add: e)
  moreover have "extends ok lw1 (snd (run_steps clk jerr (logged exec) perm session ins acc (e # iss) lw))"
    using Cons.IH Cons.prems x e by (cases r) auto
  ultimately show ?case by (rule extends_trans)
qed simp

end

section \<open>Properties\<close>

text \<open>Frames that open a URL the flow's domains allow.\<close>

definition in_domains :: "(string \<Rightarrow> string option) \<Rightarrow> string list \<Rightarrow> Frame \<Rightarrow> bool" where
  "in_domains parseURL domains f \<longleftrightarrow>
     (Cmd f = ''open'' \<longrightarrow> (\<exists>url host. Args f = Some (JObj [(''url'', JStr url)]) \<and> parseURL url = Some host \<and> domainAllowed host domains))"

interpretation dg: open_guard "in_domains parseURL domains" for parseURL domains
  by unfold_locales (simp add: in_domains_def)

lemma enforceDomains_loop_ok:
  "enforceDomains_loop parseURL perm domains ins iss = None \<Longrightarrow> (i, s) \<in> set iss \<Longrightarrow> Open s = Some o1 \<Longrightarrow>
     open_error parseURL domains i (substitute (perm Checking i ins) (o_URL o1)) = None"
  by (induction iss) (auto split: option.splits)

lemma open_error_None: "open_error parseURL domains i url = None \<Longrightarrow> \<exists>host. parseURL url = Some host \<and> domainAllowed host domains"
  by (auto simp: open_error_def Let_def split: option.splits if_splits)

text \<open>The order in which the inputs are substituted does not matter for the URLs of the flow.\<close>

definition stable_urls :: "orders \<Rightarrow> inputs \<Rightarrow> Flow \<Rightarrow> bool" where
  "stable_urls perm ins flow \<longleftrightarrow>
     list_all (\<lambda>(i, s). case Open s of None \<Rightarrow> True
       | Some o1 \<Rightarrow> substitute (perm Executing i ins) (o_URL o1) = substitute (perm Checking i ins) (o_URL o1)) (enumerate 0 (Steps flow))"

lemma executeStep_in_domains:
  assumes "enforceDomains parseURL perm flow ins = None" and "stable_urls perm ins flow" and "(i, s) \<in> set (enumerate 0 (Steps flow))"
  shows "sends (in_domains parseURL (FlowDomains flow)) (executeStep jerr (logged exec) session s (perm Executing i ins))"
proof (cases "Open s")
  case None
  then show ?thesis by (rule dg.other_step_sends)
next
  case (Some o1)
  have "substitute (perm Executing i ins) (o_URL o1) = substitute (perm Checking i ins) (o_URL o1)"
    using assms(2,3) Some by (auto simp: stable_urls_def list_all_iff)
  moreover have "open_error parseURL (FlowDomains flow) i (substitute (perm Checking i ins) (o_URL o1)) = None"
    using enforceDomains_loop_ok [OF _ assms(3) Some] assms(1) by (simp add: enforceDomains_def)
  ultimately have "in_domains parseURL (FlowDomains flow)
      (frame_of session ''open'' (JObj [(''url'', JStr (substitute (perm Executing i ins) (o_URL o1)))]))"
    using open_error_None by (fastforce simp: in_domains_def frame_of_def)
  then show ?thesis using Some by (simp add: executeStep_def executeOpen_def sends_request)
qed

lemma Run_missing:
  "missing_inputs flow ins \<noteq> [] \<Longrightarrow> \<exists>msg. Run clk jerr parseURL flowID perm exec flow ins session dry w = ((None, Some (PlainError msg)), w)"
  by (simp add: Run_def resolveInputs_def Let_def)

lemma Run_dry:
  "missing_inputs flow ins = [] \<Longrightarrow> Run clk jerr parseURL flowID perm exec flow ins session True w =
     ((Some ((new_report flowID flow True)\<lparr>rr_Plan := buildPlan flow, rr_Success := True, rr_DurationMS := since_ms clk w w\<rparr>), None), w)"
  by (simp add: Run_def resolveInputs_def Let_def)

lemma Run_quiet: "missing_inputs flow ins \<noteq> [] \<or> dry \<Longrightarrow> snd (Run clk jerr parseURL flowID perm exec flow ins session dry w) = w"
  using Run_missing [of flow ins clk jerr parseURL flowID perm exec session dry w]
    Run_dry [of flow ins clk jerr parseURL flowID perm exec session w]
  by (cases "missing_inputs flow ins = []") auto


definition demo_find :: FindStep where
  "demo_find = \<lparr>f_Label = [], f_Role = ''button'', f_Text = [], f_Placeholder = [], f_Alt = [], f_Title = [], f_TestID = [],
     f_Action = ''click'', f_Value = [], f_Exact = False\<rparr>"

definition run_demo :: Flow where
  "run_demo = \<lparr>Name = ''demo'', Version = 1, FlowDomains = [''*.example.com''], Inputs = [''q''],
     Steps = [no_step\<lparr>Open := Some \<lparr>o_URL = ''https://www.example.com/{{q}}''\<rparr>\<rparr>, no_step\<lparr>Find := Some demo_find\<rparr>],
     Outputs = [\<lparr>OutName = ''where'', OutFrom = ''url'', OutPath = []\<rparr>], FlowSource = []\<rparr>"

definition demo_host :: "string \<Rightarrow> string option" where
  "demo_host url = (if has_prefix url ''https://www.example.com/'' then Some ''www.example.com'' else None)"

definition demo_exec :: "unit executor" where
  "demo_exec f w = (Inr \<lparr>RespSuccess = True, RespData = JStr ''done'', RespError = None\<rparr>, w)"

abbreviation demo_run :: "Frame list \<times> unit \<Rightarrow> (RunReport option \<times> flow_error option) \<times> Frame list \<times> unit" where
  "demo_run \<equiv> Run (\<lambda>_. 0) (\<lambda>_. []) demo_host ''id'' (\<lambda>_ _ i. i) (logged demo_exec) run_demo [(''q'', ''find'')] ''s'' False"


text \<open>Nothing is sent before the inputs are known: a run succeeds in resolving its inputs exactly when every
  declared input and every reference in a value it will use is supplied, otherwise it returns an error
  and no report without touching the page. A dry run reports the plan of all steps and touches nothing.\<close>

theorem inputs_come_first:
  "(missing_inputs flow ins = [] \<longleftrightarrow> (\<forall>n \<in> set (Inputs flow). supplied ins n)
       \<and> (\<forall>s \<in> set (Steps flow). \<forall>v. step_template s = Some v \<longrightarrow> (\<forall>n \<in> set (inputReferences v). supplied ins n)))
   \<and> (missing_inputs flow ins \<noteq> [] \<longrightarrow>
       (\<exists>msg. Run clk jerr parseURL flowID perm exec flow ins session dry w = ((None, Some (PlainError msg)), w)))
   \<and> (missing_inputs flow ins = [] \<longrightarrow>
       (\<exists>rep. Run clk jerr parseURL flowID perm exec flow ins session True w = ((Some rep, None), w)
          \<and> rr_Success rep \<and> rr_Steps rep = [] \<and> map rp_Index (rr_Plan rep) = [0..<length (Steps flow)]
          \<and> map rp_Action (rr_Plan rep) = map FlowSchema.Action (Steps flow)))"
proof -
  have "map (\<lambda>x. f (snd x)) (enumerate n xs) = map f xs" for f :: "Step \<Rightarrow> string" and n xs by (induction xs arbitrary: n) simp_all
  then have "map rp_Index (buildPlan flow) = [0..<length (Steps flow)]" "map rp_Action (buildPlan flow) = map FlowSchema.Action (Steps flow)"
    by (simp_all add: buildPlan_def comp_def case_prod_beta)
  then show ?thesis
    using missing_inputs_exact [of flow ins] Run_missing [of flow ins clk jerr parseURL flowID perm exec session dry w]
      Run_dry [of flow ins clk jerr parseURL flowID perm exec session w]
    by (simp add: step_supplied_def new_report_def)
qed

theorem inputs_come_first_witness:
  "\<exists>msg. Run (\<lambda>_. 0) (\<lambda>_. []) demo_host ''id'' (\<lambda>_ _ i. i) demo_exec run_demo [] ''s'' False () = ((None, Some (PlainError msg)), ())"
proof -
  have "missing_inputs run_demo [] \<noteq> []" by code_simp
  then show ?thesis
    using inputs_come_first [of run_demo "[]" "\<lambda>_. 0" "\<lambda>_. []" demo_host "''id''" "\<lambda>_ _ i. i" demo_exec "''s''" False "()"] by blast
qed

section \<open>What a report says\<close>

definition run_ok :: "nat \<Rightarrow> StepRun list \<Rightarrow> bool" where
  "run_ok n rs \<longleftrightarrow> map sr_Index rs = [0..<n] \<and> (\<forall>r \<in> set rs. sr_Success r)"

lemma run_steps_shape:
  assumes "run_ok (length acc) acc"
    and "run_steps clk jerr exec perm session ins acc (enumerate (length acc) ss) w = ((runs, bad), w')"
  shows "(bad = None \<longrightarrow> run_ok (length acc + length ss) runs)
     \<and> (\<forall>i s err. bad = Some (i, s, err) \<longrightarrow> (\<exists>rs r. runs = rs @ [r] \<and> run_ok i rs \<and> i < length acc + length ss
           \<and> sr_Index r = i \<and> \<not> sr_Success r \<and> sr_Error r = err))"
  using assms
proof (induction ss arbitrary: acc w)
  case (Cons s ss)
  obtain r w1 where x: "executeStep jerr exec session s (perm Executing (length acc) ins) w = (r, w1)" by (rule prod.exhaust)
  show ?case
  proof (cases r)
    case (Inl err)
    then show ?thesis using Cons.prems x by auto
  next
    case (Inr d)
    let ?r = "\<lparr>sr_Index = length acc, sr_Action = FlowSchema.Action s, sr_RiskClass = riskForStep s, sr_Success = True, sr_Error = [],
        sr_Data = d, sr_DurationMS = since_ms clk w w1\<rparr>"
    have "run_ok (length (acc @ [?r])) (acc @ [?r])" using Cons.prems(1) by (simp add: run_ok_def)
    moreover have "run_steps clk jerr exec perm session ins (acc @ [?r]) (enumerate (length (acc @ [?r])) ss) w1 = ((runs, bad), w')"
      using Cons.prems(2) x Inr by simp
    ultimately show ?thesis using Cons.IH [of "acc @ [?r]" w1] by simp
  qed
qed simp

lemma Run_live:
  assumes "missing_inputs flow ins = []" and "enforceDomains parseURL perm flow ins = None"
    and "run_steps clk jerr exec perm session ins [] (enumerate 0 (Steps flow)) w = ((runs, bad), w1)"
  shows "bad = None \<Longrightarrow> extractOutputs exec session flow w1 = (Inl e, w2) \<Longrightarrow>
      Run clk jerr parseURL flowID perm exec flow ins session False w =
        ((Some ((new_report flowID flow False)\<lparr>rr_Steps := runs, rr_Success := False, rr_Error := e, rr_DurationMS := since_ms clk w w2\<rparr>),
          Some (PlainError e)), w2)"
    and "bad = None \<Longrightarrow> extractOutputs exec session flow w1 = (Inr outs, w2) \<Longrightarrow>
      Run clk jerr parseURL flowID perm exec flow ins session False w =
        ((Some ((new_report flowID flow False)\<lparr>rr_Steps := runs, rr_Outputs := outs, rr_Success := True, rr_DurationMS := since_ms clk w w2\<rparr>),
          None), w2)"
    and "bad = Some (i, s, e) \<Longrightarrow> diagnoseFailure exec session i s e w1 = (d, w2) \<Longrightarrow>
      Run clk jerr parseURL flowID perm exec flow ins session False w =
        ((Some ((new_report flowID flow False)\<lparr>rr_Steps := runs, rr_Success := False, rr_Error := e, rr_DurationMS := since_ms clk w w1\<rparr>),
          Some (step_failure i s e d)), w2)"
  using assms by (simp_all add: Run_def resolveInputs_def Let_def)

lemma Run_reports:
  assumes "Run clk jerr parseURL flowID perm exec flow ins session False w = ((Some rep, err), w')"
  shows "missing_inputs flow ins = []" and "enforceDomains parseURL perm flow ins = None"
proof -
  show m: "missing_inputs flow ins = []"
    using Run_missing [of flow ins clk jerr parseURL flowID perm exec session False w] assms by (cases "missing_inputs flow ins = []") auto
  show "enforceDomains parseURL perm flow ins = None"
  proof (rule ccontr)
    assume "enforceDomains parseURL perm flow ins \<noteq> None"
    then have "fst (fst (Run clk jerr parseURL flowID perm exec flow ins session False w)) = None"
      using m by (auto simp: Run_def resolveInputs_def Let_def split: prod.splits)
    then show False using assms by simp
  qed
qed

lemma extractOutputs_loop_dom:
  "extractOutputs_loop exec session m outs w = (Inr res, w') \<Longrightarrow> dom res = dom m \<union> OutName ` set outs"
proof (induction outs arbitrary: m w)
  case (Cons out outs)
  then show ?case by (auto simp: and_then_def split: prod.splits sum.splits dest!: Cons.IH)
qed (simp add: return_def)

text \<open>The report of a run that was not a dry run tells the truth: the recorded steps are the first ones of
  the flow in order, all but possibly the last succeeded, and the report claims success exactly when
  there is no error, which means every step of the flow ran and succeeded and every declared output was
  read. A step error names the last recorded step.\<close>

theorem report_is_faithful:
  assumes "Run clk jerr parseURL flowID perm exec flow ins session False w = ((Some rep, err), w')"
  shows "(rr_Success rep \<longleftrightarrow> err = None)
     \<and> map sr_Index (rr_Steps rep) = [0..<length (rr_Steps rep)] \<and> length (rr_Steps rep) \<le> length (Steps flow)
     \<and> (\<forall>r \<in> set (butlast (rr_Steps rep)). sr_Success r)
     \<and> (rr_Success rep \<longrightarrow> length (rr_Steps rep) = length (Steps flow) \<and> (\<forall>r \<in> set (rr_Steps rep). sr_Success r)
          \<and> dom (rr_Outputs rep) = OutName ` set (FlowSchema.Outputs flow))
     \<and> (\<forall>e d. err = Some (StepError e d) \<longrightarrow> rr_Steps rep \<noteq> [] \<and> \<not> sr_Success (last (rr_Steps rep))
          \<and> re_StepIndex e = sr_Index (last (rr_Steps rep)) \<and> re_Message e = sr_Error (last (rr_Steps rep)))"
proof -
  note live = Run_reports [OF assms]
  obtain runs bad w1 where r: "run_steps clk jerr exec perm session ins [] (enumerate 0 (Steps flow)) w = ((runs, bad), w1)"
    by (metis prod.exhaust)
  have shape: "(bad = None \<longrightarrow> run_ok (length (Steps flow)) runs)
     \<and> (\<forall>i s err. bad = Some (i, s, err) \<longrightarrow> (\<exists>rs r. runs = rs @ [r] \<and> run_ok i rs \<and> i < length (Steps flow)
           \<and> sr_Index r = i \<and> \<not> sr_Success r \<and> sr_Error r = err))"
    using run_steps_shape [of "[]" clk jerr exec perm session ins "Steps flow" w runs bad w1] r by (simp add: run_ok_def)
  have len: "length rs = n" if "run_ok n rs" for n rs using that by (metis run_ok_def length_map length_upt diff_zero)
  show ?thesis
  proof (cases bad)
    case None
    then have ok: "run_ok (length (Steps flow)) runs" using shape by simp
    obtain q w2 where q: "extractOutputs exec session flow w1 = (q, w2)" by (rule prod.exhaust)
    show ?thesis
    proof (cases q)
      case (Inl e)
      with Run_live(1) [OF live r None] q assms have "rr_Steps rep = runs" "\<not> rr_Success rep" "err = Some (PlainError e)" by auto
      then show ?thesis using ok len [OF ok] by (auto simp: run_ok_def dest: in_set_butlastD)
    next
      case (Inr outs)
      with Run_live(2) [OF live r None] q assms have "rr_Steps rep = runs" "rr_Success rep" "err = None" "rr_Outputs rep = outs" by auto
      moreover have "dom outs = OutName ` set (FlowSchema.Outputs flow)"
        using extractOutputs_loop_dom [of exec session Map.empty] q Inr by (simp add: extractOutputs_def)
      ultimately show ?thesis using ok len [OF ok] by (auto simp: run_ok_def dest: in_set_butlastD)
    qed
  next
    case (Some b)
    obtain i s e where b: "b = (i, s, e)" by (cases b) auto
    then obtain rs r1 where rs: "runs = rs @ [r1]" "run_ok i rs" "i < length (Steps flow)" "sr_Index r1 = i" "\<not> sr_Success r1" "sr_Error r1 = e"
      using shape Some by blast
    obtain d w2 where "diagnoseFailure exec session i s e w1 = (d, w2)" by (rule prod.exhaust)
    with Run_live(3) [OF live r Some [unfolded b]] assms
    have "rr_Steps rep = runs" "\<not> rr_Success rep" "err = Some (step_failure i s e d)" by auto
    then show ?thesis using rs len [OF rs(2)] by (auto simp: run_ok_def step_failure_def)
  qed
qed

theorem report_is_faithful_witness:
  "\<exists>rep lw. demo_run ([], ()) = ((Some rep, None), lw) \<and> rr_Success rep \<and> length (rr_Steps rep) = 2 \<and> dom (rr_Outputs rep) = {''where''}"
proof -
  have c: "case demo_run ([], ()) of ((Some rep, None), lw) \<Rightarrow> True | _ \<Rightarrow> False" by code_simp
  obtain a b lw where ab: "demo_run ([], ()) = ((a, b), lw)" by (metis prod.exhaust)
  with c obtain rep where r: "demo_run ([], ()) = ((Some rep, None), lw)" by (cases a; cases b) simp_all
  have d: "length (Steps run_demo) = 2" "OutName ` set (FlowSchema.Outputs run_demo) = {''where''}" by (simp_all add: run_demo_def)
  have "rr_Success rep" "length (rr_Steps rep) = 2" "dom (rr_Outputs rep) = {''where''}"
    using report_is_faithful [OF r] d by simp_all
  with r show ?thesis by blast
qed

section \<open>What the code does not do\<close>

text \<open>An assertion that an element is absent holds whenever the lookup fails, for whatever reason.\<close>

lemma assert_not_holds_on_any_failure:
  "executeAssert (\<lambda>_ w. (Inl ''connection refused'', w)) ''s'' \<lparr>a_Visible = [], a_URL = [], a_Text = [], a_Not = ''Error''\<rparr> ()
     = (Inr (JObj [(''absent'', JStr ''Error'')]), ())"
  by code_simp

text \<open>A reference written with spaces counts as an input reference but is not substituted.\<close>

lemma spaced_reference_not_substituted:
  "inputReferences ''{{ q }}'' = [''q''] \<and> substitute [(''q'', ''x'')] ''{{ q }}'' = ''{{ q }}''"
  by code_simp

text \<open>The result of a substitution may depend on the iteration order of the input map.\<close>

lemma substitution_order_matters:
  "substitute [(''a'', ''ok.''), (''b'', ''example''), (''a}}{{b'', ''evil.test'')] ''https://{{a}}{{b}}/'' = ''https://ok.example/''
   \<and> substitute [(''a}}{{b'', ''evil.test''), (''a'', ''ok.''), (''b'', ''example'')] ''https://{{a}}{{b}}/'' = ''https://evil.test/''"
  by code_simp

text \<open>The finder actions \<open>first\<close>, \<open>last\<close> and \<open>nth\<close> pass validation and are executed as \<open>ref\<close>.\<close>

lemma positional_actions_become_ref:
  "validFindAction ''first'' \<and> q_Action (finderRequest (demo_find\<lparr>f_Action := ''first''\<rparr>) []) = ''ref''"
  by code_simp

end
