(* ===== verification/FlowDiscovery.thy ===== *)
theory FlowDiscovery
  imports FlowSchema JsonText JsonArgs GoPaths "HOL-Library.AList"
begin

text \<open>
  \<open>internal/flows/discovery.go\<close>: finding flow documents in the project, in the home directory and through
  the \<open>symskills\<close> program, and the precedence between them. The file system is a parameter (\<open>readDir\<close> lists
  the names of a directory with whether each is a directory, \<open>readFile\<close> gives the contents), as are the
  YAML package and running the external program. A Go map from names is an association list with
  distinct keys.
\<close>

datatype Origin = OriginSymskills | OriginGlobal | OriginProject

record FoundFlow =
  ff_Name :: string
  ff_Path :: string
  ff_Origin :: Origin
  ff_Version :: int
  ff_Steps :: nat

record fs =
  readDir :: "string \<Rightarrow> (string \<times> bool) list option"
  readFile :: "string \<Rightarrow> string option"
  yamlUnmarshal :: "string \<Rightarrow> string + ynode"
  yamlDecode :: "ynode \<Rightarrow> string + Flow"

fun originRank :: "Origin \<Rightarrow> nat" where
  "originRank OriginProject = 0"
| "originRank OriginGlobal = 1"
| "originRank OriginSymskills = 2"

definition merge_one :: "(string \<times> FoundFlow) list \<Rightarrow> FoundFlow \<Rightarrow> (string \<times> FoundFlow) list" where
  "merge_one target flow =
     (if (case map_of target (ff_Name flow) of None \<Rightarrow> True
          | Some existing \<Rightarrow> originRank (ff_Origin flow) < originRank (ff_Origin existing))
      then AList.update (ff_Name flow) flow target else target)"

definition mergeFound :: "(string \<times> FoundFlow) list \<Rightarrow> FoundFlow list \<Rightarrow> (string \<times> FoundFlow) list" where
  "mergeFound target found = foldl merge_one target found"

definition yaml_name :: "string \<Rightarrow> bool" where
  "yaml_name name \<longleftrightarrow> has_suffix name ''.yaml'' \<or> has_suffix name ''.yml''"

text \<open>One directory entry: skipped unless it is a readable flow document.\<close>

definition found_entry :: "fs \<Rightarrow> string \<Rightarrow> Origin \<Rightarrow> string \<times> bool \<Rightarrow> FoundFlow option" where
  "found_entry f directory orig entry =
     (if snd entry \<or> \<not> yaml_name (fst entry) then None
      else (let path = Join [directory, fst entry] in
            case readFile f path of
              None \<Rightarrow> None
            | Some data \<Rightarrow>
                (case Parse (yamlUnmarshal f) (yamlDecode f) data path of
                   Inl _ \<Rightarrow> None
                 | Inr flow \<Rightarrow> Some \<lparr>ff_Name = Name flow, ff_Path = path, ff_Origin = orig, ff_Version = Version flow,
                                     ff_Steps = length (Steps flow)\<rparr>)))"

definition discoverDirectory :: "fs \<Rightarrow> string \<Rightarrow> Origin \<Rightarrow> FoundFlow list option" where
  "discoverDirectory f directory orig = map_option (List.map_filter (found_entry f directory orig)) (readDir f directory)"

text \<open>The paths of the listed skills. An element that is \<open>null\<close> is a skill without a path.\<close>

definition skill_path :: "json \<Rightarrow> string option" where
  "skill_path j =
     (case object_fields j of
        Inl _ \<Rightarrow> None
      | Inr obj \<Rightarrow>
          (case (string_field ''name'' obj, string_field ''path'' obj) of (Inr _, Inr p) \<Rightarrow> Some p | _ \<Rightarrow> None))"

fun as_skills :: "json \<Rightarrow> string list option" where
  "as_skills (JArr xs) = all_some (map skill_path xs)"
| "as_skills _ = None"

definition skill_entries :: "fs \<Rightarrow> string \<Rightarrow> string \<Rightarrow> FoundFlow list" where
  "skill_entries f path sub =
     (let directory = Join [path, sub] in
      case readDir f directory of
        None \<Rightarrow> []
      | Some entries \<Rightarrow>
          List.map_filter (found_entry f directory OriginSymskills)
            (filter (\<lambda>e. \<not> (sub = ''.'' \<and> \<not> contains (fst e) ''flow'')) entries))"

text \<open>\<open>run\<close> is the output of the program's \<open>list --json\<close>, \<^const>\<open>None\<close> when it fails.\<close>

definition discoverViaSymskills :: "fs \<Rightarrow> (string \<Rightarrow> string option) \<Rightarrow> string \<Rightarrow> FoundFlow list option" where
  "discoverViaSymskills f run binary =
     (case run binary of
        None \<Rightarrow> None
      | Some out \<Rightarrow>
          (case unmarshal out of
             None \<Rightarrow> None
           | Some j \<Rightarrow>
               (case object_fields j of
                  Inl _ \<Rightarrow> None
                | Inr obj \<Rightarrow>
                    (case decode_field as_skills [] ''skills'' obj of
                       Inl _ \<Rightarrow> None
                     | Inr paths \<Rightarrow> Some (concat (map (\<lambda>p. skill_entries f p ''flows'' @ skill_entries f p ''.'') paths))))))"

definition resolveSymskillsBinary :: "(string \<Rightarrow> string option) \<Rightarrow> string \<Rightarrow> string" where
  "resolveSymskillsBinary lookPath override =
     (if override \<noteq> [] then override else (case lookPath ''symskills'' of Some path \<Rightarrow> path | None \<Rightarrow> []))"

definition merge_opt :: "(string \<times> FoundFlow) list \<Rightarrow> FoundFlow list option \<Rightarrow> (string \<times> FoundFlow) list" where
  "merge_opt target found = (case found of None \<Rightarrow> target | Some fs \<Rightarrow> mergeFound target fs)"

text \<open>The three sources in the order in which they are merged; \<open>home\<close> is \<^const>\<open>None\<close> when there is no home
  directory.\<close>

definition flow_sources ::
  "fs \<Rightarrow> string option \<Rightarrow> (string \<Rightarrow> string option) \<Rightarrow> (string \<Rightarrow> string option) \<Rightarrow> string \<Rightarrow> FoundFlow list option list" where
  "flow_sources f home lookPath run override =
     [discoverDirectory f ''.symbrowse/flows'' OriginProject,
      (case home of None \<Rightarrow> None | Some h \<Rightarrow> discoverDirectory f (Join [h, ''.config'', ''symbrowse'', ''flows'']) OriginGlobal),
      (let binary = resolveSymskillsBinary lookPath override in if binary \<noteq> [] then discoverViaSymskills f run binary else None)]"

definition Discover ::
  "fs \<Rightarrow> string option \<Rightarrow> (string \<Rightarrow> string option) \<Rightarrow> (string \<Rightarrow> string option) \<Rightarrow> string \<Rightarrow> FoundFlow list" where
  "Discover f home lookPath run override =
     sort_key ff_Name (map snd (foldl merge_opt [] (flow_sources f home lookPath run override)))"

section \<open>Precedence\<close>

definition found_all :: "FoundFlow list option list \<Rightarrow> FoundFlow list" where
  "found_all srcs = concat (map (\<lambda>s. case s of None \<Rightarrow> [] | Some xs \<Rightarrow> xs) srcs)"

lemma merge_sources: "foldl merge_opt m srcs = mergeFound m (found_all srcs)"
  by (induction srcs arbitrary: m) (auto simp: found_all_def merge_opt_def mergeFound_def split: option.splits)

text \<open>The best flow of a name: the first one of the least rank.\<close>

abbreviation better :: "string \<Rightarrow> FoundFlow option \<Rightarrow> FoundFlow \<Rightarrow> FoundFlow option" where
  "better n b x \<equiv> (if ff_Name x = n \<and> (case b of None \<Rightarrow> True | Some y \<Rightarrow> originRank (ff_Origin x) < originRank (ff_Origin y))
     then Some x else b)"

interpretation ranked: best_scan "better n" "\<lambda>x. ff_Name x = n" "\<lambda>x. - int (originRank (ff_Origin x))" for n
  by unfold_locales auto

lemma merge_one_best: "map_of (merge_one m x) n = better n (map_of m n) x"
  by (auto simp: merge_one_def update_conv' split: option.splits)

lemma mergeFound_best: "map_of (mergeFound m fs) n = foldl (better n) (map_of m n) fs"
  by (induction fs arbitrary: m) (simp_all add: mergeFound_def merge_one_best)

text \<open>The keys of the map are the names of its flows.\<close>

definition keyed :: "(string \<times> FoundFlow) list \<Rightarrow> bool" where
  "keyed m \<longleftrightarrow> distinct (map fst m) \<and> (\<forall>kv \<in> set m. fst kv = ff_Name (snd kv))"

lemma update_names: "\<forall>kv \<in> set m. fst kv = ff_Name (snd kv) \<Longrightarrow> \<forall>kv \<in> set (AList.update (ff_Name x) x m). fst kv = ff_Name (snd kv)"
  by (induction m) auto

lemma keyed_merge_one: "keyed m \<Longrightarrow> keyed (merge_one m x)"
  unfolding keyed_def merge_one_def using update_names [of m x] distinct_update [of m "ff_Name x" x] by simp

interpretation merging: state_machine "[]" merge_one keyed
  by unfold_locales (simp add: keyed_def, rule keyed_merge_one)

text \<open>Discovery lists every flow name once, in order, and gives for each the flow of the source that takes
  precedence: a flow is listed under a name exactly when some source has one of that name, and no source
  of a higher precedence (the project over the home directory over the skills library) has another.\<close>

theorem Discover_precedence:
  assumes "fs = found_all (flow_sources f home lookPath run override)"
  shows "sorted (map ff_Name (Discover f home lookPath run override)) \<and> distinct (map ff_Name (Discover f home lookPath run override))
     \<and> ff_Name ` set (Discover f home lookPath run override) = ff_Name ` set fs
     \<and> (\<forall>x \<in> set (Discover f home lookPath run override). x \<in> set fs
          \<and> (\<forall>y \<in> set fs. ff_Name y = ff_Name x \<longrightarrow> originRank (ff_Origin x) \<le> originRank (ff_Origin y)))"
proof -
  let ?m = "foldl merge_one [] fs"
  have D: "Discover f home lookPath run override = sort_key ff_Name (map snd ?m)"
    by (simp add: Discover_def merge_sources assms mergeFound_def)
  have keyed: "distinct (map fst ?m)" "\<forall>kv \<in> set ?m. fst kv = ff_Name (snd kv)" using merging.inv_run [of fs] by (simp_all add: keyed_def)
  have names: "map ff_Name (map snd ?m) = map fst ?m" using keyed(2) by simp
  have mem: "x \<in> set (map snd ?m) \<longleftrightarrow> map_of ?m (ff_Name x) = Some x" for x
  proof
    assume "x \<in> set (map snd ?m)"
    then obtain n where "(n, x) \<in> set ?m" by auto
    moreover then have "n = ff_Name x" using keyed(2) by fastforce
    ultimately show "map_of ?m (ff_Name x) = Some x" using keyed(1) by simp
  qed (force dest: map_of_SomeD)
  have best: "map_of ?m n = foldl (better n) None fs" for n using mergeFound_best [of "[]" fs n] by (simp add: mergeFound_def)
  have in_m: "n \<in> ff_Name ` set (map snd ?m) \<longleftrightarrow> n \<in> ff_Name ` set fs" for n
  proof -
    have "n \<in> ff_Name ` set (map snd ?m) \<longleftrightarrow> map_of ?m n \<noteq> None" using arg_cong [OF names, of set] by (simp add: map_of_eq_None_iff image_image)
    also have "\<dots> \<longleftrightarrow> n \<in> ff_Name ` set fs" using ranked.scan_None_iff [of n fs] best [of n] by auto
    finally show ?thesis .
  qed
  show ?thesis
    unfolding D
  proof (intro conjI)
    show "distinct (map ff_Name (sort_key ff_Name (map snd ?m)))"
      using keyed(1) unfolding names [symmetric] by (auto simp: distinct_map intro: inj_on_imageI2 inj_on_imageI)
    show "ff_Name ` set (sort_key ff_Name (map snd ?m)) = ff_Name ` set fs" using in_m by (simp only: set_sort) blast
    have "foldl (better (ff_Name x)) None fs = Some x" if "x \<in> set (sort_key ff_Name (map snd ?m))" for x
      using that mem best by simp
    from ranked.scan_Some [OF this] show "\<forall>x \<in> set (sort_key ff_Name (map snd ?m)). x \<in> set fs
        \<and> (\<forall>y \<in> set fs. ff_Name y = ff_Name x \<longrightarrow> originRank (ff_Origin x) \<le> originRank (ff_Origin y))" by force
  qed simp
qed

definition demo_fs :: fs where
  "demo_fs = \<lparr>readDir = (\<lambda>d. if d \<in> set [''.symbrowse/flows'', ''/h/.config/symbrowse/flows''] then Some [(''demo.yaml'', False)] else None),
     readFile = (\<lambda>_. Some ''text''), yamlUnmarshal = (\<lambda>_. Inr (YNode DocumentNode 1 [] [YNode MappingNode 1 [] []])),
     yamlDecode = (\<lambda>_. Inr demo_flow)\<rparr>"

theorem Discover_precedence_witness:
  "\<exists>x. Discover demo_fs (Some ''/h'') (\<lambda>_. None) (\<lambda>_. None) [] = [x] \<and> ff_Origin x = OriginProject"
proof -
  let ?D = "Discover demo_fs (Some ''/h'') (\<lambda>_. None) (\<lambda>_. None) []" and ?fs = "found_all (flow_sources demo_fs (Some ''/h'') (\<lambda>_. None) (\<lambda>_. None) [])"
  have "map (\<lambda>x. (ff_Name x, originRank (ff_Origin x))) ?fs = [(''demo'', 0), (''demo'', 1)]" by code_simp
  then obtain a b where fs: "?fs = [a, b]" "ff_Name a = ''demo''" "ff_Name b = ''demo''" "originRank (ff_Origin a) = 0" by auto
  have p: "ff_Name ` set ?D = {''demo''}" "distinct (map ff_Name ?D)" "\<forall>x \<in> set ?D. originRank (ff_Origin x) \<le> originRank (ff_Origin a)"
    using Discover_precedence [OF fs(1) [symmetric]] fs(2-4) by (simp, blast, simp, metis)
  have "length ?D = card (ff_Name ` set ?D)" using distinct_card [OF p(2)] by simp
  then have "length ?D = 1" unfolding p(1) by simp
  then obtain x where x: "?D = [x]" by (auto simp: length_Suc_conv)
  then have "originRank (ff_Origin x) = 0" using p(3) fs(4) by simp
  then show ?thesis using x by (cases "ff_Origin x") simp_all
qed

end
