(* ===== verification/SnapshotTree.thy ===== *)
theory SnapshotTree
  imports StableRefs JsonText JsonArgs
begin

text \<open>
  \<open>internal/engine/snapshot.go\<close> and the structural paths of \<open>internal/engine/stable_refs.go\<close>: decoding the
  accessibility nodes a browser reports, linking them to a tree, assigning paths and rendering the tree
  as text with element references.

  The raw payload of a node is a JSON value, \<^const>\<open>None\<close> when it is empty. \<open>sprint\<close> is \<open>fmt.Sprint\<close> on
  arrays, objects and numbers. A Go map from ids is an association list; the attributes of a payload are
  visited in the order of the list. The recursion of the renderer is written with the list of calls that are still
  to be made, which visits the nodes in the same order. \<open>assignSnapshotPath\<close> recurses without looking for
  cycles: it is given fuel, and \<^const>\<open>None\<close> means that the fuel was not enough. Sorting with a comparison
  function is a stable insertion sort.
\<close>

section \<open>Nodes\<close>

record SnapshotOptions =
  OInteractive :: bool
  OCompact :: bool
  ODepth :: int
  OSelector :: string
  OURLs :: bool
  OSince :: string
  ORootNodeID :: string

record snapshotNode =
  nid :: string
  parentID :: string
  nrole :: string
  nname :: string
  description :: string
  nvalue :: string
  nurl :: string
  ignored :: bool
  interactive :: bool
  iframe :: bool
  shadowRoot :: bool
  backendNodeID :: int
  nstate :: "(string \<times> string) list"
  attributes :: "(string \<times> string) list"
  visible :: bool
  childIDs :: "string list"
  detached :: bool

datatype snapshot_error =
    NegativeDepth
  | NodeDecode nat
  | DuplicateNode string
  | UnknownRoot string
  | SnapshotOther string

section \<open>Decoding\<close>

text \<open>A field of type \<open>json.RawMessage\<close>: the last value of the key, \<open>null\<close> included.\<close>

definition raw_field :: "string \<Rightarrow> (string \<times> json) list \<Rightarrow> json option" where
  "raw_field name obj = (let vs = map snd (filter (\<lambda>kv. to_lower (fst kv) = name) obj) in if vs = [] then None else Some (last vs))"

definition raw_of :: "json option \<Rightarrow> json" where
  "raw_of r = (case r of None \<Rightarrow> JNull | Some j \<Rightarrow> j)"

definition rawScalar :: "(json \<Rightarrow> string) \<Rightarrow> json \<Rightarrow> string" where
  "rawScalar sprint raw =
     (case raw of
        JNull \<Rightarrow> []
      | JStr s \<Rightarrow> s
      | JNum n \<Rightarrow> n
      | JBool b \<Rightarrow> (if b then ''true'' else ''false'')
      | _ \<Rightarrow> sprint raw)"

definition rawValue :: "(json \<Rightarrow> string) \<Rightarrow> json \<Rightarrow> string" where
  "rawValue sprint raw =
     (case raw of
        JObj obj \<Rightarrow> (case raw_field ''value'' obj of Some v \<Rightarrow> rawScalar sprint v | None \<Rightarrow> rawScalar sprint raw)
      | _ \<Rightarrow> rawScalar sprint raw)"

definition go_sprint :: "(json \<Rightarrow> string) \<Rightarrow> json \<Rightarrow> string" where
  "go_sprint sprint j =
     (case j of JNull \<Rightarrow> ''<nil>'' | JStr s \<Rightarrow> s | JBool b \<Rightarrow> (if b then ''true'' else ''false'') | _ \<Rightarrow> sprint j)"

definition propertyBoolean :: "(json \<Rightarrow> string) \<Rightarrow> json \<Rightarrow> bool" where
  "propertyBoolean sprint raw =
     (if to_lower (rawValue sprint raw) = ''true'' then True
      else (case object_fields raw of
              Inl _ \<Rightarrow> False
            | Inr obj \<Rightarrow> to_lower (go_sprint sprint (raw_of (raw_field ''value'' obj))) = ''true''))"

definition rawInt64 :: "(json \<Rightarrow> string) \<Rightarrow> json \<Rightarrow> int" where
  "rawInt64 sprint raw = (case Atoi (rawScalar sprint raw) of Some i \<Rightarrow> i | None \<Rightarrow> 0)"

definition normalizeSnapshotRole :: "string \<Rightarrow> string" where
  "normalizeSnapshotRole role0 =
     (let role = trim_space role0 in
      if to_lower role = ''rootwebarea'' \<or> to_lower role = ''webarea'' then ''document''
      else if role = [] then ''generic''
      else to_lower role)"

definition interactiveSnapshotRole :: "string \<Rightarrow> bool" where
  "interactiveSnapshotRole role \<longleftrightarrow>
     role \<in> set [''button'', ''checkbox'', ''combobox'', ''link'', ''listbox'', ''menuitem'', ''option'', ''radio'', ''searchbox'', ''slider'',
       ''spinbutton'', ''switch'', ''tab'', ''textbox'', ''treeitem'', ''gridcell'']"

fun as_bool :: "json \<Rightarrow> bool option" where
  "as_bool (JBool b) = Some b"
| "as_bool _ = None"

fun as_raws :: "json \<Rightarrow> json list option" where
  "as_raws (JArr xs) = Some xs"
| "as_raws _ = None"

text \<open>\<open>map[string]string\<close>: a \<open>null\<close> value is the empty string, of equal keys the last one counts.\<close>

fun as_string_map :: "json \<Rightarrow> (string \<times> string) list option" where
  "as_string_map (JObj kvs) =
     map_option (foldl (\<lambda>m kv. AList.update (fst kv) (snd kv) m) [])
       (all_some (map (\<lambda>kv. map_option (Pair (fst kv)) (as_element (snd kv))) kvs))"
| "as_string_map _ = None"

definition as_property :: "json \<Rightarrow> (string \<times> json) option" where
  "as_property j =
     (case object_fields j of
        Inl _ \<Rightarrow> None
      | Inr obj \<Rightarrow> (case string_field ''name'' obj of Inl _ \<Rightarrow> None | Inr n \<Rightarrow> Some (n, raw_of (raw_field ''value'' obj))))"

fun as_properties :: "json \<Rightarrow> (string \<times> json) list option" where
  "as_properties (JArr xs) = all_some (map as_property xs)"
| "as_properties _ = None"

definition apply_property :: "(json \<Rightarrow> string) \<Rightarrow> snapshotNode \<Rightarrow> string \<times> json \<Rightarrow> snapshotNode" where
  "apply_property sprint node p =
     (let name = to_lower (trim_space (fst p)); val = rawValue sprint (snd p); b = propertyBoolean sprint (snd p) in
      if name \<in> set [''url'', ''href''] then (if nurl node = [] then node\<lparr>nurl := val\<rparr> else node)
      else if name \<in> set [''focusable'', ''editable'', ''checked'', ''expanded'', ''selected'', ''disabled'', ''pressed''] then
        (let node1 = (if name \<noteq> ''focusable'' \<and> name \<noteq> ''editable'' \<or> b then node\<lparr>nstate := AList.update name val (nstate node)\<rparr> else node)
         in if b \<and> name \<noteq> ''expanded'' then node1\<lparr>interactive := True\<rparr> else node1)
      else if name \<in> set [''type'', ''autocomplete''] then
        (if val \<noteq> [] then node\<lparr>attributes := AList.update name val (attributes node)\<rparr> else node)
      else node)"

definition bool_of :: "string \<Rightarrow> (string \<times> json) list \<Rightarrow> bool" where
  "bool_of name obj = (case decode_field as_bool False name obj of Inr b \<Rightarrow> b | Inl _ \<Rightarrow> False)"

definition str_of :: "string \<Rightarrow> (string \<times> json) list \<Rightarrow> string" where
  "str_of name obj = (case string_field name obj of Inr s \<Rightarrow> s | Inl _ \<Rightarrow> [])"

definition list_of :: "(json \<Rightarrow> 'a list option) \<Rightarrow> string \<Rightarrow> (string \<times> json) list \<Rightarrow> 'a list" where
  "list_of conv name obj = (case decode_field conv [] name obj of Inr xs \<Rightarrow> xs | Inl _ \<Rightarrow> [])"

definition payload_ok :: "(string \<times> json) list \<Rightarrow> bool" where
  "payload_ok obj \<longleftrightarrow>
     list_all (\<lambda>n. \<not> isl (decode_field as_bool False n obj))
       [''ignored'', ''isframeowner'', ''isshadowroot'', ''shadowroot'', ''shadowboundary'', ''detached'', ''isdetached'', ''visible'']
     \<and> list_all (\<lambda>n. \<not> isl (string_field n obj)) [''frameid'', ''alt'', ''title'', ''placeholder'', ''testid'']
     \<and> \<not> isl (decode_field as_raws [] ''childids'' obj) \<and> \<not> isl (decode_field as_properties [] ''properties'' obj)
     \<and> \<not> isl (decode_field as_string_map [] ''attributes'' obj)"

definition direct_url :: "(string \<times> json) list \<Rightarrow> string" where
  "direct_url obj = (if str_of ''url'' obj \<noteq> [] then str_of ''url'' obj else str_of ''href'' obj)"

definition payload_attributes :: "(string \<times> json) list \<Rightarrow> (string \<times> string) list" where
  "payload_attributes obj =
     foldl (\<lambda>m kv. if snd kv \<noteq> [] then AList.update (fst kv) (snd kv) m else m)
       (foldl (\<lambda>m kv. AList.update (to_lower (trim_space (fst kv))) (snd kv) m) [] (list_of as_string_map ''attributes'' obj))
       [(''alt'', str_of ''alt'' obj), (''title'', str_of ''title'' obj), (''placeholder'', str_of ''placeholder'' obj),
        (''testid'', str_of ''testid'' obj)]"

definition decodeSnapshotNode :: "(json \<Rightarrow> string) \<Rightarrow> json option \<Rightarrow> nat \<Rightarrow> snapshotNode option" where
  "decodeSnapshotNode sprint raw index =
     (case object_fields (raw_of raw) of
        Inl _ \<Rightarrow> None
      | Inr obj \<Rightarrow>
          if raw_of raw = JNull \<or> \<not> payload_ok obj then None
          else
            (let id0 = rawScalar sprint (raw_of (raw_field ''nodeid'' obj));
                 role = normalizeSnapshotRole (rawValue sprint (raw_of (raw_field ''role'' obj)));
                 node0 = \<lparr>nid = (if id0 = [] then ''index-'' @ nat_str index else id0),
                   parentID = rawScalar sprint (raw_of (raw_field ''parentid'' obj)), nrole = role,
                   nname = rawValue sprint (raw_of (raw_field ''name'' obj)),
                   description = rawValue sprint (raw_of (raw_field ''description'' obj)),
                   nvalue = rawValue sprint (raw_of (raw_field ''value'' obj)), nurl = [],
                   ignored = bool_of ''ignored'' obj, interactive = False,
                   iframe = bool_of ''isframeowner'' obj \<or> contains role ''iframe'' \<or> role = ''frame''
                     \<or> contains (to_lower (rawValue sprint (raw_of (raw_field ''role'' obj)))) ''frame''
                     \<or> str_of ''frameid'' obj \<noteq> [] \<and> (role = ''iframe'' \<or> role = ''frame''),
                   shadowRoot = bool_of ''isshadowroot'' obj \<or> bool_of ''shadowroot'' obj \<or> bool_of ''shadowboundary'' obj
                     \<or> contains role ''shadow'',
                   backendNodeID = rawInt64 sprint (raw_of (raw_field ''backenddomnodeid'' obj)), nstate = [],
                   attributes = payload_attributes obj,
                   visible = (case decode_field (map_option Some \<circ> as_bool) None ''visible'' obj of
                                Inr (Some b) \<Rightarrow> b | _ \<Rightarrow> \<not> bool_of ''ignored'' obj),
                   childIDs = filter (\<lambda>c. c \<noteq> []) (map (rawScalar sprint) (list_of as_raws ''childids'' obj)),
                   detached = bool_of ''detached'' obj \<or> bool_of ''isdetached'' obj\<rparr>;
                 node1 = foldl (apply_property sprint) node0 (list_of as_properties ''properties'' obj);
                 node2 = (if nrole node1 = ''link'' \<and> nurl node1 = [] then node1\<lparr>nurl := direct_url obj\<rparr> else node1)
             in Some (node2\<lparr>interactive := interactive node2 \<or> interactiveSnapshotRole (nrole node2)\<rparr>)))"

section \<open>The tree\<close>

type_synonym node_map = "(string \<times> snapshotNode) list"
type_synonym child_map = "(string \<times> string list) list"

definition kids :: "child_map \<Rightarrow> string \<Rightarrow> string list" where
  "kids children k = (case map_of children k of None \<Rightarrow> [] | Some cs \<Rightarrow> cs)"

fun parse_nodes :: "(json \<Rightarrow> string) \<Rightarrow> nat \<Rightarrow> node_map \<Rightarrow> json option list \<Rightarrow> snapshot_error + node_map" where
  "parse_nodes sprint i parsed [] = Inr parsed"
| "parse_nodes sprint i parsed (raw # raws) =
     (case decodeSnapshotNode sprint raw i of
        None \<Rightarrow> Inl (NodeDecode i)
      | Some node \<Rightarrow>
          if map_of parsed (nid node) \<noteq> None then Inl (DuplicateNode (nid node))
          else parse_nodes sprint (Suc i) (parsed @ [(nid node, node)]) raws)"

definition add_child :: "child_map \<Rightarrow> string \<Rightarrow> string \<Rightarrow> child_map" where
  "add_child children k c = AList.update k (kids children k @ [c]) children"

definition listed_children :: "node_map \<Rightarrow> child_map" where
  "listed_children parsed =
     foldl (\<lambda>m (k, node). foldl (\<lambda>m c. if map_of parsed c = None \<or> c = k then m else add_child m k c) m (childIDs node)) [] parsed"

text \<open>Links that only the child names.\<close>

definition link_parent :: "node_map \<Rightarrow> child_map \<Rightarrow> string \<times> snapshotNode \<Rightarrow> child_map" where
  "link_parent parsed m idn =
     (case idn of (k, node) \<Rightarrow>
        if parentID node \<noteq> [] \<and> parentID node \<noteq> k \<and> map_of parsed (parentID node) \<noteq> None \<and> k \<notin> set (kids m (parentID node))
        then add_child m (parentID node) k else m)"

definition child_links :: "node_map \<Rightarrow> child_map" where
  "child_links parsed = foldl (link_parent parsed) (listed_children parsed) parsed"

fun insert_by :: "('a \<Rightarrow> 'a \<Rightarrow> bool) \<Rightarrow> 'a \<Rightarrow> 'a list \<Rightarrow> 'a list" where
  "insert_by lt x [] = [x]"
| "insert_by lt x (y # ys) = (if lt y x then y # insert_by lt x ys else x # y # ys)"

definition sort_by :: "('a \<Rightarrow> 'a \<Rightarrow> bool) \<Rightarrow> 'a list \<Rightarrow> 'a list" where
  "sort_by lt xs = foldr (insert_by lt) xs []"

definition snapshotIDLess :: "string \<Rightarrow> string \<Rightarrow> bool" where
  "snapshotIDLess left right =
     (case (Atoi left, Atoi right) of
        (Some l, Some r) \<Rightarrow> if l \<noteq> r then l < r else left < right
      | _ \<Rightarrow> left < right)"

definition tree_roots :: "node_map \<Rightarrow> child_map \<Rightarrow> string \<Rightarrow> snapshot_error + string list" where
  "tree_roots parsed children rootID =
     (if rootID \<noteq> [] then (if map_of parsed rootID = None then Inl (UnknownRoot rootID) else Inr [rootID])
      else (let order = map fst parsed;
                free = filter (\<lambda>k. \<not> list_ex (\<lambda>kv. k \<in> set (snd kv)) children) order
            in Inr (sort_by snapshotIDLess (if free = [] then order else free))))"

section \<open>Paths\<close>

definition snapshotPathSegment :: "snapshotNode \<Rightarrow> string" where
  "snapshotPathSegment node =
     normalizeRefPart (nrole node) @ (if nname node \<noteq> [] then ''['' @ normalizeRefPart (nname node) @ '']'' else [])"

lemma map_of_key: "map_of m k \<noteq> None \<Longrightarrow> k \<in> set (map fst m)"
  by (simp add: map_of_eq_None_iff)

function snapshotSubtreeSignature :: "node_map \<Rightarrow> child_map \<Rightarrow> string set \<Rightarrow> string \<Rightarrow> string" where
  "snapshotSubtreeSignature parsed children visiting k =
     (if k \<in> visiting then ''cycle''
      else (case map_of parsed k of
              None \<Rightarrow> ''missing''
            | Some node \<Rightarrow>
                snapshotPathSegment node @ ''(''
                  @ join '','' (sort (map (snapshotSubtreeSignature parsed children (insert k visiting)) (kids children k))) @ '')''))"
  by auto
termination
proof (relation "measure (\<lambda>(parsed, children, visiting, k). card (set (map fst parsed) - visiting))", goal_cases)
  case (2 parsed children visiting k node c)
  have "k \<in> set (map fst parsed)" using 2(2) by (intro map_of_key) simp
  then have "set (map fst parsed) - insert k visiting \<subset> set (map fst parsed) - visiting" using 2(1) by blast
  then show ?case by (simp add: psubset_card_mono)
qed simp

declare snapshotSubtreeSignature.simps [simp del]

definition snapshotPathSortKey :: "node_map \<Rightarrow> child_map \<Rightarrow> snapshotNode \<Rightarrow> string" where
  "snapshotPathSortKey parsed children node =
     snapshotPathSegment node @ ''{'' @ snapshotSubtreeSignature parsed children {} (nid node) @ ''}''"

definition path_less :: "node_map \<Rightarrow> child_map \<Rightarrow> string \<Rightarrow> string \<Rightarrow> bool" where
  "path_less parsed children a b =
     (case (map_of parsed a, map_of parsed b) of
        (Some left, Some right) \<Rightarrow>
          (let lk = snapshotPathSortKey parsed children left; rk = snapshotPathSortKey parsed children right
           in if lk = rk then nid left < nid right else lk < rk)
      | _ \<Rightarrow> a < b)"

text \<open>\<open>domPath\<close> and \<open>siblingOrdinal\<close>, the two fields the assignment writes.\<close>

type_synonym paths = "(string \<rightharpoonup> string) \<times> (string \<rightharpoonup> nat)"

fun assignSnapshotPath :: "nat \<Rightarrow> node_map \<Rightarrow> child_map \<Rightarrow> string \<Rightarrow> string \<Rightarrow> paths \<Rightarrow> paths option"
and assign_children :: "nat \<Rightarrow> node_map \<Rightarrow> child_map \<Rightarrow> string \<Rightarrow> nat \<Rightarrow> string list \<Rightarrow> paths \<Rightarrow> paths option" where
  "assignSnapshotPath 0 parsed children k path st = None"
| "assignSnapshotPath (Suc n) parsed children k path st =
     (case map_of parsed k of
        None \<Rightarrow> Some st
      | Some node \<Rightarrow>
          assign_children n parsed children path 0 (sort_by (path_less parsed children) (kids children k)) ((fst st)(k \<mapsto> path), snd st))"
| "assign_children n parsed children path ordinal [] st = Some st"
| "assign_children n parsed children path ordinal (c # cs) st =
     (case map_of parsed c of
        None \<Rightarrow> assign_children n parsed children path (Suc ordinal) cs st
      | Some child \<Rightarrow>
          (case assignSnapshotPath n parsed children c (path @ ''/'' @ snapshotPathSegment child) (fst st, (snd st)(c \<mapsto> ordinal)) of
             None \<Rightarrow> None
           | Some st' \<Rightarrow> assign_children n parsed children path (Suc ordinal) cs st'))"

fun assignSnapshotPaths :: "nat \<Rightarrow> node_map \<Rightarrow> child_map \<Rightarrow> nat \<Rightarrow> string list \<Rightarrow> paths \<Rightarrow> paths option" where
  "assignSnapshotPaths n parsed children ordinal [] st = Some st"
| "assignSnapshotPaths n parsed children ordinal (r # rs) st =
     (case map_of parsed r of
        None \<Rightarrow> assignSnapshotPaths n parsed children (Suc ordinal) rs st
      | Some node \<Rightarrow>
          (case assignSnapshotPath n parsed children r (''/'' @ snapshotPathSegment node) (fst st, (snd st)(r \<mapsto> ordinal)) of
             None \<Rightarrow> None
           | Some st' \<Rightarrow> assignSnapshotPaths n parsed children (Suc ordinal) rs st'))"

section \<open>Rendering\<close>

definition snapshotState :: "(string \<times> string) list \<Rightarrow> string" where
  "snapshotState st = (if st = [] then [] else join '','' (map (\<lambda>k. k @ ''='' @ the (map_of st k)) (sort (map fst st))))"

definition included :: "SnapshotOptions \<Rightarrow> snapshotNode \<Rightarrow> bool" where
  "included opts node \<longleftrightarrow> \<not> ignored node
     \<and> (\<not> OInteractive opts \<or> interactive node \<or> iframe node \<or> shadowRoot node)
     \<and> (\<not> OCompact opts \<or> interactive node \<or> iframe node \<or> shadowRoot node)"

definition path_of :: "paths \<Rightarrow> string \<Rightarrow> string" where
  "path_of st k = (case fst st k of None \<Rightarrow> [] | Some p \<Rightarrow> p)"

definition ordinal_of :: "paths \<Rightarrow> string \<Rightarrow> nat" where
  "ordinal_of st k = (case snd st k of None \<Rightarrow> 0 | Some n \<Rightarrow> n)"

definition node_ref :: "(string \<Rightarrow> string) \<Rightarrow> paths \<Rightarrow> snapshotNode \<Rightarrow> SnapshotRef" where
  "node_ref digest st node = \<lparr>NodeID = nid node, BackendNodeID = backendNodeID node, SRole = nrole node, SName = nname node,
     SValue = nvalue node, SState = snapshotState (nstate node), SVisible = visible node, SInteractive = interactive node, SURL = nurl node,
     SRefKey = RefKey digest (nrole node) (nname node) (path_of st (nid node)) (ordinal_of st (nid node)),
     DOMPath = path_of st (nid node), SiblingOrdinal = ordinal_of st (nid node), SAttributes = attributes node\<rparr>"

definition escape_quotes :: "string \<Rightarrow> string" where
  "escape_quotes s = replace_all [CHR 0x22] [CHR 0x5C, CHR 0x22] s"

definition node_line :: "SnapshotOptions \<Rightarrow> nat \<Rightarrow> snapshotNode \<Rightarrow> string \<Rightarrow> string" where
  "node_line opts depth node ref =
     concat (replicate depth ''  '') @ ''- '' @ nrole node
     @ (if nname node \<noteq> [] then '' '' @ [CHR 0x22] @ escape_quotes (nname node) @ [CHR 0x22] else [])
     @ (if nvalue node \<noteq> [] \<and> nname node = [] then '' = '' @ [CHR 0x22] @ escape_quotes (nvalue node) @ [CHR 0x22] else [])
     @ (if iframe node then '' [iframe]'' else []) @ (if shadowRoot node then '' [shadow-root]'' else [])
     @ (if OURLs opts \<and> nurl node \<noteq> [] then '' ('' @ nurl node @ '')'' else [])
     @ '' [ref='' @ ref @ '']''"

record rendering =
  rvisited :: "string list"
  rrefs :: "(string \<times> SnapshotRef) list"
  rlines :: "string list"

text \<open>\<open>refNumber\<close> is the number of references so far.\<close>

definition render_visit :: "(string \<Rightarrow> string) \<Rightarrow> paths \<Rightarrow> SnapshotOptions \<Rightarrow> string \<Rightarrow> nat \<Rightarrow> snapshotNode \<Rightarrow> rendering \<Rightarrow> rendering" where
  "render_visit digest st opts k depth node r =
     (let r1 = r\<lparr>rvisited := k # rvisited r\<rparr>; ref = ref_name (Suc (length (rrefs r))) in
      if included opts node
      then r1\<lparr>rrefs := rrefs r @ [(ref, node_ref digest st node)], rlines := rlines r @ [node_line opts depth node ref]\<rparr>
      else r1)"

definition skipped :: "node_map \<Rightarrow> SnapshotOptions \<Rightarrow> string list \<Rightarrow> string \<Rightarrow> nat \<Rightarrow> bool" where
  "skipped parsed opts visited k depth \<longleftrightarrow> map_of parsed k = None \<or> k \<in> set visited \<or> 0 < ODepth opts \<and> ODepth opts < int depth"

lemma render_termination:
  assumes "\<not> skipped parsed opts (rvisited r) k depth"
  shows "card (set (map fst parsed) - insert k (set (rvisited r))) < card (set (map fst parsed) - set (rvisited r))"
proof -
  have "k \<in> set (map fst parsed)" using assms by (intro map_of_key) (simp add: skipped_def)
  then have "set (map fst parsed) - insert k (set (rvisited r)) \<subset> set (map fst parsed) - set (rvisited r)"
    using assms by (auto simp: skipped_def)
  then show ?thesis by (simp add: psubset_card_mono)
qed

function renderSnapshotNodes ::
  "(string \<Rightarrow> string) \<Rightarrow> node_map \<Rightarrow> child_map \<Rightarrow> paths \<Rightarrow> SnapshotOptions \<Rightarrow> (string \<times> nat) list \<Rightarrow> rendering \<Rightarrow> rendering" where
  "renderSnapshotNodes digest parsed children st opts [] r = r"
| "renderSnapshotNodes digest parsed children st opts ((k, depth) # rest) r =
     (if skipped parsed opts (rvisited r) k depth then renderSnapshotNodes digest parsed children st opts rest r
      else (let node = the (map_of parsed k); childrenDepth = (if included opts node then Suc depth else depth)
            in renderSnapshotNodes digest parsed children st opts (map (\<lambda>c. (c, childrenDepth)) (kids children k) @ rest)
                 (render_visit digest st opts k depth node r)))"
  by pat_completeness auto
termination
proof (relation "measures [\<lambda>(digest, parsed, children, st, opts, agenda, r). card (set (map fst parsed) - set (rvisited r)),
    \<lambda>(digest, parsed, children, st, opts, agenda, r). length agenda]", goal_cases)
  case (3 digest parsed children st opts k depth rest r node cd)
  then show ?case using render_termination [OF 3(1)] by (simp add: render_visit_def Let_def)
qed simp_all

declare renderSnapshotNodes.simps [simp del]

definition RenderSnapshot ::
  "(json \<Rightarrow> string) \<Rightarrow> (string \<Rightarrow> string) \<Rightarrow> nat \<Rightarrow> json option list \<Rightarrow> SnapshotOptions \<Rightarrow> (snapshot_error + SnapshotResult) option" where
  "RenderSnapshot sprint digest fuel nodes opts =
     (if ODepth opts < 0 then Some (Inl NegativeDepth)
      else (case parse_nodes sprint 0 [] nodes of
              Inl err \<Rightarrow> Some (Inl err)
            | Inr parsed \<Rightarrow>
                if parsed = [] then Some (Inr \<lparr>Tree = [], Refs = []\<rparr>)
                else (let children = child_links parsed in
                      case tree_roots parsed children (ORootNodeID opts) of
                        Inl err \<Rightarrow> Some (Inl err)
                      | Inr roots \<Rightarrow>
                          (case assignSnapshotPaths fuel parsed children 0 roots (Map.empty, Map.empty) of
                             None \<Rightarrow> None
                           | Some st \<Rightarrow>
                               (let r = renderSnapshotNodes digest parsed children st opts (map (\<lambda>i. (i, 0)) roots)
                                          \<lparr>rvisited = [], rrefs = [], rlines = []\<rparr>
                                in Some (Inr \<lparr>Tree = join [CHR 0x0A] (rlines r), Refs = rrefs r\<rparr>))))))"

section \<open>References are numbered and unique\<close>

definition keyed_nodes :: "node_map \<Rightarrow> bool" where
  "keyed_nodes parsed \<longleftrightarrow> (\<forall>k node. map_of parsed k = Some node \<longrightarrow> nid node = k)"

lemma parse_nodes_keyed: "parse_nodes sprint i parsed raws = Inr res \<Longrightarrow> keyed_nodes parsed \<Longrightarrow> keyed_nodes res"
proof (induction sprint i parsed raws rule: parse_nodes.induct)
  case (2 sprint i parsed raw raws)
  then obtain node where d: "decodeSnapshotNode sprint raw i = Some node" and new: "map_of parsed (nid node) = None"
    and rest: "parse_nodes sprint (Suc i) (parsed @ [(nid node, node)]) raws = Inr res"
    by (auto split: option.splits if_splits)
  have "keyed_nodes (parsed @ [(nid node, node)])"
    using 2(3) by (auto simp: keyed_nodes_def map_add_def split: option.splits)
  then show ?case using 2(1) [OF d] new rest by simp
qed simp

definition rendering_ok :: "rendering \<Rightarrow> bool" where
  "rendering_ok r \<longleftrightarrow> map fst (rrefs r) = map ref_name [1..<Suc (length (rrefs r))]
     \<and> list_all2 (\<lambda>line ref. suffix ('' [ref='' @ fst ref @ '']'') line) (rlines r) (rrefs r)
     \<and> distinct (map (NodeID \<circ> snd) (rrefs r)) \<and> set (map (NodeID \<circ> snd) (rrefs r)) \<subseteq> set (rvisited r)"

lemma node_line_suffix: "suffix ('' [ref='' @ ref @ '']'') (node_line opts depth node ref)"
  unfolding node_line_def
  by (rule suffix_appendI, rule suffix_appendI, rule suffix_appendI, rule suffix_appendI, rule suffix_appendI, rule suffix_appendI,
      rule suffix_appendI, rule suffix_appendI, rule suffix_order.order_refl)

lemma render_visit_ok:
  assumes "rendering_ok r" and "k \<notin> set (rvisited r)" and "nid node = k"
  shows "rendering_ok (render_visit digest st opts k depth node r)"
  using assms node_line_suffix
  by (auto simp: rendering_ok_def render_visit_def Let_def node_ref_def list_all2_appendI)

lemma render_ok:
  "keyed_nodes parsed \<Longrightarrow> rendering_ok r \<Longrightarrow> rendering_ok (renderSnapshotNodes digest parsed children st opts agenda r)"
proof (induction digest parsed children st opts agenda r rule: renderSnapshotNodes.induct)
  case (2 digest parsed children st opts k depth rest r)
  show ?case
  proof (cases "skipped parsed opts (rvisited r) k depth")
    case True
    then show ?thesis using 2(1) 2(3,4) by (simp add: renderSnapshotNodes.simps)
  next
    case False
    then have "nid (the (map_of parsed k)) = k" "k \<notin> set (rvisited r)" using 2(3) by (auto simp: skipped_def keyed_nodes_def)
    then have "rendering_ok (render_visit digest st opts k depth (the (map_of parsed k)) r)" using 2(4) by (intro render_visit_ok)
    then show ?thesis using 2(2) [OF False refl refl 2(3)] False by (simp add: renderSnapshotNodes.simps Let_def)
  qed
qed (simp add: renderSnapshotNodes.simps)

lemma RenderSnapshot_cases:
  assumes "RenderSnapshot sprint digest fuel nodes opts = Some (Inr res)"
  obtains "parse_nodes sprint 0 [] nodes = Inr []" "res = \<lparr>Tree = [], Refs = []\<rparr>"
  | parsed roots st r where "parse_nodes sprint 0 [] nodes = Inr parsed" "parsed \<noteq> []"
      "tree_roots parsed (child_links parsed) (ORootNodeID opts) = Inr roots"
      "r = renderSnapshotNodes digest parsed (child_links parsed) st opts (map (\<lambda>i. (i, 0)) roots) \<lparr>rvisited = [], rrefs = [], rlines = []\<rparr>"
      "res = \<lparr>Tree = join [CHR 0x0A] (rlines r), Refs = rrefs r\<rparr>"
  using assms by (auto simp: RenderSnapshot_def Let_def split: if_splits sum.splits option.splits)

text \<open>The references of a rendered snapshot are \<open>e1\<close>, \<open>e2\<close> and so on, one for each line of the tree, which ends
  with its reference, and no accessibility node is rendered twice.\<close>

theorem snapshot_refs_numbered:
  assumes "RenderSnapshot sprint digest fuel nodes opts = Some (Inr res)"
  shows "map fst (Refs res) = map ref_name [1..<Suc (length (Refs res))] \<and> distinct (map (NodeID \<circ> snd) (Refs res))
     \<and> (\<exists>rows. Tree res = join [CHR 0x0A] rows
          \<and> list_all2 (\<lambda>line ref. suffix ('' [ref='' @ fst ref @ '']'') line) rows (Refs res))"
  using assms
proof (cases rule: RenderSnapshot_cases)
  case 1
  then show ?thesis by (auto intro: exI [of _ "[]"])
next
  case (2 parsed roots st r)
  have "rendering_ok r" unfolding 2(4)
    by (rule render_ok [OF parse_nodes_keyed [OF 2(1)]]) (auto simp: keyed_nodes_def rendering_ok_def)
  then show ?thesis using 2(5) by (auto simp: rendering_ok_def)
qed

section \<open>What is shown\<close>

inductive reached :: "node_map \<Rightarrow> child_map \<Rightarrow> string list \<Rightarrow> string \<Rightarrow> bool" for parsed children roots where
  root: "k \<in> set roots \<Longrightarrow> map_of parsed k \<noteq> None \<Longrightarrow> reached parsed children roots k"
| child: "reached parsed children roots k \<Longrightarrow> c \<in> set (kids children k) \<Longrightarrow> map_of parsed c \<noteq> None \<Longrightarrow> reached parsed children roots c"

text \<open>The nodes the renderer has visited or is going to visit, and what holds of them.\<close>

definition pending :: "node_map \<Rightarrow> (string \<times> nat) list \<Rightarrow> rendering \<Rightarrow> string set" where
  "pending parsed agenda r = set (rvisited r) \<union> {k \<in> fst ` set agenda. map_of parsed k \<noteq> None}"

definition progress :: "node_map \<Rightarrow> child_map \<Rightarrow> string list \<Rightarrow> SnapshotOptions \<Rightarrow> string set \<Rightarrow> rendering \<Rightarrow> bool" where
  "progress parsed children roots opts P r \<longleftrightarrow>
     (\<forall>k \<in> set (rvisited r). \<forall>c \<in> set (kids children k). map_of parsed c \<noteq> None \<longrightarrow> c \<in> P)
     \<and> (\<forall>k \<in> set roots. map_of parsed k \<noteq> None \<longrightarrow> k \<in> P) \<and> (\<forall>k \<in> P. reached parsed children roots k)
     \<and> set (map (NodeID \<circ> snd) (rrefs r)) = {k \<in> set (rvisited r). included opts (the (map_of parsed k))}"

lemma pending_skip: "map_of parsed k = None \<or> k \<in> set (rvisited r) \<Longrightarrow> pending parsed ((k, d) # rest) r = pending parsed rest r"
  by (auto simp: pending_def)

lemma progress_visit:
  assumes "progress parsed children roots opts (pending parsed ((k, d) # rest) r) r" and "map_of parsed k = Some node" and "nid node = k"
  shows "progress parsed children roots opts
     (pending parsed (map (\<lambda>c. (c, d')) (kids children k) @ rest) (render_visit digest st opts k depth node r))
     (render_visit digest st opts k depth node r)"
proof -
  let ?r = "render_visit digest st opts k depth node r" and ?P = "pending parsed ((k, d) # rest) r"
  let ?C = "{c \<in> set (kids children k). map_of parsed c \<noteq> None}"
  have new: "rvisited ?r = k # rvisited r"
    and refs: "set (map (NodeID \<circ> snd) (rrefs ?r)) = set (map (NodeID \<circ> snd) (rrefs r)) \<union> (if included opts node then {k} else {})"
    using assms(3) by (auto simp: render_visit_def Let_def node_ref_def)
  have P: "pending parsed (map (\<lambda>c. (c, d')) (kids children k) @ rest) ?r = ?P \<union> ?C"
    using assms(2) by (auto simp: pending_def new image_Un image_image)
  have k: "reached parsed children roots k" using assms(1,2) by (auto simp: progress_def pending_def)
  then have "\<forall>c \<in> ?C. reached parsed children roots c" by (auto intro: reached.child)
  then show ?thesis
    unfolding P progress_def refs new using assms(1,2) unfolding progress_def by auto
qed

lemma render_progress:
  assumes "keyed_nodes parsed" and "ODepth opts = 0" and "progress parsed children roots opts (pending parsed agenda r) r"
  shows "progress parsed children roots opts (set (rvisited (renderSnapshotNodes digest parsed children st opts agenda r)))
     (renderSnapshotNodes digest parsed children st opts agenda r)"
  using assms
proof (induction digest parsed children st opts agenda r rule: renderSnapshotNodes.induct)
  case (2 digest parsed children st opts k depth rest r)
  show ?case
  proof (cases "skipped parsed opts (rvisited r) k depth")
    case True
    then have "map_of parsed k = None \<or> k \<in> set (rvisited r)" using 2(4) by (auto simp: skipped_def)
    then have "progress parsed children roots opts (pending parsed rest r) r" using 2(5) by (simp add: pending_skip)
    then show ?thesis using 2(1) [OF True 2(3,4)] True by (simp add: renderSnapshotNodes.simps)
  next
    case False
    then obtain node where n: "map_of parsed k = Some node" by (auto simp: skipped_def)
    then have "nid node = k" using 2(3) by (simp add: keyed_nodes_def)
    from progress_visit [OF 2(5) n this] show ?thesis
      using 2(2) [OF False refl refl 2(3,4)] False n by (simp add: renderSnapshotNodes.simps Let_def)
  qed
qed (simp add: renderSnapshotNodes.simps pending_def)

text \<open>C37. Without a depth limit a snapshot shows exactly the nodes that can be reached from the roots of the tree
  and that the options include; without filters these are all reachable nodes that are not ignored.\<close>

theorem snapshot_shows_reachable:
  assumes "RenderSnapshot sprint digest fuel nodes opts = Some (Inr res)" and "ODepth opts = 0"
    and "parse_nodes sprint 0 [] nodes = Inr parsed" and "tree_roots parsed (child_links parsed) (ORootNodeID opts) = Inr roots"
    and "parsed \<noteq> []"
  shows "set (map (NodeID \<circ> snd) (Refs res)) =
     {k. reached parsed (child_links parsed) roots k \<and> included opts (the (map_of parsed k))}"
  using assms(1)
proof (cases rule: RenderSnapshot_cases)
  case 1
  then show ?thesis using assms(3,5) by simp
next
  case (2 parsed' roots' st r)
  then have eq: "parsed' = parsed" "roots' = roots" using assms(3,4) by auto
  let ?r0 = "\<lparr>rvisited = [], rrefs = [], rlines = []\<rparr>"
  have "progress parsed (child_links parsed) roots opts (pending parsed (map (\<lambda>i. (i, 0)) roots) ?r0) ?r0"
    by (auto simp: progress_def pending_def image_image intro: reached.root)
  from render_progress [OF parse_nodes_keyed [OF assms(3)] assms(2) this, of digest st]
  have p: "progress parsed (child_links parsed) roots opts (set (rvisited r)) r" unfolding 2(4) eq by (simp add: keyed_nodes_def)
  have "k \<in> set (rvisited r)" if "reached parsed (child_links parsed) roots k" for k
    using that
  proof (induction rule: reached.induct)
    case (root k)
    then show ?case using p by (simp add: progress_def)
  next
    case (child k c)
    then show ?case using p unfolding progress_def by blast
  qed
  moreover have "\<forall>k \<in> set (rvisited r). reached parsed (child_links parsed) roots k"
    and "set (map (NodeID \<circ> snd) (rrefs r)) = {k \<in> set (rvisited r). included opts (the (map_of parsed k))}"
    using p by (simp_all add: progress_def)
  ultimately show ?thesis unfolding 2(5) by auto
qed

section \<open>Rendering returns on trees, and only there\<close>

lemma insert_by_set: "set (insert_by lt x xs) = insert x (set xs)"
  by (induction xs) auto

lemma sort_by_set: "set (sort_by lt xs) = set xs"
  unfolding sort_by_def by (induction xs) (auto simp: insert_by_set)

definition ranked :: "node_map \<Rightarrow> child_map \<Rightarrow> (string \<Rightarrow> nat) \<Rightarrow> bool" where
  "ranked parsed children rank \<longleftrightarrow> (\<forall>k. \<forall>c \<in> set (kids children k). map_of parsed c \<noteq> None \<longrightarrow> rank c < rank k)"

lemma assign_returns:
  "ranked parsed children rank \<Longrightarrow> rank k < n \<Longrightarrow> assignSnapshotPath n parsed children k path st \<noteq> None"
  "ranked parsed children rank \<Longrightarrow> (\<forall>c \<in> set cs. map_of parsed c \<noteq> None \<longrightarrow> rank c < n) \<Longrightarrow>
     assign_children n parsed children path ordinal cs st \<noteq> None"
proof (induction n parsed children k path st and n parsed children path ordinal cs st
    rule: assignSnapshotPath_assign_children.induct)
  case (2 n parsed children k path st)
  show ?case
  proof (cases "map_of parsed k")
    case (Some node)
    have "\<forall>c \<in> set (sort_by (path_less parsed children) (kids children k)). map_of parsed c \<noteq> None \<longrightarrow> rank c < n"
      using 2(2,3) by (fastforce simp: ranked_def sort_by_set)
    then show ?thesis using 2(1) [OF Some 2(2)] Some by simp
  qed simp
next
  case (4 n parsed children path ordinal c cs st)
  show ?case
  proof (cases "map_of parsed c")
    case None
    then show ?thesis using 4 by simp
  next
    case (Some child)
    then have "rank c < n" using 4(5) by simp
    then obtain st' where "assignSnapshotPath n parsed children c (path @ ''/'' @ snapshotPathSegment child) (fst st, (snd st)(c \<mapsto> ordinal)) = Some st'"
      using 4(2) [OF Some 4(4)] by blast
    then show ?thesis using 4(3) [OF Some _ 4(4)] 4(5) Some by simp
  qed
qed simp_all

lemma assignPaths_returns:
  "ranked parsed children rank \<Longrightarrow> (\<forall>k \<in> set (map fst parsed). rank k < n) \<Longrightarrow> assignSnapshotPaths n parsed children ordinal roots st \<noteq> None"
proof (induction roots arbitrary: ordinal st)
  case (Cons k ks)
  show ?case
  proof (cases "map_of parsed k")
    case None
    then show ?thesis using Cons by simp
  next
    case (Some node)
    then have "rank k < n" using Cons.prems(2) map_of_key [of parsed k] by auto
    then obtain st' where "assignSnapshotPath n parsed children k (''/'' @ snapshotPathSegment node) (fst st, (snd st)(k \<mapsto> ordinal)) = Some st'"
      using assign_returns(1) [OF Cons.prems(1)] by blast
    then show ?thesis using Cons Some by simp
  qed
qed simp

text \<open>C38. Rendering returns, with a snapshot or with an error, whenever the child links have no cycle: a ranking
  under which children are below their parents exists. A fuel above the ranks is enough.\<close>

theorem acyclic_snapshot_returns:
  assumes "\<And>parsed. parse_nodes sprint 0 [] nodes = Inr parsed \<Longrightarrow>
      ranked parsed (child_links parsed) rank \<and> (\<forall>k \<in> set (map fst parsed). rank k < fuel)"
  shows "\<exists>res. RenderSnapshot sprint digest fuel nodes opts = Some res"
proof (cases "parse_nodes sprint 0 [] nodes")
  case (Inr parsed)
  show ?thesis
  proof (cases "tree_roots parsed (child_links parsed) (ORootNodeID opts)")
    case (Inl err)
    then show ?thesis using Inr by (simp add: RenderSnapshot_def Let_def)
  next
    case roots: (Inr roots)
    have "assignSnapshotPaths fuel parsed (child_links parsed) 0 roots (Map.empty, Map.empty) \<noteq> None"
      using assms [OF Inr] by (intro assignPaths_returns) auto
    then obtain st where "assignSnapshotPaths fuel parsed (child_links parsed) 0 roots (Map.empty, Map.empty) = Some st" by blast
    then show ?thesis using Inr roots by (simp add: RenderSnapshot_def Let_def)
  qed
qed (simp add: RenderSnapshot_def)

lemma two_cycle_diverges:
  assumes "map_of parsed a = Some na" "map_of parsed b = Some nb" "kids children a = [b]" "kids children b = [a]"
  shows "assignSnapshotPath n parsed children a path st = None \<and> assignSnapshotPath n parsed children b path' st' = None"
proof (induction n arbitrary: path st path' st')
  case (Suc n)
  then show ?case using assms by (simp add: sort_by_def)
qed simp

definition ax_node :: "string \<Rightarrow> string \<Rightarrow> string list \<Rightarrow> json option" where
  "ax_node k role cs = Some (JObj [(''nodeId'', JStr k), (''role'', JObj [(''value'', JStr role)]), (''childIds'', JArr (map JStr cs))])"

definition plain_options :: SnapshotOptions where
  "plain_options = \<lparr>OInteractive = False, OCompact = False, ODepth = 0, OSelector = [], OURLs = False, OSince = [], ORootNodeID = []\<rparr>"

abbreviation no_sprint :: "json \<Rightarrow> string" where "no_sprint \<equiv> \<lambda>_. []"

definition demo_nodes :: "json option list" where
  "demo_nodes = [ax_node ''1'' ''RootWebArea'' [''2''], ax_node ''2'' ''button'' []]"

lemma demo_parsed:
  obtains n1 n2 where "parse_nodes no_sprint 0 [] demo_nodes = Inr [(''1'', n1), (''2'', n2)]" and "kids (child_links [(''1'', n1), (''2'', n2)]) = (\<lambda>k. if k = ''1'' then [''2''] else [])"
proof -
  have "map_sum id (map fst) (parse_nodes no_sprint 0 [] demo_nodes) = Inr [''1'', ''2'']" by code_simp
  then obtain n1 n2 where p: "parse_nodes no_sprint 0 [] demo_nodes = Inr [(''1'', n1), (''2'', n2)]"
    by (cases "parse_nodes no_sprint 0 [] demo_nodes") auto
  have "map_sum id child_links (parse_nodes no_sprint 0 [] demo_nodes) = Inr [(''1'', [''2''])]" by code_simp
  then have "kids (child_links [(''1'', n1), (''2'', n2)]) = (\<lambda>k. if k = ''1'' then [''2''] else [])"
    unfolding p by (auto simp: kids_def)
  with p that show ?thesis by blast
qed

theorem acyclic_snapshot_returns_witness:
  "\<exists>res. RenderSnapshot no_sprint (\<lambda>s. s) 2 demo_nodes plain_options = Some res"
proof -
  obtain n1 n2 where p: "parse_nodes no_sprint 0 [] demo_nodes = Inr [(''1'', n1), (''2'', n2)]"
    and k: "kids (child_links [(''1'', n1), (''2'', n2)]) = (\<lambda>k. if k = ''1'' then [''2''] else [])" by (rule demo_parsed)
  show ?thesis
    by (rule acyclic_snapshot_returns [of _ _ "\<lambda>k. if k = ''1'' then 1 else 0"]) (use p in \<open>auto simp: ranked_def k\<close>)
qed

text \<open>Path assignment does not look for cycles: when two reported nodes name each other as children, rendering
  never returns, whatever the fuel. In the program the recursion exhausts the stack.\<close>

theorem cyclic_snapshot_diverges:
  "RenderSnapshot no_sprint digest fuel [ax_node ''1'' ''group'' [''2''], ax_node ''2'' ''group'' [''1'']] plain_options = None"
proof -
  let ?nodes = "[ax_node ''1'' ''group'' [''2''], ax_node ''2'' ''group'' [''1'']]"
  have "map_sum id (map fst) (parse_nodes no_sprint 0 [] ?nodes) = Inr [''1'', ''2'']" by code_simp
  then obtain n1 n2 where p: "parse_nodes no_sprint 0 [] ?nodes = Inr [(''1'', n1), (''2'', n2)]"
    by (cases "parse_nodes no_sprint 0 [] ?nodes") auto
  let ?parsed = "[(''1'', n1), (''2'', n2)]"
  have "map_sum id child_links (parse_nodes no_sprint 0 [] ?nodes) = Inr [(''1'', [''2'']), (''2'', [''1''])]" by code_simp
  then have c: "child_links ?parsed = [(''1'', [''2'']), (''2'', [''1''])]" unfolding p by simp
  have "map_sum id (\<lambda>ps. tree_roots ps (child_links ps) []) (parse_nodes no_sprint 0 [] ?nodes) = Inr (Inr [''1'', ''2''])" by code_simp
  then have t: "tree_roots ?parsed (child_links ?parsed) [] = Inr [''1'', ''2'']" unfolding p by simp
  have "assignSnapshotPath fuel ?parsed (child_links ?parsed) ''1'' path st = None" for path st
    by (rule conjunct1 [OF two_cycle_diverges [of _ _ n1 "''2''" n2]]) (simp_all add: c kids_def)
  then show ?thesis using p t by (simp add: RenderSnapshot_def Let_def plain_options_def)
qed

section \<open>Witnesses\<close>

lemma demo_renders: "\<exists>res. RenderSnapshot no_sprint (\<lambda>s. s) 2 demo_nodes plain_options = Some (Inr res) \<and> length (Refs res) = 2"
proof -
  have "map_option (map_sum id (\<lambda>res. length (Refs res))) (RenderSnapshot no_sprint (\<lambda>s. s) 2 demo_nodes plain_options) = Some (Inr 2)" by code_simp
  then obtain z where "RenderSnapshot no_sprint (\<lambda>s. s) 2 demo_nodes plain_options = Some z" "map_sum id (\<lambda>res. length (Refs res)) z = Inr 2" by auto
  then show ?thesis by (cases z) auto
qed

theorem snapshot_refs_numbered_witness:
  "\<exists>res. RenderSnapshot no_sprint (\<lambda>s. s) 2 demo_nodes plain_options = Some (Inr res) \<and> map fst (Refs res) = [''e1'', ''e2'']"
proof -
  obtain res where r: "RenderSnapshot no_sprint (\<lambda>s. s) 2 demo_nodes plain_options = Some (Inr res)" "length (Refs res) = 2"
    using demo_renders by blast
  have "map ref_name [1..<Suc 2] = [''e1'', ''e2'']" by code_simp
  then show ?thesis using snapshot_refs_numbered [OF r(1)] r by auto
qed

theorem snapshot_shows_reachable_witness:
  "\<exists>res parsed. RenderSnapshot no_sprint (\<lambda>s. s) 2 demo_nodes plain_options = Some (Inr res)
     \<and> set (map (NodeID \<circ> snd) (Refs res)) = {k. reached parsed (child_links parsed) [''1''] k \<and> included plain_options (the (map_of parsed k))}"
proof -
  obtain res where r: "RenderSnapshot no_sprint (\<lambda>s. s) 2 demo_nodes plain_options = Some (Inr res)" using demo_renders by blast
  obtain n1 n2 where p: "parse_nodes no_sprint 0 [] demo_nodes = Inr [(''1'', n1), (''2'', n2)]" by (rule demo_parsed)
  have "map_sum id (\<lambda>ps. tree_roots ps (child_links ps) []) (parse_nodes no_sprint 0 [] demo_nodes) = Inr (Inr [''1''])" by code_simp
  then have t: "tree_roots [(''1'', n1), (''2'', n2)] (child_links [(''1'', n1), (''2'', n2)]) (ORootNodeID plain_options) = Inr [''1'']"
    unfolding p by (simp add: plain_options_def)
  from snapshot_shows_reachable [OF r _ p t] r show ?thesis by (auto simp: plain_options_def)
qed

end
