(* ===== verification/SnapshotDiff.thy ===== *)
theory SnapshotDiff
  imports SnapshotTree "HOL-Library.Multiset"
begin

text \<open>
  \<open>internal/engine/snapshot_diff.go\<close> and \<open>internal/engine/finder.go\<close>: the history of captured snapshots, the
  difference of two of them, and finding an element by its role or text. The iteration order of the n-th
  loop over a Go map is \<open>iter n\<close>, which permutes the list of entries. \<open>sort.Slice\<close> is not stable; the order of entries of
  equal keys is that of the loop.
\<close>

section \<open>Differences\<close>

type_synonym refs = "(string \<times> SnapshotRef) list"

record SnapshotChange =
  ChangeRef :: string
  Before :: SnapshotRef
  After :: SnapshotRef

definition snapshotRefChanged :: "SnapshotRef \<Rightarrow> SnapshotRef \<Rightarrow> bool" where
  "snapshotRefChanged before after \<longleftrightarrow>
     SName before \<noteq> SName after \<or> SState before \<noteq> SState after \<or> SValue before \<noteq> SValue after \<or> SVisible before \<noteq> SVisible after"

lemma last_index_byte_lt: "last_index_byte s c = Some i \<Longrightarrow> i < length s"
  by (induction s arbitrary: i) (auto split: option.splits if_splits)

function strip_names :: "string \<Rightarrow> string" where
  "strip_names path =
     (case last_index_byte path (CHR ''['') of
        None \<Rightarrow> path
      | Some start \<Rightarrow>
          (case index_byte (drop start path) (CHR '']'') of
             None \<Rightarrow> path
           | Some e \<Rightarrow> strip_names (take start path @ drop (start + e + 1) path)))"
  by auto
termination
proof (relation "measure length", goal_cases)
  case (2 path start e)
  then show ?case using last_index_byte_lt [OF 2(1)] by simp
qed simp

declare strip_names.simps [simp del]

definition snapshotStructuralKey :: "SnapshotRef \<Rightarrow> string" where
  "snapshotStructuralKey ref = SRole ref @ ''|'' @ strip_names (DOMPath ref) @ ''|'' @ nat_str (SiblingOrdinal ref)"

definition lookup :: "refs \<Rightarrow> string \<Rightarrow> SnapshotRef" where
  "lookup m k = (case map_of m k of None \<Rightarrow> zero_ref | Some v \<Rightarrow> v)"

definition change :: "refs \<Rightarrow> refs \<Rightarrow> string \<Rightarrow> string \<Rightarrow> SnapshotChange" where
  "change before after old ref = \<lparr>ChangeRef = ref, Before = lookup before old, After = lookup after ref\<rparr>"

text \<open>The second pass: references that did not match by name are matched by structural key.\<close>

fun match_structure :: "refs \<Rightarrow> refs \<Rightarrow> (string \<times> string) list \<Rightarrow> string set \<Rightarrow> string list \<Rightarrow> (string \<times> string) list" where
  "match_structure before after keys matchedBefore [] = []"
| "match_structure before after keys matchedBefore (ref # rs) =
     (case map_of keys (snapshotStructuralKey (lookup after ref)) of
        None \<Rightarrow> match_structure before after keys matchedBefore rs
      | Some old \<Rightarrow>
          if old \<in> matchedBefore then match_structure before after keys matchedBefore rs
          else (old, ref) # match_structure before after keys (insert old matchedBefore) rs)"

definition before_keys :: "refs \<Rightarrow> string set \<Rightarrow> (string \<times> string) list" where
  "before_keys entries matched =
     foldl (\<lambda>m e. if fst e \<in> matched then m else AList.update (snapshotStructuralKey (snd e)) (fst e) m) [] entries"

definition diffSnapshots ::
  "(nat \<Rightarrow> refs \<Rightarrow> refs) \<Rightarrow> refs \<Rightarrow> refs \<Rightarrow> bool \<Rightarrow> SnapshotRef list \<times> SnapshotRef list \<times> SnapshotChange list" where
  "diffSnapshots iter before after sameEpoch =
     (let rs = sort (map fst after);
          common = filter (\<lambda>r. map_of before r \<noteq> None) rs;
          altered = filter (\<lambda>r. snapshotRefChanged (lookup before r) (lookup after r)) common;
          moved = (if sameEpoch
                   then match_structure before after (before_keys (iter 0 before) (set common)) (set common)
                          (filter (\<lambda>r. r \<notin> set common) rs)
                   else []);
          added = filter (\<lambda>e. fst e \<notin> set common \<union> set (map snd moved)) (iter 1 after);
          removed = filter (\<lambda>e. fst e \<notin> set common \<union> set (map fst moved)) (iter 2 before)
      in (sort_key SRefKey (map snd added), sort_key SRefKey (map snd removed),
          sort_key ChangeRef (map (\<lambda>r. change before after r r) altered @ map (\<lambda>(old, r). change before after old r) moved)))"

section \<open>Snapshots of a page\<close>

record snapshotRecord =
  rec_result :: SnapshotResult
  rec_epoch :: nat

record snap_service =
  nav :: nav_refs
  snapshotHistory :: "string \<rightharpoonup> snapshotRecord"
  snapshotOrder :: "string list"
  nextSnapshot :: nat

definition snapshot_id :: "nat \<Rightarrow> string" where
  "snapshot_id n = ''snap-'' @ nat_str n"

text \<open>What the page answers: the accessibility tree, and the node of a selector (\<^const>\<open>None\<close> when the engine has
  no selectors).\<close>

record ax_page =
  axTree :: "string + json option list"
  axSelector :: "(string \<Rightarrow> string + string) option"

text \<open>The iteration orders of the registry's loops and the fuel of the path assignment.\<close>

record render_env =
  env_sprint :: "json \<Rightarrow> string"
  env_digest :: "string \<Rightarrow> string"
  env_fuel :: nat
  env_visits :: "nat \<Rightarrow> refs \<Rightarrow> refs"
  env_shuffle :: "(string \<times> string) list \<Rightarrow> (string \<times> string) list"

definition snapshot_root :: "ax_page \<Rightarrow> SnapshotOptions \<Rightarrow> snapshot_error + SnapshotOptions" where
  "snapshot_root pg opts =
     (if trim_space (OSelector opts) = [] then Inr opts
      else (case axSelector pg of
              None \<Rightarrow> Inl (SnapshotOther ''snapshot selector is not supported by this engine'')
            | Some sel \<Rightarrow>
                (case sel (OSelector opts) of
                   Inl err \<Rightarrow> Inl (SnapshotOther (''resolve snapshot selector '' @ go_quote (OSelector opts) @ '': '' @ err))
                 | Inr k \<Rightarrow> Inr (opts\<lparr>ORootNodeID := k\<rparr>))))"

definition captureSnapshot ::
  "render_env \<Rightarrow> ax_page \<Rightarrow> snap_service \<Rightarrow> SnapshotOptions \<Rightarrow> ((snapshot_error + (string \<times> SnapshotResult)) \<times> snap_service) option" where
  "captureSnapshot env pg s opts0 =
     (if ODepth opts0 < 0 then Some (Inl NegativeDepth, s)
      else (case snapshot_root pg opts0 of
              Inl err \<Rightarrow> Some (Inl err, s)
            | Inr opts \<Rightarrow>
                (case axTree pg of
                   Inl err \<Rightarrow> Some (Inl (SnapshotOther (''read accessibility tree: '' @ err)), s)
                 | Inr nodes \<Rightarrow>
                     (case RenderSnapshot (env_sprint env) (env_digest env) (env_fuel env) nodes opts of
                        None \<Rightarrow> None
                      | Some (Inl err) \<Rightarrow> Some (Inl err, s)
                      | Some (Inr rendered) \<Rightarrow>
                          (case applyStableSnapshot (\<lambda>n. env_visits env n (Refs rendered)) (env_shuffle env) (nav s) (Tree rendered) of
                             (result, nav') \<Rightarrow>
                               (let n = Suc (nextSnapshot s); sid = snapshot_id n in
                                Some (Inr (sid, result),
                                  s\<lparr>nav := nav', nextSnapshot := n,
                                    snapshotHistory := (snapshotHistory s)(sid \<mapsto> \<lparr>rec_result = result, rec_epoch = snapshotEpoch nav'\<rparr>),
                                    snapshotOrder := snapshotOrder s @ [sid]\<rparr>)))))))"

record SnapshotDiffResult =
  dr_SnapshotID :: string
  dr_Tree :: string
  dr_Refs :: refs
  dr_Hint :: string
  dr_Added :: "SnapshotRef list"
  dr_Removed :: "SnapshotRef list"
  dr_Changed :: "SnapshotChange list"

definition predecessor :: "snap_service \<Rightarrow> string \<Rightarrow> string" where
  "predecessor s since =
     (let p = trim_space since in
      if p = [] \<and> 2 \<le> length (snapshotOrder s) then snapshotOrder s ! (length (snapshotOrder s) - 2) else p)"

definition SnapshotDiff ::
  "render_env \<Rightarrow> (nat \<Rightarrow> refs \<Rightarrow> refs) \<Rightarrow> ax_page \<Rightarrow> snap_service \<Rightarrow> SnapshotOptions
     \<Rightarrow> ((snapshot_error + SnapshotDiffResult) \<times> snap_service) option" where
  "SnapshotDiff env iter pg s0 opts =
     (case captureSnapshot env pg s0 opts of
        None \<Rightarrow> None
      | Some (Inl err, s) \<Rightarrow> Some (Inl err, s)
      | Some (Inr (sid, cur), s) \<Rightarrow>
          (let p = predecessor s (OSince opts) in
           case (if p = [] then None else snapshotHistory s p) of
             None \<Rightarrow>
               Some (Inr \<lparr>dr_SnapshotID = sid, dr_Tree = Tree cur, dr_Refs = Refs cur,
                 dr_Hint = ''no previous snapshot available; returning the full snapshot'', dr_Added = [], dr_Removed = [], dr_Changed = []\<rparr>, s)
           | Some previous \<Rightarrow>
               (case diffSnapshots iter (Refs (rec_result previous)) (Refs cur) (rec_epoch previous = snapshotEpoch (nav s)) of
                  (added, removed, changed) \<Rightarrow>
                    Some (Inr \<lparr>dr_SnapshotID = sid, dr_Tree = [], dr_Refs = [], dr_Hint = [], dr_Added = added, dr_Removed = removed,
                      dr_Changed = changed\<rparr>, s))))"

section \<open>Finding elements\<close>

record FindQuery =
  fq_Kind :: string
  fq_Query :: string
  fq_Action :: string
  fq_Value :: string
  fq_Name :: string
  fq_Exact :: bool
  fq_Index :: int

record FindMatch =
  m_Ref :: string
  m_Role :: string
  m_Name :: string
  m_Node :: SnapshotRef

record FindResult =
  fr_Kind :: string
  fr_Query :: string
  fr_Action :: string
  fr_Ref :: string
  fr_Value :: string
  fr_Matches :: "FindMatch list"

datatype find_error =
    InvalidFind string
  | NotFound string
  | Ambiguous string "FindMatch list"
  | IndexOutOfRange string "FindMatch list"
  | FindSnapshot snapshot_error
  | FindInteract string

definition find_kinds :: "string list" where
  "find_kinds = [''role'', ''text'', ''label'', ''placeholder'', ''alt'', ''title'', ''testid'']"

definition find_actions :: "string list" where
  "find_actions = [''click'', ''fill'', ''check'', ''hover'', ''text'', ''ref'', ''first'', ''last'', ''nth'']"

definition validateFindRequest :: "FindQuery \<Rightarrow> find_error option" where
  "validateFindRequest q =
     (if trim_space (fq_Query q) = [] then Some (InvalidFind ''find query is required'')
      else if fq_Kind q \<notin> set find_kinds then Some (InvalidFind (''unsupported find kind '' @ go_quote (fq_Kind q)))
      else if fq_Action q \<notin> set find_actions then Some (InvalidFind (''unsupported find action '' @ go_quote (fq_Action q)))
      else if fq_Action q = ''fill'' \<and> fq_Value q = [] then Some (InvalidFind ''find fill value is required'')
      else if fq_Action q = ''nth'' \<and> fq_Index q < 0 then Some (InvalidFind ''find nth index cannot be negative'')
      else None)"

definition findCandidate :: "SnapshotRef \<Rightarrow> string \<Rightarrow> string" where
  "findCandidate node kind =
     (if kind = ''role'' then SRole node
      else if kind \<in> set [''text'', ''label''] then (if SName node \<noteq> [] then SName node else SValue node)
      else if kind \<in> set [''placeholder'', ''alt'', ''title'', ''testid''] then
        (case map_of (SAttributes node) kind of Some v \<Rightarrow> v | None \<Rightarrow> [])
      else [])"

definition matchFindText :: "string \<Rightarrow> string \<Rightarrow> bool \<Rightarrow> bool" where
  "matchFindText candidate query exact = (if exact then candidate = query else contains (to_lower candidate) (to_lower query))"

definition found :: "FindQuery \<Rightarrow> SnapshotRef \<Rightarrow> bool" where
  "found q node \<longleftrightarrow> matchFindText (findCandidate node (fq_Kind q)) (fq_Query q) (fq_Exact q)
     \<and> \<not> (fq_Name q \<noteq> [] \<and> \<not> matchFindText (SName node) (fq_Name q) (fq_Exact q))"

definition find_match :: "refs \<Rightarrow> string \<Rightarrow> FindMatch" where
  "find_match rs ref = (let node = lookup rs ref in \<lparr>m_Ref = ref, m_Role = SRole node, m_Name = SName node, m_Node = node\<rparr>)"

definition findMatches :: "refs \<Rightarrow> FindQuery \<Rightarrow> FindMatch list" where
  "findMatches rs q = map (find_match rs) (filter (\<lambda>ref. found q (lookup rs ref)) (sort (map fst rs)))"

definition selectFindMatch :: "FindMatch list \<Rightarrow> FindQuery \<Rightarrow> find_error + FindMatch" where
  "selectFindMatch matches q =
     (let index = (if fq_Action q = ''last'' then int (length matches) - 1 else if fq_Action q = ''nth'' then fq_Index q else 0) in
      if index < 0 \<or> int (length matches) \<le> index then
        Inl (IndexOutOfRange (''find '' @ fq_Action q @ '' index '' @ int_str index @ '' is out of range for '' @ nat_str (length matches)
               @ '' matches'') matches)
      else Inr (matches ! nat index))"

text \<open>\<open>snap\<close> takes a snapshot, \<open>act\<close> interacts with the element of a selector; both change the world.\<close>

definition Find ::
  "('w \<Rightarrow> (snapshot_error + refs) \<times> 'w) \<Rightarrow> (string \<Rightarrow> string \<Rightarrow> string \<Rightarrow> 'w \<Rightarrow> string option \<times> 'w) \<Rightarrow> FindQuery \<Rightarrow> 'w
     \<Rightarrow> (find_error + FindResult) \<times> 'w" where
  "Find snap act q w =
     (case validateFindRequest q of
        Some err \<Rightarrow> (Inl err, w)
      | None \<Rightarrow>
          (case snap w of
             (Inl err, w1) \<Rightarrow> (Inl (FindSnapshot err), w1)
           | (Inr rs, w1) \<Rightarrow>
               (let matches = findMatches rs q;
                    result = (\<lambda>ref ms. \<lparr>fr_Kind = fq_Kind q, fr_Query = fq_Query q, fr_Action = fq_Action q, fr_Ref = ref, fr_Value = [],
                               fr_Matches = ms\<rparr>)
                in if matches = [] then
                     (Inl (NotFound (''find '' @ fq_Kind q @ '' '' @ go_quote (fq_Query q) @ '' matched no elements'')), w1)
                   else if fq_Action q \<in> set [''first'', ''last'', ''nth''] then
                     (case selectFindMatch matches q of
                        Inl err \<Rightarrow> (Inl err, w1)
                      | Inr m \<Rightarrow> (Inr (result (m_Ref m) [m]), w1))
                   else if 1 < length matches then
                     (Inl (Ambiguous (''find '' @ fq_Kind q @ '' '' @ go_quote (fq_Query q) @ '' matched '' @ nat_str (length matches)
                        @ '' elements; use --name, --exact, first, last, or nth'') matches), w1)
                   else (let m = hd matches; r = result (m_Ref m) matches in
                         if fq_Action q = ''ref'' then (Inr r, w1)
                         else if fq_Action q = ''text'' then
                           (Inr (r\<lparr>fr_Value := (if SName (m_Node m) = [] then SValue (m_Node m) else SName (m_Node m))\<rparr>), w1)
                         else (case act (fq_Action q) (''@'' @ m_Ref m) (fq_Value q) w1 of
                                 (Some err, w2) \<Rightarrow> (Inl (FindInteract err), w2)
                               | (None, w2) \<Rightarrow> (Inr r, w2))))))"

section \<open>Nothing is lost in a difference\<close>

lemma mset_lookup:
  assumes "distinct (map fst m)" and "distinct ks" and "set ks \<subseteq> set (map fst m)"
  shows "mset (map (lookup m) ks) = mset (map snd (filter (\<lambda>e. fst e \<in> set ks) m))"
proof -
  have "mset (map fst (filter (\<lambda>e. fst e \<in> set ks) m)) = mset ks"
  proof (rule set_eq_iff_mset_eq_distinct [THEN iffD1])
    show "distinct (map fst (filter (\<lambda>e. fst e \<in> set ks) m))" using assms(1) by (rule distinct_map_filter)
    show "set (map fst (filter (\<lambda>e. fst e \<in> set ks) m)) = set ks" using assms(3) by force
  qed (fact assms(2))
  then have "mset (map (lookup m) ks) = mset (map (lookup m) (map fst (filter (\<lambda>e. fst e \<in> set ks) m)))"
    by (metis mset_map)
  also have "map (lookup m) (map fst (filter (\<lambda>e. fst e \<in> set ks) m)) = map snd (filter (\<lambda>e. fst e \<in> set ks) m)"
    using assms(1) by (auto simp: lookup_def)
  finally show ?thesis .
qed

lemma mset_split: "mset (map f xs) = mset (map f (filter P xs)) + mset (map f (filter (\<lambda>x. \<not> P x) xs))"
  by (induction xs) simp_all

text \<open>What the second pass matches: pairs of distinct unmatched references.\<close>

lemma match_structure_pairs:
  assumes "\<forall>s old. map_of keys s = Some old \<longrightarrow> old \<in> B" and "distinct rs"
  shows "set (map fst (match_structure before after keys M rs)) \<subseteq> B - M" and "distinct (map fst (match_structure before after keys M rs))"
    and "set (map snd (match_structure before after keys M rs)) \<subseteq> set rs" and "distinct (map snd (match_structure before after keys M rs))"
proof -
  have "set (map fst (match_structure before after keys M rs)) \<subseteq> B - M \<and> distinct (map fst (match_structure before after keys M rs))
      \<and> set (map snd (match_structure before after keys M rs)) \<subseteq> set rs \<and> distinct (map snd (match_structure before after keys M rs))"
    using assms(2)
  proof (induction rs arbitrary: M)
    case (Cons r rs)
    show ?case
    proof (cases "map_of keys (snapshotStructuralKey (lookup after r))")
      case None
      then show ?thesis using Cons.IH [of M] Cons.prems by auto
    next
      case (Some old)
      show ?thesis
      proof (cases "old \<in> M")
        case True
        then show ?thesis using Some Cons.IH [of M] Cons.prems by auto
      next
        case False
        have "old \<in> B" using assms(1) Some by blast
        then show ?thesis using Some False Cons.IH [of "insert old M"] Cons.prems by fastforce
      qed
    qed
  qed simp
  then show "set (map fst (match_structure before after keys M rs)) \<subseteq> B - M" "distinct (map fst (match_structure before after keys M rs))"
    "set (map snd (match_structure before after keys M rs)) \<subseteq> set rs" "distinct (map snd (match_structure before after keys M rs))"
    by blast+
qed

lemma before_keys_range: "map_of (before_keys entries M) s = Some old \<Longrightarrow> old \<in> set (map fst entries)"
proof -
  have "map_of (foldl (\<lambda>m e. if fst e \<in> M then m else AList.update (snapshotStructuralKey (snd e)) (fst e) m) m0 entries) s = Some old \<Longrightarrow>
      map_of m0 s = Some old \<or> old \<in> set (map fst entries)" for m0
  proof (induction entries arbitrary: m0)
    case (Cons e es)
    show ?case using Cons.IH [OF Cons.prems [simplified]] by (auto simp: update_conv' split: if_splits)
  qed simp
  then show "map_of (before_keys entries M) s = Some old \<Longrightarrow> old \<in> set (map fst entries)" unfolding before_keys_def by fastforce
qed

lemma mset_map_sort: "mset (map f (sort_key g xs)) = mset (map f xs)"
  by (simp add: mset_map)

lemma mset_account:
  assumes "distinct (map fst m)" and "distinct ks" and "set ks \<subseteq> set (map fst m)" and "mset m' = mset m"
  shows "mset (map snd m) = mset (map (lookup m) ks) + mset (map snd (filter (\<lambda>e. fst e \<notin> set ks) m'))"
proof -
  have "mset (map snd m) = mset (map snd (filter (\<lambda>e. fst e \<in> set ks) m)) + mset (map snd (filter (\<lambda>e. fst e \<notin> set ks) m))"
    by (rule mset_split)
  moreover have "mset (map snd (filter (\<lambda>e. fst e \<notin> set ks) m')) = mset (map snd (filter (\<lambda>e. fst e \<notin> set ks) m))"
    using assms(4) by (metis mset_filter mset_map)
  ultimately show ?thesis using mset_lookup [OF assms(1-3)] by simp
qed

text \<open>C39. A difference accounts for every element of both snapshots exactly once: the elements after are the
  unchanged ones, the new sides of the changes and the added ones, the elements before are the unchanged
  ones, the old sides of the changes and the removed ones. No reference is reported as changed twice.\<close>

theorem diff_accounts_for_everything:
  assumes "distinct (map fst before)" and "distinct (map fst after)" and "\<And>n m. mset (iter n m) = mset m"
    and "diffSnapshots iter before after sameEpoch = (added, removed, changed)"
  shows "\<exists>kept. (\<forall>r \<in> set kept. map_of before r \<noteq> None \<and> map_of after r \<noteq> None \<and> \<not> snapshotRefChanged (lookup before r) (lookup after r))
     \<and> mset (map snd after) = mset (map (lookup after) kept) + mset (map After changed) + mset added
     \<and> mset (map snd before) = mset (map (lookup before) kept) + mset (map Before changed) + mset removed
     \<and> distinct (map ChangeRef changed) \<and> sorted (map ChangeRef changed)"
proof -
  define rs where "rs = sort (map fst after)"
  define common where "common = filter (\<lambda>r. map_of before r \<noteq> None) rs"
  define altered where "altered = filter (\<lambda>r. snapshotRefChanged (lookup before r) (lookup after r)) common"
  define kept where "kept = filter (\<lambda>r. \<not> snapshotRefChanged (lookup before r) (lookup after r)) common"
  define fresh where "fresh = filter (\<lambda>r. r \<notin> set common) rs"
  define keys where "keys = before_keys (iter 0 before) (set common)"
  define moved where "moved = (if sameEpoch then match_structure before after keys (set common) fresh else [])"
  define pairs where "pairs = map (\<lambda>r. (r, r)) altered @ moved"
  have rs: "distinct rs" "set rs = set (map fst after)" using assms(2) by (simp_all add: rs_def)
  have common: "distinct common" "set common \<subseteq> set (map fst after)" "set common \<subseteq> set (map fst before)"
    using rs map_of_key [of before] by (auto simp: common_def)
  have "set (iter 0 before) = set before" using assms(3) by (metis set_mset_mset)
  then have range: "\<forall>s old. map_of keys s = Some old \<longrightarrow> old \<in> set (map fst before)"
    unfolding keys_def by (metis before_keys_range list.set_map)
  have fresh: "distinct fresh" "set fresh \<subseteq> set (map fst after) - set common" using rs by (auto simp: fresh_def)
  note pairs = match_structure_pairs [where keys = keys and B = "set (map fst before)" and rs = fresh and M = "set common"
      and before = before and after = after, OF range fresh(1)]
  have moved: "distinct (map fst moved)" "set (map fst moved) \<subseteq> set (map fst before) - set common"
      "distinct (map snd moved)" "set (map snd moved) \<subseteq> set (map fst after) - set common"
    using pairs fresh(2) by (cases sameEpoch; simp add: moved_def; blast)+
  have D: "added = sort_key SRefKey (map snd (filter (\<lambda>e. fst e \<notin> set (common @ map snd moved)) (iter 1 after)))"
      "removed = sort_key SRefKey (map snd (filter (\<lambda>e. fst e \<notin> set (common @ map fst moved)) (iter 2 before)))"
      "changed = sort_key ChangeRef (map (\<lambda>(old, r). change before after old r) pairs)"
    using assms(4) unfolding diffSnapshots_def Let_def rs_def [symmetric] common_def [symmetric] altered_def [symmetric] fresh_def [symmetric]
      keys_def [symmetric] moved_def [symmetric] pairs_def by (simp_all add: comp_def)
  have after: "mset (map After changed) = mset (map (lookup after) altered) + mset (map (lookup after) (map snd moved))"
    and before: "mset (map Before changed) = mset (map (lookup before) altered) + mset (map (lookup before) (map fst moved))"
    unfolding D(3) pairs_def mset_map_sort by (simp_all add: change_def comp_def case_prod_beta)
  have split: "mset (map f common) = mset (map f kept) + mset (map f altered)" for f :: "string \<Rightarrow> SnapshotRef"
    unfolding kept_def altered_def by (subst mset_split [of f common "\<lambda>r. snapshotRefChanged (lookup before r) (lookup after r)"]) (rule add.commute)
  have da: "distinct (common @ map snd moved)" "set (common @ map snd moved) \<subseteq> set (map fst after)"
    and db: "distinct (common @ map fst moved)" "set (common @ map fst moved) \<subseteq> set (map fst before)"
    using common moved unfolding distinct_append set_append by blast+
  have "mset (map snd after) = mset (map (lookup after) (common @ map snd moved)) + mset added"
    unfolding D(1) mset_sort by (rule mset_account [OF assms(2) da assms(3)])
  moreover have "mset (map snd before) = mset (map (lookup before) (common @ map fst moved)) + mset removed"
    unfolding D(2) mset_sort by (rule mset_account [OF assms(1) db assms(3)])
  moreover have "distinct (map ChangeRef changed)"
  proof -
    have "mset (map ChangeRef changed) = mset (altered @ map snd moved)"
      unfolding D(3) pairs_def mset_map_sort by (simp add: change_def comp_def case_prod_beta)
    moreover have "distinct (altered @ map snd moved)" using common(1) moved by (auto simp: altered_def)
    ultimately show ?thesis by (metis mset_eq_imp_distinct_iff)
  qed
  moreover have "\<forall>r \<in> set kept. map_of before r \<noteq> None \<and> map_of after r \<noteq> None \<and> \<not> snapshotRefChanged (lookup before r) (lookup after r)"
    using common(2) by (auto simp: kept_def common_def map_of_eq_None_iff)
  moreover have "sorted (map ChangeRef changed)" unfolding D(3) by simp
  ultimately show ?thesis using after before split by (intro exI [of _ kept]) (auto simp: ac_simps)
qed

definition demo_ref :: "string \<Rightarrow> SnapshotRef" where
  "demo_ref n = zero_ref\<lparr>SRole := ''button'', SName := n, DOMPath := ''/document/button['' @ n @ '']'', SRefKey := n\<rparr>"

theorem diff_accounts_for_everything_witness:
  "\<exists>added removed changed. diffSnapshots (\<lambda>_ m. m) [(''e1'', demo_ref ''Save''), (''e2'', demo_ref ''Old'')]
        [(''e1'', demo_ref ''Save''), (''e3'', demo_ref ''New'')] True = (added, removed, changed)
     \<and> size (mset (map After changed) + mset added) \<le> 2 \<and> distinct (map ChangeRef changed)"
proof -
  let ?b = "[(''e1'', demo_ref ''Save''), (''e2'', demo_ref ''Old'')]" and ?a = "[(''e1'', demo_ref ''Save''), (''e3'', demo_ref ''New'')]"
  obtain added removed changed where d: "diffSnapshots (\<lambda>_ m. m) ?b ?a True = (added, removed, changed)" by (metis prod.exhaust)
  have "\<exists>kept. mset (map snd ?a) = mset (map (lookup ?a) kept) + mset (map After changed) + mset added \<and> distinct (map ChangeRef changed)"
    using diff_accounts_for_everything [OF _ _ _ d] by auto
  then obtain kept where "mset (map snd ?a) = mset (map (lookup ?a) kept) + mset (map After changed) + mset added" "distinct (map ChangeRef changed)" by blast
  moreover from arg_cong [OF this(1), of size] have "length kept + length changed + length added = 2" by simp
  ultimately show ?thesis using d by auto
qed

section \<open>Finding acts on one element\<close>

lemma findMatches_exact:
  assumes "distinct (map fst rs)"
  shows "map m_Ref (findMatches rs q) = filter (\<lambda>ref. found q (lookup rs ref)) (sort (map fst rs))"
  by (simp add: findMatches_def find_match_def Let_def comp_def)

text \<open>C40. A find that interacts or returns a reference without a position does so for the only element of the
  snapshot that matches; when several match, or none, nothing is done to the page beyond the snapshot.\<close>

theorem find_acts_on_unique_match:
  assumes "snap w = (Inr rs, w1)" and "fq_Action q \<notin> {''first'', ''last'', ''nth''}" and "validateFindRequest q = None"
    and "matching = {ref. map_of rs ref \<noteq> None \<and> found q (lookup rs ref)}" and "distinct (map fst rs)"
  shows "case fst (Find snap act q w) of
       Inr res \<Rightarrow> matching = {fr_Ref res}
     | Inl (NotFound _) \<Rightarrow> matching = {} \<and> snd (Find snap act q w) = w1
     | Inl (Ambiguous _ ms) \<Rightarrow> 1 < card matching \<and> set (map m_Ref ms) = matching \<and> snd (Find snap act q w) = w1
     | Inl (FindInteract err) \<Rightarrow> (\<exists>ref w2. matching = {ref} \<and> act (fq_Action q) (''@'' @ ref) (fq_Value q) w1 = (Some err, w2)
          \<and> snd (Find snap act q w) = w2)
     | Inl _ \<Rightarrow> False"
proof -
  let ?ms = "findMatches rs q"
  have set: "set (map m_Ref ?ms) = matching"
    unfolding findMatches_exact [OF assms(5)] assms(4) by (auto simp: map_of_eq_None_iff)
  have dist: "distinct (map m_Ref ?ms)" unfolding findMatches_exact [OF assms(5)] using assms(5) by simp
  have card: "card matching = length ?ms" using distinct_card [OF dist] set by simp
  consider "?ms = []" | "1 < length ?ms" | m where "?ms = [m]"
    by (cases ?ms rule: remdups_adj.cases) auto
  then show ?thesis
  proof cases
    case 1
    then show ?thesis using assms(1-3) set by (simp add: Find_def Let_def)
  next
    case 2
    then show ?thesis using assms(1-3) set card by (auto simp: Find_def Let_def)
  next
    case (3 m)
    then have m: "matching = {m_Ref m}" using set by simp
    obtain r w2 where a: "act (fq_Action q) (''@'' @ m_Ref m) (fq_Value q) w1 = (r, w2)" by fastforce
    show ?thesis using assms(1-3) m 3 a by (cases r) (auto simp: Find_def Let_def)
  qed
qed

definition demo_query :: FindQuery where
  "demo_query = \<lparr>fq_Kind = ''role'', fq_Query = ''button'', fq_Action = ''click'', fq_Value = [], fq_Name = ''Save'', fq_Exact = False, fq_Index = 0\<rparr>"

theorem find_acts_on_unique_match_witness:
  "\<exists>res. fst (Find (\<lambda>w. (Inr [(''e1'', demo_ref ''Save''), (''e2'', demo_ref ''Old'')], w)) (\<lambda>_ _ _ w. (None, Suc w)) demo_query 0) = Inr res
     \<and> fr_Ref res = ''e1''"
proof -
  let ?rs = "[(''e1'', demo_ref ''Save''), (''e2'', demo_ref ''Old'')]"
  let ?F = "Find (\<lambda>w. (Inr ?rs, w)) (\<lambda>_ _ _ w. (None, Suc w)) demo_query 0"
  have ok: "case fst ?F of Inr _ \<Rightarrow> True | _ \<Rightarrow> False" by code_simp
  then obtain res where r: "fst ?F = Inr res" by (cases "fst ?F") auto
  have "found demo_query (lookup ?rs ''e1'')" "validateFindRequest demo_query = None" "fq_Action demo_query \<notin> {''first'', ''last'', ''nth''}"
    by code_simp+
  then have "''e1'' \<in> {fr_Ref res}"
    using find_acts_on_unique_match [of "\<lambda>w. (Inr ?rs, w)" 0 ?rs 0 demo_query _ "\<lambda>_ _ _ w. (None, Suc w)", OF refl _ _ refl] r by auto
  with r show ?thesis by auto
qed

text \<open>Matches are ordered by the text of their references: from ten references on, the first match is not the
  first one on the page.\<close>

theorem first_match_is_not_first_on_page:
  "map_sum id fr_Ref (fst (Find (\<lambda>w. (Inr [(''e2'', demo_ref ''Save''), (''e10'', demo_ref ''Save all'')], w)) (\<lambda>_ _ _ w. (None, w))
      (demo_query\<lparr>fq_Action := ''first''\<rparr>) ())) = Inr ''e10''"
  by code_simp

end
