(* ===== verification/Float64.thy ===== *)
theory Float64
  imports Complex_Main Prelude
begin

text \<open>
  Go's \<open>float64\<close> arithmetic on the non-negative values the sources compute with. A value is the rational
  number it denotes, and an operation is the exact operation followed by \<open>round64\<close>, the rounding of IEEE 754
  to 53 significant bits with ties to even. The exponent is not bounded: the values here are quotients and
  products of lengths and durations, far from overflow and underflow. Shown: rounding is monotone, keeps
  representable values and never leaves the binade by more than its end.
\<close>

section \<open>Rounding\<close>

text \<open>The number of binary digits of a positive integer.\<close>

function bit_count :: "int \<Rightarrow> nat" where
  "bit_count n = (if n \<le> 0 then 0 else Suc (bit_count (n div 2)))"
  by pat_completeness auto
termination by (relation "measure nat") auto

declare bit_count.simps [simp del]

text \<open>The exponent of a positive rational: \<open>2 ^ e \<le> x < 2 ^ (e + 1)\<close>.\<close>

definition binade :: "rat \<Rightarrow> int" where
  "binade x =
     (case quotient_of x of
        (p, q) \<Rightarrow>
          (let k = int (bit_count p) - int (bit_count q)
           in if x < 2 powi k then k - 1 else k))"

definition round_even :: "rat \<Rightarrow> int" where
  "round_even x =
     (let f = \<lfloor>x\<rfloor>; d = x - of_int f
      in if d < 1 / 2 then f else if 1 / 2 < d then f + 1 else if even f then f else f + 1)"

definition ulp :: "int \<Rightarrow> rat" where
  "ulp e = 2 powi (e - 52)"

definition round64 :: "rat \<Rightarrow> rat" where
  "round64 x = (if x \<le> 0 then 0 else of_int (round_even (x / ulp (binade x))) * ulp (binade x))"

definition float_of_int :: "int \<Rightarrow> rat" where
  "float_of_int n = round64 (of_int n)"

definition float_div :: "rat \<Rightarrow> rat \<Rightarrow> rat" where
  "float_div x y = round64 (x / y)"

definition float_mul :: "rat \<Rightarrow> rat \<Rightarrow> rat" where
  "float_mul x y = round64 (x * y)"

definition float_sub :: "rat \<Rightarrow> rat \<Rightarrow> rat" where
  "float_sub x y = round64 (x - y)"

definition float_add :: "rat \<Rightarrow> rat \<Rightarrow> rat" where
  "float_add x y = round64 (x + y)"

section \<open>The exponent\<close>

lemma bit_count_bounds: "0 < n \<Longrightarrow> 2 ^ (bit_count n - 1) \<le> n \<and> n < 2 ^ bit_count n \<and> 0 < bit_count n"
proof (induction n rule: bit_count.induct)
  case (1 n)
  show ?case
  proof (cases "n = 1")
    case True
    then show ?thesis by (simp add: bit_count.simps)
  next
    case False
    with 1 have "0 < n div 2" by simp
    with 1 have "2 ^ (bit_count (n div 2) - 1) \<le> n div 2" "n div 2 < 2 ^ bit_count (n div 2)" "0 < bit_count (n div 2)"
      by auto
    moreover have "bit_count n = Suc (bit_count (n div 2))" using 1 by (subst bit_count.simps) simp
    moreover have "(2 :: int) ^ bit_count (n div 2) = 2 * 2 ^ (bit_count (n div 2) - 1)"
      using calculation(3) by (cases "bit_count (n div 2)") auto
    ultimately show ?thesis by (simp del: One_nat_def) linarith
  qed
qed

lemma powi_two_pos [simp]: "(0 :: rat) < 2 powi e"
  by (simp add: power_int_def)

lemma powi_two_mono: "d \<le> e \<Longrightarrow> (2 :: rat) powi d \<le> 2 powi e"
  by (simp add: power_int_increasing)

lemma powi_two_strict: "(2 :: rat) powi d < 2 powi e \<Longrightarrow> d < e"
  using powi_two_mono [of e d] by (meson not_le)

lemma powi_two_Suc: "(2 :: rat) powi (e + 1) = 2 * 2 powi e"
  by (simp add: power_int_add)

lemma bit_count_powi:
  assumes "0 < p"
  shows "(2 :: rat) powi (int (bit_count p) - 1) \<le> of_int p" and "of_int p < (2 :: rat) powi int (bit_count p)"
proof -
  let ?a = "bit_count p"
  have a: "2 ^ (?a - 1) \<le> p" "p < 2 ^ ?a" "0 < ?a" using bit_count_bounds [of p] assms by auto
  then have "(of_int (2 ^ (?a - 1)) :: rat) \<le> of_int p" "(of_int p :: rat) < of_int (2 ^ ?a)"
    by (simp_all only: of_int_le_iff of_int_less_iff)
  moreover have "int ?a - 1 = int (?a - 1)" using a(3) by simp
  ultimately show "(2 :: rat) powi (int ?a - 1) \<le> of_int p" "of_int p < (2 :: rat) powi int ?a"
    by (simp_all only: power_int_of_nat of_int_power of_int_numeral)
qed

lemma binade_bounds:
  assumes "0 < x"
  shows "2 powi binade x \<le> x" and "x < 2 powi (binade x + 1)"
proof -
  obtain p q where pq: "quotient_of x = (p, q)" by (cases "quotient_of x")
  then have x: "x = of_int p / of_int q" and q: "0 < q" by (simp_all add: quotient_of_div quotient_of_denom_pos)
  with assms have p: "0 < p" by (simp add: zero_less_divide_iff)
  define a b where "a = int (bit_count p)" and "b = int (bit_count q)"
  note bp = bit_count_powi [OF p, folded a_def] and bq = bit_count_powi [OF q, folded b_def]
  have "(2 :: rat) powi a = 2 powi (a - b + 1) * 2 powi (b - 1)" by (simp add: power_int_add [symmetric])
  also have "\<dots> \<le> 2 powi (a - b + 1) * of_int q" using bq(1) by (intro mult_left_mono) (simp_all add: less_imp_le)
  finally have up: "x < 2 powi (a - b + 1)" using bp(2) q unfolding x by (simp add: divide_less_eq)
  have "2 powi (a - b - 1) * of_int q \<le> 2 powi (a - b - 1) * (2 :: rat) powi b"
    using bq(2) by (intro mult_left_mono) (simp_all add: less_imp_le)
  also have "\<dots> = 2 powi (a - 1)" by (simp add: power_int_add [symmetric])
  finally have low: "2 powi (a - b - 1) \<le> x" using bp(1) q unfolding x by (simp add: le_divide_eq)
  have e: "binade x = (if x < 2 powi (a - b) then a - b - 1 else a - b)" by (simp add: binade_def pq Let_def a_def b_def)
  show "2 powi binade x \<le> x" using low unfolding e by (cases "x < 2 powi (a - b)") simp_all
  show "x < 2 powi (binade x + 1)" using up unfolding e by (cases "x < 2 powi (a - b)") simp_all
qed

lemma binade_unique:
  assumes "2 powi e \<le> x" and "x < 2 powi (e + 1)"
  shows "binade x = e"
proof -
  have "0 < x" using assms(1) powi_two_pos [of e] by (rule less_le_trans [rotated])
  note b = binade_bounds [OF this]
  have "e < binade x + 1" using assms(1) b(2) by (intro powi_two_strict) simp
  moreover have "binade x < e + 1" using assms(2) b(1) by (intro powi_two_strict) simp
  ultimately show ?thesis by simp
qed

lemma binade_mono: "0 < x \<Longrightarrow> x \<le> y \<Longrightarrow> binade x \<le> binade y"
  using binade_bounds [of x] binade_bounds [of y] powi_two_strict [of "binade x" "binade y + 1"] by force

section \<open>Rounding is monotone\<close>

lemma round_even_bounds: "\<lfloor>x\<rfloor> \<le> round_even x" "round_even x \<le> \<lceil>x\<rceil>"
proof -
  show "\<lfloor>x\<rfloor> \<le> round_even x" by (simp add: round_even_def Let_def)
  show "round_even x \<le> \<lceil>x\<rceil>"
    using ceiling_diff_floor_le_1 [of x] by (auto simp: round_even_def Let_def ceiling_altdef)
qed

lemma round_even_int [simp]: "round_even (of_int n) = n"
  by (simp add: round_even_def)

lemma round_even_mono:
  assumes "x \<le> y"
  shows "round_even x \<le> round_even y"
proof (cases "\<lfloor>x\<rfloor> = \<lfloor>y\<rfloor>")
  case True
  with assms show ?thesis by (auto simp: round_even_def Let_def)
next
  case False
  with floor_mono [OF assms] have "\<lfloor>x\<rfloor> + 1 \<le> \<lfloor>y\<rfloor>" by simp
  moreover have "round_even x \<le> \<lfloor>x\<rfloor> + 1" by (simp add: round_even_def Let_def)
  ultimately show ?thesis using round_even_bounds(1) [of y] by simp
qed

lemma ulp_pos [simp]: "0 < ulp e"
  by (simp add: ulp_def)

lemma ulp_add: "ulp (e + int m) = 2 ^ m * ulp e"
proof -
  have "(2 :: rat) powi (int m + (e - 52)) = 2 powi int m * 2 powi (e - 52)" by (rule power_int_add) simp
  moreover have "int m + (e - 52) = e + int m - 52" by simp
  ultimately show ?thesis by (simp only: ulp_def power_int_of_nat)
qed

lemma ulp_Suc: "ulp (e + 1) = 2 * ulp e"
  using ulp_add [of e 1] by simp

lemma powi_ulp: "2 powi e = of_int (2 ^ 52) * ulp e"
proof -
  have "(2 :: rat) powi e = 2 powi 52 * 2 powi (e - 52)" by (subst power_int_add [symmetric]) simp_all
  then show ?thesis by (simp add: ulp_def power_int_def)
qed

lemma scaled_bounds:
  assumes "0 < x"
  shows "of_int (2 ^ 52) \<le> x / ulp (binade x)" and "x / ulp (binade x) \<le> of_int (2 ^ 53)"
proof -
  show "of_int (2 ^ 52) \<le> x / ulp (binade x)"
    using binade_bounds(1) [OF assms] by (simp only: powi_ulp) (simp add: le_divide_eq)
  have "x < 2 * (of_int (2 ^ 52) * ulp (binade x))" 
    using binade_bounds(2) [OF assms] unfolding powi_ulp ulp_Suc by simp
  then show "x / ulp (binade x) \<le> of_int (2 ^ 53)" by (simp add: divide_le_eq)
qed

lemma mantissa_bounds:
  assumes "0 < x"
  shows "2 ^ 52 \<le> round_even (x / ulp (binade x))" and "round_even (x / ulp (binade x)) \<le> 2 ^ 53"
  using round_even_mono [OF scaled_bounds(1) [OF assms]] round_even_mono [OF scaled_bounds(2) [OF assms]]
  by (simp_all only: round_even_int)

lemma round64_binade:
  assumes "0 < x"
  shows "2 powi binade x \<le> round64 x" and "round64 x \<le> 2 powi (binade x + 1)"
proof -
  let ?e = "binade x"
  have r: "round64 x = of_int (round_even (x / ulp ?e)) * ulp ?e" using assms by (simp add: round64_def)
  have m: "(of_int (2 ^ 52) :: rat) \<le> of_int (round_even (x / ulp ?e))" "(of_int (round_even (x / ulp ?e)) :: rat) \<le> of_int (2 ^ 53)"
    using mantissa_bounds [OF assms] by (simp_all only: of_int_le_iff)
  show "2 powi ?e \<le> round64 x" unfolding r powi_ulp using m(1) by (intro mult_right_mono) (simp_all add: less_imp_le)
  have "round64 x \<le> of_int (2 ^ 53) * ulp ?e" unfolding r using m(2) by (intro mult_right_mono) (simp_all add: less_imp_le)
  also have "\<dots> = 2 powi (?e + 1)" unfolding powi_ulp ulp_Suc by simp
  finally show "round64 x \<le> 2 powi (?e + 1)" .
qed

lemma round64_neg: "x \<le> 0 \<Longrightarrow> round64 x = 0"
  by (simp add: round64_def)

lemma round64_pos: "0 < x \<Longrightarrow> 0 < round64 x"
  using round64_binade(1) [of x] powi_two_pos [of "binade x"] by (rule less_le_trans [rotated])

lemma round64_nonneg [simp]: "0 \<le> round64 x"
  using round64_pos [of x] round64_neg [of x] by (cases "0 < x") simp_all

theorem round64_mono:
  assumes "x \<le> y"
  shows "round64 x \<le> round64 y"
proof (cases "0 < x")
  case True
  with assms have y: "0 < y" by simp
  show ?thesis
  proof (cases "binade x = binade y")
    case True
    have "x / ulp (binade y) \<le> y / ulp (binade y)" using assms by (simp add: divide_right_mono less_imp_le)
    from round_even_mono [OF this] show ?thesis
      using \<open>0 < x\<close> y True by (simp add: round64_def mult_right_mono less_imp_le)
  next
    case False
    with binade_mono [OF \<open>0 < x\<close> assms] have "binade x + 1 \<le> binade y" by simp
    from powi_two_mono [OF this] show ?thesis using round64_binade(2) [OF \<open>0 < x\<close>] round64_binade(1) [OF y] by simp
  qed
qed (simp add: round64_neg)

text \<open>Numbers with at most 53 significant bits are kept.\<close>

lemma round64_scaled:
  assumes "0 < of_int n * ulp (binade (of_int n * ulp e))" and "binade (of_int n * ulp e) \<le> e"
  shows "round64 (of_int n * ulp e) = of_int n * ulp e"
proof -
  let ?x = "of_int n * ulp e" and ?d = "binade (of_int n * ulp e)"
  obtain m where m: "e = ?d + int m" using assms(2) by (metis zle_iff_zadd)
  have u: "ulp e = 2 ^ m * ulp ?d" using ulp_add [of ?d m] m by simp
  have "ulp ?d \<noteq> 0" using ulp_pos [of ?d] by linarith
  then have "?x / ulp ?d = of_int (n * 2 ^ m)" by (subst u) simp
  then have "round_even (?x / ulp ?d) = n * 2 ^ m" by (simp only: round_even_int)
  moreover have "0 < ?x" using assms(1) ulp_pos [of e] ulp_pos [of ?d] by (simp add: zero_less_mult_iff)
  ultimately have "round64 ?x = of_int (n * 2 ^ m) * ulp ?d" by (simp add: round64_def)
  also have "\<dots> = of_int n * ulp e" by (subst (2) u) simp
  finally show ?thesis .
qed

lemma round64_exact:
  assumes "0 \<le> n" and "n \<le> 2 ^ 53"
  shows "round64 (of_int n * 2 powi k) = of_int n * 2 powi k"
proof -
  consider "n = 0" | "n = 2 ^ 53" | "0 < n" "n < 2 ^ 53" using assms by linarith
  then show ?thesis
  proof cases
    case 1
    then show ?thesis by (simp add: round64_neg)
  next
    case 2
    have x: "of_int n * 2 powi k = (of_int (2 ^ 52) :: rat) * ulp (k + 53)"
      using powi_ulp [of "k + 53"] unfolding 2 by (simp add: power_int_add)
    have "binade (of_int (2 ^ 52) * ulp (k + 53)) = k + 53"
      unfolding powi_ulp [symmetric] by (rule binade_unique) (simp, simp only: powi_two_Suc, simp)
    then show ?thesis unfolding x by (intro round64_scaled) simp_all
  next
    case 3
    have x: "of_int n * 2 powi k = (of_int n :: rat) * ulp (k + 52)" by (simp add: ulp_def)
    have pos: "0 < (of_int n :: rat) * ulp (k + 52)" using 3(1) by simp
    have "(of_int n :: rat) < of_int (2 ^ 53)" using 3(2) by (simp only: of_int_less_iff)
    then have "of_int n * ulp (k + 52) < of_int (2 ^ 53) * ulp (k + 52)" by (rule mult_strict_right_mono) simp
    also have "\<dots> = 2 powi (k + 52 + 1)" unfolding powi_ulp ulp_Suc by simp
    finally have "2 powi binade (of_int n * ulp (k + 52)) < (2 :: rat) powi (k + 52 + 1)"
      using binade_bounds(1) [OF pos] by simp
    then have "binade (of_int n * ulp (k + 52)) < k + 52 + 1" by (rule powi_two_strict)
    then show ?thesis unfolding x using 3(1) by (intro round64_scaled) simp_all
  qed
qed

lemma round64_int: "0 \<le> n \<Longrightarrow> n \<le> 2 ^ 53 \<Longrightarrow> round64 (of_int n) = of_int n"
  using round64_exact [of n 0] by simp

lemma round64_0 [simp]: "round64 0 = 0" and round64_1 [simp]: "round64 1 = 1"
  using round64_int [of 0] round64_int [of 1] by simp_all

lemma round64_le_int: "x \<le> of_int n \<Longrightarrow> 0 \<le> n \<Longrightarrow> n \<le> 2 ^ 53 \<Longrightarrow> round64 x \<le> of_int n"
  using round64_mono [of x "of_int n"] round64_int by simp

text \<open>Rounding a rounded value changes nothing.\<close>

lemma round64_idem [simp]: "round64 (round64 x) = round64 x"
proof (cases "0 < x")
  case True
  let ?n = "round_even (x / ulp (binade x))"
  have r: "round64 x = of_int ?n * 2 powi (binade x - 52)" using True by (simp add: round64_def ulp_def)
  have "0 \<le> ?n" "?n \<le> 2 ^ 53" using mantissa_bounds [OF True] by simp_all
  then show ?thesis unfolding r by (intro round64_exact)
qed (simp add: round64_def)

end
