(* ===== verification/FetchClient.thy ===== *)
theory FetchClient
  imports CircuitBreaker Allowlist SsrfGuard Utf8 Float64
begin

text \<open>
  The HTTP clients of \<open>internal/fetch/fetch\<close>: \<open>guard.go\<close>, \<open>allowlist.go\<close>, \<open>charset.go\<close>'s use, the backoff delay
  of \<open>backoff.go\<close>, the plain client (\<open>honest.go\<close>) and the impersonating client (\<open>azuretls.go\<close>).

  The world outside is the record \<open>client_env\<close>: URL parsing, the resolver, the network, the clock, random
  numbers, cancellation, the charset decoder and the third-party session of \<open>azuretls\<close>. The resolver and the
  network see everything that was sent before, so answers may change between two checks. The client's state
  keeps what it sent: a hop is one request on one connection with the address it was dialled at.
  \<open>http.Client.Do\<close> follows redirects through \<open>CheckRedirect\<close> and dials through \<open>Dialer.Control\<close>, as documented.
\<close>

section \<open>Requests, replies and clients\<close>

record BackoffConfig =
  InitialDelay :: duration
  MaxDelay :: duration
  Multiplier :: rat
  MaxRetries :: int

definition DefaultBackoffConfig :: BackoffConfig where
  "DefaultBackoffConfig = \<lparr>InitialDelay = 500 * millisecond, MaxDelay = 30 * second, Multiplier = 2, MaxRetries = 3\<rparr>"

text \<open>\<open>pow\<close> is \<open>math.Pow\<close> and \<open>rnd\<close> the result of \<open>rand.Float64\<close>.\<close>

definition BackoffDelay :: "(rat \<Rightarrow> int \<Rightarrow> rat) \<Rightarrow> rat \<Rightarrow> BackoffConfig \<Rightarrow> int \<Rightarrow> duration" where
  "BackoffDelay pow rnd c attempt =
     (let raw = float_mul (float_of_int (InitialDelay c)) (pow (Multiplier c) attempt);
          delay = (if float_of_int (MaxDelay c) < raw then float_of_int (MaxDelay c) else raw);
          jitter = float_mul delay (float_add (1 / 2) (float_mul rnd (1 / 2)))
      in \<lfloor>jitter\<rfloor>)"

record Request =
  rq_URL :: string
  rq_Method :: string
  rq_Headers :: "(string \<times> string) list"
  rq_Body :: string
  rq_UserAgent :: string
  rq_Timeout :: duration
  rq_Proxy :: string
  rq_Session :: string
  rq_MaxBody :: int
  rq_AllowPrivate :: bool
  rq_Allowlist :: "allowlist option"

record Response =
  rs_FinalURL :: string
  rs_StatusCode :: int
  rs_Headers :: "(string \<times> string list) list"
  rs_Body :: string
  rs_Protocol :: string
  rs_ContentType :: string
  rs_Elapsed :: duration

record clientOptions =
  co_proxy :: string
  co_timeoutSeconds :: int
  co_maxBodyMB :: int
  co_enableRetry :: bool
  co_backoff :: BackoffConfig

datatype proxy_choice = FromEnvironment | FixedProxy string

text \<open>An \<open>http.Client\<close> as the sources build it: its proxy, whether the dialer has \<open>ControlSSRF\<close>, and whether its
  \<open>CheckRedirect\<close> calls \<open>CheckSSRF\<close>.\<close>

record http_client =
  hc_proxy :: proxy_choice
  hc_control :: bool
  hc_redirect_ssrf :: bool

record hop =
  h_url :: string
  h_address :: string
  h_client :: http_client

record http_request =
  hr_method :: string
  hr_headers :: "string \<Rightarrow> string option"
  hr_body :: string

text \<open>\<open>rp_location\<close> is the target of the \<open>Location\<close> header, resolved against the request.\<close>

record http_reply =
  rp_status :: int
  rp_location :: "string option"
  rp_headers :: "(string \<times> string list) list"
  rp_proto :: string
  rp_body :: "string + string"

datatype http_error =
    DialFailed
  | RoundTripFailed string
  | TooManyRedirects
  | RedirectOffList string
  | RedirectSsrf ssrf_error

datatype fetch_error =
    BlockedDomainError string
  | SsrfBlocked ssrf_error
  | BuildRequest string
  | BreakerOpen string
  | ContextDone
  | ReadBody string
  | ErrTooLarge string int
  | FetchFailed string "http_error option"
  | AzureFailed string string
  | NilResponse
  | ClientPanic

text \<open>The browser presets of the third-party session.\<close>

datatype az_preset = AzChrome | AzFirefox | AzOpera | AzSafari | AzEdge | AzIos

record az_session =
  az_browser :: az_preset
  az_proxy :: "string option"

record az_request =
  aq_method :: string
  aq_url :: string
  aq_headers :: "(string \<times> string) list"
  aq_body :: string
  aq_timeout :: duration

record az_reply =
  ar_status :: int
  ar_headers :: "(string \<times> string list) list"
  ar_body :: string
  ar_url :: "string option"
  ar_proto :: "string option"

record client_env =
  ce_parse :: "string \<Rightarrow> string + url"
  ce_lookup :: "hop list \<Rightarrow> LookupFunc"
  ce_dials :: "hop list \<Rightarrow> http_client \<Rightarrow> string \<Rightarrow> string list"
  ce_net :: "hop list \<Rightarrow> http_request \<Rightarrow> hop \<Rightarrow> string + http_reply"
  ce_clock :: "nat \<Rightarrow> go_time"
  ce_rand :: "nat \<Rightarrow> rat"
  ce_cancelled :: "nat \<Rightarrow> bool"
  ce_pow :: "rat \<Rightarrow> int \<Rightarrow> rat"
  ce_date :: "string \<Rightarrow> go_time option"
  ce_charset :: "string \<Rightarrow> string \<Rightarrow> string option"
  ce_canonical :: "string \<Rightarrow> string"
  ce_azure :: "nat \<Rightarrow> az_session \<Rightarrow> az_request \<Rightarrow> string + az_reply"
  ce_set_proxy :: "string \<Rightarrow> bool"

record client_state =
  cs_limiter :: "HostRateLimiter option"
  cs_proxies :: "(string \<times> http_client) list"
  cs_order :: "string list"
  cs_sent :: "hop list"
  cs_waits :: "duration list"
  cs_ticks :: nat

definition tick :: "client_env \<Rightarrow> client_state \<Rightarrow> go_time \<times> client_state" where
  "tick env st = (ce_clock env (cs_ticks st), st\<lparr>cs_ticks := Suc (cs_ticks st)\<rparr>)"

section \<open>The guards\<close>

definition CheckAllowlist :: "(string \<Rightarrow> string + url) \<Rightarrow> string \<Rightarrow> allowlist option \<Rightarrow> fetch_error option" where
  "CheckAllowlist parseURL rawURL al =
     (if al = None \<or> \<not> Active al then None
      else (case parseURL rawURL of
              Inl _ \<Rightarrow> Some (BlockedDomainError rawURL)
            | Inr u \<Rightarrow> if Allowlist.AllowsURL al (Some u) then None else Some (BlockedDomainError rawURL)))"

definition check_ssrf :: "client_env \<Rightarrow> hop list \<Rightarrow> string \<Rightarrow> ssrf_error option" where
  "check_ssrf env sent rawURL = CheckSSRF (ce_parse env) (ce_lookup env sent) rawURL"

text \<open>\<open>net.SplitHostPort\<close>: the host, unless the address is malformed.\<close>

definition SplitHostPort :: "string \<Rightarrow> string option" where
  "SplitHostPort hostport =
     (case last_index_byte hostport (CHR '':'') of
        None \<Rightarrow> None
      | Some i \<Rightarrow>
          if hd hostport = CHR ''['' then
            (case index_of hostport '']'' of
               None \<Rightarrow> None
             | Some e \<Rightarrow>
                 if e + 1 \<noteq> i then None
                 else if CHR ''['' \<in> set (drop 1 hostport) \<or> CHR '']'' \<in> set (drop (e + 1) hostport) then None
                 else Some (take (e - 1) (drop 1 hostport)))
          else if CHR '':'' \<in> set (take i hostport) then None
          else if CHR ''['' \<in> set hostport \<or> CHR '']'' \<in> set hostport then None
          else Some (take i hostport))"

definition ControlSSRF :: "string \<Rightarrow> ssrf_error option" where
  "ControlSSRF address =
     (let host = (case SplitHostPort address of Some h \<Rightarrow> h | None \<Rightarrow> address) in
      case ParseIP host of
        Some i \<Rightarrow> if IsPrivateIP i then Some (BlockedPrivateError address) else None
      | None \<Rightarrow> None)"

section \<open>Sending with redirects\<close>

definition checkRedirect :: "client_env \<Rightarrow> hop list \<Rightarrow> http_client \<Rightarrow> allowlist option \<Rightarrow> nat \<Rightarrow> string \<Rightarrow> http_error option" where
  "checkRedirect env sent hc al via next_url =
     (if 10 \<le> via then Some TooManyRedirects
      else if CheckAllowlist (ce_parse env) next_url al \<noteq> None then Some (RedirectOffList next_url)
      else if hc_redirect_ssrf hc then map_option RedirectSsrf (check_ssrf env sent next_url)
      else None)"

text \<open>One connection: the dialer tries the addresses in turn and \<open>Control\<close> refuses some of them.\<close>

definition send_hop :: "client_env \<Rightarrow> http_client \<Rightarrow> http_request \<Rightarrow> string \<Rightarrow> client_state \<Rightarrow> (http_error + http_reply) \<times> client_state" where
  "send_hop env hc hreq u st =
     (case find (\<lambda>a. hc_control hc \<longrightarrow> ControlSSRF a = None) (ce_dials env (cs_sent st) hc u) of
        None \<Rightarrow> (Inl DialFailed, st)
      | Some a \<Rightarrow>
          (let h = \<lparr>h_url = u, h_address = a, h_client = hc\<rparr>; st' = st\<lparr>cs_sent := cs_sent st @ [h]\<rparr>
           in case ce_net env (cs_sent st) hreq h of
                Inl err \<Rightarrow> (Inl (RoundTripFailed err), st')
              | Inr rep \<Rightarrow> (Inr rep, st')))"

definition is_redirect :: "http_reply \<Rightarrow> bool" where
  "is_redirect rep \<longleftrightarrow> rp_status rep \<in> set [301, 302, 303, 307, 308]"

function http_do ::
  "client_env \<Rightarrow> http_client \<Rightarrow> http_request \<Rightarrow> allowlist option \<Rightarrow> nat \<Rightarrow> string \<Rightarrow> client_state
     \<Rightarrow> (http_error + string \<times> http_reply) \<times> client_state" where
  "http_do env hc hreq al via u st =
     (case send_hop env hc hreq u st of
        (Inl err, st') \<Rightarrow> (Inl err, st')
      | (Inr rep, st') \<Rightarrow>
          (case (if is_redirect rep then rp_location rep else None) of
             None \<Rightarrow> (Inr (u, rep), st')
           | Some loc \<Rightarrow>
               (case checkRedirect env (cs_sent st') hc al (Suc via) loc of
                  Some err \<Rightarrow> (Inl err, st')
                | None \<Rightarrow> http_do env hc hreq al (Suc via) loc st')))"
  by pat_completeness auto
termination
  by (relation "measure (\<lambda>(_, _, _, _, via, _, _). 10 - via)") (auto simp: checkRedirect_def split: if_splits)

declare http_do.simps [simp del]

section \<open>Retries\<close>

definition ask_limiter :: "client_env \<Rightarrow> string \<Rightarrow> client_state \<Rightarrow> bool \<times> client_state" where
  "ask_limiter env u st =
     (case cs_limiter st of
        None \<Rightarrow> (True, st)
      | Some hrl \<Rightarrow>
          (let (now, st1) = tick env st; (ok, hrl') = limiter_allow (ce_parse env) now hrl u
           in (ok, st1\<lparr>cs_limiter := Some hrl'\<rparr>)))"

definition record_failure :: "client_env \<Rightarrow> string \<Rightarrow> client_state \<Rightarrow> client_state" where
  "record_failure env u st =
     (case cs_limiter st of
        None \<Rightarrow> st
      | Some hrl \<Rightarrow> (let (now, st1) = tick env st in st1\<lparr>cs_limiter := Some (limiter_failure (ce_parse env) now hrl u)\<rparr>))"

definition record_success :: "client_env \<Rightarrow> string \<Rightarrow> client_state \<Rightarrow> client_state" where
  "record_success env u st =
     (case cs_limiter st of None \<Rightarrow> st | Some hrl \<Rightarrow> st\<lparr>cs_limiter := Some (limiter_success (ce_parse env) hrl u)\<rparr>)"

definition backoff :: "client_env \<Rightarrow> clientOptions \<Rightarrow> int \<Rightarrow> client_state \<Rightarrow> duration \<times> client_state" where
  "backoff env co attempt st =
     (BackoffDelay (ce_pow env) (ce_rand env (cs_ticks st)) (co_backoff co) attempt, st\<lparr>cs_ticks := Suc (cs_ticks st)\<rparr>)"

text \<open>The \<open>select\<close> between the context and the timer; the result says whether the context was done.\<close>

definition wait_delay :: "client_env \<Rightarrow> duration \<Rightarrow> client_state \<Rightarrow> bool \<times> client_state" where
  "wait_delay env delay st =
     (ce_cancelled env (cs_ticks st), st\<lparr>cs_ticks := Suc (cs_ticks st), cs_waits := cs_waits st @ [delay]\<rparr>)"

definition header_get :: "(string \<times> string list) list \<Rightarrow> string \<Rightarrow> string" where
  "header_get hs k = (case map_of hs k of Some (v # _) \<Rightarrow> v | _ \<Rightarrow> [])"

text \<open>\<open>bytes.ToValidUTF8\<close>: each run of invalid bytes becomes one replacement.\<close>

function ToValidUTF8 :: "bool \<Rightarrow> string \<Rightarrow> string \<Rightarrow> string" where
  "ToValidUTF8 inside rpl s =
     (if s = [] then []
      else if decode_rune s = (65533, 1) then (if inside then [] else rpl) @ ToValidUTF8 True rpl (drop 1 s)
      else take (snd (decode_rune s)) s @ ToValidUTF8 False rpl (drop (snd (decode_rune s)) s))"
  by pat_completeness auto
termination
proof (relation "measure (\<lambda>(_, _, s). length s)", goal_cases)
  case (3 inside rpl s)
  then show ?case using decode_rune_width [of s] by (cases s) auto
qed auto

declare ToValidUTF8.simps [simp del]

text \<open>\<open>normaliseCharset\<close> returns no body with its error, and the caller has overwritten its own by then.\<close>

definition decoded_body :: "client_env \<Rightarrow> string \<Rightarrow> string \<Rightarrow> string" where
  "decoded_body env body ct = (case ce_charset env body ct of Some b \<Rightarrow> b | None \<Rightarrow> ToValidUTF8 False ''?'' [])"

definition read_reply ::
  "client_env \<Rightarrow> Request \<Rightarrow> int \<Rightarrow> string \<Rightarrow> http_reply \<Rightarrow> duration \<Rightarrow> client_state \<Rightarrow> (fetch_error + Response) \<times> client_state" where
  "read_reply env req maxBody final rep elapsed st =
     (case rp_body rep of
        Inl err \<Rightarrow> (Inl (ReadBody err), st)
      | Inr full \<Rightarrow>
          (let body = take (nat (maxBody + 1)) full in
           if maxBody < int (length body) then (Inl (ErrTooLarge (rq_URL req) maxBody), st)
           else (let ct = header_get (rp_headers rep) ''Content-Type'' in
                 (Inr \<lparr>rs_FinalURL = final, rs_StatusCode = rp_status rep, rs_Headers = rp_headers rep,
                       rs_Body = decoded_body env body ct,
                       rs_Protocol = (if has_prefix (rp_proto rep) ''HTTP/2'' then ''HTTP/2.0'' else ''HTTP/1.1''),
                       rs_ContentType = ct, rs_Elapsed = elapsed\<rparr>,
                  record_success env (rq_URL req) st))))"

definition max_retries :: "clientOptions \<Rightarrow> int" where
  "max_retries co = (if co_enableRetry co then MaxRetries (co_backoff co) else 0)"

function retry_loop ::
  "client_env \<Rightarrow> clientOptions \<Rightarrow> Request \<Rightarrow> http_client \<Rightarrow> http_request \<Rightarrow> int \<Rightarrow> int \<Rightarrow> http_error option \<Rightarrow> client_state
     \<Rightarrow> (fetch_error + Response) \<times> client_state" where
  "retry_loop env co req hc hreq maxBody attempt lastErr st =
     (if max_retries co < attempt then (Inl (FetchFailed (rq_URL req) lastErr), st)
      else
        (let (ok, st1) = ask_limiter env (rq_URL req) st in
         if \<not> ok then (Inl (BreakerOpen (extractHost (ce_parse env) (rq_URL req))), st1)
         else
           (let (start, st2) = tick env st1;
                (res, st3) = http_do env hc hreq (rq_Allowlist req) 0 (rq_URL req) st2;
                (stop, st4) = tick env st3
            in case res of
                 Inr (final, rep) \<Rightarrow>
                   (case CheckAllowlist (ce_parse env) final (rq_Allowlist req) of
                      Some err \<Rightarrow> (Inl err, st4)
                    | None \<Rightarrow>
                        if IsTransientError (rp_status rep) False \<and> co_enableRetry co \<and> attempt < max_retries co then
                          (let (now, st5) = tick env st4;
                               retryAfter = ParseRetryAfter (ce_date env) now (header_get (rp_headers rep) ''Retry-After'');
                               (delay, st6) = backoff env co attempt st5;
                               st7 = record_failure env (rq_URL req) st6;
                               (gone, st8) = wait_delay env (if delay < retryAfter then retryAfter else delay) st7
                           in if gone then (Inl ContextDone, st8)
                              else retry_loop env co req hc hreq maxBody (attempt + 1) lastErr st8)
                        else read_reply env req maxBody final rep (stop - start) st4)
               | Inl err \<Rightarrow>
                   (let st5 = record_failure env (rq_URL req) st4 in
                    if \<not> co_enableRetry co \<or> max_retries co \<le> attempt then (Inl (FetchFailed (rq_URL req) (Some err)), st5)
                    else (let (delay, st6) = backoff env co attempt st5; (gone, st7) = wait_delay env delay st6
                          in if gone then (Inl ContextDone, st7)
                             else retry_loop env co req hc hreq maxBody (attempt + 1) (Some err) st7)))))"
  by pat_completeness auto
termination
  by (relation "measure (\<lambda>(_, co, _, _, _, _, attempt, _, _). nat (max_retries co + 1 - attempt))") auto

declare retry_loop.simps [simp del]

section \<open>The plain client\<close>

record honest_client =
  hcSafe :: http_client
  hcUnsafe :: http_client
  ho_opts :: clientOptions

definition newHonestClient :: "(string \<Rightarrow> string + url) \<Rightarrow> clientOptions \<Rightarrow> string + honest_client" where
  "newHonestClient parseURL co =
     (let client = (\<lambda>prx. \<lparr>hcSafe = \<lparr>hc_proxy = prx, hc_control = True, hc_redirect_ssrf = True\<rparr>,
                           hcUnsafe = \<lparr>hc_proxy = prx, hc_control = False, hc_redirect_ssrf = False\<rparr>, ho_opts = co\<rparr>) in
      if co_proxy co = [] then Inr (client FromEnvironment)
      else (case parseURL (co_proxy co) of
              Inl err \<Rightarrow> Inl (''invalid proxy: '' @ err)
            | Inr _ \<Rightarrow> Inr (client (FixedProxy (co_proxy co)))))"

abbreviation maxProxySessions :: nat where "maxProxySessions \<equiv> 10"

definition proxy_key :: "string \<Rightarrow> bool \<Rightarrow> string" where
  "proxy_key proxyURL priv = (if priv then proxyURL @ ''?allow-private'' else proxyURL)"

text \<open>The entry to drop when the table is full; \<^const>\<open>None\<close> is the panic of indexing an empty order.\<close>

definition evict_proxy :: "client_state \<Rightarrow> client_state option" where
  "evict_proxy st =
     (if length (cs_proxies st) < maxProxySessions then Some st
      else (case cs_order st of
              [] \<Rightarrow> None
            | oldest # rest \<Rightarrow> Some (st\<lparr>cs_order := rest, cs_proxies := AList.delete oldest (cs_proxies st)\<rparr>)))"

definition getProxyClient :: "client_env \<Rightarrow> honest_client \<Rightarrow> string \<Rightarrow> bool \<Rightarrow> client_state \<Rightarrow> http_client option \<times> client_state" where
  "getProxyClient env c proxyURL priv st =
     (let key = proxy_key proxyURL priv in
      case map_of (cs_proxies st) key of
        Some hc \<Rightarrow> (Some hc, st)
      | None \<Rightarrow>
          (case evict_proxy st of
             None \<Rightarrow> (None, st)
           | Some st1 \<Rightarrow>
               (case ce_parse env proxyURL of
                  Inl _ \<Rightarrow> (Some (if priv then hcUnsafe c else hcSafe c), st1)
                | Inr _ \<Rightarrow>
                    (let hc = \<lparr>hc_proxy = FixedProxy proxyURL, hc_control = \<not> priv, hc_redirect_ssrf = \<not> priv\<rparr>
                     in (Some hc, st1\<lparr>cs_proxies := AList.update key hc (cs_proxies st1), cs_order := cs_order st1 @ [key]\<rparr>)))))"

definition method_chars :: string where
  "method_chars = ''!#$%&*+-.^_`|~0123456789abcdefghijklmnopqrstuvwxyzABCDEFGHIJKLMNOPQRSTUVWXYZ'' @ [CHR 0x27]"

text \<open>\<open>http.NewRequestWithContext\<close> refuses a method that is no token and a URL that does not parse.\<close>

definition request_error :: "(string \<Rightarrow> string + url) \<Rightarrow> string \<Rightarrow> string \<Rightarrow> string option" where
  "request_error parseURL meth u =
     (if \<not> list_all (\<lambda>c. c \<in> set method_chars) meth then Some (''net/http: invalid method '' @ go_quote meth)
      else (case parseURL u of Inl err \<Rightarrow> Some err | Inr _ \<Rightarrow> None))"

definition Accept_html :: string where
  "Accept_html = ''text/html,application/xhtml+xml,application/xml;q=0.9,*/*;q=0.8''"

definition honestUA :: string where
  "honestUA = ''symfetch/0.1 (+https://github.com/danieljustus/symaira-fetch)''"

definition header_set :: "(string \<Rightarrow> string) \<Rightarrow> (string \<Rightarrow> string option) \<Rightarrow> string \<times> string \<Rightarrow> (string \<Rightarrow> string option)" where
  "header_set canonical h kv = h(canonical (fst kv) \<mapsto> snd kv)"

text \<open>The headers of a request; the caller's headers come in the iteration order of the map.\<close>

definition request_headers :: "(string \<Rightarrow> string) \<Rightarrow> Request \<Rightarrow> (string \<Rightarrow> string option)" where
  "request_headers canonical req =
     (let userAgent = (if rq_UserAgent req = [] then honestUA else rq_UserAgent req);
          h = foldl (header_set canonical) Map.empty
                ([(''User-Agent'', userAgent), (''Accept'', Accept_html), (''Accept-Language'', ''en-US,en;q=0.5'')] @ rq_Headers req)
      in if rq_UserAgent req \<noteq> [] then header_set canonical h (''User-Agent'', rq_UserAgent req) else h)"

definition max_body :: "clientOptions \<Rightarrow> Request \<Rightarrow> int" where
  "max_body co req = (if 0 < rq_MaxBody req then rq_MaxBody req else wrap64 (co_maxBodyMB co * 1024 * 1024))"

definition honest_Fetch :: "client_env \<Rightarrow> honest_client \<Rightarrow> Request \<Rightarrow> client_state \<Rightarrow> (fetch_error + Response) \<times> client_state" where
  "honest_Fetch env c req st =
     (case CheckAllowlist (ce_parse env) (rq_URL req) (rq_Allowlist req) of
        Some err \<Rightarrow> (Inl err, st)
      | None \<Rightarrow>
          (case (if rq_AllowPrivate req then None else check_ssrf env (cs_sent st) (rq_URL req)) of
             Some err \<Rightarrow> (Inl (SsrfBlocked err), st)
           | None \<Rightarrow>
               (let meth = (if rq_Method req = [] then ''GET'' else rq_Method req) in
                case request_error (ce_parse env) meth (rq_URL req) of
                  Some err \<Rightarrow> (Inl (BuildRequest err), st)
                | None \<Rightarrow>
                    (let hreq = \<lparr>hr_method = meth, hr_headers = request_headers (ce_canonical env) req, hr_body = rq_Body req\<rparr> in
                     if rq_Proxy req \<noteq> [] then
                       (case getProxyClient env c (rq_Proxy req) (rq_AllowPrivate req) st of
                          (None, st1) \<Rightarrow> (Inl ClientPanic, st1)
                        | (Some hc, st1) \<Rightarrow> retry_loop env (ho_opts c) req hc hreq (max_body (ho_opts c) req) 0 None st1)
                     else retry_loop env (ho_opts c) req (if rq_AllowPrivate req then hcUnsafe c else hcSafe c) hreq
                            (max_body (ho_opts c) req) 0 None st))))"

definition honest_Close :: "client_state \<Rightarrow> client_state" where
  "honest_Close st = st\<lparr>cs_proxies := [], cs_order := []\<rparr>"

section \<open>The impersonating client\<close>

definition az_headers :: "Request \<Rightarrow> (string \<times> string) list" where
  "az_headers req =
     filter (\<lambda>kv. \<not> (to_lower (fst kv) = ''user-agent'' \<and> rq_UserAgent req \<noteq> [])) (rq_Headers req)
       @ (if rq_UserAgent req \<noteq> [] then [(''User-Agent'', rq_UserAgent req)] else [])"

definition az_request_of :: "clientOptions \<Rightarrow> Request \<Rightarrow> az_request" where
  "az_request_of co req =
     \<lparr>aq_method = (if rq_Method req = [] then ''GET'' else rq_Method req), aq_url = rq_URL req, aq_headers = az_headers req,
      aq_body = rq_Body req, aq_timeout = (if 0 < rq_Timeout req then rq_Timeout req else wrap64 (co_timeoutSeconds co * second))\<rparr>"

definition detectProto :: "az_reply \<Rightarrow> string" where
  "detectProto rep =
     (case ar_proto rep of
        None \<Rightarrow> ''HTTP/1.1''
      | Some p \<Rightarrow> if has_prefix p ''HTTP/2'' then ''HTTP/2.0'' else if has_prefix p ''HTTP/3'' then ''HTTP/3.0'' else ''HTTP/1.1'')"

definition processResponse :: "client_env \<Rightarrow> string \<Rightarrow> az_reply \<Rightarrow> duration \<Rightarrow> string \<Rightarrow> Response" where
  "processResponse env rawURL rep elapsed proto =
     (let ct = header_get (ar_headers rep) ''Content-Type'' in
      \<lparr>rs_FinalURL = (case ar_url rep of Some u \<Rightarrow> u | None \<Rightarrow> rawURL), rs_StatusCode = ar_status rep, rs_Headers = ar_headers rep,
       rs_Body = (case ce_charset env (ar_body rep) ct of Some b \<Rightarrow> b | None \<Rightarrow> []),
       rs_Protocol = proto, rs_ContentType = ct, rs_Elapsed = elapsed\<rparr>)"

definition az_do :: "client_env \<Rightarrow> az_session \<Rightarrow> az_request \<Rightarrow> client_state \<Rightarrow> (string + az_reply) \<times> client_state" where
  "az_do env sess azReq st = (ce_azure env (cs_ticks st) sess azReq, st\<lparr>cs_ticks := Suc (cs_ticks st)\<rparr>)"

text \<open>The error of one attempt: of the session, or a body beyond the limit.\<close>

definition az_attempt_error :: "Request \<Rightarrow> int \<Rightarrow> string + az_reply \<Rightarrow> fetch_error option" where
  "az_attempt_error req maxBody res =
     (case res of
        Inl err \<Rightarrow> Some (AzureFailed (rq_URL req) err)
      | Inr rep \<Rightarrow> if maxBody < int (length (ar_body rep)) then Some (ErrTooLarge (rq_URL req) maxBody) else None)"

function az_retry_loop ::
  "client_env \<Rightarrow> clientOptions \<Rightarrow> az_session \<Rightarrow> Request \<Rightarrow> int \<Rightarrow> int \<Rightarrow> fetch_error option \<Rightarrow> client_state
     \<Rightarrow> (fetch_error + Response) \<times> client_state" where
  "az_retry_loop env co sess req maxBody attempt lastErr st =
     (if max_retries co < attempt then
        (Inl (case lastErr of Some err \<Rightarrow> err | None \<Rightarrow> NilResponse), st)
      else
        (let (ok, st1) = ask_limiter env (rq_URL req) st in
         if \<not> ok then (Inl (BreakerOpen (extractHost (ce_parse env) (rq_URL req))), st1)
         else
           (let (start, st2) = tick env st1;
                (res, st3) = az_do env sess (az_request_of co req) st2;
                (stop, st4) = tick env st3
            in case az_attempt_error req maxBody res of
                 None \<Rightarrow>
                   (let resp = processResponse env (rq_URL req) (projr res) (stop - start) (detectProto (projr res)) in
                    case CheckAllowlist (ce_parse env) (rs_FinalURL resp) (rq_Allowlist req) of
                      Some err \<Rightarrow> (Inl err, st4)
                    | None \<Rightarrow>
                        (case (if \<not> rq_AllowPrivate req \<and> rs_FinalURL resp \<noteq> rq_URL req
                               then check_ssrf env (cs_sent st4) (rs_FinalURL resp) else None) of
                           Some err \<Rightarrow> (Inl (SsrfBlocked err), st4)
                         | None \<Rightarrow> (Inr resp, record_success env (rq_URL req) st4)))
               | Some err \<Rightarrow>
                   (let st5 = record_failure env (rq_URL req) st4 in
                    if \<not> co_enableRetry co \<or> max_retries co \<le> attempt then (Inl err, st5)
                    else (let (delay, st6) = backoff env co attempt st5; (gone, st7) = wait_delay env delay st6
                          in if gone then (Inl ContextDone, st7)
                             else az_retry_loop env co sess req maxBody (attempt + 1) (Some err) st7)))))"
  by pat_completeness auto
termination
  by (relation "measure (\<lambda>(_, co, _, _, _, attempt, _, _). nat (max_retries co + 1 - attempt))") auto

declare az_retry_loop.simps [simp del]

text \<open>The session for a proxy. The table maps a proxy to the session made for it, and a proxy that is refused gives
  a nil session after an entry may have been dropped.\<close>

record azure_client =
  ac_session :: az_session
  ac_opts :: clientOptions
  ac_sessions :: "(string \<times> az_session) list"
  ac_order :: "string list"

definition getProxySession :: "client_env \<Rightarrow> azure_client \<Rightarrow> string \<Rightarrow> az_session option option \<times> azure_client" where
  "getProxySession env c proxyURL =
     (case map_of (ac_sessions c) proxyURL of
        Some sess \<Rightarrow> (Some (Some sess), c)
      | None \<Rightarrow>
          (case (if length (ac_sessions c) < maxProxySessions then Some c
                 else (case ac_order c of
                         [] \<Rightarrow> None
                       | oldest # rest \<Rightarrow> Some (c\<lparr>ac_order := rest, ac_sessions := AList.delete oldest (ac_sessions c)\<rparr>))) of
             None \<Rightarrow> (None, c)
           | Some c1 \<Rightarrow>
               if \<not> ce_set_proxy env proxyURL then (Some None, c1)
               else (let sess = \<lparr>az_browser = az_browser (ac_session c), az_proxy = Some proxyURL\<rparr>
                     in (Some (Some sess), c1\<lparr>ac_sessions := AList.update proxyURL sess (ac_sessions c1), ac_order := ac_order c1 @ [proxyURL]\<rparr>))))"

definition fetchWithProxy ::
  "client_env \<Rightarrow> azure_client \<Rightarrow> Request \<Rightarrow> client_state \<Rightarrow> ((fetch_error + Response) \<times> azure_client) \<times> client_state" where
  "fetchWithProxy env c req st =
     (case getProxySession env c (rq_Proxy req) of
        (Some (Some sess), c1) \<Rightarrow>
          (let (start, st1) = tick env st;
               (res, st2) = az_do env sess (az_request_of (ac_opts c) req) st1;
               (stop, st3) = tick env st2
           in ((case az_attempt_error req (max_body (ac_opts c) req) res of
                  Some err \<Rightarrow> Inl err
                | None \<Rightarrow>
                    (let resp = processResponse env (rq_URL req) (projr res) (stop - start) ''HTTP/2.0'' in
                     case CheckAllowlist (ce_parse env) (rs_FinalURL resp) (rq_Allowlist req) of
                       Some err \<Rightarrow> Inl err
                     | None \<Rightarrow> Inr resp), c1), st3))
      | (_, c1) \<Rightarrow> ((Inl ClientPanic, c1), st))"

definition azure_Fetch ::
  "client_env \<Rightarrow> azure_client \<Rightarrow> Request \<Rightarrow> client_state \<Rightarrow> ((fetch_error + Response) \<times> azure_client) \<times> client_state" where
  "azure_Fetch env c req st =
     (case CheckAllowlist (ce_parse env) (rq_URL req) (rq_Allowlist req) of
        Some err \<Rightarrow> ((Inl err, c), st)
      | None \<Rightarrow>
          (case (if rq_AllowPrivate req then None else check_ssrf env (cs_sent st) (rq_URL req)) of
             Some err \<Rightarrow> ((Inl (SsrfBlocked err), c), st)
           | None \<Rightarrow>
               if rq_Proxy req \<noteq> [] then fetchWithProxy env c req st
               else (case az_retry_loop env (ac_opts c) (ac_session c) req (max_body (ac_opts c) req) 0 None st of
                       (res, st') \<Rightarrow> ((res, c), st'))))"

definition azure_Close :: "azure_client \<Rightarrow> azure_client" where
  "azure_Close c = c\<lparr>ac_sessions := [], ac_order := []\<rparr>"

section \<open>Choosing a client\<close>

datatype Profile = ProfileChrome | ProfileFirefox | ProfileOpera | ProfileSafari | ProfileEdge | ProfileIos | ProfileHonest | ProfileRandom

definition verifiedPresets :: "Profile list" where
  "verifiedPresets = [ProfileChrome, ProfileFirefox, ProfileOpera, ProfileSafari, ProfileEdge, ProfileIos]"

definition isVerifiedPreset :: "Profile \<Rightarrow> bool" where
  "isVerifiedPreset p \<longleftrightarrow> list_ex (\<lambda>vp. p = vp) verifiedPresets"

definition ParseProfile :: "string \<Rightarrow> Profile" where
  "ParseProfile s =
     (if s = ''firefox'' then ProfileFirefox else if s = ''opera'' then ProfileOpera
      else if s = ''safari'' then ProfileSafari else if s = ''edge'' then ProfileEdge
      else if s = ''ios'' then ProfileIos else if s = ''honest'' then ProfileHonest
      else if s = ''random'' then ProfileRandom else ProfileChrome)"

fun azuretlsBrowser :: "Profile \<Rightarrow> az_preset" where
  "azuretlsBrowser ProfileFirefox = AzFirefox"
| "azuretlsBrowser ProfileOpera = AzOpera"
| "azuretlsBrowser ProfileSafari = AzSafari"
| "azuretlsBrowser ProfileEdge = AzEdge"
| "azuretlsBrowser ProfileIos = AzIos"
| "azuretlsBrowser _ = AzChrome"

datatype fetch_client = Honest honest_client | Azure azure_client

text \<open>\<open>pick\<close> is the result of \<open>rand.Intn\<close>.\<close>

definition randomProfile :: "nat \<Rightarrow> Profile" where
  "randomProfile pick = verifiedPresets ! pick"

definition newAzureClient :: "client_env \<Rightarrow> nat \<Rightarrow> Profile \<Rightarrow> clientOptions \<Rightarrow> string + azure_client" where
  "newAzureClient env pick p co =
     (let p' = (if p = ProfileRandom then randomProfile pick else p) in
      if co_proxy co \<noteq> [] \<and> \<not> ce_set_proxy env (co_proxy co) then Inl ''invalid proxy''
      else Inr \<lparr>ac_session = \<lparr>az_browser = azuretlsBrowser p', az_proxy = (if co_proxy co = [] then None else Some (co_proxy co))\<rparr>,
                ac_opts = co, ac_sessions = [], ac_order = []\<rparr>)"

text \<open>\<open>New\<close>, after the options were applied; the limiter is the one the options carry.\<close>

definition New_client ::
  "client_env \<Rightarrow> nat \<Rightarrow> Profile \<Rightarrow> clientOptions \<Rightarrow> HostRateLimiter option \<Rightarrow> string + fetch_client \<times> client_state" where
  "New_client env pick p co limiter =
     (let hrl = (if co_enableRetry co \<and> limiter = None then Some (NewHostRateLimiter DefaultCircuitBreakerConfig) else limiter);
          st = \<lparr>cs_limiter = hrl, cs_proxies = [], cs_order = [], cs_sent = [], cs_waits = [], cs_ticks = 0\<rparr>
      in if p = ProfileHonest
         then (case newHonestClient (ce_parse env) co of Inl err \<Rightarrow> Inl err | Inr c \<Rightarrow> Inr (Honest c, st))
         else (case newAzureClient env pick p co of Inl err \<Rightarrow> Inl err | Inr c \<Rightarrow> Inr (Azure c, st)))"

definition client_Fetch :: "client_env \<Rightarrow> Request \<Rightarrow> fetch_client \<times> client_state \<Rightarrow> (fetch_error + Response) \<times> fetch_client \<times> client_state" where
  "client_Fetch env req cl =
     (case cl of
        (Honest c, st) \<Rightarrow> (case honest_Fetch env c req st of (res, st') \<Rightarrow> (res, Honest c, st'))
      | (Azure c, st) \<Rightarrow> (case azure_Fetch env c req st of ((res, c'), st') \<Rightarrow> (res, Azure c', st')))"

definition defaultOptions :: clientOptions where
  "defaultOptions = \<lparr>co_proxy = [], co_timeoutSeconds = 30, co_maxBodyMB = 10, co_enableRetry = False, co_backoff = DefaultBackoffConfig\<rparr>"

section \<open>What is sent is guarded\<close>

text \<open>A hop that a request may make: its URL is on the allowlist, and unless private targets are allowed the address
  it was dialled at passed \<open>ControlSSRF\<close> and its URL passed \<open>CheckSSRF\<close> at that time or earlier.\<close>

definition vetted :: "client_env \<Rightarrow> Request \<Rightarrow> hop list \<Rightarrow> string \<Rightarrow> bool" where
  "vetted env req sent u \<longleftrightarrow> CheckAllowlist (ce_parse env) u (rq_Allowlist req) = None
     \<and> (rq_AllowPrivate req \<or> (\<exists>earlier. prefix earlier sent \<and> check_ssrf env earlier u = None))"

inductive guarded_sends :: "client_env \<Rightarrow> Request \<Rightarrow> hop list \<Rightarrow> hop list \<Rightarrow> bool"
  for env req sent where
  guarded_none: "guarded_sends env req sent sent"
| guarded_hop: "guarded_sends env req sent now \<Longrightarrow> vetted env req now (h_url h) \<Longrightarrow>
     rq_AllowPrivate req \<or> ControlSSRF (h_address h) = None \<Longrightarrow> guarded_sends env req sent (now @ [h])"

lemma guarded_prefix: "guarded_sends env req sent now \<Longrightarrow> prefix sent now"
  by (induction rule: guarded_sends.induct) (auto simp: prefix_def)

lemma guarded_trans: "guarded_sends env req b c \<Longrightarrow> guarded_sends env req a b \<Longrightarrow> guarded_sends env req a c"
  by (induction rule: guarded_sends.induct) (auto intro: guarded_sends.intros)

lemma vetted_later: "vetted env req sent u \<Longrightarrow> prefix sent now \<Longrightarrow> vetted env req now u"
  unfolding vetted_def by (meson prefix_order.order_trans)

definition client_fits :: "Request \<Rightarrow> http_client \<Rightarrow> bool" where
  "client_fits req hc \<longleftrightarrow> rq_AllowPrivate req \<or> hc_control hc \<and> hc_redirect_ssrf hc"

lemma send_hop_guarded:
  assumes "client_fits req hc" and "vetted env req (cs_sent st) u"
  shows "guarded_sends env req (cs_sent st) (cs_sent (snd (send_hop env hc hreq u st)))"
proof (cases "find (\<lambda>a. hc_control hc \<longrightarrow> ControlSSRF a = None) (ce_dials env (cs_sent st) hc u)")
  case None
  then show ?thesis by (simp add: send_hop_def guarded_none)
next
  case (Some a)
  have "hc_control hc \<longrightarrow> ControlSSRF a = None" using find_Some_mem [OF Some] by simp
  with assms(1) have "rq_AllowPrivate req \<or> ControlSSRF a = None" by (auto simp: client_fits_def)
  with assms(2) have "guarded_sends env req (cs_sent st) (cs_sent st @ [\<lparr>h_url = u, h_address = a, h_client = hc\<rparr>])"
    by (intro guarded_hop guarded_none) simp_all
  then show ?thesis by (simp add: send_hop_def Some Let_def split: sum.split)
qed

lemma redirect_vetted:
  "client_fits req hc \<Longrightarrow> checkRedirect env sent hc (rq_Allowlist req) via loc = None \<Longrightarrow> vetted env req sent loc"
  by (auto simp: checkRedirect_def vetted_def client_fits_def split: if_splits intro: exI [of _ sent])

lemma http_do_guarded:
  assumes "client_fits req hc" and "vetted env req (cs_sent st) u"
  shows "guarded_sends env req (cs_sent st) (cs_sent (snd (http_do env hc hreq (rq_Allowlist req) via u st)))"
  using assms
proof (induction env hc hreq "rq_Allowlist req" via u st rule: http_do.induct)
  case (1 env hc hreq via u st)
  obtain r st' where send: "send_hop env hc hreq u st = (r, st')" by (cases "send_hop env hc hreq u st")
  from send_hop_guarded [OF 1(2,3), of hreq] have g: "guarded_sends env req (cs_sent st) (cs_sent st')" by (simp add: send)
  show ?case
  proof (cases "\<exists>rep loc. r = Inr rep \<and> is_redirect rep \<and> rp_location rep = Some loc
      \<and> checkRedirect env (cs_sent st') hc (rq_Allowlist req) (Suc via) loc = None")
    case True
    then obtain rep loc where r: "r = Inr rep" "is_redirect rep" "rp_location rep = Some loc"
      and ok: "checkRedirect env (cs_sent st') hc (rq_Allowlist req) (Suc via) loc = None" by blast
    have "guarded_sends env req (cs_sent st') (cs_sent (snd (http_do env hc hreq (rq_Allowlist req) (Suc via) loc st')))"
      using 1(1) [OF send [symmetric] r(1) _ ok] r(2,3) 1(2) redirect_vetted [OF 1(2) ok] by simp
    then show ?thesis by (subst http_do.simps) (simp add: send r ok guarded_trans [OF _ g])
  next
    case False
    then show ?thesis by (subst http_do.simps) (auto simp: send g split: sum.split option.split if_splits)
  qed
qed

text \<open>The parts of the state that bookkeeping does not touch.\<close>

definition core :: "client_state \<Rightarrow> hop list \<times> (string \<times> http_client) list \<times> string list" where
  "core st = (cs_sent st, cs_proxies st, cs_order st)"

lemma bookkeeping_core [simp]:
  "core (snd (tick env st)) = core st" "core (snd (ask_limiter env u st)) = core st"
  "core (record_failure env u st) = core st" "core (record_success env u st) = core st"
  "core (snd (backoff env co k st)) = core st" "core (snd (wait_delay env d st)) = core st"
  by (simp_all add: core_def tick_def ask_limiter_def record_failure_def record_success_def backoff_def wait_delay_def split_def Let_def split: option.split)

lemma read_reply_core [simp]: "core (snd (read_reply env req mb final rep el st)) = core st"
  by (simp add: read_reply_def Let_def split: sum.split)

text \<open>The outcome of one attempt: the loop ends, or it goes on from a state that sent no more than the attempt did.\<close>

definition reaches :: "int \<Rightarrow> (int \<Rightarrow> 'c \<Rightarrow> bool) \<Rightarrow> int \<Rightarrow> 'c \<Rightarrow> bool" where
  "reaches bound Q attempt c \<longleftrightarrow> (\<exists>k \<ge> attempt. (k = attempt \<or> k \<le> bound + 1) \<and> Q k c)"

lemma reaches_now: "Q attempt c \<Longrightarrow> reaches bound Q attempt c"
  by (auto simp: reaches_def)

lemma reaches_later: "reaches bound Q (attempt + 1) c \<Longrightarrow> attempt \<le> bound \<Longrightarrow> reaches bound Q attempt c"
  unfolding reaches_def by (metis add_mono_thms_linordered_semiring(3) dual_order.trans less_le zless_add1_eq zle_add1_eq_le)

lemma retry_loop_reaches:
  assumes step: "\<And>st k. Q k (core st) \<Longrightarrow> Q (k + 1) (core (snd (http_do env hc hreq (rq_Allowlist req) 0 (rq_URL req) st)))"
    and "Q attempt (core st)"
  shows "reaches (max_retries co) Q attempt (core (snd (retry_loop env co req hc hreq mb attempt le st)))"
  using assms(2)
proof (induction "nat (max_retries co + 1 - attempt)" arbitrary: attempt le st rule: less_induct)
  case less
  let ?u = "rq_URL req" and ?R = "reaches (max_retries co) Q attempt"
  obtain ok st1 where a: "ask_limiter env ?u st = (ok, st1)" by (cases "ask_limiter env ?u st")
  obtain start st2 where t: "tick env st1 = (start, st2)" by (cases "tick env st1")
  obtain res st3 where d: "http_do env hc hreq (rq_Allowlist req) 0 ?u st2 = (res, st3)" by (cases "http_do env hc hreq (rq_Allowlist req) 0 ?u st2")
  obtain stop st4 where e: "tick env st3 = (stop, st4)" by (cases "tick env st3")
  have s2: "core st1 = core st" "core st2 = core st" "core st4 = core st3"
    using bookkeeping_core(2) [of env ?u st] bookkeeping_core(1) [of env st1] bookkeeping_core(1) [of env st3]
    by (simp_all add: a t e)
  with step [of attempt st2] less.prems have q: "Q (attempt + 1) (core st4)" by (simp add: d)
  have here: "?R (core st)" "?R (core st1)" using less.prems s2 by (simp_all add: reaches_now)
  have over: "?R (core st4)" if "attempt \<le> max_retries co"
    using that q by (intro reaches_later [OF reaches_now]) simp_all
  have go: "?R (core (snd (retry_loop env co req hc hreq mb (attempt + 1) le' st')))"
    if "attempt \<le> max_retries co" "core st' = core st4" for le' st'
    using that q by (intro reaches_later [OF less.hyps]) simp_all
  show ?case
    by (subst retry_loop.simps)
      (use here in \<open>auto simp: a t d e Let_def split_def intro!: go over split: sum.split option.split\<close>)
qed

lemma retry_loop_core:
  assumes "\<And>st. Q (core st) \<Longrightarrow> Q (core (snd (http_do env hc hreq (rq_Allowlist req) 0 (rq_URL req) st)))"
    and "Q (core st)"
  shows "Q (core (snd (retry_loop env co req hc hreq mb attempt le st)))"
proof -
  have "reaches (max_retries co) (\<lambda>_. Q) attempt (core (snd (retry_loop env co req hc hreq mb attempt le st)))"
    by (rule retry_loop_reaches) (fact assms)+
  then show ?thesis by (auto simp: reaches_def)
qed

lemma retry_loop_guarded:
  assumes "client_fits req hc" and "vetted env req (cs_sent st) (rq_URL req)"
  shows "guarded_sends env req (cs_sent st) (cs_sent (snd (retry_loop env co req hc hreq mb attempt le st)))"
proof -
  have "guarded_sends env req (cs_sent st) (fst (core (snd (retry_loop env co req hc hreq mb attempt le st))))"
  proof (rule retry_loop_core [where Q = "\<lambda>c. guarded_sends env req (cs_sent st) (fst c)"])
    fix now :: client_state
    assume "guarded_sends env req (cs_sent st) (fst (core now))"
    then have g: "guarded_sends env req (cs_sent st) (cs_sent now)" by (simp add: core_def)
    have "vetted env req (cs_sent now) (rq_URL req)" by (rule vetted_later [OF assms(2) guarded_prefix [OF g]])
    from guarded_trans [OF http_do_guarded [OF assms(1) this] g]
    show "guarded_sends env req (cs_sent st) (fst (core (snd (http_do env hc hreq (rq_Allowlist req) 0 (rq_URL req) now))))"
      by (simp add: core_def)
  qed (simp add: core_def guarded_none)
  then show ?thesis by (simp add: core_def)
qed

lemma http_do_table: "snd (core (snd (http_do env hc hreq al via u st))) = snd (core st)"
proof (induction env hc hreq al via u st rule: http_do.induct)
  case (1 env hc hreq al via u st)
  have send: "snd (core (snd (send_hop env hc hreq u st))) = snd (core st)"
    by (simp add: send_hop_def core_def Let_def split: option.split sum.split)
  show ?case
    by (subst http_do.simps) (use 1 send in \<open>auto split: prod.split sum.split option.split if_splits\<close>)
qed

lemma retry_loop_table: "snd (core (snd (retry_loop env co req hc hreq mb attempt le st))) = snd (core st)"
  by (rule retry_loop_core [where Q = "\<lambda>c. snd c = snd (core st)"]) (simp_all add: http_do_table)

section \<open>The table of proxies\<close>

text \<open>The order lists the keys of the table, and a key that does not end in the mark of the unguarded clients has a
  guarded one.\<close>

definition proxies_ok :: "client_state \<Rightarrow> bool" where
  "proxies_ok st \<longleftrightarrow> distinct (cs_order st) \<and> set (cs_order st) = fst ` set (cs_proxies st)
     \<and> distinct (map fst (cs_proxies st)) \<and> length (cs_proxies st) \<le> maxProxySessions
     \<and> (\<forall>k hc. map_of (cs_proxies st) k = Some hc \<longrightarrow> \<not> suffix ''?allow-private'' k \<longrightarrow> hc_control hc \<and> hc_redirect_ssrf hc)"

lemma delete_filter: "AList.delete k xs = filter (\<lambda>kv. fst kv \<noteq> k) xs"
  by (induction xs) auto

lemma update_fresh: "k \<notin> fst ` set xs \<Longrightarrow> AList.update k v xs = xs @ [(k, v)]"
  by (induction xs) auto

lemma evict_proxy_ok:
  assumes "proxies_ok st"
  obtains st1 where "evict_proxy st = Some st1" and "proxies_ok st1" and "length (cs_proxies st1) < maxProxySessions"
    and "\<forall>k. map_of (cs_proxies st) k = None \<longrightarrow> map_of (cs_proxies st1) k = None" and "cs_sent st1 = cs_sent st"
proof (cases "length (cs_proxies st) < maxProxySessions")
  case True
  with assms show ?thesis by (intro that [of st]) (simp_all add: evict_proxy_def)
next
  case False
  with assms have full: "length (cs_proxies st) = maxProxySessions" by (simp add: proxies_ok_def)
  then have "cs_proxies st \<noteq> []" by auto
  with assms obtain old rest where o: "cs_order st = old # rest" by (cases "cs_order st") (auto simp: proxies_ok_def)
  let ?s = "st\<lparr>cs_order := rest, cs_proxies := AList.delete old (cs_proxies st)\<rparr>"
  have old: "old \<in> fst ` set (cs_proxies st)" "old \<notin> set rest" using assms o by (auto simp: proxies_ok_def)
  then obtain v where "(old, v) \<in> set (cs_proxies st)" by auto
  then have len: "length (AList.delete old (cs_proxies st)) < length (cs_proxies st)"
    unfolding delete_filter by (intro length_filter_less) auto
  have keys: "fst ` set (AList.delete old (cs_proxies st)) = fst ` set (cs_proxies st) - {old}" by (auto simp: delete_filter)
  have "proxies_ok ?s"
    using assms o old len full keys by (auto simp: proxies_ok_def delete_conv' distinct_delete)
  then show ?thesis using len full False by (intro that [of ?s]) (simp_all add: evict_proxy_def o delete_conv')
qed

lemma getProxyClient_ok:
  assumes "proxies_ok st"
  shows "proxies_ok (snd (getProxyClient env c p priv st))" and "fst (getProxyClient env c p priv st) \<noteq> None"
    and "cs_sent (snd (getProxyClient env c p priv st)) = cs_sent st"
proof -
  let ?key = "proxy_key p priv"
  obtain st1 where e: "evict_proxy st = Some st1" "proxies_ok st1" "length (cs_proxies st1) < maxProxySessions"
    "\<forall>k. map_of (cs_proxies st) k = None \<longrightarrow> map_of (cs_proxies st1) k = None" "cs_sent st1 = cs_sent st"
    by (rule evict_proxy_ok [OF assms])
  let ?hc = "\<lparr>hc_proxy = FixedProxy p, hc_control = \<not> priv, hc_redirect_ssrf = \<not> priv\<rparr>"
  let ?s = "st1\<lparr>cs_proxies := AList.update ?key ?hc (cs_proxies st1), cs_order := cs_order st1 @ [?key]\<rparr>"
  have new: "proxies_ok ?s" if "map_of (cs_proxies st) ?key = None"
  proof -
    have fresh: "?key \<notin> fst ` set (cs_proxies st1)" using e(4) that by (simp add: map_of_eq_None_iff)
    then have len: "AList.update ?key ?hc (cs_proxies st1) = cs_proxies st1 @ [(?key, ?hc)]" by (rule update_fresh)
    have "suffix ''?allow-private'' ?key" if priv using that by (simp add: proxy_key_def suffix_def)
    with e(2,3) fresh len show ?thesis
      by (auto simp: proxies_ok_def map_of_append map_add_Some_iff split: if_splits)
  qed
  have "proxies_ok (snd (getProxyClient env c p priv st)) \<and> fst (getProxyClient env c p priv st) \<noteq> None
      \<and> cs_sent (snd (getProxyClient env c p priv st)) = cs_sent st"
  proof (cases "map_of (cs_proxies st) ?key")
    case None
    show ?thesis
      unfolding getProxyClient_def Let_def None e(1) option.case using new [OF None] e(2,5)
      by (cases "ce_parse env p") simp_all
  qed (use assms in \<open>simp add: getProxyClient_def\<close>)
  then show "proxies_ok (snd (getProxyClient env c p priv st))" "fst (getProxyClient env c p priv st) \<noteq> None"
    "cs_sent (snd (getProxyClient env c p priv st)) = cs_sent st" by simp_all
qed

lemma getProxyClient_fits:
  assumes "proxies_ok st" and "getProxyClient env c p False st = (Some hc, st')" and "\<not> suffix ''?allow-private'' p"
    and "hc_control (hcSafe c)" and "hc_redirect_ssrf (hcSafe c)"
  shows "hc_control hc \<and> hc_redirect_ssrf hc"
  using assms by (auto simp: getProxyClient_def proxy_key_def proxies_ok_def Let_def split: option.splits sum.splits)

lemma getProxyClient_sent: "cs_sent (snd (getProxyClient env c p priv st)) = cs_sent st"
  by (simp add: getProxyClient_def evict_proxy_def Let_def split: option.split sum.split list.split)

text \<open>What the client constructor guarantees.\<close>

definition well_built :: "honest_client \<Rightarrow> bool" where
  "well_built c \<longleftrightarrow> hc_control (hcSafe c) \<and> hc_redirect_ssrf (hcSafe c)"

lemma newHonestClient_built: "newHonestClient parseURL co = Inr c \<Longrightarrow> well_built c"
  by (auto simp: newHonestClient_def well_built_def Let_def split: if_splits sum.splits)

lemma honest_Fetch_table [inv_pres]:
  assumes "proxies_ok st"
  shows "proxies_ok (snd (honest_Fetch env c req st))"
proof -
  have same: "proxies_ok st'" if "snd (core st') = snd (core st1)" "proxies_ok st1" for st' st1
    using that by (simp add: core_def proxies_ok_def)
  have loop: "proxies_ok (snd (retry_loop env co req hc hreq mb k le st1))" if "proxies_ok st1" for co hc hreq mb k le st1
    by (rule same [OF retry_loop_table that])
  have "proxies_ok st1" if "getProxyClient env c p priv st = (r, st1)" for p priv r st1
    using getProxyClient_ok(1) [OF assms, of env c p priv] by (simp add: that)
  with assms loop show ?thesis
    by (auto simp: honest_Fetch_def Let_def split: option.split prod.split)
qed

lemma honest_Fetch_guarded:
  assumes "well_built c" and "proxies_ok st" and "\<not> suffix ''?allow-private'' (rq_Proxy req)"
  shows "guarded_sends env req (cs_sent st) (cs_sent (snd (honest_Fetch env c req st)))"
proof -
  let ?u = "rq_URL req"
  have direct: "client_fits req (if rq_AllowPrivate req then hcUnsafe c else hcSafe c)"
    using assms(1) by (simp add: client_fits_def well_built_def)
  have proxied: "client_fits req hc" "cs_sent st1 = cs_sent st"
    if "getProxyClient env c (rq_Proxy req) (rq_AllowPrivate req) st = (Some hc, st1)" for hc st1
  proof -
    from getProxyClient_sent [of env c "rq_Proxy req" "rq_AllowPrivate req" st] show "cs_sent st1 = cs_sent st" by (simp add: that)
    show "client_fits req hc"
    proof (cases "rq_AllowPrivate req")
      case False
      with that getProxyClient_fits [OF assms(2) _ assms(3)] assms(1) show ?thesis by (simp add: client_fits_def well_built_def)
    qed (simp add: client_fits_def)
  qed
  have vet: "vetted env req (cs_sent st) ?u"
    if "CheckAllowlist (ce_parse env) ?u (rq_Allowlist req) = None" "(if rq_AllowPrivate req then None else check_ssrf env (cs_sent st) ?u) = None"
    using that by (auto simp: vetted_def split: if_splits)
  have panic: "cs_sent st1 = cs_sent st" if "getProxyClient env c (rq_Proxy req) (rq_AllowPrivate req) st = (None, st1)" for st1
    using getProxyClient_sent [of env c "rq_Proxy req" "rq_AllowPrivate req" st] by (simp add: that)
  have loop: "guarded_sends env req (cs_sent st) (cs_sent (snd (retry_loop env co req hc hreq mb k le st1)))"
    if "client_fits req hc" "cs_sent st1 = cs_sent st" "vetted env req (cs_sent st) ?u" for co hc hreq mb k le st1
    using retry_loop_guarded [OF that(1), of env st1] that(2,3) by simp
  show ?thesis
  proof (cases "CheckAllowlist (ce_parse env) ?u (rq_Allowlist req) = None
      \<and> (if rq_AllowPrivate req then None else check_ssrf env (cs_sent st) ?u) = None")
    case True
    note v = vet [OF conjunct1 [OF True] conjunct2 [OF True]]
    obtain r st1 where p: "getProxyClient env c (rq_Proxy req) (rq_AllowPrivate req) st = (r, st1)" by fastforce
    show ?thesis
      unfolding honest_Fetch_def Let_def conjunct1 [OF True] conjunct2 [OF True] option.case p prod.case
      using loop [OF direct refl v] loop [OF proxied(1) proxied(2) v] p panic
      by (cases r) (auto simp: guarded_none split: option.split)
  next
    case False
    then show ?thesis by (auto simp: honest_Fetch_def guarded_none split: option.split)
  qed
qed

text \<open>The runs of a client: requests one after the other.\<close>

abbreviation serve :: "client_env \<Rightarrow> honest_client \<Rightarrow> client_state \<Rightarrow> Request list \<Rightarrow> client_state" where
  "serve env c st reqs \<equiv> foldl (\<lambda>s r. snd (honest_Fetch env c r s)) st reqs"

definition fresh_state :: "HostRateLimiter option \<Rightarrow> client_state" where
  "fresh_state hrl = \<lparr>cs_limiter = hrl, cs_proxies = [], cs_order = [], cs_sent = [], cs_waits = [], cs_ticks = 0\<rparr>"

interpretation honest_runs: state_machine "fresh_state hrl" "\<lambda>s r. snd (honest_Fetch env c r s)" proxies_ok
  for hrl env c
  by unfold_locales (simp_all add: honest_Fetch_table, simp add: proxies_ok_def fresh_state_def)

lemma New_client_honest:
  "New_client env pick p co limiter = Inr (Honest c, st) \<Longrightarrow> well_built c \<and> (\<exists>hrl. st = fresh_state hrl) \<and> ho_opts c = co"
  by (auto simp: New_client_def newHonestClient_def well_built_def fresh_state_def Let_def split: if_splits sum.splits)

lemma send_hop_count: "length (cs_sent (snd (send_hop env hc hreq u st))) \<le> Suc (length (cs_sent st))"
  by (simp add: send_hop_def Let_def split: option.split sum.split)

lemma http_do_count:
  "via < 10 \<Longrightarrow> length (cs_sent (snd (http_do env hc hreq al via u st))) + via \<le> length (cs_sent st) + 10"
proof (induction env hc hreq al via u st rule: http_do.induct)
  case (1 env hc hreq al via u st)
  obtain r st' where send: "send_hop env hc hreq u st = (r, st')" by (cases "send_hop env hc hreq u st")
  have one: "length (cs_sent st') \<le> Suc (length (cs_sent st))" using send_hop_count [of env hc hreq u st] by (simp add: send)
  have more: "length (cs_sent (snd (http_do env hc hreq al (Suc via) loc st'))) + via \<le> length (cs_sent st) + 10"
    if "r = Inr rep" "(if is_redirect rep then rp_location rep else None) = Some loc"
      "checkRedirect env (cs_sent st') hc al (Suc via) loc = None" for rep loc
  proof -
    have "Suc via < 10" using that(3) by (auto simp: checkRedirect_def split: if_splits)
    from 1(1) [OF send [symmetric] that(1,2,3) this] one show ?thesis by simp
  qed
  show ?case
    by (subst http_do.simps) (use one more 1(2) in \<open>auto simp: send split: sum.split option.split\<close>)
qed

lemma retry_loop_count:
  "length (cs_sent (snd (retry_loop env co req hc hreq mb 0 le st))) \<le> length (cs_sent st) + 10 * nat (max_retries co + 1)"
proof -
  have "reaches (max_retries co) (\<lambda>k c. 0 \<le> k \<and> length (fst c) \<le> length (cs_sent st) + 10 * nat k) 0
      (core (snd (retry_loop env co req hc hreq mb 0 le st)))"
  proof (rule retry_loop_reaches)
    fix now :: client_state and k
    assume "0 \<le> k \<and> length (fst (core now)) \<le> length (cs_sent st) + 10 * nat k"
    with http_do_count [of 0 env hc hreq "rq_Allowlist req" "rq_URL req" now]
    show "0 \<le> k + 1 \<and> length (fst (core (snd (http_do env hc hreq (rq_Allowlist req) 0 (rq_URL req) now)))) \<le> length (cs_sent st) + 10 * nat (k + 1)"
      by (simp add: core_def nat_add_distrib)
  qed (simp add: core_def)
  then show ?thesis by (auto simp: reaches_def core_def)
qed

section \<open>Failures and the breaker\<close>

definition calm :: "CircuitBreakerConfig \<Rightarrow> string \<Rightarrow> int \<Rightarrow> HostRateLimiter \<Rightarrow> bool" where
  "calm cfg h k hrl \<longleftrightarrow> table_ok cfg hrl \<and> state (host_breaker hrl h) = CircuitClosed \<and> consecutiveFails (host_breaker hrl h) \<le> k
     \<and> map_of (breakers hrl) h \<noteq> None"

lemma calm_allow:
  assumes "table_ok cfg hrl" and "state (host_breaker hrl (extractHost p u)) = CircuitClosed"
    and "consecutiveFails (host_breaker hrl (extractHost p u)) \<le> k" and "0 \<le> k"
  shows "fst (limiter_allow p t hrl u)" and "calm cfg (extractHost p u) k (snd (limiter_allow p t hrl u))"
proof -
  let ?h = "extractHost p u"
  obtain cb where cb: "cb = host_breaker hrl ?h \<or> state (host_breaker hrl ?h) = CircuitClosed \<and> cb = NewCircuitBreaker cfg"
    "host_breaker (snd (limiter_allow p t hrl u)) ?h = (if extractHost p u = ?h then snd (breaker_allow t cb) else cb)"
    "fst (limiter_allow p t hrl u) = fst (breaker_allow t cb)" "table_ok cfg (snd (limiter_allow p t hrl u))"
    using allow_breaker [OF assms(1), of ?h p t u] by metis
  have closed: "state cb = CircuitClosed" "consecutiveFails cb \<le> k" using cb(1) assms by (auto simp: NewCircuitBreaker_def)
  then have b: "host_breaker (snd (limiter_allow p t hrl u)) ?h = cb" using cb(2) by (simp add: breaker_allow_def)
  have "map_of (breakers (snd (limiter_allow p t hrl u))) ?h \<noteq> None"
    by (simp add: limiter_allow_def Let_def split_def update_conv')
  with closed b cb(4) show "calm cfg ?h k (snd (limiter_allow p t hrl u))" by (simp add: calm_def)
  show "fst (limiter_allow p t hrl u)" using closed cb(3) by (simp add: breaker_allow_def)
qed

lemma calm_failure:
  assumes "calm cfg (extractHost p u) k hrl" and "k + 1 < FailureThreshold cfg"
  shows "calm cfg (extractHost p u) (k + 1) (limiter_failure p t hrl u)"
proof -
  let ?h = "extractHost p u" and ?cb = "host_breaker hrl (extractHost p u)"
  have c: "config ?cb = cfg" using assms(1) host_breaker_config by (auto simp: calm_def)
  have eq: "limiter_failure p t hrl u = hrl\<lparr>breakers := AList.update ?h (breaker_failure t ?cb) (breakers hrl)\<rparr>"
    using assms(1) by (auto simp: limiter_failure_def calm_def host_breaker_def)
  have "table_ok cfg (limiter_failure p t hrl u)" using table_ok_step [of cfg hrl p "LFailure u t"] assms(1) by (simp add: calm_def)
  then show ?thesis
    using assms c unfolding calm_def eq by (auto simp: breaker_failure_def Let_def update_conv')
qed

lemma calm_success: "calm cfg (extractHost p u) k hrl \<Longrightarrow> calm cfg (extractHost p u) 0 (limiter_success p hrl u)"
  using table_ok_step [of cfg hrl p "LSuccess u"]
  by (auto simp: calm_def limiter_success_def host_breaker_def breaker_success_def Let_def update_conv' split: option.splits)

lemma http_do_limiter: "cs_limiter (snd (http_do env hc hreq al via u st)) = cs_limiter st"
proof (induction env hc hreq al via u st rule: http_do.induct)
  case (1 env hc hreq al via u st)
  have send: "cs_limiter (snd (send_hop env hc hreq u st)) = cs_limiter st"
    by (simp add: send_hop_def Let_def split: option.split sum.split)
  show ?case
    by (subst http_do.simps) (use 1 send in \<open>auto split: prod.split sum.split option.split if_splits\<close>)
qed

lemma bookkeeping_limiter [simp]:
  "cs_limiter (snd (tick env st)) = cs_limiter st" "cs_limiter (snd (backoff env co k st)) = cs_limiter st"
  "cs_limiter (snd (wait_delay env d st)) = cs_limiter st"
  by (simp_all add: tick_def backoff_def wait_delay_def)

text \<open>A host that answers every attempt with a transient error never trips its breaker when the client retries less
  often than the threshold: the last answer is taken as a success and clears the count.\<close>

theorem unavailable_host_never_trips:
  assumes answered: "\<And>st. \<exists>final rep st' body. http_do env hc hreq (rq_Allowlist req) 0 (rq_URL req) st = (Inr (final, rep), st')
      \<and> IsTransientError (rp_status rep) False \<and> CheckAllowlist (ce_parse env) final (rq_Allowlist req) = None
      \<and> rp_body rep = Inr body \<and> int (length body) \<le> mb"
    and patient: "\<And>n. \<not> ce_cancelled env n"
    and few: "max_retries co < FailureThreshold cfg"
    and "0 \<le> attempt" and "attempt \<le> max_retries co" and "cs_limiter st = Some hrl" and "table_ok cfg hrl"
    and "state (host_breaker hrl (extractHost (ce_parse env) (rq_URL req))) = CircuitClosed"
    and "consecutiveFails (host_breaker hrl (extractHost (ce_parse env) (rq_URL req))) \<le> attempt"
  shows "\<exists>resp st' hrl'. retry_loop env co req hc hreq mb attempt le st = (Inr resp, st') \<and> IsTransientError (rs_StatusCode resp) False
     \<and> cs_limiter st' = Some hrl' \<and> calm cfg (extractHost (ce_parse env) (rq_URL req)) 0 hrl'"
  using assms(4-9)
proof (induction "nat (max_retries co + 1 - attempt)" arbitrary: attempt le st hrl rule: less_induct)
  case less
  let ?u = "rq_URL req" and ?p = "ce_parse env"
  let ?h = "extractHost ?p ?u"
  obtain ok st1 where a: "ask_limiter env ?u st = (ok, st1)" by (cases "ask_limiter env ?u st")
  obtain start st2 where t: "tick env st1 = (start, st2)" by (cases "tick env st1")
  obtain final rep st3 body where d: "http_do env hc hreq (rq_Allowlist req) 0 ?u st2 = (Inr (final, rep), st3)"
    "IsTransientError (rp_status rep) False" "CheckAllowlist ?p final (rq_Allowlist req) = None" "rp_body rep = Inr body" "int (length body) \<le> mb"
    using answered [of st2] by blast
  obtain stop st4 where e: "tick env st3 = (stop, st4)" by (cases "tick env st3")
  define hrl1 where "hrl1 = snd (limiter_allow ?p (fst (tick env st)) hrl ?u)"
  have ok: ok and lim1: "cs_limiter st1 = Some hrl1" and calm1: "calm cfg ?h attempt hrl1"
    using a calm_allow [OF less.prems(4,5,6,1), of "fst (tick env st)"] less.prems(3)
    by (auto simp: ask_limiter_def hrl1_def Let_def split_def)
  have lim: "cs_limiter st2 = Some hrl1" "cs_limiter st4 = Some hrl1"
    using lim1 http_do_limiter [of env hc hreq "rq_Allowlist req" 0 ?u st2] bookkeeping_limiter(1) [of env st1] bookkeeping_limiter(1) [of env st3]
    by (simp_all add: t d e)
  show ?case
  proof (cases "co_enableRetry co \<and> attempt < max_retries co")
    case True
    define delay where "delay = (let r = ParseRetryAfter (ce_date env) (fst (tick env st4)) (header_get (rp_headers rep) ''Retry-After'');
       b = fst (backoff env co attempt (snd (tick env st4))) in if b < r then r else b)"
    define st8 where "st8 = snd (wait_delay env delay (record_failure env ?u (snd (backoff env co attempt (snd (tick env st4))))))"
    obtain hrl8 where h8: "cs_limiter st8 = Some hrl8" "calm cfg ?h (attempt + 1) hrl8"
      using calm_failure [OF calm1, of _] True few lim(2) by (auto simp: st8_def record_failure_def Let_def split_def)
    have go: "retry_loop env co req hc hreq mb attempt le st = retry_loop env co req hc hreq mb (attempt + 1) le st8"
      using True patient less.prems(2) ok d unfolding st8_def delay_def
      by (subst retry_loop.simps) (simp add: a t e Let_def split_def wait_delay_def)
    have "\<exists>resp st' hrl'. retry_loop env co req hc hreq mb (attempt + 1) le st8 = (Inr resp, st') \<and> IsTransientError (rs_StatusCode resp) False
        \<and> cs_limiter st' = Some hrl' \<and> calm cfg ?h 0 hrl'"
      using True less.prems(1) h8 by (intro less.hyps [of "attempt + 1" st8 hrl8]) (auto simp: calm_def)
    then show ?thesis unfolding go .
  next
    case False
    have "take (nat (mb + 1)) body = body" using d(5) by simp
    then have "retry_loop env co req hc hreq mb attempt le st = read_reply env req mb final rep (stop - start) st4"
      using False less.prems(2) ok d by (subst retry_loop.simps) (auto simp: a t e Let_def)
    with d calm_success [OF calm1] lim(2) \<open>take (nat (mb + 1)) body = body\<close> show ?thesis
      by (simp add: read_reply_def Let_def record_success_def)
  qed
qed

section \<open>The final URL\<close>

lemma retry_loop_final:
  "retry_loop env co req hc hreq mb attempt le st = (Inr resp, st') \<Longrightarrow> CheckAllowlist (ce_parse env) (rs_FinalURL resp) (rq_Allowlist req) = None"
proof (induction "nat (max_retries co + 1 - attempt)" arbitrary: attempt le st rule: less_induct)
  case less
  have final: "rs_FinalURL resp = final" if "read_reply env req mb final rep el st4 = (Inr resp, st')" for final rep el st4
    using that by (auto simp: read_reply_def Let_def split: sum.splits if_splits)
  have go: "CheckAllowlist (ce_parse env) (rs_FinalURL resp) (rq_Allowlist req) = None"
    if "retry_loop env co req hc hreq mb (attempt + 1) le' st8 = (Inr resp, st')" "attempt \<le> max_retries co" for le' st8
    using that by (intro less.hyps [of "attempt + 1" le' st8]) simp_all
  from less.prems show ?case
    by (subst (asm) retry_loop.simps) (auto simp: Let_def split: if_splits prod.splits sum.splits option.splits dest!: final dest: go)
qed

lemma az_retry_loop_final:
  assumes "az_retry_loop env co sess req mb attempt le st = (Inr resp, st')"
    and "rq_AllowPrivate req \<or> check_ssrf env sent (rq_URL req) = None"
  shows "CheckAllowlist (ce_parse env) (rs_FinalURL resp) (rq_Allowlist req) = None
     \<and> (rq_AllowPrivate req \<or> (\<exists>sent. check_ssrf env sent (rs_FinalURL resp) = None))"
  using assms(1)
proof (induction "nat (max_retries co + 1 - attempt)" arbitrary: attempt le st rule: less_induct)
  case less
  let ?goal = "CheckAllowlist (ce_parse env) (rs_FinalURL resp) (rq_Allowlist req) = None
     \<and> (rq_AllowPrivate req \<or> (\<exists>sent. check_ssrf env sent (rs_FinalURL resp) = None))"
  have go: ?goal if "az_retry_loop env co sess req mb (attempt + 1) le' st8 = (Inr resp, st')" "attempt \<le> max_retries co" for le' st8
    using that by (intro less.hyps [of "attempt + 1" le' st8]) simp_all
  from less.prems assms(2) show ?case
    by (subst (asm) az_retry_loop.simps)
      (auto simp: Let_def split: if_splits prod.splits option.splits dest: go)
qed

section \<open>Properties\<close>


definition demo_url :: "string \<Rightarrow> string \<Rightarrow> url" where
  "demo_url host raw = \<lparr>Scheme = ''https'', Host = host, Path = drop (8 + length host) raw, RawQuery = [], Raw = raw\<rparr>"

text \<open>A page that redirects to another host, whose name resolves to a private address first.\<close>

definition demo_env :: client_env where
  "demo_env =
     \<lparr>ce_parse = (\<lambda>s. if has_prefix s ''https://a.test/'' then Inr (demo_url ''a.test'' s)
                    else if has_prefix s ''https://b.test/'' then Inr (demo_url ''b.test'' s) else Inl ''no URL''),
      ce_lookup = (\<lambda>_ _. Inr [''93.184.216.34'']), ce_dials = (\<lambda>_ _ _. [''10.0.0.1:443'', ''93.184.216.34:443'']),
      ce_net = (\<lambda>_ _ h. Inr \<lparr>rp_status = (if h_url h = ''https://a.test/'' then 302 else 200),
         rp_location = (if h_url h = ''https://a.test/'' then Some ''https://b.test/'' else None), rp_headers = [],
         rp_proto = ''HTTP/2.0'', rp_body = Inr ''hello''\<rparr>),
      ce_clock = int, ce_rand = (\<lambda>_. 0), ce_cancelled = (\<lambda>_. False), ce_pow = (\<lambda>b k. b ^ nat k), ce_date = (\<lambda>_. None),
      ce_charset = (\<lambda>b _. Some b), ce_canonical = (\<lambda>k. k),
      ce_azure = (\<lambda>_ _ q. Inr \<lparr>ar_status = 200, ar_headers = [], ar_body = ''secret'', ar_url = Some ''https://10.0.0.1/'', ar_proto = None\<rparr>),
      ce_set_proxy = (\<lambda>p. p = ''http://proxy.test'')\<rparr>"

definition demo_request :: Request where
  "demo_request = \<lparr>rq_URL = ''https://a.test/'', rq_Method = [], rq_Headers = [], rq_Body = [], rq_UserAgent = [], rq_Timeout = 0,
     rq_Proxy = [], rq_Session = [], rq_MaxBody = 0, rq_AllowPrivate = False, rq_Allowlist = None\<rparr>"

definition demo_honest :: honest_client where
  "demo_honest = \<lparr>hcSafe = \<lparr>hc_proxy = FromEnvironment, hc_control = True, hc_redirect_ssrf = True\<rparr>,
     hcUnsafe = \<lparr>hc_proxy = FromEnvironment, hc_control = False, hc_redirect_ssrf = False\<rparr>, ho_opts = defaultOptions\<rparr>"

lemma demo_guards:
  "ControlSSRF ''10.0.0.1:443'' \<noteq> None" "ControlSSRF ''93.184.216.34:443'' = None"
  "check_ssrf demo_env sent ''https://a.test/'' = None" "check_ssrf demo_env sent ''https://b.test/'' = None"
proof -
  show "ControlSSRF ''10.0.0.1:443'' \<noteq> None" "ControlSSRF ''93.184.216.34:443'' = None" by code_simp+
  have "check_ssrf demo_env [] ''https://a.test/'' = None" "check_ssrf demo_env [] ''https://b.test/'' = None" by code_simp+
  then show "check_ssrf demo_env sent ''https://a.test/'' = None" "check_ssrf demo_env sent ''https://b.test/'' = None"
    by (simp_all add: check_ssrf_def demo_env_def)
qed

lemma demo_run:
  defines "hop u \<equiv> \<lparr>h_url = u, h_address = ''93.184.216.34:443'', h_client = hcSafe demo_honest\<rparr>"
  shows "\<exists>resp st'. honest_Fetch demo_env demo_honest demo_request (fresh_state None) = (Inr resp, st')
     \<and> rs_FinalURL resp = ''https://b.test/'' \<and> rs_StatusCode resp = 200 \<and> rs_Body resp = ''hello''
     \<and> cs_sent st' = [hop ''https://a.test/'', hop ''https://b.test/'']"
proof -
  note guards = demo_guards
  let ?rep = "\<lambda>u. \<lparr>rp_status = (if u = ''https://a.test/'' then 302 else 200),
     rp_location = (if u = ''https://a.test/'' then Some ''https://b.test/'' else None), rp_headers = [],
     rp_proto = ''HTTP/2.0'', rp_body = Inr ''hello''\<rparr>"
  have send: "send_hop demo_env (hcSafe demo_honest) q u st
      = (Inr (?rep u), st\<lparr>cs_sent := cs_sent st @ [hop u]\<rparr>)" for q u st
    using guards(1,2) by (auto simp: send_hop_def demo_env_def demo_honest_def hop_def)
  have second: "http_do demo_env (hcSafe demo_honest) q None 1 ''https://b.test/'' st
      = (Inr (''https://b.test/'', ?rep ''https://b.test/''), st\<lparr>cs_sent := cs_sent st @ [hop ''https://b.test/'']\<rparr>)" for q st
    by (subst http_do.simps) (simp add: send is_redirect_def)
  have first: "http_do demo_env (hcSafe demo_honest) q None 0 ''https://a.test/'' st
      = http_do demo_env (hcSafe demo_honest) q None 1 ''https://b.test/'' (st\<lparr>cs_sent := cs_sent st @ [hop ''https://a.test/'']\<rparr>)" for q st
    using guards(4) by (subst http_do.simps)
      (simp add: send is_redirect_def checkRedirect_def CheckAllowlist_def)
  have body: "max_body defaultOptions demo_request = 10485760" by (simp add: max_body_def demo_request_def defaultOptions_def wrap64_def)
  have opts: "ho_opts demo_honest = defaultOptions" by (simp add: demo_honest_def)
  have m: "request_error (ce_parse demo_env) ''GET'' ''https://a.test/'' = None" by code_simp
  have req: "rq_URL demo_request = ''https://a.test/''" "rq_Allowlist demo_request = None" "\<not> rq_AllowPrivate demo_request"
      "rq_Method demo_request = []" "rq_Proxy demo_request = []"
    by (simp_all add: demo_request_def)
  have charset: "decoded_body demo_env b ct = b" for b ct by (simp add: decoded_body_def demo_env_def)
  have retries: "max_retries defaultOptions = 0" "\<not> co_enableRetry defaultOptions" by (simp_all add: max_retries_def defaultOptions_def)
  obtain hreq where run: "honest_Fetch demo_env demo_honest demo_request (fresh_state None)
      = retry_loop demo_env defaultOptions demo_request (hcSafe demo_honest) hreq 10485760 0 None (fresh_state None)"
    using guards(3) m by (simp add: honest_Fetch_def CheckAllowlist_def req opts body Let_def)
  have "\<exists>resp st'. retry_loop demo_env defaultOptions demo_request (hcSafe demo_honest) hreq 10485760 0 None (fresh_state None) = (Inr resp, st') \<and> rs_FinalURL resp = ''https://b.test/''
      \<and> rs_StatusCode resp = 200 \<and> rs_Body resp = ''hello'' \<and> cs_sent st' = [hop ''https://a.test/'', hop ''https://b.test/'']"
    using charset by (subst retry_loop.simps)
      (simp add: req retries first second [unfolded One_nat_def] CheckAllowlist_def ask_limiter_def fresh_state_def tick_def read_reply_def record_success_def Let_def)
  then show ?thesis unfolding run .
qed


text \<open>A page that is returned comes from an allowed URL, with either client; and without a proxy of its own the
  impersonating client has checked it against private targets.\<close>

theorem final_url_is_checked:
  assumes "client_Fetch env req (cl, st) = (Inr resp, cl', st')"
  shows "CheckAllowlist (ce_parse env) (rs_FinalURL resp) (rq_Allowlist req) = None"
    and "cl = Azure c \<Longrightarrow> rq_Proxy req = [] \<Longrightarrow> \<not> rq_AllowPrivate req \<Longrightarrow> \<exists>sent. check_ssrf env sent (rs_FinalURL resp) = None"
proof -
  have proxied: "CheckAllowlist (ce_parse env) (rs_FinalURL r) (rq_Allowlist req) = None"
    if "fetchWithProxy env ac req st = ((Inr r, ac'), st1)" for ac r ac' st1
    using that by (auto simp: fetchWithProxy_def Let_def split: prod.splits option.splits)
  show "CheckAllowlist (ce_parse env) (rs_FinalURL resp) (rq_Allowlist req) = None"
    using assms by (auto simp: client_Fetch_def honest_Fetch_def azure_Fetch_def Let_def split: fetch_client.splits prod.splits option.splits if_splits
        dest: retry_loop_final proxied az_retry_loop_final [where sent = "cs_sent st"])
  show "\<exists>sent. check_ssrf env sent (rs_FinalURL resp) = None" if "cl = Azure c" "rq_Proxy req = []" "\<not> rq_AllowPrivate req"
    using assms that by (auto simp: client_Fetch_def azure_Fetch_def split: prod.splits option.splits dest: az_retry_loop_final [where sent = "cs_sent st"])
qed

text \<open>A delay between two attempts lies between half of the exponential delay, cut at the maximum, and that delay.\<close>

theorem BackoffDelay_bounds:
  assumes "0 \<le> InitialDelay c" and "0 \<le> MaxDelay c" and "MaxDelay c \<le> 2 ^ 53" and "0 \<le> rnd" and "rnd \<le> 1" and "0 \<le> pow (Multiplier c) k"
  shows "BackoffDelay pow rnd c k \<le> MaxDelay c"
    and "\<lfloor>min (of_int (MaxDelay c)) (float_mul (float_of_int (InitialDelay c)) (pow (Multiplier c) k)) / 2\<rfloor> \<le> BackoffDelay pow rnd c k"
proof -
  define raw where "raw = float_mul (float_of_int (InitialDelay c)) (pow (Multiplier c) k)"
  define f where "f = float_add (1 / 2) (float_mul rnd (1 / 2))"
  have m: "float_of_int (MaxDelay c) = of_int (MaxDelay c)" using assms(2,3) by (simp add: float_of_int_def round64_int)
  define d where "d = min (of_int (MaxDelay c)) raw"
  have bd: "BackoffDelay pow rnd c k = \<lfloor>float_mul d f\<rfloor>"
    unfolding BackoffDelay_def Let_def raw_def [symmetric] f_def [symmetric] m d_def by (simp add: min_def not_less)
  have raw: "0 \<le> raw" "round64 raw = raw" by (simp_all add: raw_def float_mul_def)
  then have d0: "0 \<le> d" "d \<le> of_int (MaxDelay c)" using assms(2) by (simp_all add: d_def)
  have dr: "round64 d = d" using raw(2) round64_int [OF assms(2,3)] by (cases "of_int (MaxDelay c) \<le> raw") (simp_all only: d_def min_def if_True if_False)
  have half: "round64 (1 / 2) = 1 / 2" using round64_exact [of 1 "- 1"] by (simp add: power_int_def)
  have "round64 (rnd * (1 / 2)) \<le> round64 (1 / 2)" using assms(5) by (intro round64_mono) simp
  then have "1 / 2 + round64 (rnd * (1 / 2)) \<le> 1" "1 / 2 \<le> 1 / 2 + round64 (rnd * (1 / 2))" using half by simp_all
  from round64_mono [OF this(1)] round64_mono [OF this(2)] have f: "1 / 2 \<le> f" "f \<le> 1"
    using half by (simp_all add: f_def float_add_def float_mul_def)
  have "d * f \<le> d" "d / 2 \<le> d * f" using d0(1) f mult_left_mono [OF f(2) d0(1)] mult_left_mono [OF f(1) d0(1)] by simp_all
  from round64_mono [OF this(1)] round64_mono [OF this(2)] have hi: "float_mul d f \<le> d" and lo: "round64 (d / 2) \<le> float_mul d f"
    using dr by (simp_all add: float_mul_def)
  show "BackoffDelay pow rnd c k \<le> MaxDelay c" unfolding bd using hi d0(2) by (simp add: floor_le_iff)
  have "of_int \<lfloor>d / 2\<rfloor> \<le> round64 (d / 2)"
  proof -
    have n: "0 \<le> \<lfloor>d / 2\<rfloor>" "\<lfloor>d / 2\<rfloor> \<le> 2 ^ 53" using d0 assms(3) by (simp_all add: floor_le_iff)
    from round64_mono [OF of_int_floor_le, of "d / 2"] show ?thesis using round64_int [OF n] by simp
  qed
  with lo have "of_int \<lfloor>d / 2\<rfloor> \<le> float_mul d f" by simp
  then show "\<lfloor>min (of_int (MaxDelay c)) (float_mul (float_of_int (InitialDelay c)) (pow (Multiplier c) k)) / 2\<rfloor> \<le> BackoffDelay pow rnd c k"
    unfolding bd raw_def [symmetric] d_def [symmetric] by (simp add: le_floor_iff)
qed

section \<open>Where the guards end\<close>

text \<open>The key of an unguarded client is the proxy with a mark, so a request that does not allow private targets and names
  a proxy that ends in the mark is given the unguarded client of another request.\<close>

theorem proxy_key_confusion:
  assumes "fst (getProxyClient env c p True (fresh_state hrl)) = Some hc" and "ce_parse env p = Inr u"
  shows "fst (getProxyClient env c (p @ ''?allow-private'') False (snd (getProxyClient env c p True (fresh_state hrl)))) = Some hc"
    and "\<not> hc_control hc" and "\<not> hc_redirect_ssrf hc"
  using assms by (auto simp: getProxyClient_def proxy_key_def evict_proxy_def fresh_state_def Let_def)

text \<open>A redirect of a proxied request of the impersonating client is not checked: the page of a private address is returned.\<close>

theorem proxied_redirect_not_checked:
  "let req = demo_request\<lparr>rq_Proxy := ''http://proxy.test''\<rparr>;
       c = \<lparr>ac_session = \<lparr>az_browser = AzChrome, az_proxy = None\<rparr>, ac_opts = defaultOptions, ac_sessions = [], ac_order = []\<rparr>;
       res = fst (fst (azure_Fetch demo_env c req (fresh_state None)))
   in (case res of Inr resp \<Rightarrow> rs_FinalURL resp = ''https://10.0.0.1/'' \<and> rs_Body resp = ''secret'' | Inl _ \<Rightarrow> False)"
  by code_simp

text \<open>A proxy that the session refuses is a nil session, which the request then uses.\<close>

theorem refused_proxy_panics:
  "map_of (ac_sessions c) (rq_Proxy req) = None \<Longrightarrow> \<not> ce_set_proxy env (rq_Proxy req) \<Longrightarrow> fst (fst (fetchWithProxy env c req st)) = Inl ClientPanic"
  by (auto simp: fetchWithProxy_def getProxySession_def split: prod.split option.split list.split)

text \<open>A body that cannot be decoded is lost: the replacement of invalid bytes works on the empty result of the decoder.\<close>

theorem undecodable_body_is_lost: "ce_charset env body ct = None \<Longrightarrow> decoded_body env body ct = []"
  by (simp add: decoded_body_def ToValidUTF8.simps)

text \<open>A link-local address with a zone is no address for \<open>net.ParseIP\<close>, so the connect-time check lets it pass.\<close>

theorem zoned_address_passes_dial_guard:
  "ControlSSRF ''[fe80::1%en0]:80'' = None" and "ControlSSRF ''[fe80::1]:80'' \<noteq> None"
  by code_simp+
end
