(* ===== verification/Recovery.thy ===== *)
theory Recovery
  imports FetchClient Robots "HOL-Library.Multiset"
begin

text \<open>
  The recovery ladder of \<open>internal/fetch/pipeline/recovery.go\<close>: when a page is not found, the pages above it and the
  site's sitemaps are asked for links whose last path segment resembles the missing one. The edit distance is the
  two-row table of the code, its arrays are functions from indices. HTML, XML and URL libraries are parameters;
  the client is the one of \<open>FetchClient\<close> and the robots checker the one of \<open>Robots\<close>.
\<close>

section \<open>Edit distance\<close>

abbreviation maxLevenshteinInput :: nat where "maxLevenshteinInput \<equiv> 4096"

definition min3 :: "int \<Rightarrow> int \<Rightarrow> int \<Rightarrow> int" where
  "min3 a b c = (if a < b then (if a < c then a else c) else if b < c then b else c)"

type_synonym row = "nat \<Rightarrow> int"

text \<open>The inner loop fills \<open>curr\<close> from index \<open>j\<close> on, the outer loop swaps the rows.\<close>

primrec fill_row :: "char \<Rightarrow> row \<Rightarrow> nat \<Rightarrow> string \<Rightarrow> row \<Rightarrow> row" where
  "fill_row c prev j [] cur = cur"
| "fill_row c prev j (d # ds) cur =
     (let cost = (if c = d then 0 else 1)
      in fill_row c prev (Suc j) ds (cur(j := min3 (cur (j - 1) + 1) (prev j + 1) (prev (j - 1) + cost))))"

primrec fill_rows :: "nat \<Rightarrow> string \<Rightarrow> string \<Rightarrow> row \<Rightarrow> row \<Rightarrow> row" where
  "fill_rows i [] b prev cur = prev"
| "fill_rows i (c # cs) b prev cur = fill_rows (Suc i) cs b (fill_row c prev 1 b (cur(0 := int i))) prev"

primrec init_row :: "nat \<Rightarrow> row \<Rightarrow> row" where
  "init_row 0 r = r(0 := 0)"
| "init_row (Suc n) r = (init_row n r)(Suc n := int (Suc n))"

definition levenshtein :: "string \<Rightarrow> string \<Rightarrow> int" where
  "levenshtein a b =
     (let la = length a; lb = length b in
      if maxLevenshteinInput < la \<or> maxLevenshteinInput < lb then (if lb < la then int la else int lb)
      else if la = 0 then int lb
      else if lb = 0 then int la
      else fill_rows 1 a b (init_row lb (\<lambda>_. 0)) (\<lambda>_. 0) lb)"

section \<open>Scores and ranking\<close>

record ancestorLink =
  al_URL :: string
  al_Title :: string

record CandidateURL =
  cu_URL :: string
  cu_Title :: string
  cu_Source :: string
  cu_Score :: rat

definition fuzzyScore :: "string \<Rightarrow> string \<Rightarrow> string \<Rightarrow> rat" where
  "fuzzyScore target slug title =
     (if target = [] \<or> slug = [] then 0
      else if target = slug then 1
      else if slug = target \<or> has_prefix slug target \<or> has_suffix slug target then round64 (8 / 10)
      else if 3 \<le> length target \<and> contains slug target then round64 (7 / 10)
      else if 3 \<le> length target \<and> contains title target then round64 (6 / 10)
      else
        (let lev = levenshtein target slug;
             maxLen = (if length target < length slug then length slug else length target);
             sim = float_sub 1 (float_div (float_of_int lev) (float_of_int (int maxLen)))
         in if round64 (6 / 10) \<le> sim then float_mul sim (round64 (9 / 10)) else 0))"

text \<open>The insertion sort of \<open>sortCandidates\<close>: \<open>key\<close> moves left past the entries with a smaller score.\<close>

fun shift_left :: "CandidateURL list \<Rightarrow> CandidateURL \<Rightarrow> CandidateURL list" where
  "shift_left [] key = [key]"
| "shift_left (c # rev_before) key =
     (if cu_Score c < cu_Score key then c # shift_left rev_before key else key # c # rev_before)"

definition sortCandidates :: "CandidateURL list \<Rightarrow> CandidateURL list" where
  "sortCandidates cands = rev (foldl shift_left [] cands)"

text \<open>\<open>lower\<close> is \<open>strings.ToLower\<close> and \<open>parseURL\<close> is \<open>url.Parse\<close>.\<close>

definition last_segment :: "string \<Rightarrow> string" where
  "last_segment path = last (split_on (CHR ''/'') (trim_cutset path ''/''))"

definition candidate_of ::
  "(string \<Rightarrow> string + url) \<Rightarrow> (string \<Rightarrow> string) \<Rightarrow> string \<Rightarrow> string \<Rightarrow> ancestorLink \<Rightarrow> CandidateURL option" where
  "candidate_of parseURL lower failedSegment source l =
     (case parseURL (al_URL l) of
        Inl _ \<Rightarrow> None
      | Inr u \<Rightarrow>
          (let score = fuzzyScore failedSegment (lower (last_segment (Path u))) (lower (al_Title l))
           in if 0 < score then Some \<lparr>cu_URL = al_URL l, cu_Title = al_Title l, cu_Source = source, cu_Score = score\<rparr> else None))"

definition rankCandidates ::
  "(string \<Rightarrow> string + url) \<Rightarrow> (string \<Rightarrow> string) \<Rightarrow> ancestorLink list \<Rightarrow> string \<Rightarrow> string \<Rightarrow> nat \<Rightarrow> CandidateURL list" where
  "rankCandidates parseURL lower links failedSegment source topN =
     (if links = [] \<or> failedSegment = [] then []
      else take topN (sortCandidates (List.map_filter (candidate_of parseURL lower failedSegment source) links)))"

section \<open>Links\<close>

definition isSafeHref :: "(string \<Rightarrow> string) \<Rightarrow> string \<Rightarrow> bool" where
  "isSafeHref lower href =
     (if href = [] \<or> hd href = CHR ''#'' then False
      else \<not> has_prefix (lower href) ''javascript:'' \<and> \<not> has_prefix (lower href) ''data:'' \<and> \<not> has_prefix (lower href) ''vbscript:'')"

definition isHTTPScheme :: "string \<Rightarrow> bool" where
  "isHTTPScheme scheme \<longleftrightarrow> scheme = ''http'' \<or> scheme = ''https''"

definition isWaybackURL :: "string \<Rightarrow> bool" where
  "isWaybackURL rawURL \<longleftrightarrow> has_prefix rawURL ''https://web.archive.org/web/''"

text \<open>The parts of the outside that recovery uses: lower-casing, \<open>URL.String\<close> of a URL with another path and no query,
  \<open>URL.String\<close> of a parsed URL, the links of an HTML document with their texts, \<open>ResolveReference\<close> (scheme and text of
  the resolved URL), the two XML decoders, and the robots checker's client.\<close>

record recovery_env =
  re_client :: client_env
  re_lower :: "string \<Rightarrow> string"
  re_at_path :: "string \<Rightarrow> string \<Rightarrow> string"
  re_string :: "string \<Rightarrow> string"
  re_anchors :: "string \<Rightarrow> (string \<times> string) list option"
  re_resolve :: "string \<Rightarrow> string \<Rightarrow> (string \<times> string) option"
  re_urlset :: "string \<Rightarrow> string list option"
  re_sitemapindex :: "string \<Rightarrow> string list option"
  re_robots_net :: "Robots.http_client"

record SecurityOptions =
  so_AllowPrivate :: bool
  so_Robots :: bool
  so_UserAgent :: string
  so_Allowlist :: "allowlist option"

record RecoveryHints =
  rh_NearestAncestor :: string
  rh_AncestorStatus :: int
  rh_Candidates :: "CandidateURL list"

record probe_state =
  ps_client :: fetch_client
  ps_state :: client_state
  ps_robots :: "checker option"

definition anchor_link :: "recovery_env \<Rightarrow> string \<Rightarrow> string \<times> string \<Rightarrow> ancestorLink option" where
  "anchor_link env base a =
     (if \<not> isSafeHref (re_lower env) (fst a) then None
      else (case re_resolve env base (fst a) of
              None \<Rightarrow> None
            | Some (scheme, resolved) \<Rightarrow>
                if isHTTPScheme scheme then Some \<lparr>al_URL = resolved, al_Title = trim_space (snd a)\<rparr> else None))"

definition findCandidatesFromAncestor :: "recovery_env \<Rightarrow> Response \<Rightarrow> string \<Rightarrow> string \<Rightarrow> CandidateURL list" where
  "findCandidatesFromAncestor env resp ancestorStr failedSegment =
     (if rs_Body resp = [] then []
      else (case re_anchors env (rs_Body resp) of
              None \<Rightarrow> []
            | Some as \<Rightarrow>
                (case ce_parse (re_client env) ancestorStr of
                   Inl _ \<Rightarrow> []
                 | Inr _ \<Rightarrow> rankCandidates (ce_parse (re_client env)) (re_lower env)
                     (List.map_filter (anchor_link env ancestorStr) as) failedSegment ''ancestor-links'' 3)))"

section \<open>Requests\<close>

definition probe_request :: "SecurityOptions \<Rightarrow> string \<Rightarrow> string \<Rightarrow> Request" where
  "probe_request so session u =
     \<lparr>rq_URL = u, rq_Method = [], rq_Headers = [], rq_Body = [], rq_UserAgent = [], rq_Timeout = 0, rq_Proxy = [],
      rq_Session = session, rq_MaxBody = 0, rq_AllowPrivate = so_AllowPrivate so, rq_Allowlist = None\<rparr>"

abbreviation maxSitemapBytes :: int where "maxSitemapBytes \<equiv> 5242880"
abbreviation maxSitemapEntries :: nat where "maxSitemapEntries \<equiv> 1000"

definition sitemap_request :: "SecurityOptions \<Rightarrow> string \<Rightarrow> string \<Rightarrow> Request" where
  "sitemap_request so session u = (probe_request so session u)\<lparr>rq_MaxBody := maxSitemapBytes, rq_Allowlist := so_Allowlist so\<rparr>"

definition probe_fetch :: "recovery_env \<Rightarrow> Request \<Rightarrow> probe_state \<Rightarrow> (fetch_error + Response) \<times> probe_state" where
  "probe_fetch env req ps =
     (case client_Fetch (re_client env) req (ps_client ps, ps_state ps) of
        (res, cl, st) \<Rightarrow> (res, ps\<lparr>ps_client := cl, ps_state := st\<rparr>))"

definition robots_agent :: "SecurityOptions \<Rightarrow> string" where
  "robots_agent so = (if so_UserAgent so = [] then ''symfetch'' else so_UserAgent so)"

definition robots_check :: "recovery_env \<Rightarrow> string \<Rightarrow> string \<Rightarrow> checker \<Rightarrow> probe_state \<Rightarrow> (bool \<times> robots_error option) \<times> probe_state" where
  "robots_check env ua u c ps =
     (let (now1, st1) = tick (re_client env) (ps_state ps); (now2, st2) = tick (re_client env) st1;
          (res, c') = Check (ce_parse (re_client env)) (check_ssrf (re_client env) (cs_sent (ps_state ps))) (re_robots_net env) now1 now2 c ua u
      in (res, ps\<lparr>ps_state := st2, ps_robots := Some c'\<rparr>))"

definition robots_sitemaps :: "recovery_env \<Rightarrow> string \<Rightarrow> string \<Rightarrow> checker \<Rightarrow> probe_state \<Rightarrow> (robots_error + string list) \<times> probe_state" where
  "robots_sitemaps env ua u c ps =
     (let (now1, st1) = tick (re_client env) (ps_state ps); (now2, st2) = tick (re_client env) st1;
          (res, c') = Sitemaps (ce_parse (re_client env)) (check_ssrf (re_client env) (cs_sent (ps_state ps))) (re_robots_net env) now1 now2 c ua u
      in (res, ps\<lparr>ps_state := st2, ps_robots := Some c'\<rparr>))"

text \<open>The checks before a page above the missing one is asked; a robots error does not stop it.\<close>

definition may_probe :: "recovery_env \<Rightarrow> SecurityOptions \<Rightarrow> string \<Rightarrow> probe_state \<Rightarrow> bool \<times> probe_state" where
  "may_probe env so u ps =
     (if \<not> so_AllowPrivate so \<and> check_ssrf (re_client env) (cs_sent (ps_state ps)) u \<noteq> None then (False, ps)
      else if CheckAllowlist (ce_parse (re_client env)) u (so_Allowlist so) \<noteq> None then (False, ps)
      else (case (if so_Robots so then ps_robots ps else None) of
              None \<Rightarrow> (True, ps)
            | Some c \<Rightarrow>
                (case robots_check env (robots_agent so) u c ps of
                   ((ok, None), ps') \<Rightarrow> (ok, ps')
                 | ((ok, Some err), ps') \<Rightarrow> (True, ps'))))"

section \<open>Sitemaps\<close>

definition loc_link :: "recovery_env \<Rightarrow> string \<Rightarrow> ancestorLink option" where
  "loc_link env loc =
     (if loc = [] \<or> \<not> isSafeHref (re_lower env) loc then None
      else (case ce_parse (re_client env) loc of
              Inl _ \<Rightarrow> None
            | Inr u \<Rightarrow> if isHTTPScheme (Scheme u) then Some \<lparr>al_URL = loc, al_Title = []\<rparr> else None))"

definition parseSitemapXML :: "recovery_env \<Rightarrow> string \<Rightarrow> ancestorLink list" where
  "parseSitemapXML env data =
     (case re_urlset env data of
        Some (l # ls) \<Rightarrow> List.map_filter (loc_link env) (l # ls)
      | _ \<Rightarrow> (case re_sitemapindex env data of
               Some (l # ls) \<Rightarrow> List.map_filter (loc_link env) (l # ls)
             | _ \<Rightarrow> []))"

definition fetchSitemap :: "recovery_env \<Rightarrow> SecurityOptions \<Rightarrow> string \<Rightarrow> string \<Rightarrow> probe_state \<Rightarrow> ancestorLink list \<times> probe_state" where
  "fetchSitemap env so session smURL ps =
     (case probe_fetch env (sitemap_request so session smURL) ps of
        (Inl err, ps') \<Rightarrow> ([], ps')
      | (Inr resp, ps') \<Rightarrow>
          (let body = (if maxSitemapBytes < int (length (rs_Body resp)) then take (nat maxSitemapBytes) (rs_Body resp) else rs_Body resp);
               trimmed = trim_space body
           in (if has_prefix trimmed ''<?xml'' \<or> has_prefix trimmed ''<urlset'' \<or> has_prefix trimmed ''<sitemapindex''
               then parseSitemapXML env body else [], ps')))"

text \<open>The checks before a sitemap is asked; here a robots error skips it.\<close>

definition may_ask_sitemap :: "recovery_env \<Rightarrow> SecurityOptions \<Rightarrow> checker \<Rightarrow> string \<Rightarrow> probe_state \<Rightarrow> bool \<times> probe_state" where
  "may_ask_sitemap env so c u ps =
     (if \<not> so_AllowPrivate so \<and> check_ssrf (re_client env) (cs_sent (ps_state ps)) u \<noteq> None then (False, ps)
      else if CheckAllowlist (ce_parse (re_client env)) u (so_Allowlist so) \<noteq> None then (False, ps)
      else if so_Robots so then
        (case robots_check env (robots_agent so) u c ps of ((ok, err), ps') \<Rightarrow> (ok \<and> err = None, ps'))
      else (True, ps))"

fun sitemap_loop :: "recovery_env \<Rightarrow> SecurityOptions \<Rightarrow> string \<Rightarrow> string list \<Rightarrow> ancestorLink list \<Rightarrow> probe_state \<Rightarrow> ancestorLink list \<times> probe_state" where
  "sitemap_loop env so session [] links ps = (links, ps)"
| "sitemap_loop env so session (u # us) links ps =
     (case ps_robots ps of
        None \<Rightarrow> (links, ps)
      | Some c \<Rightarrow>
          (case may_ask_sitemap env so c u ps of
             (False, ps1) \<Rightarrow> sitemap_loop env so session us links ps1
           | (True, ps1) \<Rightarrow>
               (case fetchSitemap env so session u ps1 of
                  (entries, ps2) \<Rightarrow>
                    if maxSitemapEntries \<le> length (links @ entries) then (links @ entries, ps2)
                    else sitemap_loop env so session us (links @ entries) ps2)))"

definition findCandidatesFromSitemaps ::
  "recovery_env \<Rightarrow> SecurityOptions \<Rightarrow> string \<Rightarrow> string \<Rightarrow> string \<Rightarrow> probe_state \<Rightarrow> CandidateURL list \<times> probe_state" where
  "findCandidatesFromSitemaps env so session rawURL failedSegment ps =
     (case ps_robots ps of
        None \<Rightarrow> ([], ps)
      | Some c \<Rightarrow>
          (case robots_sitemaps env (robots_agent so) (re_string env rawURL) c ps of
             (Inl err, ps1) \<Rightarrow> ([], ps1)
           | (Inr [], ps1) \<Rightarrow> ([], ps1)
           | (Inr us, ps1) \<Rightarrow>
               (case sitemap_loop env so session us [] ps1 of
                  (links, ps2) \<Rightarrow>
                    (rankCandidates (ce_parse (re_client env)) (re_lower env) (take maxSitemapEntries links) failedSegment ''sitemap'' 3, ps2))))"

section \<open>The ladder\<close>

definition ancestor_paths :: "string list \<Rightarrow> string list" where
  "ancestor_paths segments = map (\<lambda>i. ''/'' @ join ''/'' (take i segments) @ ''/'') (rev [1..<length segments]) @ [''/'']"

fun climb_ladder ::
  "recovery_env \<Rightarrow> SecurityOptions \<Rightarrow> string \<Rightarrow> string \<Rightarrow> string \<Rightarrow> string list \<Rightarrow> probe_state \<Rightarrow> RecoveryHints option \<times> probe_state" where
  "climb_ladder env so session rawURL failedSegment [] ps = (None, ps)"
| "climb_ladder env so session rawURL failedSegment (p # rest) ps =
     (let u = re_at_path env rawURL p in
      case may_probe env so u ps of
        (False, ps1) \<Rightarrow> (None, ps1)
      | (True, ps1) \<Rightarrow>
          (case probe_fetch env (probe_request so session u) ps1 of
             (Inl err, ps2) \<Rightarrow> (None, ps2)
           | (Inr resp, ps2) \<Rightarrow>
               if rs_StatusCode resp < 400 then
                 (let found = findCandidatesFromAncestor env resp u failedSegment;
                      (cands, ps3) = (if found = [] then findCandidatesFromSitemaps env so session rawURL failedSegment ps2 else (found, ps2))
                  in (Some \<lparr>rh_NearestAncestor = u, rh_AncestorStatus = rs_StatusCode resp, rh_Candidates = cands\<rparr>, ps3))
               else climb_ladder env so session rawURL failedSegment rest ps2))"

definition Probe :: "recovery_env \<Rightarrow> SecurityOptions \<Rightarrow> string \<Rightarrow> string \<Rightarrow> probe_state \<Rightarrow> RecoveryHints option \<times> probe_state" where
  "Probe env so session rawURL ps =
     (case ce_parse (re_client env) rawURL of
        Inl _ \<Rightarrow> (None, ps)
      | Inr u \<Rightarrow>
          (let path = (if Path u = [] then ''/'' else Path u);
               segments = split_on (CHR ''/'') (trim_cutset path ''/'')
           in if length segments \<le> 1 then (None, ps)
              else climb_ladder env so session rawURL (re_lower env (last segments)) (ancestor_paths segments) ps))"

section \<open>The table computes the edit distance\<close>

text \<open>The specification: \<open>edits a b n\<close> when \<open>n\<close> insertions, deletions and replacements turn \<open>a\<close> into \<open>b\<close>.\<close>

inductive edits :: "'a list \<Rightarrow> 'a list \<Rightarrow> nat \<Rightarrow> bool" where
  edits_Nil: "edits [] [] 0"
| edits_keep: "edits a b n \<Longrightarrow> edits (x # a) (x # b) n"
| edits_replace: "edits a b n \<Longrightarrow> edits (x # a) (y # b) (Suc n)"
| edits_insert: "edits a b n \<Longrightarrow> edits a (y # b) (Suc n)"
| edits_delete: "edits a b n \<Longrightarrow> edits (x # a) b (Suc n)"

inductive_simps edits_Nil_iff: "edits [] [] n"
inductive_cases edits_NilE: "edits [] b n"
inductive_cases edits_Nil2E: "edits a [] n"
inductive_cases edits_ConsE: "edits (x # a) (y # b) n"

lemma edits_append: "edits a b n \<Longrightarrow> edits c d m \<Longrightarrow> edits (a @ c) (b @ d) (n + m)"
  by (induction rule: edits.induct) (auto intro: edits.intros)

lemma edits_rev: "edits a b n \<Longrightarrow> edits (rev a) (rev b) n"
proof (induction rule: edits.induct)
  case (edits_keep a b n x)
  from edits_append [OF this(2) edits.edits_keep [OF edits_Nil, of x]] show ?case by simp
next
  case (edits_replace a b n x y)
  from edits_append [OF this(2) edits.edits_replace [OF edits_Nil, of x y]] show ?case by simp
next
  case (edits_insert a b n y)
  from edits_append [OF this(2) edits.edits_insert [OF edits_Nil, of y]] show ?case by simp
next
  case (edits_delete a b n x)
  from edits_append [OF this(2) edits.edits_delete [OF edits_Nil, of x]] show ?case by simp
qed (simp add: edits_Nil)

text \<open>The recurrence of the table, read from the ends of the prefixes.\<close>

fun ed_dist :: "'a list \<Rightarrow> 'a list \<Rightarrow> int" where
  "ed_dist [] b = int (length b)"
| "ed_dist (x # a) [] = int (length (x # a))"
| "ed_dist (x # a) (y # b) = min3 (ed_dist (x # a) b + 1) (ed_dist a (y # b) + 1) (ed_dist a b + (if x = y then 0 else 1))"

lemma min3_le: "min3 a b c \<le> a" "min3 a b c \<le> b" "min3 a b c \<le> c"
  and min3_cases: "min3 a b c \<in> {a, b, c}"
  by (auto simp: min3_def)

lemma dist_Nil2: "ed_dist a [] = int (length a)"
  by (cases a) simp_all

lemma dist_nonneg: "0 \<le> ed_dist a b"
  by (induction a b rule: ed_dist.induct) (auto simp: min3_def)

lemma edits_lower: "edits a b n \<Longrightarrow> ed_dist a b \<le> int n"
proof (induction rule: edits.induct)
  case (edits_keep a b n x)
  then show ?case using min3_le(3) [of _ _ "ed_dist a b + 0"] by (simp add: order_trans [OF min3_le(3)])
next
  case (edits_replace a b n x y)
  then show ?case by (simp add: order_trans [OF min3_le(3)])
next
  case (edits_insert a b n y)
  show ?case using edits_insert.IH by (cases a) (simp_all add: order_trans [OF min3_le(1)])
next
  case (edits_delete a b n x)
  show ?case using edits_delete.IH by (cases b) (simp_all add: order_trans [OF min3_le(2)] dist_Nil2)
qed simp

lemma edits_all: "edits [] b (length b)" "edits a [] (length a)"
proof -
  show "edits [] b (length b)" by (induction b) (auto intro: edits.intros)
  show "edits a [] (length a)" by (induction a) (auto intro: edits.intros)
qed

lemma edits_dist: "\<exists>n. edits a b n \<and> int n = ed_dist a b"
proof (induction a b rule: ed_dist.induct)
  case (1 b)
  show ?case using edits_all(1) [of b] by auto
next
  case (2 x a)
  show ?case using edits_all(2) [of "x # a"] by auto
next
  case (3 x a y b)
  let ?c = "if x = y then 0 else 1 :: int"
  consider "ed_dist (x # a) (y # b) = ed_dist (x # a) b + 1" | "ed_dist (x # a) (y # b) = ed_dist a (y # b) + 1" | "ed_dist (x # a) (y # b) = ed_dist a b + ?c"
    using min3_cases [of "ed_dist (x # a) b + 1" "ed_dist a (y # b) + 1" "ed_dist a b + ?c"] by auto
  then show ?case
  proof cases
    case 1
    with 3(1) show ?thesis by (metis edits_insert of_nat_Suc add.commute)
  next
    case 2
    with 3(2) show ?thesis by (metis edits_delete of_nat_Suc add.commute)
  next
    case 3
    from \<open>\<exists>n. edits a b n \<and> int n = ed_dist a b\<close> obtain n where n: "edits a b n" "int n = ed_dist a b" by blast
    show ?thesis
    proof (cases "x = y")
      case True
      with n 3 edits_keep [OF n(1), of x] show ?thesis by auto
    next
      case False
      with n 3 edits_replace [OF n(1), of x y] show ?thesis by (intro exI [of _ "Suc n"]) simp
    qed
  qed
qed

lemma dist_least: "nat (ed_dist a b) = (LEAST n. edits a b n)" "edits a b (nat (ed_dist a b))"
proof -
  obtain n where n: "edits a b n" "int n = ed_dist a b" using edits_dist by blast
  then have e: "nat (ed_dist a b) = n" by simp
  show "edits a b (nat (ed_dist a b))" using n e by simp
  show "nat (ed_dist a b) = (LEAST n. edits a b n)"
    unfolding e by (rule Least_equality [symmetric]) (use n edits_lower in force)+
qed

abbreviation cell :: "string \<Rightarrow> string \<Rightarrow> nat \<Rightarrow> nat \<Rightarrow> int" where
  "cell a b i j \<equiv> ed_dist (rev (take i a)) (rev (take j b))"

lemma cell_step:
  assumes "i < length a" and "j < length b"
  shows "cell a b (Suc i) (Suc j) = min3 (cell a b (Suc i) j + 1) (cell a b i (Suc j) + 1) (cell a b i j + (if a ! i = b ! j then 0 else 1))"
  using assms by (simp add: take_Suc_conv_app_nth)

lemma fill_row_cells:
  assumes "i < length a" and "\<forall>k \<le> length b. prev k = cell a b i k"
    and "j \<le> length b" and "ds = drop j b" and "\<forall>k \<le> j. cur k = cell a b (Suc i) k"
  shows "\<forall>k \<le> length b. fill_row (a ! i) prev (Suc j) ds cur k = cell a b (Suc i) k"
  using assms(3-5)
proof (induction ds arbitrary: j cur)
  case Nil
  then have "length b \<le> j" by simp
  with Nil show ?case by simp
next
  case (Cons d ds)
  then have j: "j < length b" and d: "d = b ! j" "ds = drop (Suc j) b"
    by (metis drop_eq_Nil list.distinct(1) not_less, metis Cons.prems(2) Cons_nth_drop_Suc drop_eq_Nil list.distinct(1) list.inject not_le_imp_less, metis Cons.prems(2) Cons_nth_drop_Suc drop_eq_Nil list.distinct(1) list.inject not_le_imp_less)
  let ?v = "min3 (cur j + 1) (prev (Suc j) + 1) (prev j + (if a ! i = d then 0 else 1))"
  have "?v = cell a b (Suc i) (Suc j)" using cell_step [OF assms(1) j] assms(2) Cons.prems(3) j d(1) by simp
  then have "\<forall>k \<le> Suc j. (cur(Suc j := ?v)) k = cell a b (Suc i) k" using Cons.prems(3) by (simp add: le_Suc_eq)
  from Cons.IH [OF _ d(2) this] j show ?case by (simp add: Let_def del: fun_upd_apply split del: if_split)
qed

lemma init_row_cells: "k \<le> n \<Longrightarrow> init_row n r k = int k"
  by (induction n) (auto simp: le_Suc_eq)

lemma fill_rows_cells:
  assumes "i \<le> length a" and "cs = drop i a" and "\<forall>k \<le> length b. prev k = cell a b i k"
  shows "fill_rows (Suc i) cs b prev cur (length b) = ed_dist (rev a) (rev b)"
  using assms
proof (induction cs arbitrary: i prev cur)
  case Nil
  then have "i = length a" by simp
  with Nil show ?case by simp
next
  case (Cons c cs)
  then have i: "i < length a" by (metis drop_eq_Nil list.distinct(1) not_less)
  then have c: "c = a ! i" "cs = drop (Suc i) a" using Cons.prems(2) by (simp_all add: Cons_nth_drop_Suc [symmetric])
  have start: "\<forall>k \<le> 0. (cur(0 := int (Suc i))) k = cell a b (Suc i) k" using i by (simp add: dist_Nil2)
  from fill_row_cells [OF i Cons.prems(3) _ _ start, of b] have
    "\<forall>k \<le> length b. fill_row (a ! i) prev (Suc 0) b (cur(0 := int (Suc i))) k = cell a b (Suc i) k" by (simp del: fun_upd_apply)
  from Cons.IH [OF _ c(2) this] i show ?case by (simp add: c(1) del: fun_upd_apply)
qed

section \<open>Scores and order\<close>

lemma fuzzy_constants: "round64 (8 / 10) < 1" "round64 (7 / 10) < 1" "round64 (6 / 10) < 1" "round64 (9 / 10) < 1"
  "0 < round64 (6 / 10)"
  by code_simp+

lemma float_sub_le_1: "0 \<le> y \<Longrightarrow> float_sub 1 y \<le> 1"
  using round64_mono [of "1 - y" 1] by (simp add: float_sub_def)

lemma fuzzyScore_range: "0 \<le> fuzzyScore target slug title \<and> fuzzyScore target slug title \<le> 1
     \<and> (fuzzyScore target slug title = 1 \<longleftrightarrow> target = slug \<and> target \<noteq> [])"
proof -
  have "float_mul sim (round64 (9 / 10)) < 1" if "sim \<le> 1" "0 \<le> sim" for sim
  proof -
    have "sim * round64 (9 / 10) \<le> round64 (9 / 10)" using that by (simp add: mult_left_le_one_le)
    from round64_mono [OF this] show ?thesis using fuzzy_constants(4) by (simp add: float_mul_def)
  qed
  moreover have "float_sub 1 (float_div (float_of_int m) (float_of_int n)) \<le> 1" "0 \<le> float_sub 1 (float_div (float_of_int m) (float_of_int n))" for m n
    by (simp_all add: float_sub_le_1 float_div_def) (simp add: float_sub_def)
  ultimately have lev: "float_mul (float_sub 1 (float_div (float_of_int m) (float_of_int n))) (round64 (9 / 10)) < 1"
      "0 \<le> float_mul (float_sub 1 (float_div (float_of_int m) (float_of_int n))) (round64 (9 / 10))" for m n
    by (simp_all add: float_mul_def)
  show ?thesis
    using fuzzy_constants(1-3) unfolding fuzzyScore_def Let_def
    by (auto simp: less_imp_le [OF lev(1)] lev(2) less_imp_neq [OF lev(1)] split del: if_split split: if_split)
qed

definition outranks :: "CandidateURL \<Rightarrow> CandidateURL \<Rightarrow> bool" where
  "outranks a b \<longleftrightarrow> cu_Score b \<le> cu_Score a"

lemma shift_left_mset: "mset (shift_left cs k) = add_mset k (mset cs)"
  by (induction cs k rule: shift_left.induct) auto

lemma shift_left_sorted: "sorted_wrt (\<lambda>a b. outranks b a) cs \<Longrightarrow> sorted_wrt (\<lambda>a b. outranks b a) (shift_left cs k)"
proof (induction cs k rule: shift_left.induct)
  case (2 c cs k)
  have "set (shift_left cs k) = insert k (set cs)" using shift_left_mset [of cs k] by (metis set_mset_add_mset_insert set_mset_mset)
  with 2 show ?case by (auto simp: outranks_def)
qed simp

lemma shift_left_stable:
  "sorted_wrt (\<lambda>a b. outranks b a) cs \<Longrightarrow> filter (\<lambda>c. cu_Score c = s) (shift_left cs k) = filter (\<lambda>c. cu_Score c = s) (k # cs)"
proof (induction cs k rule: shift_left.induct)
  case (2 c cs k)
  then show ?case by auto
qed simp

lemma sorting_fold:
  "sorted_wrt (\<lambda>a b. outranks b a) acc \<Longrightarrow> sorted_wrt (\<lambda>a b. outranks b a) (foldl shift_left acc cs)
     \<and> mset (foldl shift_left acc cs) = mset acc + mset cs
     \<and> (\<forall>s. filter (\<lambda>c. cu_Score c = s) (foldl shift_left acc cs) = rev (filter (\<lambda>c. cu_Score c = s) cs) @ filter (\<lambda>c. cu_Score c = s) acc)"
proof (induction cs arbitrary: acc)
  case (Cons c cs)
  from Cons.IH [OF shift_left_sorted [OF Cons.prems]] show ?case by (auto simp: shift_left_mset shift_left_stable [OF Cons.prems])
qed simp

lemma sortCandidates_sorts:
  "sorted_wrt outranks (sortCandidates cs)" "mset (sortCandidates cs) = mset cs"
  "filter (\<lambda>c. cu_Score c = s) (sortCandidates cs) = filter (\<lambda>c. cu_Score c = s) cs"
  using sorting_fold [of "[]" cs] by (simp_all add: sortCandidates_def sorted_wrt_rev rev_filter [symmetric])

section \<open>Where suggestions come from\<close>

definition http_link :: "recovery_env \<Rightarrow> string \<Rightarrow> bool" where
  "http_link env u \<longleftrightarrow>
     (\<exists>base href scheme. isSafeHref (re_lower env) href \<and> re_resolve env base href = Some (scheme, u) \<and> isHTTPScheme scheme)
     \<or> (isSafeHref (re_lower env) u \<and> (\<exists>p. ce_parse (re_client env) u = Inr p \<and> isHTTPScheme (Scheme p)))"

lemma map_filter_mem: "y \<in> set (List.map_filter f xs) \<longleftrightarrow> (\<exists>x \<in> set xs. f x = Some y)"
  by (induction xs) (auto simp: map_filter_simps split: option.splits)

lemma rankCandidates_mem:
  assumes "c \<in> set (rankCandidates parseURL lower links failed source n)"
  shows "0 < cu_Score c" and "\<exists>l \<in> set links. al_URL l = cu_URL c"
proof -
  have "c \<in> set (sortCandidates (List.map_filter (candidate_of parseURL lower failed source) links))"
    using assms by (auto simp: rankCandidates_def split: if_splits dest: in_set_takeD)
  then have "c \<in> set (List.map_filter (candidate_of parseURL lower failed source) links)"
    using sortCandidates_sorts(2) by (metis set_mset_mset)
  then obtain l where "l \<in> set links" "candidate_of parseURL lower failed source l = Some c" unfolding map_filter_mem ..
  then show "0 < cu_Score c" "\<exists>l \<in> set links. al_URL l = cu_URL c"
    by (auto simp: candidate_of_def Let_def split: sum.splits if_splits)
qed

lemma rankCandidates_length: "length (rankCandidates parseURL lower links failed source n) \<le> n"
  by (simp add: rankCandidates_def)

lemma anchor_links_http: "l \<in> set (List.map_filter (anchor_link env base) as) \<Longrightarrow> http_link env (al_URL l)"
proof -
  have "http_link env (al_URL l)" if "anchor_link env base a = Some l" for a
    using that by (cases "re_resolve env base (fst a)") (auto simp: anchor_link_def http_link_def split: if_splits)
  then show "l \<in> set (List.map_filter (anchor_link env base) as) \<Longrightarrow> http_link env (al_URL l)" unfolding map_filter_mem by blast
qed

lemma sitemap_links_http: "l \<in> set (parseSitemapXML env data) \<Longrightarrow> http_link env (al_URL l)"
proof -
  have "http_link env (al_URL l)" if "loc_link env loc = Some l" for loc
    using that by (cases "ce_parse (re_client env) loc") (auto simp: loc_link_def http_link_def split: if_splits)
  then have locs: "l \<in> set (List.map_filter (loc_link env) xs) \<Longrightarrow> http_link env (al_URL l)" for xs unfolding map_filter_mem by blast
  show "l \<in> set (parseSitemapXML env data) \<Longrightarrow> http_link env (al_URL l)"
    by (auto simp only: parseSitemapXML_def list.set empty_iff split: option.splits list.splits dest: locs)
qed

lemma sitemap_loop_http:
  "\<forall>l \<in> set links. http_link env (al_URL l) \<Longrightarrow> \<forall>l \<in> set (fst (sitemap_loop env so session us links ps)). http_link env (al_URL l)"
proof (induction env so session us links ps rule: sitemap_loop.induct)
  case (2 env so session u us links ps)
  have entries: "\<forall>l \<in> set (fst (fetchSitemap env so session u ps1)). http_link env (al_URL l)" for ps1
    by (auto simp: fetchSitemap_def Let_def split: prod.splits sum.splits if_splits intro: sitemap_links_http)
  show ?case
  proof (cases "ps_robots ps")
    case (Some c)
    obtain ok ps1 where m: "may_ask_sitemap env so c u ps = (ok, ps1)" by fastforce
    obtain es ps2 where e: "fetchSitemap env so session u ps1 = (es, ps2)" by fastforce
    with entries [of ps1] 2(3) have le: "\<forall>l \<in> set (links @ es). http_link env (al_URL l)" by auto
    show ?thesis
      using 2(2) [OF Some m [symmetric]] 2(1) [OF Some m [symmetric] _ e [symmetric]] 2(3) le
      by (cases ok) (simp_all add: Some m e)
  qed (use 2(3) in simp)
qed simp

lemma ladder_candidates:
  assumes "c \<in> set (findCandidatesFromAncestor env resp u failed) \<or> c \<in> set (fst (findCandidatesFromSitemaps env so session rawURL failed ps))"
  shows "http_link env (cu_URL c) \<and> 0 < cu_Score c"
  using assms
proof
  assume "c \<in> set (findCandidatesFromAncestor env resp u failed)"
  then obtain as where "c \<in> set (rankCandidates (ce_parse (re_client env)) (re_lower env)
      (List.map_filter (anchor_link env u) as) failed ''ancestor-links'' 3)"
    by (auto simp: findCandidatesFromAncestor_def split: if_splits option.splits sum.splits)
  from rankCandidates_mem [OF this] show ?thesis using anchor_links_http by metis
next
  assume c: "c \<in> set (fst (findCandidatesFromSitemaps env so session rawURL failed ps))"
  obtain k where k: "ps_robots ps = Some k" using c by (cases "ps_robots ps") (simp_all add: findCandidatesFromSitemaps_def)
  obtain r ps1 where r: "robots_sitemaps env (robots_agent so) (re_string env rawURL) k ps = (r, ps1)" by fastforce
  obtain u us where us: "r = Inr (u # us)"
    using c by (cases r; cases "projr r") (simp_all add: findCandidatesFromSitemaps_def k r)
  have "c \<in> set (rankCandidates (ce_parse (re_client env)) (re_lower env)
      (take maxSitemapEntries (fst (sitemap_loop env so session (u # us) [] ps1))) failed ''sitemap'' 3)"
    using c by (cases "sitemap_loop env so session (u # us) [] ps1") (simp add: findCandidatesFromSitemaps_def k r us)
  from rankCandidates_mem [OF this] show ?thesis
    using sitemap_loop_http [of "[]" env so session "u # us" ps1] by (metis in_set_takeD empty_iff list.set(1))
qed

lemma ladder_length:
  "length (findCandidatesFromAncestor env resp u failed) \<le> 3" "length (fst (findCandidatesFromSitemaps env so session rawURL failed ps)) \<le> 3"
  by (auto simp: findCandidatesFromAncestor_def findCandidatesFromSitemaps_def rankCandidates_length
      split: option.split sum.split prod.split list.split)

definition safe_hints :: "recovery_env \<Rightarrow> SecurityOptions \<Rightarrow> RecoveryHints \<Rightarrow> bool" where
  "safe_hints env so h \<longleftrightarrow> CheckAllowlist (ce_parse (re_client env)) (rh_NearestAncestor h) (so_Allowlist so) = None
     \<and> (so_AllowPrivate so \<or> (\<exists>sent. check_ssrf (re_client env) sent (rh_NearestAncestor h) = None))
     \<and> rh_AncestorStatus h < 400 \<and> length (rh_Candidates h) \<le> 3
     \<and> (\<forall>c \<in> set (rh_Candidates h). http_link env (cu_URL c) \<and> 0 < cu_Score c)"

lemma climb_ladder_safe:
  "climb_ladder env so session rawURL failed paths ps = (Some h, ps') \<Longrightarrow> safe_hints env so h"
proof (induction env so session rawURL failed paths ps rule: climb_ladder.induct)
  case (2 env so session rawURL failed p rest ps)
  let ?u = "re_at_path env rawURL p"
  obtain ok ps1 where m: "may_probe env so ?u ps = (ok, ps1)" by fastforce
  obtain res ps2 where f: "probe_fetch env (probe_request so session ?u) ps1 = (res, ps2)" by fastforce
  from 2(2) m f obtain resp where ok: ok and res: "res = Inr resp"
    by (cases ok; cases res) (auto simp: Let_def)
  have vet: "CheckAllowlist (ce_parse (re_client env)) ?u (so_Allowlist so) = None"
      "so_AllowPrivate so \<or> (\<exists>sent. check_ssrf (re_client env) sent ?u = None)"
    using m ok by (auto simp: may_probe_def split: if_splits)
  show ?case
  proof (cases "rs_StatusCode resp < 400")
    case True
    have "h = \<lparr>rh_NearestAncestor = ?u, rh_AncestorStatus = rs_StatusCode resp,
        rh_Candidates = (if findCandidatesFromAncestor env resp ?u failed = [] then fst (findCandidatesFromSitemaps env so session rawURL failed ps2)
                         else findCandidatesFromAncestor env resp ?u failed)\<rparr>"
      using 2(2) True by (auto simp: m ok f res Let_def split: prod.splits if_splits)
    with vet True ladder_length show ?thesis
      using ladder_candidates [of _ env resp ?u failed so session rawURL ps2] by (auto simp: safe_hints_def)
  next
    case False
    with 2(1) [OF refl m [symmetric] _ f [symmetric] res False] 2(2) ok show ?thesis by (simp add: m f res Let_def)
  qed
qed simp

section \<open>Properties\<close>

text \<open>C28. For inputs within the limit the two-row table returns the least number of insertions, deletions and replacements
  that turn one text into the other; beyond the limit it returns the length of the longer one.\<close>

theorem levenshtein_exact:
  "levenshtein a b = (if length a \<le> maxLevenshteinInput \<and> length b \<le> maxLevenshteinInput then int (LEAST n. edits a b n)
     else int (max (length a) (length b)))"
proof (cases "length a \<le> maxLevenshteinInput \<and> length b \<le> maxLevenshteinInput")
  case True
  have rev: "(LEAST n. edits a b n) = nat (ed_dist (rev a) (rev b))"
    unfolding dist_least(1) using edits_rev [of a b] edits_rev [of "rev a" "rev b"] by (metis rev_rev_ident)
  have "levenshtein a b = ed_dist (rev a) (rev b)"
  proof (cases "a = [] \<or> b = []")
    case True
    with \<open>length a \<le> maxLevenshteinInput \<and> length b \<le> maxLevenshteinInput\<close> show ?thesis by (auto simp: levenshtein_def dist_Nil2)
  next
    case False
    have "\<forall>k \<le> length b. init_row (length b) (\<lambda>_. 0) k = cell a b 0 k" by (simp add: init_row_cells)
    from fill_rows_cells [of 0 a a b, OF _ _ this] False True show ?thesis by (simp add: levenshtein_def Let_def)
  qed
  with True show ?thesis by (simp add: rev dist_nonneg)
next
  case False
  then show ?thesis by (auto simp: levenshtein_def Let_def max_def)
qed

text \<open>The suggestions are the best matches: a suggested link scores at least as much as every link that is left out,
  the suggestions come in the order of their scores and equal scores keep the order of the page, all scores lie
  between 0 and 1, and a score of 1 means that the last path segment is the missing one.\<close>

theorem rankCandidates_best:
  fixes parseURL lower links failed source n
  defines "cands \<equiv> List.map_filter (candidate_of parseURL lower failed source) links"
    and "best \<equiv> rankCandidates parseURL lower links failed source n"
  assumes "failed \<noteq> []"
  shows "\<exists>rest. mset (best @ rest) = mset cands \<and> sorted_wrt outranks (best @ rest)
       \<and> (\<forall>s. filter (\<lambda>c. cu_Score c = s) (best @ rest) = filter (\<lambda>c. cu_Score c = s) cands)
       \<and> length best = min n (length cands)
       \<and> (\<forall>c \<in> set best. 0 < cu_Score c \<and> cu_Score c \<le> 1)"
proof -
  have best: "best = take n (sortCandidates cands)"
    using assms(3) by (cases "links = []") (simp_all add: best_def cands_def rankCandidates_def sortCandidates_def map_filter_def)
  let ?rest = "drop n (sortCandidates cands)"
  have cands: "0 < cu_Score c \<and> cu_Score c \<le> 1" if "c \<in> set cands" for c
    using that fuzzyScore_range
    by (auto simp: cands_def map_filter_def candidate_of_def Let_def split: sum.splits if_splits)
  have "set best \<subseteq> set cands" unfolding best using sortCandidates_sorts(2) [of cands] set_take_subset by (metis set_mset_mset)
  moreover have "length (sortCandidates cands) = length cands" using sortCandidates_sorts(2) by (metis size_mset)
  ultimately show ?thesis
    using sortCandidates_sorts [where cs = cands] cands by (intro exI [of _ ?rest]) (auto simp: best)
qed

definition demo_links :: "ancestorLink list" where
  "demo_links = map (\<lambda>u. \<lparr>al_URL = ''https://a.test/docs/'' @ u, al_Title = ''Page''\<rparr>) [''abc'', ''install-guide'', ''instal'', ''install'']"

theorem rankCandidates_best_witness:
  "map cu_URL (rankCandidates (ce_parse demo_env) to_lower demo_links ''install'' ''ancestor-links'' 2)
     = [''https://a.test/docs/install'', ''https://a.test/docs/install-guide'']
   \<and> (\<exists>rest. mset (rankCandidates (ce_parse demo_env) to_lower demo_links ''install'' ''ancestor-links'' 2 @ rest)
        = mset (List.map_filter (candidate_of (ce_parse demo_env) to_lower ''install'' ''ancestor-links'') demo_links))"
proof
  show "map cu_URL (rankCandidates (ce_parse demo_env) to_lower demo_links ''install'' ''ancestor-links'' 2)
     = [''https://a.test/docs/install'', ''https://a.test/docs/install-guide'']" by code_simp
  from rankCandidates_best [where failed = "''install''" and parseURL = "ce_parse demo_env" and lower = to_lower
      and source = "''ancestor-links''" and links = demo_links and n = 2]
  show "\<exists>rest. mset (rankCandidates (ce_parse demo_env) to_lower demo_links ''install'' ''ancestor-links'' 2 @ rest)
        = mset (List.map_filter (candidate_of (ce_parse demo_env) to_lower ''install'' ''ancestor-links'') demo_links)"
    by auto
qed

text \<open>C27. The hints for a missing page are safe to show: the page they name was allowed and not private and answered without
  an error, there are at most three suggestions, and each of them is an http or https URL that no script or data
  link produced.\<close>

theorem hints_are_safe:
  assumes "Probe env so session rawURL ps = (Some h, ps')"
  shows "safe_hints env so h"
  using assms climb_ladder_safe [of env so session rawURL] by (auto simp: Probe_def Let_def split: sum.splits if_splits)

definition demo_recovery :: recovery_env where
  "demo_recovery =
     \<lparr>re_client = demo_env, re_lower = to_lower, re_at_path = (\<lambda>_ _. ''https://a.test/''), re_string = (\<lambda>s. s),
      re_anchors = (\<lambda>_. Some [(''javascript:install'', ''x''), (''https://b.test/install'', ''Install'')]),
      re_resolve = (\<lambda>_ href. Some (''https'', href)), re_urlset = (\<lambda>_. None), re_sitemapindex = (\<lambda>_. None),
      re_robots_net = (\<lambda>_ _. Transport ''down'')\<rparr>"

definition demo_security :: SecurityOptions where
  "demo_security = \<lparr>so_AllowPrivate = False, so_Robots = True, so_UserAgent = [],
     so_Allowlist = Some \<lparr>active = True, exact = {''a.test''}, suffixes = [], patterns = [''a.test'']\<rparr>\<rparr>"

definition demo_probe_state :: probe_state where
  "demo_probe_state = \<lparr>ps_client = Honest demo_honest, ps_state = fresh_state None, ps_robots = None\<rparr>"

lemma demo_probe:
  "\<exists>h ps'. Probe demo_recovery demo_security [] ''https://a.test/docs/instal'' demo_probe_state = (Some h, ps')
     \<and> map cu_URL (rh_Candidates h) = [''https://b.test/install'']
     \<and> map h_url (cs_sent (ps_state ps')) = [''https://a.test/'', ''https://b.test/'']"
proof -
  obtain resp st' where run: "honest_Fetch demo_env demo_honest demo_request (fresh_state None) = (Inr resp, st')"
    "rs_StatusCode resp = 200" "rs_Body resp = ''hello''" "map h_url (cs_sent st') = [''https://a.test/'', ''https://b.test/'']"
    using demo_run by auto
  let ?ps = "demo_probe_state\<lparr>ps_state := st'\<rparr>"
  have req: "probe_request demo_security [] ''https://a.test/'' = demo_request"
    by (simp add: probe_request_def demo_security_def demo_request_def)
  have f: "probe_fetch demo_recovery demo_request demo_probe_state = (Inr resp, ?ps)"
    by (simp add: probe_fetch_def client_Fetch_def demo_recovery_def demo_probe_state_def run)
  have m: "may_probe demo_recovery demo_security ''https://a.test/'' demo_probe_state = (True, demo_probe_state)"
  proof -
    have "CheckAllowlist (ce_parse demo_env) ''https://a.test/'' (so_Allowlist demo_security) = None" by code_simp
    then show ?thesis using demo_guards(3) by (simp add: may_probe_def demo_recovery_def demo_probe_state_def)
  qed
  have c: "map cu_URL (findCandidatesFromAncestor demo_recovery \<lparr>rs_FinalURL = [], rs_StatusCode = 200, rs_Headers = [], rs_Body = ''hello'',
      rs_Protocol = [], rs_ContentType = [], rs_Elapsed = 0\<rparr> ''https://a.test/'' ''instal'') = [''https://b.test/install'']" by code_simp
  then have c: "map cu_URL (findCandidatesFromAncestor demo_recovery resp ''https://a.test/'' ''instal'') = [''https://b.test/install'']"
    using run(3) by (simp add: findCandidatesFromAncestor_def)
  have p: "(case ce_parse demo_env ''https://a.test/docs/instal'' of Inr u \<Rightarrow> Path u = ''/docs/instal'' | Inl _ \<Rightarrow> False)"
    "split_on (CHR ''/'') (trim_cutset ''/docs/instal'' ''/'') = [''docs'', ''instal'']" "to_lower ''instal'' = ''instal''" by code_simp+
  have at: "re_at_path demo_recovery r q = ''https://a.test/''" "re_client demo_recovery = demo_env" "re_lower demo_recovery = to_lower" for r q
    by (simp_all add: demo_recovery_def)
  have "climb_ladder demo_recovery demo_security [] ''https://a.test/docs/instal'' ''instal'' (''/docs/'' # rest) demo_probe_state
      = (Some \<lparr>rh_NearestAncestor = ''https://a.test/'', rh_AncestorStatus = 200,
           rh_Candidates = findCandidatesFromAncestor demo_recovery resp ''https://a.test/'' ''instal''\<rparr>, ?ps)" for rest
    using c by (auto simp: at m req f run(2) Let_def)
  moreover have "ancestor_paths [''docs'', ''instal''] = ''/docs/'' # [''/'']" by (simp add: ancestor_paths_def)
  ultimately show ?thesis
    using p c run(4) by (auto simp: Probe_def at Let_def demo_probe_state_def split: sum.splits)
qed

theorem hints_are_safe_witness:
  "\<exists>h ps'. Probe demo_recovery demo_security [] ''https://a.test/docs/instal'' demo_probe_state = (Some h, ps')
     \<and> map cu_URL (rh_Candidates h) = [''https://b.test/install''] \<and> safe_hints demo_recovery demo_security h"
  proof -
  obtain h ps' where r: "Probe demo_recovery demo_security [] ''https://a.test/docs/instal'' demo_probe_state = (Some h, ps')"
    "map cu_URL (rh_Candidates h) = [''https://b.test/install'']" using demo_probe by (elim exE conjE) (rule that)
  show ?thesis by (intro exI conjI) (fact r(1), fact r(2), rule hints_are_safe [OF r(1)])
qed

text \<open>The requests of the ladder do not carry the allowlist, so a redirect takes them off it: with only \<open>a.test\<close> allowed the
  page of \<open>b.test\<close> is fetched and its links are suggested.\<close>

theorem probe_leaves_allowlist:
  "\<exists>ps'. snd (Probe demo_recovery demo_security [] ''https://a.test/docs/instal'' demo_probe_state) = ps'
     \<and> (\<exists>h \<in> set (cs_sent (ps_state ps')). CheckAllowlist (ce_parse demo_env) (h_url h) (so_Allowlist demo_security) \<noteq> None)"
proof -
  have off: "CheckAllowlist (ce_parse demo_env) ''https://b.test/'' (so_Allowlist demo_security) \<noteq> None" by code_simp
  obtain h ps' where r: "Probe demo_recovery demo_security [] ''https://a.test/docs/instal'' demo_probe_state = (Some h, ps')"
    "map h_url (cs_sent (ps_state ps')) = [''https://a.test/'', ''https://b.test/'']" using demo_probe by (elim exE conjE) (rule that)
  have "''https://b.test/'' \<in> set (map h_url (cs_sent (ps_state ps')))" unfolding r(2) by simp
  then obtain x where "x \<in> set (cs_sent (ps_state ps'))" "h_url x = ''https://b.test/''" by auto
  with off show ?thesis unfolding r(1) snd_conv by metis
qed
end
