(* ===== verification/PageModel.thy ===== *)
theory PageModel
  imports InjectionScan FetchTruncate JsonText Float64 "HOL-Library.AList"
begin

text \<open>
  From a parsed page to the agent's document: the DOM filter (\<open>internal/fetch/dom\<close>), scoring, classification and
  data islands (\<open>internal/fetch/semantic\<close>), the document builder (\<open>internal/fetch/agentdom\<close>) and the shell detection of
  \<open>internal/fetch/pipeline/spa_detect.go\<close> and \<open>fallback.go\<close>. A page is the tree that the HTML parser delivers, and filtering
  in place is a function from trees to trees. \<open>sort.Slice\<close> is not stable, so the sorted list of blocks is a
  parameter, as is the order in which the keys of a JSON object are visited. Names are compared with ASCII case
  folding.
\<close>

section \<open>Filtering\<close>

definition dropTags :: "string list" where
  "dropTags = [''script'', ''style'', ''noscript'', ''svg'', ''iframe'', ''object'', ''embed'', ''canvas'', ''audio'', ''video'', ''template'', ''picture'']"

definition semanticAttrs :: "string list" where
  "semanticAttrs = [''href'', ''src'', ''alt'', ''title'', ''aria-label'', ''aria-describedby'', ''placeholder'', ''name'', ''type'', ''value'',
     ''checked'', ''selected'', ''disabled'', ''readonly'', ''for'', ''id'', ''role'', ''action'', ''method'', ''enctype'']"

definition hiddenClasses :: "string list" where
  "hiddenClasses = [''hidden'', ''sr-only'', ''visually-hidden'', ''invisible'', ''d-none'', ''hide'']"

definition hides :: "string \<times> string \<Rightarrow> bool" where
  "hides a \<longleftrightarrow>
     (let key = to_lower (fst a); val = to_lower (trim_space (snd a)) in
      key = ''hidden'' \<or> (key = ''aria-hidden'' \<and> val = ''true'')
      \<or> (key = ''style'' \<and> (contains val ''display:none'' \<or> contains val ''display: none'' \<or> contains val ''visibility:hidden'' \<or> contains val ''visibility: hidden''))
      \<or> (key = ''class'' \<and> list_ex (\<lambda>cls. cls \<in> set hiddenClasses) (Fields val)))"

definition isHidden :: "html \<Rightarrow> bool" where
  "isHidden n \<longleftrightarrow> list_ex hides (nattrs n)"

definition shouldDrop :: "html \<Rightarrow> bool" where
  "shouldDrop n \<longleftrightarrow> ntype n = CommentNode \<or> (is_element n \<and> (tag n \<in> set dropTags \<or> isHidden n))"

fun filterNode :: "html \<Rightarrow> html" where
  "filterNode (Node t d as ks) =
     Node t d (if t = ElementNode then filter (\<lambda>a. to_lower (fst a) \<in> set semanticAttrs) as else as)
       (map filterNode (filter (\<lambda>c. \<not> shouldDrop c) ks))"

section \<open>Titles and languages\<close>

definition first_nonempty :: "string list \<Rightarrow> string" where
  "first_nonempty xs = (case find (\<lambda>s. s \<noteq> []) xs of Some s \<Rightarrow> s | None \<Rightarrow> [])"

fun extractTitle :: "html \<Rightarrow> string" where
  "extractTitle (Node t d as ks) =
     (if t = ElementNode \<and> d = ''title'' \<and> ks \<noteq> [] then trim_space (ndata (hd ks))
      else first_nonempty (map extractTitle ks))"

fun extractLang :: "html \<Rightarrow> string" where
  "extractLang (Node t d as ks) =
     (case (if t = ElementNode \<and> d = ''html'' then map_of as ''lang'' else None) of
        Some v \<Rightarrow> v
      | None \<Rightarrow> first_nonempty (map extractLang ks))"

record dom_tree =
  t_Root :: html
  t_Title :: string
  t_Lang :: string

text \<open>\<open>parse\<close> is \<open>html.Parse\<close>.\<close>

definition dom_Parse :: "(string \<Rightarrow> string + html) \<Rightarrow> string \<Rightarrow> string + dom_tree" where
  "dom_Parse parse body =
     (case parse body of
        Inl err \<Rightarrow> Inl err
      | Inr rt \<Rightarrow> Inr \<lparr>t_Root = rt, t_Title = extractTitle rt, t_Lang = extractLang rt\<rparr>)"

section \<open>Classes of elements\<close>

datatype Category = CatNone | CatButton | CatLink | CatInput | CatSelect | CatTextarea | CatForm | CatText | CatImage

definition attrVal :: "html \<Rightarrow> string \<Rightarrow> string" where
  "attrVal n key = (case find (\<lambda>a. to_lower (fst a) = to_lower key) (nattrs n) of Some a \<Rightarrow> snd a | None \<Rightarrow> [])"

definition textTags :: "string list" where
  "textTags = [''h1'', ''h2'', ''h3'', ''h4'', ''h5'', ''h6'', ''p'', ''li'', ''td'', ''th'', ''dt'', ''dd'', ''blockquote'', ''pre'', ''code'',
     ''figcaption'', ''article'', ''section'', ''main'', ''aside'', ''header'', ''footer'', ''nav'']"

definition role_category :: "string \<Rightarrow> Category" where
  "role_category role =
     (if role = ''button'' then CatButton else if role = ''link'' then CatLink
      else if role \<in> set [''textbox'', ''searchbox'', ''spinbutton''] then CatInput
      else if role \<in> set [''combobox'', ''listbox''] then CatSelect else CatNone)"

definition ClassifyNode :: "html \<Rightarrow> Category" where
  "ClassifyNode n =
     (if \<not> is_element n then CatNone
      else if tag n = ''button'' then CatButton
      else if tag n = ''a'' then (if attrVal n ''href'' \<noteq> [] then CatLink else CatText)
      else if tag n = ''input'' then
        (let it = to_lower (attrVal n ''type'') in
         if it \<in> set [''submit'', ''button'', ''reset''] then CatButton else if it = ''image'' then CatImage else CatInput)
      else if tag n = ''select'' then CatSelect
      else if tag n = ''textarea'' then CatTextarea
      else if tag n = ''form'' then CatForm
      else if tag n = ''img'' then (if attrVal n ''alt'' \<noteq> [] then CatImage else CatNone)
      else if tag n \<in> set textTags then CatText
      else role_category (attrVal n ''role''))"

definition IsInteractive :: "Category \<Rightarrow> bool" where
  "IsInteractive cat \<longleftrightarrow> cat \<in> set [CatButton, CatLink, CatInput, CatSelect, CatTextarea, CatForm]"

section \<open>Scoring\<close>

fun countText :: "html \<Rightarrow> int" where
  "countText (Node t d as ks) = (if t = TextNode then int (length (runes (trim_space d))) else sum_list (map countText ks))"

fun countLinkText :: "html \<Rightarrow> int" where
  "countLinkText (Node t d as ks) =
     (if t = ElementNode \<and> to_lower d = ''a'' then countText (Node t d as ks) else sum_list (map countLinkText ks))"

definition positiveWords :: "string list" where
  "positiveWords = [''article'', ''main'', ''content'', ''post'', ''body'', ''entry'', ''text'', ''story'', ''blog'', ''news'']"

definition negativeWords :: "string list" where
  "negativeWords = [''sidebar'', ''footer'', ''nav'', ''menu'', ''banner'', ''ad-'', ''advert'', ''cookie'', ''consent'', ''share'', ''related'',
     ''comment'', ''promo'', ''widget'', ''header-nav'']"

fun class_bias :: "(string \<times> string) list \<Rightarrow> int" where
  "class_bias [] = 0"
| "class_bias (a # as) =
     (if to_lower (fst a) \<in> set [''id'', ''class''] then
        (if list_ex (contains (to_lower (snd a))) positiveWords then 1
         else if list_ex (contains (to_lower (snd a))) negativeWords then - 1 else class_bias as)
      else class_bias as)"

definition classWeight :: "html \<Rightarrow> int" where
  "classWeight n = class_bias (nattrs n)"

record BlockScore =
  b_Node :: html
  b_TextLen :: int
  b_LinkLen :: int
  b_Score :: rat
  b_ClassBias :: int

definition scoreBlock :: "html \<Rightarrow> BlockScore" where
  "scoreBlock n =
     (let textLen = countText n; linkLen = countLinkText n;
          linkDensity = (if 0 < textLen then float_div (float_of_int linkLen) (float_of_int textLen) else 0);
          bias = classWeight n;
          weight = (if 0 < bias then 3 / 2 else if bias < 0 then round64 (3 / 10) else 1)
      in \<lparr>b_Node = n, b_TextLen = textLen, b_LinkLen = linkLen,
          b_Score = float_mul (float_mul (float_of_int textLen) (float_sub 1 linkDensity)) weight, b_ClassBias = bias\<rparr>)"

definition blockTags :: "string list" where
  "blockTags = [''div'', ''article'', ''section'', ''main'', ''aside'', ''p'', ''table'', ''ul'', ''ol'', ''dl'', ''blockquote'']"

fun walkBlocks :: "html \<Rightarrow> BlockScore list" where
  "walkBlocks (Node t d as ks) =
     (let n = Node t d as ks in
      (if t = ElementNode \<and> to_lower d \<in> set blockTags \<and> 20 < b_TextLen (scoreBlock n) then [scoreBlock n] else [])
        @ concat (map walkBlocks ks))"

definition BestBlock :: "(BlockScore list \<Rightarrow> BlockScore list) \<Rightarrow> html \<Rightarrow> int \<Rightarrow> html" where
  "BestBlock sortBlocks rt charThreshold =
     (case sortBlocks (walkBlocks rt) of
        [] \<Rightarrow> rt
      | b # bs \<Rightarrow>
          if charThreshold \<le> b_TextLen b then b_Node b
          else (case find (\<lambda>c. charThreshold div 2 \<le> b_TextLen c) (b # bs) of Some c \<Rightarrow> b_Node c | None \<Rightarrow> rt))"

section \<open>Data islands\<close>

record DataIsland =
  i_Source :: string
  i_JSON :: string

definition innerText :: "html \<Rightarrow> string" where
  "innerText n = trim_space (concat (map ndata (filter (\<lambda>c. ntype c = TextNode) (nkids n))))"

definition sourceLabel :: "string \<Rightarrow> string \<Rightarrow> string" where
  "sourceLabel scriptType i = (if to_lower scriptType = ''application/ld+json'' then ''ld+json'' else if i \<noteq> [] then i else ''script'')"

text \<open>\<open>key_order\<close> lists the keys of a decoded object in the order of the iteration.\<close>

definition island_summary :: "((string \<times> json) list \<Rightarrow> string list) \<Rightarrow> string \<Rightarrow> string" where
  "island_summary key_order t =
     (let keys = (case unmarshal t of Some (JObj kvs) \<Rightarrow> take 20 (key_order kvs) | _ \<Rightarrow> [])
      in marshal (JObj [(''_keys'', if keys = [] then JNull else JArr (map JStr keys)), (''_size'', JNum (int_str (int (length t)))),
                        (''_truncated'', JBool True)]))"

definition script_islands :: "((string \<times> json) list \<Rightarrow> string list) \<Rightarrow> int \<Rightarrow> html \<Rightarrow> DataIsland list" where
  "script_islands key_order maxBytes n =
     (let src = attrVal n ''type''; i = attrVal n ''id'' in
      if to_lower src = ''application/ld+json'' \<or> to_lower i = ''__next_data__''
         \<or> contains (to_lower i) ''preloaded'' \<or> contains (to_lower i) ''initial-state'' then
        (let t = innerText n in
         if t = [] then []
         else if maxBytes < int (length t) then [\<lparr>i_Source = sourceLabel src i, i_JSON = island_summary key_order t\<rparr>]
         else (case unmarshal t of None \<Rightarrow> [] | Some _ \<Rightarrow> [\<lparr>i_Source = sourceLabel src i, i_JSON = t\<rparr>]))
      else [])"

fun walkIslands :: "((string \<times> json) list \<Rightarrow> string list) \<Rightarrow> int \<Rightarrow> html \<Rightarrow> DataIsland list" where
  "walkIslands key_order maxBytes (Node t d as ks) =
     (if t = ElementNode \<and> to_lower d = ''script'' then script_islands key_order maxBytes (Node t d as ks)
      else concat (map (walkIslands key_order maxBytes) ks))"

section \<open>Shells of client-rendered pages\<close>

fun countVisibleText :: "html \<Rightarrow> int" where
  "countVisibleText (Node t d as ks) =
     (if t = ElementNode \<and> to_lower d \<in> set [''script'', ''style'', ''noscript'', ''svg''] then 0
      else if t = TextNode then int (length (trim_space d))
      else sum_list (map countVisibleText ks))"

definition hydrationMarks :: "string list" where
  "hydrationMarks = [''__next_data__'', ''__nuxt__'', ''__gatsby'', ''preloaded'', ''initial-state'', ''__initial_state__'', ''__app_state__'']"

definition hasHydrationIslands :: "DataIsland list \<Rightarrow> bool" where
  "hasHydrationIslands islands \<longleftrightarrow> list_ex (\<lambda>i. list_ex (contains (to_lower (i_Source i))) hydrationMarks) islands"

definition frameworkRootIDs :: "string list" where
  "frameworkRootIDs = [''app'', ''root'', ''__next'', ''_next'', ''nuxt'', ''svelte'']"

definition isEmptyOrMinimal :: "html \<Rightarrow> bool" where
  "isEmptyOrMinimal n \<longleftrightarrow> list_all (\<lambda>c. (ntype c = TextNode \<longrightarrow> trim_space (ndata c) = []) \<and> \<not> is_element c) (nkids n)"

fun hasEmptyFrameworkRoot :: "html \<Rightarrow> bool" where
  "hasEmptyFrameworkRoot (Node t d as ks) \<longleftrightarrow>
     (t = ElementNode \<and> to_lower (attrVal (Node t d as ks) ''id'') \<in> set frameworkRootIDs \<and> isEmptyOrMinimal (Node t d as ks))
     \<or> list_ex hasEmptyFrameworkRoot ks"

definition DetectSPASkeleton :: "string \<Rightarrow> html \<Rightarrow> DataIsland list \<Rightarrow> bool" where
  "DetectSPASkeleton body rt islands \<longleftrightarrow>
     (if body = [] then False
      else (let visibleLen = (if countVisibleText rt = 0 then 1 else countVisibleText rt);
                ratio = float_div (float_of_int (int (length body))) (float_of_int visibleLen);
                largePayload = (50 < ratio \<and> 2048 < int (length body))
            in largePayload \<and> (hasHydrationIslands islands \<or> hasEmptyFrameworkRoot rt)))"

definition isThinContent :: "html \<Rightarrow> int \<Rightarrow> bool \<Rightarrow> bool" where
  "isThinContent n charThreshold spaSkeleton \<longleftrightarrow>
     (let textLen = countText n in
      if charThreshold \<le> textLen then False
      else if textLen = 0 then True
      else 1 / 2 < float_div (float_of_int (countLinkText n)) (float_of_int textLen) \<or> spaSkeleton)"

section \<open>The document builder\<close>

datatype Element = Element (e_AgentID: string) (e_Category: Category) (e_Tag: string) (e_Text: string)
  (e_Attrs: "(string \<times> string) list") (e_Children: "Element list")

record builder =
  bd_counter :: nat
  bd_elements :: "Element list"
  bd_interactive :: "Element list"
  bd_maxChars :: int
  bd_charsSeen :: int
  bd_truncated :: bool

definition NewBuilder :: "int \<Rightarrow> builder" where
  "NewBuilder maxChars = \<lparr>bd_counter = 0, bd_elements = [], bd_interactive = [], bd_maxChars = maxChars, bd_charsSeen = 0, bd_truncated = False\<rparr>"

definition ellipsis :: string where
  "ellipsis = [CHR 0xE2, CHR 0x80, CHR 0xA6]"

definition consumeChars :: "string \<Rightarrow> builder \<Rightarrow> string \<times> builder" where
  "consumeChars s b =
     (if bd_maxChars b \<le> 0 then (s, b)
      else (let count = int (length (runes s)); remaining = bd_maxChars b - bd_charsSeen b in
            if remaining \<le> 0 then ([], b\<lparr>bd_truncated := True\<rparr>)
            else if remaining < count then
              (take (cut_offset (nat remaining) s) s @ ellipsis, b\<lparr>bd_truncated := True, bd_charsSeen := bd_charsSeen b + remaining\<rparr>)
            else (s, b\<lparr>bd_charsSeen := bd_charsSeen b + count\<rparr>)))"

definition extractAttrs :: "html \<Rightarrow> (string \<times> string) list" where
  "extractAttrs n = foldl (\<lambda>m a. AList.update (fst a) (snd a) m) [] (nattrs n)"

abbreviation defaultMaxTextRunes :: int where "defaultMaxTextRunes \<equiv> 2000"

function collectText :: "html \<Rightarrow> string \<times> int \<Rightarrow> string \<times> int" where
  "collectText (Node t d as ks) acc =
     (if snd acc \<le> 0 then acc
      else if t = TextNode then
        (let s = trim_space d; count = int (length (runes s)) in
         if s = [] then acc
         else if snd acc < count then (fst acc @ take (cut_offset (nat (snd acc)) s) s, 0)
         else (fst acc @ s @ '' '', snd acc - count))
      else foldl (\<lambda>a c. collectText c a) acc ks)"
  by pat_completeness auto
termination by (relation "measure (\<lambda>(n, _). size n)") (auto dest: size_list_estimation' [where f = size])

definition extractText :: "html \<Rightarrow> int \<Rightarrow> string" where
  "extractText n maxRunes = fst (collectText n ([], maxRunes))"

fun compress_runes :: "bool \<Rightarrow> int list \<Rightarrow> int list" where
  "compress_runes lastSpace [] = []"
| "compress_runes lastSpace (r # rs) =
     (if r \<in> set [32, 9, 13, 10] then (if lastSpace then [] else [32]) @ compress_runes True rs
      else r # compress_runes False rs)"

definition compressWhitespace :: "string \<Rightarrow> string" where
  "compressWhitespace s = encode (compress_runes False (runes (trim_space s)))"

definition agent_id :: "nat \<Rightarrow> string" where
  "agent_id n = ''@e'' @ nat_str n"

text \<open>\<open>buildElement\<close> without the children of a form; a child of a form is no form, so this is all of it for a child.\<close>

definition build_leaf :: "html \<Rightarrow> Category \<Rightarrow> builder \<Rightarrow> Element \<times> builder" where
  "build_leaf n cat b =
     (let b1 = (if IsInteractive cat then b\<lparr>bd_counter := Suc (bd_counter b)\<rparr> else b);
          i = (if IsInteractive cat then agent_id (bd_counter b1) else []);
          raw = compressWhitespace (extractText n defaultMaxTextRunes);
          (t, b2) = (if raw \<noteq> [] then consumeChars raw b1 else ([], b1))
      in (Element i cat (tag n) t (extractAttrs n) [], b2))"

definition build_child :: "Element list \<times> builder \<Rightarrow> html \<Rightarrow> Element list \<times> builder" where
  "build_child acc c =
     (let cat = ClassifyNode c in
      if cat \<noteq> CatNone \<and> cat \<noteq> CatForm then
        (case build_leaf c cat (snd acc) of
           (ce, b) \<Rightarrow>
             (fst acc @ [ce], if IsInteractive cat then b\<lparr>bd_interactive := bd_interactive b @ [ce]\<rparr> else b))
      else acc)"

definition buildElement :: "html \<Rightarrow> Category \<Rightarrow> builder \<Rightarrow> Element \<times> builder" where
  "buildElement n cat b =
     (case build_leaf n cat b of
        (Element i k tg t am cs, b1) \<Rightarrow>
          if cat = CatForm then (case foldl build_child ([], b1) (nkids n) of (ces, b2) \<Rightarrow> (Element i k tg t am ces, b2))
          else (Element i k tg t am [], b1))"

definition containerTags :: "string list" where
  "containerTags = [''article'', ''section'', ''main'', ''aside'', ''header'', ''footer'', ''nav'', ''div'', ''span'']"

function build_walk :: "html \<Rightarrow> builder \<Rightarrow> builder" where
  "build_walk (Node t d as ks) b =
     (if bd_truncated b then b
      else (let n = Node t d as ks; cat = ClassifyNode n in
            if cat \<noteq> CatNone \<and> \<not> (cat = CatText \<and> to_lower d \<in> set containerTags) then
              (case buildElement n cat b of
                 (ne, b1) \<Rightarrow>
                   (let b2 = b1\<lparr>bd_elements := bd_elements b1 @ [ne]\<rparr>
                    in if IsInteractive cat then b2\<lparr>bd_interactive := bd_interactive b2 @ [ne]\<rparr> else b2))
            else foldl (\<lambda>a c. build_walk c a) b ks))"
  by pat_completeness auto
termination by (relation "measure (\<lambda>(n, _). size n)") (auto dest: size_list_estimation' [where f = size])

declare collectText.simps [simp del] build_walk.simps [simp del]

section \<open>What the filter keeps\<close>

fun texts :: "html \<Rightarrow> string list" where
  "texts (Node t d as ks) = (if t = TextNode then [d] else []) @ concat (map texts ks)"

fun visible_texts :: "html \<Rightarrow> string list" where
  "visible_texts (Node t d as ks) = (if t = TextNode then [d] else []) @ concat (map visible_texts (filter (\<lambda>c. \<not> shouldDrop c) ks))"

fun clean :: "html \<Rightarrow> bool" where
  "clean (Node t d as ks) \<longleftrightarrow> (t = ElementNode \<longrightarrow> list_all (\<lambda>a. to_lower (fst a) \<in> set semanticAttrs) as)
     \<and> list_all (\<lambda>c. ntype c \<noteq> CommentNode \<and> \<not> (is_element c \<and> tag c \<in> set dropTags) \<and> clean c) ks"

lemma filterNode_simps [simp]: "ntype (filterNode n) = ntype n" "ndata (filterNode n) = ndata n"
  by (cases n; simp)+

lemma filterNode_texts: "texts (filterNode n) = visible_texts n"
proof (induction n rule: filterNode.induct)
  case (1 t d as ks)
  have "map (texts \<circ> filterNode) (filter (\<lambda>c. \<not> shouldDrop c) ks) = map visible_texts (filter (\<lambda>c. \<not> shouldDrop c) ks)"
    using 1 by (intro map_cong) auto
  then show ?case by (simp only: filterNode.simps texts.simps visible_texts.simps map_map)
qed

lemma filterNode_clean: "clean (filterNode n)"
proof (induction n rule: filterNode.induct)
  case (1 t d as ks)
  then show ?case by (auto simp: list_all_iff shouldDrop_def)
qed

section \<open>The budget of a document\<close>

lemma encode_append: "encode (rs @ qs) = encode rs @ encode qs"
  by (simp add: encode_def)

lemma cut_encode:
  assumes "\<forall>r \<in> set rs. valid_rune r"
  shows "take (cut_offset n (encode rs)) (encode rs) = encode (take n rs)"
  using assms
proof (induction rs arbitrary: n)
  case Nil
  then show ?case by (cases n) (simp_all add: encode_def)
next
  case (Cons r rs)
  show ?case
  proof (cases n)
    case (Suc m)
    have d: "decode_rune (encode (r # rs)) = (r, length (encode_rune r))" using Cons.prems decode_encode [of r "encode rs"] by (simp add: encode_def)
    have e: "encode (r # rs) = encode_rune r @ encode rs" by (simp add: encode_def)
    have ne: "encode (r # rs) \<noteq> []" by (simp add: e encode_rune_nonempty)
    have "cut_offset n (encode (r # rs)) = length (encode_rune r) + cut_offset m (encode rs)"
      using ne by (simp add: Suc d del: runes.simps) (simp add: e)
    then show ?thesis using Cons by (simp add: e Suc) (simp add: encode_def)
  qed (simp add: encode_def)
qed

lemma compress_runes_valid: "\<forall>r \<in> set rs. valid_rune r \<Longrightarrow> \<forall>r \<in> set (compress_runes l rs). valid_rune r"
  by (induction l rs rule: compress_runes.induct) (auto simp: valid_rune_def)

lemma compressWhitespace_encode: "\<exists>rs. (\<forall>r \<in> set rs. valid_rune r) \<and> compressWhitespace s = encode rs"
  using compress_runes_valid runes_valid by (metis compressWhitespace_def)

definition spent :: "builder \<Rightarrow> int" where
  "spent b = bd_charsSeen b + (if bd_truncated b then 1 else 0)"

definition budget_ok :: "builder \<Rightarrow> bool" where
  "budget_ok b \<longleftrightarrow> 0 < bd_maxChars b \<and> 0 \<le> bd_charsSeen b \<and> bd_charsSeen b \<le> bd_maxChars b
     \<and> (bd_truncated b \<longrightarrow> bd_charsSeen b = bd_maxChars b)"

fun element_runes :: "Element \<Rightarrow> int" where
  "element_runes (Element i k tg t am cs) = int (length (runes t)) + sum_list (map element_runes cs)"

definition content_runes :: "Element list \<Rightarrow> int" where
  "content_runes es = sum_list (map element_runes es)"

lemma ellipsis_rune: "ellipsis = encode [0x2026]" "valid_rune 0x2026"
  by code_simp+

lemma consumeChars_spends:
  assumes "budget_ok b" and "\<forall>r \<in> set rs. valid_rune r" and "consumeChars (encode rs) b = (t, b')"
  shows "budget_ok b' \<and> int (length (runes t)) + spent b \<le> spent b' \<and> bd_maxChars b' = bd_maxChars b
    \<and> bd_counter b' = bd_counter b \<and> bd_interactive b' = bd_interactive b \<and> bd_elements b' = bd_elements b"
proof -
  let ?n = "nat (bd_maxChars b - bd_charsSeen b)"
  have cut: "runes (take (cut_offset ?n (encode rs)) (encode rs) @ ellipsis) = take ?n rs @ [0x2026]"
    using assms(2) ellipsis_rune(2) in_set_takeD
    by (subst cut_encode [OF assms(2)], subst ellipsis_rune(1), subst encode_append [symmetric], subst runes_encode) fastforce+
  have "runes (encode rs) = rs" using assms(2) by (rule runes_encode)
  with assms(1,3) cut show ?thesis
    by (auto simp: consumeChars_def budget_ok_def spent_def Let_def min_def split: if_splits)
qed

section \<open>Numbering\<close>

text \<open>The numbers of the interactive elements so far, together with the pending ones, are the first ones.\<close>

definition numbered :: "string multiset \<Rightarrow> builder \<Rightarrow> bool" where
  "numbered pending b \<longleftrightarrow> mset (map e_AgentID (bd_interactive b)) + pending = mset (map (\<lambda>i. agent_id (Suc i)) [0..<bd_counter b])"

definition own_number :: "Category \<Rightarrow> Element \<Rightarrow> string multiset" where
  "own_number cat e = (if IsInteractive cat then {#e_AgentID e#} else {#})"

lemma build_leaf_steps:
  assumes "budget_ok b" and "numbered F b" and "build_leaf n cat b = (e, b')"
  shows "budget_ok b' \<and> element_runes e + spent b \<le> spent b' \<and> bd_maxChars b' = bd_maxChars b
    \<and> bd_elements b' = bd_elements b \<and> e_Children e = [] \<and> numbered (own_number cat e + F) b'"
proof -
  let ?b1 = "if IsInteractive cat then b\<lparr>bd_counter := Suc (bd_counter b)\<rparr> else b"
  have ok: "budget_ok ?b1" "spent ?b1 = spent b" "bd_maxChars ?b1 = bd_maxChars b" "bd_elements ?b1 = bd_elements b"
    using assms(1) by (auto simp: budget_ok_def spent_def)
  obtain rs where rs: "\<forall>r \<in> set rs. valid_rune r" "compressWhitespace (extractText n defaultMaxTextRunes) = encode rs"
    using compressWhitespace_encode by blast
  obtain t b2 where c: "consumeChars (encode rs) ?b1 = (t, b2)" by fastforce
  note step = consumeChars_spends [OF ok(1) rs(1) c]
  have num: "numbered (own_number cat e + F) b3"
    if "e_AgentID e = (if IsInteractive cat then agent_id (bd_counter ?b1) else [])" "bd_counter b3 = bd_counter ?b1" "bd_interactive b3 = bd_interactive ?b1" for b3
    using that assms(2) by (auto simp: numbered_def own_number_def simp del: mset_upt)
  from assms(3) consider "e = Element (if IsInteractive cat then agent_id (bd_counter ?b1) else []) cat (tag n) [] (extractAttrs n) []" "b' = ?b1"
    | "e = Element (if IsInteractive cat then agent_id (bd_counter ?b1) else []) cat (tag n) t (extractAttrs n) []" "b' = b2"
    using c unfolding build_leaf_def Let_def rs(2) by (cases "encode rs = []") (auto split: prod.splits)
  then show ?thesis by cases (use ok step num in \<open>simp_all\<close>)
qed

lemma numbered_append: "numbered (own_number cat e + F) b \<Longrightarrow>
     numbered F (if IsInteractive cat then b\<lparr>bd_interactive := bd_interactive b @ [e]\<rparr> else b)"
  by (auto simp: numbered_def own_number_def)

lemma keep_interactive: "budget_ok (b\<lparr>bd_interactive := x\<rparr>) = budget_ok b" "spent (b\<lparr>bd_interactive := x\<rparr>) = spent b"
  "budget_ok (b\<lparr>bd_elements := y\<rparr>) = budget_ok b" "spent (b\<lparr>bd_elements := y\<rparr>) = spent b"
  "numbered F (b\<lparr>bd_elements := y\<rparr>) = numbered F b"
  by (simp_all add: budget_ok_def spent_def numbered_def)

lemma build_children_steps:
  assumes "budget_ok b" and "numbered F b" and "foldl build_child (cs, b) ks = (cs', b')"
  shows "budget_ok b' \<and> content_runes cs' + spent b \<le> content_runes cs + spent b' \<and> bd_elements b' = bd_elements b \<and> numbered F b'"
  using assms
proof (induction ks arbitrary: cs b)
  case (Cons c ks)
  show ?case
  proof (cases "ClassifyNode c \<noteq> CatNone \<and> ClassifyNode c \<noteq> CatForm")
    case True
    obtain e b1 where leaf: "build_leaf c (ClassifyNode c) b = (e, b1)" by fastforce
    note st = build_leaf_steps [OF Cons.prems(1,2) leaf]
    let ?b2 = "if IsInteractive (ClassifyNode c) then b1\<lparr>bd_interactive := bd_interactive b1 @ [e]\<rparr> else b1"
    have n2: "numbered F ?b2" using numbered_append st by blast
    have k2: "budget_ok ?b2" "spent ?b2 = spent b1" "bd_elements ?b2 = bd_elements b1" using st by (simp_all add: keep_interactive)
    have "build_child (cs, b) c = (cs @ [e], ?b2)" using True by (simp add: build_child_def Let_def leaf)
    with Cons.prems(3) have "foldl build_child (cs @ [e], ?b2) ks = (cs', b')" by (simp only: foldl_Cons)
    from Cons.IH [OF k2(1) n2 this] k2 st show ?thesis by (simp add: content_runes_def)
  next
    case False
    have "build_child (cs, b) c = (cs, b)" using False by (auto simp: build_child_def Let_def)
    with Cons show ?thesis by simp
  qed
qed simp

lemma buildElement_steps:
  assumes "budget_ok b" and "numbered F b" and "buildElement n cat b = (e, b')"
  shows "budget_ok b' \<and> element_runes e + spent b \<le> spent b' \<and> bd_elements b' = bd_elements b \<and> numbered (own_number cat e + F) b'"
proof -
  obtain i k tg t am cs b1 where leaf: "build_leaf n cat b = (Element i k tg t am cs, b1)" by (metis Element.exhaust surj_pair)
  have cs: "cs = []" using build_leaf_steps [OF assms(1,2) leaf] by simp
  note st = build_leaf_steps [OF assms(1,2) leaf, unfolded cs]
  obtain ces b2 where kids: "foldl build_child ([], b1) (nkids n) = (ces, b2)" by fastforce
  show ?thesis
  proof (cases "cat = CatForm")
    case True
    have "numbered (own_number cat (Element i k tg t am []) + F) b1" using st by simp
    from build_children_steps [OF _ this kids] st assms(3) True leaf kids cs show ?thesis
      by (auto simp: buildElement_def content_runes_def own_number_def)
  qed (use st assms(3) leaf cs in \<open>auto simp: buildElement_def own_number_def\<close>)
qed

definition builder_inv :: "builder \<Rightarrow> bool" where
  "builder_inv b \<longleftrightarrow> budget_ok b \<and> numbered {#} b \<and> content_runes (bd_elements b) \<le> spent b"

lemma foldl_keeps: "(\<And>x a. x \<in> set xs \<Longrightarrow> P a \<Longrightarrow> P (f a x)) \<Longrightarrow> P a \<Longrightarrow> P (foldl f a xs)"
  by (induction xs arbitrary: a) auto

lemma build_walk_inv [inv_pres]: "builder_inv b \<Longrightarrow> builder_inv (build_walk n b)"
proof (induction n b rule: build_walk.induct)
  case (1 t d as ks b)
  let ?n = "Node t d as ks"
  consider "bd_truncated b" | "\<not> bd_truncated b" "ClassifyNode ?n \<noteq> CatNone \<and> \<not> (ClassifyNode ?n = CatText \<and> to_lower d \<in> set containerTags)"
    | "\<not> bd_truncated b" "\<not> (ClassifyNode ?n \<noteq> CatNone \<and> \<not> (ClassifyNode ?n = CatText \<and> to_lower d \<in> set containerTags))" by blast
  then show ?case
  proof cases
    case 1
    then show ?thesis using \<open>builder_inv b\<close> by (simp add: build_walk.simps)
  next
    case 2
    obtain e b1 where el: "buildElement ?n (ClassifyNode ?n) b = (e, b1)" by fastforce
    have inv: "budget_ok b" "numbered {#} b" "content_runes (bd_elements b) \<le> spent b" using \<open>builder_inv b\<close> by (auto simp: builder_inv_def)
    note st = buildElement_steps [OF inv(1,2) el]
    let ?b2 = "b1\<lparr>bd_elements := bd_elements b1 @ [e]\<rparr>"
    let ?b3 = "if IsInteractive (ClassifyNode ?n) then ?b2\<lparr>bd_interactive := bd_interactive ?b2 @ [e]\<rparr> else ?b2"
    have "numbered (own_number (ClassifyNode ?n) e + {#}) ?b2" using st by (simp add: keep_interactive)
    from numbered_append [OF this] have "numbered {#} ?b3" .
    moreover have "budget_ok ?b3" "spent ?b3 = spent b1" "bd_elements ?b3 = bd_elements b @ [e]" using st by (simp_all add: keep_interactive)
    moreover have "content_runes (bd_elements b @ [e]) \<le> spent b1" using st inv(3) by (simp add: content_runes_def)
    ultimately have "builder_inv ?b3" by (simp add: builder_inv_def)
    moreover have "build_walk ?n b = ?b3" using 2 el by (simp add: build_walk.simps Let_def)
    ultimately show ?thesis by simp
  next
    case 3
    have "build_walk ?n b = foldl (\<lambda>a c. build_walk c a) b ks" using 3 by (subst build_walk.simps) (auto simp: Let_def)
    moreover have "builder_inv (foldl (\<lambda>a c. build_walk c a) b ks)"
      by (rule foldl_keeps) (use 1 3 in \<open>auto simp: Let_def\<close>)
    ultimately show ?thesis by simp
  qed
qed

lemma consumeChars_max: "bd_maxChars (snd (consumeChars t b)) = bd_maxChars b"
  by (simp add: consumeChars_def Let_def)

lemma build_leaf_max: "bd_maxChars (snd (build_leaf n cat b)) = bd_maxChars b"
  by (simp add: build_leaf_def Let_def consumeChars_max split_def)

lemma buildElement_max: "bd_maxChars (snd (buildElement n cat b)) = bd_maxChars b"
proof -
  have step: "bd_maxChars (snd (build_child acc c)) = bd_maxChars (snd acc)" for acc c
    using build_leaf_max [of c "ClassifyNode c" "snd acc"] by (auto simp: build_child_def Let_def split_def)
  have "bd_maxChars (snd (foldl build_child (es, b1) ks)) = bd_maxChars b1" for es b1 ks
    using foldl_keeps [of ks "\<lambda>a. bd_maxChars (snd a) = bd_maxChars b1" build_child "(es, b1)"] step by simp
  with build_leaf_max [of n cat b] show ?thesis
    by (auto simp: buildElement_def split: prod.splits Element.splits) (metis snd_conv)+
qed

lemma build_walk_max: "bd_maxChars (build_walk n b) = bd_maxChars b"
proof (induction n b rule: build_walk.induct)
  case (1 t d as ks b)
  let ?n = "Node t d as ks"
  show ?case
  proof (cases "bd_truncated b \<or> (ClassifyNode ?n \<noteq> CatNone \<and> \<not> (ClassifyNode ?n = CatText \<and> to_lower d \<in> set containerTags))")
    case True
    then show ?thesis
      using buildElement_max [of ?n "ClassifyNode ?n" b] by (subst build_walk.simps) (auto simp: Let_def split_def)
  next
    case False
    have "bd_maxChars (foldl (\<lambda>a c. build_walk c a) b ks) = bd_maxChars b"
      by (rule foldl_keeps [where P = "\<lambda>a. bd_maxChars a = bd_maxChars b"]) (use 1 False in \<open>auto simp: Let_def\<close>)
    with False show ?thesis by (subst build_walk.simps) (auto simp: Let_def)
  qed
qed

section \<open>Choosing the main block\<close>

definition sorts_blocks :: "(BlockScore list \<Rightarrow> BlockScore list) \<Rightarrow> bool" where
  "sorts_blocks srt \<longleftrightarrow> (\<forall>bs. mset (srt bs) = mset bs \<and> sorted_wrt (\<lambda>a b. b_Score b \<le> b_Score a) (srt bs))"

lemma find_first:
  assumes "find P xs = Some x"
  shows "x \<in> set xs \<and> P x \<and> (\<forall>y \<in> set xs. P y \<longrightarrow> y = x \<or> (\<exists>us vs ws. xs = us @ x # vs @ y # ws))"
  using assms
proof (induction xs)
  case (Cons z zs)
  show ?case
  proof (cases "P z")
    case True
    with Cons.prems have "x = z" by simp
    with True show ?thesis by (auto simp: split_list) (metis append_Nil split_list)
  next
    case False
    with Cons.prems have f: "find P zs = Some x" by simp
    from Cons.IH [OF f] False show ?thesis by (auto) (metis append_Cons)
  qed
qed simp

lemma sorted_find_best:
  assumes "find P xs = Some x" and "sorted_wrt (\<lambda>a b. b_Score b \<le> b_Score a) xs" and "y \<in> set xs" and "P y"
  shows "b_Score y \<le> b_Score x"
  using find_first [OF assms(1)] assms(2-4) by (auto simp: sorted_wrt_append)

section \<open>Properties\<close>


text \<open>C32. A document keeps its budget: its texts have at most one character more than the budget, the ellipsis of a cut text,
  and more than the budget only when the document is marked as truncated. The interactive elements, those inside
  forms included, carry the numbers from 1 on, each exactly once.\<close>

theorem document_within_budget:
  assumes "0 < maxChars" and "b = build_walk n (NewBuilder maxChars)"
  shows "content_runes (bd_elements b) \<le> maxChars + 1 \<and> (maxChars < content_runes (bd_elements b) \<longrightarrow> bd_truncated b)
    \<and> mset (map e_AgentID (bd_interactive b)) = mset (map (\<lambda>i. agent_id (Suc i)) [0..<length (bd_interactive b)])
    \<and> distinct (map e_AgentID (bd_interactive b))"
proof -
  have "builder_inv (NewBuilder maxChars)"
    using assms(1) by (simp add: builder_inv_def budget_ok_def numbered_def NewBuilder_def content_runes_def spent_def)
  then have inv: "builder_inv b" unfolding assms(2) by (rule build_walk_inv)
  have m: "bd_maxChars b = maxChars"
    unfolding assms(2) using build_walk_max [of n "NewBuilder maxChars"] by (simp add: NewBuilder_def)
  have ids: "mset (map e_AgentID (bd_interactive b)) = mset (map (\<lambda>i. agent_id (Suc i)) [0..<bd_counter b])"
    using inv by (simp add: builder_inv_def numbered_def)
  have len: "length (bd_interactive b) = bd_counter b" using arg_cong [OF ids, of size] by simp
  have "distinct (map (\<lambda>i. agent_id (Suc i)) [0..<bd_counter b])" by (auto simp: distinct_map inj_on_def agent_id_def)
  with ids have "distinct (map e_AgentID (bd_interactive b))" by (metis mset_eq_imp_distinct_iff)
  with inv ids len m show ?thesis by (auto simp: builder_inv_def budget_ok_def spent_def split: if_splits)
qed

abbreviation el :: "string \<Rightarrow> (string \<times> string) list \<Rightarrow> html list \<Rightarrow> html" where
  "el t as ks \<equiv> Node ElementNode t as ks"

abbreviation txt_node :: "string \<Rightarrow> html" where
  "txt_node t \<equiv> Node TextNode t [] []"

definition demo_page :: html where
  "demo_page = el ''body'' [] [el ''h1'' [] [txt_node ''Hello world''], el ''a'' [(''href'', ''/x'')] [txt_node ''more''],
     el ''form'' [] [el ''input'' [(''type'', ''text'')] [], el ''button'' [] [txt_node ''Send it now'']]]"

theorem document_within_budget_witness:
  "(let b = build_walk demo_page (NewBuilder 20) in bd_truncated b \<and> map e_AgentID (bd_interactive b) = [''@e1'', ''@e3'', ''@e4'', ''@e2'']
     \<and> content_runes (bd_elements b) = 21)
   \<and> content_runes (bd_elements (build_walk demo_page (NewBuilder 20))) \<le> 20 + 1"
proof
  show "let b = build_walk demo_page (NewBuilder 20) in bd_truncated b \<and> map e_AgentID (bd_interactive b) = [''@e1'', ''@e3'', ''@e4'', ''@e2'']
     \<and> content_runes (bd_elements b) = 21" by code_simp
  show "content_runes (bd_elements (build_walk demo_page (NewBuilder 20))) \<le> 20 + 1"
    using document_within_budget [of 20 "build_walk demo_page (NewBuilder 20)" demo_page] by simp
qed

text \<open>The main block, whatever sorting by score is used: either the whole page because no block has half the required text,
  or a block with at least that much text than which no other such block has a higher score, unless the block with the
  highest score of all has all the required text and is taken.\<close>

theorem BestBlock_best:
  assumes "sorts_blocks srt" and "0 \<le> thr"
  defines "good \<equiv> \<lambda>c. thr div 2 \<le> b_TextLen c"
  shows "(BestBlock srt rt thr = rt \<and> (\<forall>c \<in> set (walkBlocks rt). \<not> good c))
     \<or> (\<exists>c \<in> set (walkBlocks rt). BestBlock srt rt thr = b_Node c \<and> good c \<and> (\<forall>d \<in> set (walkBlocks rt). good d \<longrightarrow> b_Score d \<le> b_Score c))"
proof -
  have srt: "set (srt bs) = set bs" "sorted_wrt (\<lambda>a b. b_Score b \<le> b_Score a) (srt bs)" for bs
    using assms(1) unfolding sorts_blocks_def by (metis set_mset_mset, blast)
  show ?thesis
  proof (cases "srt (walkBlocks rt)")
    case Nil
    with srt(1) [of "walkBlocks rt"] show ?thesis by (simp add: BestBlock_def)
  next
    case (Cons b bs)
    show ?thesis
    proof (cases "thr \<le> b_TextLen b")
      case True
      have "good b" using True assms(2) by (simp add: good_def)
      moreover have "\<forall>d \<in> set (walkBlocks rt). b_Score d \<le> b_Score b" using srt [of "walkBlocks rt"] by (auto simp: Cons)
      moreover have "b \<in> set (walkBlocks rt)" using srt(1) [of "walkBlocks rt"] by (auto simp: Cons)
      ultimately show ?thesis using True by (auto simp: BestBlock_def Cons)
    next
      case False
      show ?thesis
      proof (cases "find good (b # bs)")
        case None
        then have "\<not> (\<exists>c. c \<in> set (b # bs) \<and> good c)" using find_None_iff [of good "b # bs"] by blast
        then have "\<forall>c \<in> set (walkBlocks rt). \<not> good c" using srt(1) [of "walkBlocks rt"] by (auto simp only: Cons)
        moreover have "BestBlock srt rt thr = rt" using False None by (simp add: BestBlock_def Cons good_def)
        ultimately show ?thesis by blast
      next
        case (Some c)
        have "c \<in> set (walkBlocks rt)" "good c" using find_Some_mem [OF Some] srt(1) [of "walkBlocks rt"] by (auto simp: Cons)
        moreover have "\<forall>d \<in> set (walkBlocks rt). good d \<longrightarrow> b_Score d \<le> b_Score c"
          using sorted_find_best [OF Some] srt [of "walkBlocks rt"] by (metis Cons)
        moreover have "BestBlock srt rt thr = b_Node c" using False Some by (simp add: BestBlock_def Cons good_def)
        ultimately show ?thesis by blast
      qed
    qed
  qed
qed

text \<open>The link density is compared exactly: rounding does not matter for pages of a realistic size.\<close>

lemma density_exact:
  assumes "0 < t" and "t \<le> 2 ^ 52" and "0 \<le> l" and "l \<le> 2 ^ 53"
  shows "1 / 2 < float_div (float_of_int l) (float_of_int t) \<longleftrightarrow> t < 2 * l"
proof -
  have half: "round64 (1 / 2) = 1 / 2" using round64_exact [of 1 "- 1"] by (simp add: power_int_def)
  have ints: "float_of_int l = of_int l" "float_of_int t = of_int t" using assms by (simp_all add: float_of_int_def round64_int)
  show ?thesis
  proof
    assume *: "1 / 2 < float_div (float_of_int l) (float_of_int t)"
    show "t < 2 * l"
    proof (rule ccontr)
      assume "\<not> t < 2 * l"
      then have "(of_int l :: rat) / of_int t \<le> 1 / 2" using assms(1) by (simp add: divide_le_eq)
      from round64_mono [OF this] * half show False by (simp add: float_div_def ints)
    qed
  next
    assume "t < 2 * l"
    then have n: "of_int (2 ^ 52 + 1) / 2 ^ 53 \<le> (of_int l :: rat) / of_int t"
    proof -
      have "(2 ^ 52 + 1) * t \<le> l * 2 ^ 53" using \<open>t < 2 * l\<close> assms(2) by simp
      then have "(of_int ((2 ^ 52 + 1) * t) :: rat) \<le> of_int (l * 2 ^ 53)" by (simp only: of_int_le_iff)
      then show ?thesis using assms(1) by (simp add: divide_le_eq le_divide_eq field_simps)
    qed
    have "round64 (of_int (2 ^ 52 + 1) * 2 powi (- 53)) = of_int (2 ^ 52 + 1) * 2 powi (- 53)" by (rule round64_exact) simp_all
    then have "round64 (of_int (2 ^ 52 + 1) / 2 ^ 53) = of_int (2 ^ 52 + 1) / 2 ^ 53"
      by (simp add: power_int_def power_one_over)
    with round64_mono [OF n] show "1 / 2 < float_div (float_of_int l) (float_of_int t)" by (simp add: float_div_def ints)
  qed
qed

section \<open>Elements that are not listed\<close>

text \<open>Only the direct children of a form are listed, so a control inside another element of the form is lost.\<close>

theorem nested_control_is_lost:
  "map e_Tag (bd_interactive (build_walk (el ''form'' [] [el ''div'' [] [el ''input'' [(''name'', ''q'')] []]]) (NewBuilder 100))) = [''form'']"
  by code_simp

text \<open>A paragraph is an element without children of its own, so its links are not listed.\<close>

theorem paragraph_link_is_lost:
  "bd_interactive (build_walk (el ''p'' [] [el ''a'' [(''href'', ''/x'')] [txt_node ''more'']]) (NewBuilder 100)) = []"
  by code_simp
end
