(* ===== verification/Archive.thy ===== *)
theory Archive
  imports JsonText JsonArgs "HOL-Library.Sublist"
begin

text \<open>
  The Wayback Machine support of \<open>internal/fetch/archive\<close>: rewriting and recognising archive URLs and removing the
  toolbar markup (\<open>wayback.go\<close>), and the snapshot index (\<open>cdx.go\<close>). Lower-casing of arbitrary text is the parameter
  \<open>lower\<close>: it may change the length of a text, and then an offset into the lower-cased page is no offset into the
  page. \<^const>\<open>None\<close> is the panic of an index or a slice beyond the end.
\<close>

section \<open>Archive URLs\<close>

definition WaybackBaseURL :: string where "WaybackBaseURL = ''https://web.archive.org/web''"

definition RewriteURL :: "string \<Rightarrow> string \<Rightarrow> string" where
  "RewriteURL rawURL timestamp = WaybackBaseURL @ ''/'' @ (if timestamp = [] then ''*'' else timestamp) @ ''/'' @ rawURL"

definition ParseWaybackURL :: "string \<Rightarrow> string option" where
  "ParseWaybackURL rawURL =
     (let pre = WaybackBaseURL @ ''/'' in
      if \<not> has_prefix rawURL pre then None
      else (let remainder = drop (length pre) rawURL in
            case index_byte remainder (CHR ''/'') of
              None \<Rightarrow> None
            | Some i \<Rightarrow> Some (drop (Suc i) remainder)))"

section \<open>Removing the toolbar\<close>

fun walk_back :: "string \<Rightarrow> nat \<Rightarrow> nat" where
  "walk_back s 0 = 0"
| "walk_back s (Suc i) = (if s ! i \<noteq> CHR ''<'' then walk_back s i else Suc i)"

definition start_tag :: "string \<Rightarrow> nat \<Rightarrow> nat" where
  "start_tag s idx = walk_back s idx - 1"

definition skip_newline :: "string \<Rightarrow> nat \<Rightarrow> nat" where
  "skip_newline s e = (if e < length s \<and> s ! e = CHR 0x0A then Suc e else e)"

definition cut_out :: "string \<Rightarrow> nat \<Rightarrow> nat \<Rightarrow> string" where
  "cut_out s a e = take a s @ drop (skip_newline s (min e (length s))) s"

definition quoted_attr :: "string \<Rightarrow> char \<Rightarrow> string \<Rightarrow> string" where
  "quoted_attr name q v = name @ ''='' @ [q] @ v @ [q]"

definition find_id :: "(string \<Rightarrow> string) \<Rightarrow> string \<Rightarrow> string \<Rightarrow> nat option" where
  "find_id lower page0 i =
     (case index_of (lower page0) (lower (quoted_attr ''id'' (CHR 0x22) i)) of
        Some k \<Rightarrow> Some k
      | None \<Rightarrow> index_of (lower page0) (lower (quoted_attr ''id'' (CHR 0x27) i)))"

definition removeElementByID :: "(string \<Rightarrow> string) \<Rightarrow> string \<Rightarrow> string \<Rightarrow> string option" where
  "removeElementByID lower page0 i =
     (case find_id lower page0 i of
        None \<Rightarrow> Some page0
      | Some idx \<Rightarrow>
          if length page0 < idx then None
          else
            (let closeTag = lower (drop idx page0) in
             case (case index_of closeTag ''</div>'' of Some k \<Rightarrow> Some k | None \<Rightarrow> index_of closeTag ''</DIV>'') of
               None \<Rightarrow> Some page0
             | Some k \<Rightarrow> Some (cut_out page0 (start_tag page0 idx) (idx + k + length ''</div>''))))"

definition removeElementByClass :: "(string \<Rightarrow> string) \<Rightarrow> string \<Rightarrow> string \<Rightarrow> string option" where
  "removeElementByClass lower page0 cls =
     (case index_of (lower page0) (lower (quoted_attr ''class'' (CHR 0x22) cls)) of
        None \<Rightarrow> Some page0
      | Some idx \<Rightarrow>
          if length page0 < idx then None
          else
            (case index_of (drop idx page0) ''</'' of
               None \<Rightarrow> Some page0
             | Some k \<Rightarrow>
                 Some (cut_out page0 (start_tag page0 idx)
                   (idx + k + (case index_of (drop (idx + k) page0) ''>'' of Some g \<Rightarrow> Suc g | None \<Rightarrow> 0)))))"

definition waybackScript :: "(string \<Rightarrow> string) \<Rightarrow> string \<Rightarrow> bool" where
  "waybackScript lower script =
     (let content = lower script in contains content ''archive.org'' \<or> contains content ''wombat.js'' \<or> contains content ''wm-ipp'')"

text \<open>The first closed script of a page: its offset and its length.\<close>

definition first_script :: "string \<Rightarrow> (nat \<times> nat) option" where
  "first_script s =
     (case index_of s ''<script'' of
        None \<Rightarrow> None
      | Some a \<Rightarrow> map_option (\<lambda>k. (a, k + length ''</script>'')) (index_of (drop a s) ''</script>''))"

lemma index_of_bound: "index_of s sub = Some k \<Longrightarrow> k + length sub \<le> length s"
  by (induction s arbitrary: k) (auto split: if_splits dest: prefix_length_le)

lemma first_script_bounds: "first_script s = Some (a, n) \<Longrightarrow> 0 < n \<and> a + n \<le> length s"
  by (auto simp: first_script_def split: option.splits dest!: index_of_bound)

lemma skip_newline_ge: "e \<le> skip_newline s e"
  by (simp add: skip_newline_def)

lemma skip_newline_le: "e \<le> length s \<Longrightarrow> skip_newline s e \<le> length s"
  by (auto simp: skip_newline_def)

lemma length_cut_out: "a \<le> e \<Longrightarrow> e \<le> length s \<Longrightarrow> length (cut_out s a e) \<le> length s - (e - a)"
  using skip_newline_ge [of e s] by (auto simp: cut_out_def min_def)

function removeWaybackScripts :: "(string \<Rightarrow> string) \<Rightarrow> string \<Rightarrow> string" where
  "removeWaybackScripts lower s =
     (case first_script s of
        None \<Rightarrow> s
      | Some (a, n) \<Rightarrow>
          if waybackScript lower (take n (drop a s)) then removeWaybackScripts lower (cut_out s a (a + n)) else s)"
  by pat_completeness auto
termination
proof (relation "measure (\<lambda>(_, s). length s)", goal_cases)
  case (2 lower s x a n)
  then have "0 < n" "a + n \<le> length s" using first_script_bounds by auto
  then show ?case using length_cut_out [of a "a + n" s] by simp
qed simp

declare removeWaybackScripts.simps [simp del]

definition StripWaybackToolbar :: "(string \<Rightarrow> string) \<Rightarrow> string \<Rightarrow> string option" where
  "StripWaybackToolbar lower page0 =
     Option.bind (removeElementByID lower page0 ''wm-ipp-base'') (\<lambda>p1.
     Option.bind (removeElementByID lower p1 ''wm-ipp'') (\<lambda>p2.
     Option.bind (removeElementByClass lower p2 ''wb-autocomplete-suggestions'') (\<lambda>p3.
     Some (removeWaybackScripts lower p3))))"

section \<open>The snapshot index\<close>

record Snapshot =
  sn_Timestamp :: string
  sn_Original :: string
  sn_MimeType :: string
  sn_StatusCode :: string
  sn_Digest :: string
  sn_Length :: string

record CDXQuery =
  cq_URL :: string
  cq_From :: string
  cq_To :: string
  cq_Limit :: int
  cq_MatchType :: string

definition CDXBaseURL :: string where "CDXBaseURL = ''https://web.archive.org/cdx/search/cdx''"

text \<open>\<open>url.QueryEscape\<close> and \<open>Values.Encode\<close>, which writes the keys in order.\<close>

definition upper_hex :: string where "upper_hex = ''0123456789ABCDEF''"

definition query_escape_char :: "char \<Rightarrow> string" where
  "query_escape_char c =
     (if is_lower c \<or> is_upper c \<or> is_digit c \<or> c \<in> set ''-_.~'' then [c]
      else if c = CHR '' '' then ''+''
      else [CHR 0x25, upper_hex ! (of_char c div 16), upper_hex ! (of_char c mod 16)])"

definition QueryEscape :: "string \<Rightarrow> string" where
  "QueryEscape s = concat (map query_escape_char s)"

definition encode_values :: "(string \<times> string) list \<Rightarrow> string" where
  "encode_values kvs = join ''&'' (map (\<lambda>kv. QueryEscape (fst kv) @ ''='' @ QueryEscape (snd kv)) kvs)"

definition cdx_values :: "CDXQuery \<Rightarrow> (string \<times> string) list" where
  "cdx_values q =
     [(''fl'', ''timestamp,original,mimetype,statuscode,digest,length'')]
     @ (if cq_From q \<noteq> [] then [(''from'', cq_From q)] else [])
     @ (if 0 < cq_Limit q then [(''limit'', int_str (cq_Limit q))] else [])
     @ (if cq_MatchType q \<noteq> [] then [(''matchType'', cq_MatchType q)] else [])
     @ [(''output'', ''json'')]
     @ (if cq_To q \<noteq> [] then [(''to'', cq_To q)] else [])
     @ [(''url'', cq_URL q)]"

datatype cdx_error = UrlRequired | CdxRequestFailed string | CdxStatus int string | CdxDecode

text \<open>A row of the answer as Go decodes it into \<open>[]string\<close>.\<close>

fun cdx_row :: "json \<Rightarrow> string list option" where
  "cdx_row JNull = Some []"
| "cdx_row j = as_strings j"

fun cdx_rows :: "json \<Rightarrow> string list list option" where
  "cdx_rows JNull = Some []"
| "cdx_rows (JArr xs) = all_some (map cdx_row xs)"
| "cdx_rows _ = None"

definition snapshot_of :: "string list \<Rightarrow> Snapshot option" where
  "snapshot_of row =
     (case row of
        t # u # m # s # d # l # _ \<Rightarrow>
          Some \<lparr>sn_Timestamp = t, sn_Original = u, sn_MimeType = m, sn_StatusCode = s, sn_Digest = d, sn_Length = l\<rparr>
      | _ \<Rightarrow> None)"

text \<open>\<open>Decoder.Decode\<close> reads one value and leaves the rest of the text unread.\<close>

definition decodeCDXResponse :: "string \<Rightarrow> cdx_error + Snapshot list" where
  "decodeCDXResponse body =
     (case parse_value (length body) body of
        None \<Rightarrow> Inl CdxDecode
      | Some (v, _) \<Rightarrow>
          (case cdx_rows v of
             None \<Rightarrow> Inl CdxDecode
           | Some rows \<Rightarrow> Inr (if length rows < 2 then [] else List.map_filter snapshot_of (tl rows))))"

text \<open>\<open>net\<close> is the round trip of a GET request, with its status and body.\<close>

definition Lookup :: "(string \<Rightarrow> string + int \<times> string) \<Rightarrow> string \<Rightarrow> CDXQuery \<Rightarrow> cdx_error + Snapshot list" where
  "Lookup net baseURL q =
     (if cq_URL q = [] then Inl UrlRequired
      else (case net ((if baseURL = [] then CDXBaseURL else baseURL) @ ''?'' @ encode_values (cdx_values q)) of
              Inl err \<Rightarrow> Inl (CdxRequestFailed err)
            | Inr (status, body) \<Rightarrow>
                if status \<noteq> 200 then Inl (CdxStatus status (trim_space body)) else decodeCDXResponse body))"

section \<open>Archive URLs are read back\<close>

text \<open>An archive URL made for a page names this page, unless the timestamp itself has a slash.\<close>

lemma index_any_append: "set a \<inter> set cs = {} \<Longrightarrow> c \<in> set cs \<Longrightarrow> index_any (a @ c # b) cs = Some (length a)"
  by (induction a) auto

theorem archived_url_names_page:
  assumes "CHR ''/'' \<notin> set ts"
  shows "ParseWaybackURL (RewriteURL u ts) = Some u"
proof -
  let ?t = "if ts = [] then ''*'' else ts"
  have "index_byte (?t @ CHR ''/'' # u) (CHR ''/'') = Some (length ?t)" using assms by (intro index_any_append) auto
  moreover have "RewriteURL u ts = (WaybackBaseURL @ ''/'') @ ?t @ CHR ''/'' # u" by (simp add: RewriteURL_def)
  ultimately show ?thesis unfolding ParseWaybackURL_def Let_def by simp
qed

section \<open>Removing only removes\<close>

lemma walk_back_le: "walk_back s i \<le> i"
  by (induction i) auto

lemma start_tag_le: "start_tag s i \<le> i"
  using walk_back_le [of s i] by (simp add: start_tag_def)

lemma subseq_cut_out:
  assumes "a \<le> e" shows "subseq (cut_out s a e) s"
proof -
  let ?e = "skip_newline s (min e (length s))"
  have "take a s @ drop ?e s = take a (take ?e s) @ drop ?e s"
    using assms skip_newline_ge [of "min e (length s)" s] by (cases "a \<le> length s") (auto simp: min_def)
  moreover have "subseq (take a (take ?e s) @ drop ?e s) (take ?e s @ drop ?e s)"
    by (intro list_emb_append_mono prefix_imp_subseq take_is_prefix subseq_order.order_refl)
  ultimately show ?thesis by (simp add: cut_out_def)
qed

lemma removeElementByID_subseq: "removeElementByID lower s i = Some t \<Longrightarrow> subseq t s"
  by (auto simp: removeElementByID_def Let_def split: option.splits if_splits
      intro!: subseq_cut_out le_trans [OF start_tag_le])

lemma removeElementByClass_subseq: "removeElementByClass lower s i = Some t \<Longrightarrow> subseq t s"
  by (auto simp: removeElementByClass_def split: option.splits if_splits
      intro!: subseq_cut_out le_trans [OF start_tag_le])

lemma removeWaybackScripts_subseq: "subseq (removeWaybackScripts lower s) s"
proof (induction lower s rule: removeWaybackScripts.induct)
  case (1 lower s)
  show ?case
  proof (cases "first_script s")
    case None
    then show ?thesis by (simp add: removeWaybackScripts.simps [of lower s])
  next
    case (Some p)
    obtain a n where p: "p = (a, n)" by (cases p)
    show ?thesis
    proof (cases "waybackScript lower (take n (drop a s))")
      case True
      have "subseq (removeWaybackScripts lower (cut_out s a (a + n))) s"
        using subseq_order.order_trans [OF 1 [OF Some p [symmetric] True] subseq_cut_out] by simp
      then show ?thesis using Some True by (simp add: removeWaybackScripts.simps [of lower s] p)
    next
      case False
      then show ?thesis using Some by (simp add: removeWaybackScripts.simps [of lower s] p)
    qed
  qed
qed

lemma index_of_lower: "(\<And>s. length (lower s) = length s) \<Longrightarrow> index_of (lower s) sub = Some k \<Longrightarrow> k \<le> length s"
  using index_of_bound [of "lower s" sub k] by simp

lemma removeElement_total:
  assumes "\<And>s. length (lower s) = length s"
  shows "\<exists>t. removeElementByID lower s i = Some t" and "\<exists>t. removeElementByClass lower s i = Some t"
  using index_of_lower [of lower s, OF assms]
  by (auto simp: removeElementByID_def removeElementByClass_def find_id_def Let_def split: option.splits)
     (meson not_le)+

text \<open>Removing the toolbar returns a part of the page with nothing added, when lower-casing keeps lengths,
  and afterwards the first script of the page is not one of the archive's.\<close>

theorem toolbar_is_cut_out:
  assumes "\<And>s. length (lower s) = length s"
  shows "\<exists>t. StripWaybackToolbar lower s = Some t \<and> subseq t s
     \<and> (\<forall>a n. first_script t = Some (a, n) \<longrightarrow> \<not> waybackScript lower (take n (drop a t)))"
proof -
  obtain p1 where p1: "removeElementByID lower s ''wm-ipp-base'' = Some p1" using removeElement_total(1) [OF assms] by blast
  obtain p2 where p2: "removeElementByID lower p1 ''wm-ipp'' = Some p2" using removeElement_total(1) [OF assms] by blast
  obtain p3 where p3: "removeElementByClass lower p2 ''wb-autocomplete-suggestions'' = Some p3"
    using removeElement_total(2) [OF assms] by blast
  have clean: "first_script (removeWaybackScripts lower t) = Some (a, n) \<Longrightarrow> \<not> waybackScript lower (take n (drop a (removeWaybackScripts lower t)))" for t a n
  proof (induction lower t rule: removeWaybackScripts.induct)
    case (1 lower s)
    show ?case
    proof (cases "\<exists>b m. first_script s = Some (b, m) \<and> waybackScript lower (take m (drop b s))")
      case True
      then obtain b m where *: "first_script s = Some (b, m)" "waybackScript lower (take m (drop b s))" by blast
      then have "removeWaybackScripts lower s = removeWaybackScripts lower (cut_out s b (b + m))"
        by (simp add: removeWaybackScripts.simps [of lower s])
      with 1 * show ?thesis by simp
    next
      case False
      then have "removeWaybackScripts lower s = s" by (auto simp: removeWaybackScripts.simps [of lower s] split: option.splits)
      with 1(2) False show ?thesis by auto
    qed
  qed
  have "subseq (removeWaybackScripts lower p3) s"
    using removeWaybackScripts_subseq removeElementByID_subseq [OF p1] removeElementByID_subseq [OF p2] removeElementByClass_subseq [OF p3]
    by (metis subseq_order.order_trans)
  with clean show ?thesis by (auto simp: StripWaybackToolbar_def p1 p2 p3)
qed

section \<open>What removing misses\<close>

text \<open>The element is taken to end at the next closing tag, so an element inside it cuts the removal short.\<close>

theorem nested_toolbar_remains:
  "removeElementByID to_lower ''<div id='' ''wm-ipp'' = Some ''<div id=''
   \<and> removeElementByID to_lower (''<div id='' @ [CHR 0x22] @ ''wm-ipp'' @ [CHR 0x22] @ ''><div>a</div>donate</div>page'') ''wm-ipp''
     = Some ''donate</div>page''"
  by code_simp

text \<open>Only scripts at the front are removed: the loop stops at the first script of the page itself.\<close>

theorem later_archive_script_remains:
  "removeWaybackScripts to_lower ''<script>f()</script><script>archive.org</script>'' = ''<script>f()</script><script>archive.org</script>''"
  by code_simp

text \<open>Lower-casing that makes a text longer, as it does for U+023A, moves the offset beyond the end of the page.\<close>

definition longer_lower :: "string \<Rightarrow> string" where
  "longer_lower s = replace_all [CHR 0xC8, CHR 0xBA] [CHR 0xE2, CHR 0xB1, CHR 0xA5] (to_lower s)"

theorem lower_casing_can_panic:
  "StripWaybackToolbar longer_lower (concat (replicate 20 [CHR 0xC8, CHR 0xBA]) @ ''id='' @ [CHR 0x22] @ ''wm-ipp'' @ [CHR 0x22]) = None"
  by code_simp

end
