(* ===== verification/SchemaQuery.thy ===== *)
theory SchemaQuery
  imports PageModel Journal
begin

text \<open>
  Queries on the structured data of a page, \<open>internal/fetch/render/schema.go\<close>: typed selectors \<open>@Type:path\<close>, the field
  \<open>@type\<close> and plain field paths over the JSON-LD islands of \<open>PageModel\<close>. Values are decoded into Go maps, so
  the last of equal keys counts and keys are printed in order (\<^const>\<open>map_form\<close>). Numbers are decoded into floats
  and printed again: \<open>renum\<close> gives the text of the float a number is decoded into, \<^const>\<open>None\<close> when it is out of
  range. \<open>fold_eq\<close> is \<open>strings.EqualFold\<close>.
\<close>

section \<open>Decoding\<close>

fun refloat :: "(string \<Rightarrow> string option) \<Rightarrow> json \<Rightarrow> json option" where
  "refloat renum (JNum n) = map_option JNum (renum n)"
| "refloat renum (JArr xs) = map_option JArr (all_some (map (refloat renum) xs))"
| "refloat renum (JObj kvs) = map_option JObj (all_some (map (\<lambda>kv. map_option (Pair (fst kv)) (refloat renum (snd kv))) kvs))"
| "refloat renum j = Some j"

definition decode_value :: "(string \<Rightarrow> string option) \<Rightarrow> string \<Rightarrow> json option" where
  "decode_value renum t = Option.bind (unmarshal t) (\<lambda>j. map_option map_form (refloat renum j))"

text \<open>\<open>null\<close> is decoded into a map without entries.\<close>

definition unmarshalIsland :: "(string \<Rightarrow> string option) \<Rightarrow> string \<Rightarrow> (string \<times> json) list option" where
  "unmarshalIsland renum t =
     (case decode_value renum t of Some JNull \<Rightarrow> Some [] | Some (JObj m) \<Rightarrow> Some m | _ \<Rightarrow> None)"

datatype schema_error =
    EmptyPath
  | AmbiguousSelector
  | MissingAt
  | SchemaMiss string
  | FieldNotFound string
  | IntoArray string
  | IntoScalar

section \<open>Types and graphs\<close>

definition string_member :: "string \<Rightarrow> (string \<times> json) list \<Rightarrow> string option" where
  "string_member k m = (case map_of m k of Some (JStr s) \<Rightarrow> Some s | _ \<Rightarrow> None)"

definition type_is :: "(string \<Rightarrow> string \<Rightarrow> bool) \<Rightarrow> string \<Rightarrow> string \<Rightarrow> (string \<times> json) list \<Rightarrow> bool" where
  "type_is fold_eq k t m = (case string_member k m of Some s \<Rightarrow> fold_eq s t | None \<Rightarrow> False)"

text \<open>The objects in the array \<open>@graph\<close>.\<close>

fun object_members :: "json \<Rightarrow> (string \<times> json) list option" where
  "object_members (JObj kvs) = Some kvs"
| "object_members _ = None"

definition graph_nodes :: "(string \<times> json) list \<Rightarrow> (string \<times> json) list list" where
  "graph_nodes m =
     (case map_of m ''@graph'' of
        Some (JArr xs) \<Rightarrow> List.map_filter object_members xs
      | _ \<Rightarrow> [])"

definition matchesType :: "(string \<Rightarrow> string \<Rightarrow> bool) \<Rightarrow> (string \<times> json) list \<Rightarrow> string \<Rightarrow> bool" where
  "matchesType fold_eq m t \<longleftrightarrow>
     type_is fold_eq ''@type'' t m \<or> type_is fold_eq ''type'' t m \<or> list_ex (type_is fold_eq ''@type'' t) (graph_nodes m)"

definition findTypedNode :: "(string \<Rightarrow> string option) \<Rightarrow> (string \<Rightarrow> string \<Rightarrow> bool) \<Rightarrow> string \<Rightarrow> string \<Rightarrow> string option" where
  "findTypedNode renum fold_eq data t =
     (case unmarshalIsland renum data of
        None \<Rightarrow> None
      | Some m \<Rightarrow>
          if type_is fold_eq ''@type'' t m \<or> type_is fold_eq ''type'' t m then Some data
          else map_option (\<lambda>n. marshal (JObj n)) (find (type_is fold_eq ''@type'' t) (graph_nodes m)))"

section \<open>Paths\<close>

fun traverse :: "string list \<Rightarrow> json \<Rightarrow> schema_error + json" where
  "traverse [] v = Inr v"
| "traverse (p # ps) v =
     (case v of
        JObj m \<Rightarrow> (case map_of m p of None \<Rightarrow> Inl (FieldNotFound p) | Some w \<Rightarrow> traverse ps w)
      | JArr xs \<Rightarrow> Inl (IntoArray p)
      | _ \<Rightarrow> Inl IntoScalar)"

definition traverseFieldMap :: "(string \<times> json) list \<Rightarrow> string \<Rightarrow> schema_error + string" where
  "traverseFieldMap m fieldPath = map_sum id marshal (traverse (split_on (CHR ''.'') fieldPath) (JObj m))"

definition traversePath :: "(string \<Rightarrow> string option) \<Rightarrow> string \<Rightarrow> string \<Rightarrow> schema_error + string" where
  "traversePath renum data fieldPath =
     (case unmarshalIsland renum data of None \<Rightarrow> Inl IntoScalar | Some m \<Rightarrow> traverseFieldMap m fieldPath)"

section \<open>Queries\<close>

fun queryTypedSelector ::
  "(string \<Rightarrow> string option) \<Rightarrow> (string \<Rightarrow> string \<Rightarrow> bool) \<Rightarrow> DataIsland list \<Rightarrow> string \<Rightarrow> string \<Rightarrow> schema_error + string" where
  "queryTypedSelector renum fold_eq [] t path = Inl (SchemaMiss (t @ '':'' @ path))"
| "queryTypedSelector renum fold_eq (i # is) t path =
     (if i_Source i \<noteq> ''ld+json'' then queryTypedSelector renum fold_eq is t path
      else (case unmarshalIsland renum (i_JSON i) of
              None \<Rightarrow> queryTypedSelector renum fold_eq is t path
            | Some m \<Rightarrow>
                if \<not> matchesType fold_eq m t then queryTypedSelector renum fold_eq is t path
                else (case findTypedNode renum fold_eq (i_JSON i) t of
                        None \<Rightarrow> queryTypedSelector renum fold_eq is t path
                      | Some nodeJSON \<Rightarrow> traversePath renum nodeJSON path)))"

definition nonempty_string :: "string \<Rightarrow> (string \<times> json) list \<Rightarrow> string option" where
  "nonempty_string k m = (case string_member k m of Some s \<Rightarrow> if s \<noteq> [] then Some s else None | None \<Rightarrow> None)"

definition island_types :: "(string \<Rightarrow> string option) \<Rightarrow> DataIsland \<Rightarrow> string list" where
  "island_types renum i =
     (if i_Source i \<noteq> ''ld+json'' then []
      else (case unmarshalIsland renum (i_JSON i) of
              None \<Rightarrow> []
            | Some m \<Rightarrow>
                (case nonempty_string ''@type'' m of
                   Some t \<Rightarrow> [t]
                 | None \<Rightarrow> (case nonempty_string ''type'' m of
                              Some t \<Rightarrow> [t]
                            | None \<Rightarrow> List.map_filter (nonempty_string ''@type'') (graph_nodes m)))))"

definition queryTypeField :: "(string \<Rightarrow> string option) \<Rightarrow> DataIsland list \<Rightarrow> schema_error + string" where
  "queryTypeField renum is =
     (case concat (map (island_types renum) is) of
        [] \<Rightarrow> Inl (SchemaMiss ''@type'')
      | [t] \<Rightarrow> Inr (marshal (JStr t))
      | ts \<Rightarrow> Inr (marshal (JArr (map JStr ts))))"

definition found :: "schema_error + string \<Rightarrow> string option" where
  "found r = (case r of Inr s \<Rightarrow> if s \<noteq> [] then Some s else None | Inl _ \<Rightarrow> None)"

definition island_results :: "(string \<Rightarrow> string option) \<Rightarrow> string \<Rightarrow> DataIsland \<Rightarrow> string list" where
  "island_results renum path i =
     (if i_Source i \<noteq> ''ld+json'' then []
      else (case unmarshalIsland renum (i_JSON i) of
              None \<Rightarrow> []
            | Some m \<Rightarrow>
                (case found (traverseFieldMap m path) of
                   Some s \<Rightarrow> [s]
                 | None \<Rightarrow> List.map_filter (\<lambda>n. found (traverseFieldMap n path)) (graph_nodes m))))"

definition queryPlainPath :: "(string \<Rightarrow> string option) \<Rightarrow> DataIsland list \<Rightarrow> string \<Rightarrow> schema_error + string" where
  "queryPlainPath renum is path =
     (case concat (map (island_results renum path) is) of
        [] \<Rightarrow> Inl (SchemaMiss path)
      | [s] \<Rightarrow> Inr s
      | ss \<Rightarrow> Inr (marshal (JArr (map JStr ss))))"

definition QuerySchema ::
  "(string \<Rightarrow> string option) \<Rightarrow> (string \<Rightarrow> string \<Rightarrow> bool) \<Rightarrow> DataIsland list \<Rightarrow> string \<Rightarrow> schema_error + string" where
  "QuerySchema renum fold_eq is path =
     (if path = [] then Inl EmptyPath
      else if has_prefix path ''@'' then
        (let rest = drop 1 path in
         case index_byte rest (CHR '':'') of
           Some i \<Rightarrow>
             if 0 < i \<and> drop (Suc i) rest \<noteq> [] then queryTypedSelector renum fold_eq is (take i rest) (drop (Suc i) rest)
             else if path = ''@type'' then queryTypeField renum is
             else Inl AmbiguousSelector
         | None \<Rightarrow> if path = ''@type'' then queryTypeField renum is else Inl AmbiguousSelector)
      else if contains path '':'' then Inl MissingAt
      else queryPlainPath renum is path)"

section \<open>Decoded values keep their form\<close>

text \<open>What printing and reading floats promises: a printed float is a number and is read as itself.\<close>

definition float_texts :: "(string \<Rightarrow> string option) \<Rightarrow> bool" where
  "float_texts renum \<longleftrightarrow> (\<forall>n x. renum n = Some x \<longrightarrow> valid_number x \<and> renum x = Some x)"

fun stable_numbers :: "(string \<Rightarrow> string option) \<Rightarrow> json \<Rightarrow> bool" where
  "stable_numbers renum (JNum n) = (renum n = Some n)"
| "stable_numbers renum (JArr xs) = (\<forall>x \<in> set xs. stable_numbers renum x)"
| "stable_numbers renum (JObj kvs) = (\<forall>kv \<in> set kvs. stable_numbers renum (snd kv))"
| "stable_numbers renum _ = True"

definition settled :: "(string \<Rightarrow> string option) \<Rightarrow> json \<Rightarrow> bool" where
  "settled renum v \<longleftrightarrow> wf_json v \<and> canonical v \<and> stable_numbers renum v"

lemma all_some_map_eq: "(\<And>x. x \<in> set xs \<Longrightarrow> f x = Some x) \<Longrightarrow> all_some (map f xs) = Some xs"
  by (induction xs) auto

lemma refloat_stable: "stable_numbers renum v \<Longrightarrow> refloat renum v = Some v"
proof (induction v)
  case (JArr xs)
  then show ?case by (simp add: all_some_map_eq)
next
  case (JObj kvs)
  then show ?case by (auto simp: snds.simps intro!: all_some_map_eq)
qed auto

lemma refloat_props:
  assumes "float_texts renum"
  shows "wf_json v \<Longrightarrow> refloat renum v = Some w \<Longrightarrow> wf_json w \<and> stable_numbers renum w"
proof (induction v arbitrary: w)
  case (JNum n)
  then show ?case using assms by (auto simp: float_texts_def)
next
  case (JArr xs)
  from JArr.prems(2) obtain ys where w: "w = JArr ys" and ys: "map (refloat renum) xs = map Some ys"
    by (auto simp: all_some_iff)
  have "wf_json y \<and> stable_numbers renum y" if "y \<in> set ys" for y
  proof -
    from that have "Some y \<in> set (map (refloat renum) xs)" by (simp add: ys)
    then obtain x where "x \<in> set xs" "refloat renum x = Some y" by auto
    then show ?thesis using JArr.IH [of x y] JArr.prems(1) by simp
  qed
  then show ?case by (simp add: w)
next
  case (JObj kvs)
  let ?f = "\<lambda>kv. map_option (Pair (fst kv)) (refloat renum (snd kv))"
  from JObj.prems(2) obtain ys where w: "w = JObj ys" and ys: "map ?f kvs = map Some ys"
    by (auto simp: all_some_iff)
  have "to_valid (fst y) = fst y \<and> wf_json (snd y) \<and> stable_numbers renum (snd y)" if "y \<in> set ys" for y
  proof -
    from that have "Some y \<in> set (map ?f kvs)" by (simp add: ys)
    then obtain kv where kv: "kv \<in> set kvs" "?f kv = Some y" by (metis (no_types, lifting) imageE set_map)
    from kv(2) obtain u where "refloat renum (snd kv) = Some u" "y = (fst kv, u)" by (cases "refloat renum (snd kv)") auto
    with kv(1) have "kv \<in> set kvs" "refloat renum (snd kv) = Some u" "y = (fst kv, u)" by simp_all
    then show ?thesis using JObj.IH [of kv "snd kv" u] JObj.prems(1) by (simp add: snds.simps prod_eq_iff)
  qed
  then show ?case by (simp add: w)
qed auto

lemma map_form_stable: "stable_numbers renum v \<Longrightarrow> stable_numbers renum (map_form v)"
proof (induction v)
  case (JObj kvs)
  have "stable_numbers renum (snd kv)" if "kv \<in> set (insert_all [] (map (\<lambda>kv. (fst kv, map_form (snd kv))) kvs))" for kv
    using that insert_all_set [of "[]" "map (\<lambda>kv. (fst kv, map_form (snd kv))) kvs"] JObj by (force simp: snds.simps)
  then show ?case by simp
qed auto

lemma decode_value_settled:
  assumes "float_texts renum" and "decode_value renum t = Some v" shows "settled renum v"
  using assms refloat_props [OF assms(1)] unmarshal_wf
  by (auto simp: decode_value_def settled_def bind_eq_Some_conv map_form_canonical intro!: map_form_wf map_form_stable)

lemma decode_value_marshal: "settled renum v \<Longrightarrow> decode_value renum (marshal v) = Some v"
  by (simp add: settled_def decode_value_def unmarshal_marshal refloat_stable canonical_map_form)

lemma settled_simps:
  "settled renum (JArr xs) \<longleftrightarrow> (\<forall>x \<in> set xs. settled renum x)"
  "settled renum (JObj kvs) \<Longrightarrow> kv \<in> set kvs \<Longrightarrow> settled renum (snd kv)"
  by (auto simp: settled_def)

lemma unmarshalIsland_settled:
  assumes "float_texts renum" and "unmarshalIsland renum t = Some m" shows "settled renum (JObj m)"
proof -
  obtain v where v: "decode_value renum t = Some v" "(v = JNull \<and> m = []) \<or> v = JObj m"
    using assms(2) by (auto simp: unmarshalIsland_def split: option.splits json.splits)
  from v(2) show ?thesis
  proof
    assume "v = JNull \<and> m = []"
    then show ?thesis by (simp add: settled_def)
  next
    assume "v = JObj m"
    then show ?thesis using decode_value_settled [OF assms(1) v(1)] by simp
  qed
qed

lemma unmarshalIsland_marshal: "settled renum (JObj m) \<Longrightarrow> unmarshalIsland renum (marshal (JObj m)) = Some m"
  by (simp only: unmarshalIsland_def decode_value_marshal) simp

lemma graph_nodes_settled: "settled renum (JObj m) \<Longrightarrow> n \<in> set (graph_nodes m) \<Longrightarrow> settled renum (JObj n)"
proof -
  assume s: "settled renum (JObj m)" and "n \<in> set (graph_nodes m)"
  then obtain xs x where xs: "map_of m ''@graph'' = Some (JArr xs)" "x \<in> set xs" "object_members x = Some n"
    by (cases "map_of m ''@graph''"; cases "the (map_of m ''@graph'')") (auto simp: graph_nodes_def map_filter_def)
  from xs(3) have "x = JObj n" by (cases x) auto
  with xs have "map_of m ''@graph'' = Some (JArr xs)" "JObj n \<in> set xs" by simp_all
  then show "settled renum (JObj n)" using settled_simps(2) [OF s, of "(''@graph'', JArr xs)"] by (auto dest: map_of_SomeD simp: settled_simps(1))
qed

lemma traverse_settled: "settled renum v \<Longrightarrow> traverse ps v = Inr w \<Longrightarrow> settled renum w"
proof (induction ps arbitrary: v)
  case (Cons p ps)
  then obtain m u where "v = JObj m" "map_of m p = Some u" "traverse ps u = Inr w" by (auto split: json.splits option.splits)
  then show ?case using Cons settled_simps(2) [of renum m "(p, u)"] by (auto dest: map_of_SomeD)
qed simp

section \<open>Typed queries\<close>

text \<open>The specification: the first node of the type in the first island that has one.\<close>

definition typed_node :: "(string \<Rightarrow> string option) \<Rightarrow> (string \<Rightarrow> string \<Rightarrow> bool) \<Rightarrow> string \<Rightarrow> DataIsland \<Rightarrow> (string \<times> json) list option" where
  "typed_node renum fold_eq t i =
     (case if i_Source i = ''ld+json'' then unmarshalIsland renum (i_JSON i) else None of
        None \<Rightarrow> None
      | Some m \<Rightarrow>
          if type_is fold_eq ''@type'' t m \<or> type_is fold_eq ''type'' t m then Some m
          else find (type_is fold_eq ''@type'' t) (graph_nodes m))"

lemma list_ex_find: "list_ex P xs \<longleftrightarrow> find P xs \<noteq> None"
  by (auto simp: list_ex_iff find_None_iff)

lemma queryTypedSelector_spec:
  assumes "float_texts renum"
  shows "queryTypedSelector renum fold_eq is t path
     = (case List.map_filter (typed_node renum fold_eq t) is of
          [] \<Rightarrow> Inl (SchemaMiss (t @ '':'' @ path))
        | m # _ \<Rightarrow> traverseFieldMap m path)"
proof (induction "is")
  case Nil
  then show ?case by (simp add: map_filter_simps)
next
  case (Cons i "is")
  show ?case
  proof (cases "if i_Source i = ''ld+json'' then unmarshalIsland renum (i_JSON i) else None")
    case None
    then show ?thesis using Cons by (auto simp: map_filter_simps typed_node_def split: if_splits)
  next
    case (Some m)
    then have src: "i_Source i = ''ld+json''" and m: "unmarshalIsland renum (i_JSON i) = Some m" by (auto split: if_splits)
    note s = unmarshalIsland_settled [OF assms m]
    show ?thesis
    proof (cases "type_is fold_eq ''@type'' t m \<or> type_is fold_eq ''type'' t m")
      case True
      then have "matchesType fold_eq m t" by (auto simp: matchesType_def)
      with True show ?thesis by (simp add: src m map_filter_simps typed_node_def findTypedNode_def traversePath_def)
    next
      case False
      then have match: "matchesType fold_eq m t \<longleftrightarrow> find (type_is fold_eq ''@type'' t) (graph_nodes m) \<noteq> None"
        by (simp add: matchesType_def list_ex_find)
      show ?thesis
      proof (cases "find (type_is fold_eq ''@type'' t) (graph_nodes m)")
        case None
        then show ?thesis using Cons False match by (simp add: src m map_filter_simps typed_node_def)
      next
        case (Some n)
        then have "n \<in> set (graph_nodes m)" by (auto simp: find_Some_iff)
        from unmarshalIsland_marshal [OF graph_nodes_settled [OF s this]]
        have u: "unmarshalIsland renum (marshal (JObj n)) = Some n" .
        show ?thesis using False match Some
          by (simp add: src m map_filter_simps typed_node_def findTypedNode_def traversePath_def u del: marshal.simps)
      qed
    qed
  qed
qed

text \<open>C29. A typed query answers exactly when the first node of the type has a value at the path, and the answer is the
  JSON text of this value: reading it gives the value back.\<close>

theorem typed_query_exact:
  assumes "float_texts renum" and "t \<noteq> []" and "CHR '':'' \<notin> set t" and "path \<noteq> []"
  shows "QuerySchema renum fold_eq is (''@'' @ t @ '':'' @ path) = Inr s \<longleftrightarrow>
     (\<exists>m rest v. List.map_filter (typed_node renum fold_eq t) is = m # rest
        \<and> traverse (split_on (CHR ''.'') path) (JObj m) = Inr v \<and> s = marshal v \<and> decode_value renum s = Some v)"
proof -
  have "index_byte (t @ '':'' @ path) (CHR '':'') = Some (length t)"
  proof -
    have "index_any (a @ CHR '':'' # b) [CHR '':''] = Some (length a)" if "CHR '':'' \<notin> set a" for a b :: string
      using that by (induction a) auto
    from this [OF assms(3)] show ?thesis by simp
  qed
  then have Q: "QuerySchema renum fold_eq is (''@'' @ t @ '':'' @ path) = queryTypedSelector renum fold_eq is t path"
    using assms(2,4) by (simp add: QuerySchema_def)
  show ?thesis
  proof (cases "List.map_filter (typed_node renum fold_eq t) is")
    case Nil
    then show ?thesis unfolding Q queryTypedSelector_spec [OF assms(1)] by simp
  next
    case (Cons m rest)
    then have "m \<in> set (List.map_filter (typed_node renum fold_eq t) is)" by simp
    then obtain i where "typed_node renum fold_eq t i = Some m" by (auto simp: map_filter_def)
    then obtain m0 where m0: "unmarshalIsland renum (i_JSON i) = Some m0" "m = m0 \<or> m \<in> set (graph_nodes m0)"
      by (auto simp: typed_node_def find_Some_iff split: if_splits option.splits)
    then have "settled renum (JObj m)"
      using unmarshalIsland_settled [OF assms(1) m0(1)] graph_nodes_settled by blast
    then have "decode_value renum (marshal v) = Some v" if "traverse (split_on (CHR ''.'') path) (JObj m) = Inr v" for v
      using traverse_settled [OF _ that] by (simp add: decode_value_marshal)
    then show ?thesis unfolding Q queryTypedSelector_spec [OF assms(1)]
      by (cases "traverse (split_on (CHR ''.'') path) (JObj m)") (auto simp: Cons traverseFieldMap_def)
  qed
qed

definition demo_islands :: "DataIsland list" where
  "demo_islands =
     [\<lparr>i_Source = ''ld+json'', i_JSON = marshal (JObj [(''@type'', JStr ''Person''), (''name'', JStr ''A'')])\<rparr>,
      \<lparr>i_Source = ''ld+json'', i_JSON = marshal (JObj [(''@graph'', JArr [JNull, JObj [(''@type'', JStr ''Recipe''),
         (''name'', JObj [(''en'', JStr ''Soup'')])]])])\<rparr>]"

theorem typed_query_exact_witness:
  "QuerySchema Some (\<lambda>a b. to_lower a = to_lower b) demo_islands (''@'' @ ''recipe'' @ '':'' @ ''name.en'') = Inr (marshal (JStr ''Soup''))
   \<and> (\<exists>m rest v. List.map_filter (typed_node (\<lambda>n. if valid_number n then Some n else None) (\<lambda>a b. to_lower a = to_lower b) ''recipe'') demo_islands = m # rest
        \<and> traverse (split_on (CHR ''.'') ''name.en'') (JObj m) = Inr v \<and> marshal (JStr ''Soup'') = marshal v
        \<and> decode_value (\<lambda>n. if valid_number n then Some n else None) (marshal (JStr ''Soup'')) = Some v)"
proof
  show "QuerySchema Some (\<lambda>a b. to_lower a = to_lower b) demo_islands (''@'' @ ''recipe'' @ '':'' @ ''name.en'') = Inr (marshal (JStr ''Soup''))"
    by code_simp
  let ?r = "\<lambda>n. if valid_number n then Some n else None"
  have f: "float_texts ?r" by (simp add: float_texts_def)
  have "QuerySchema ?r (\<lambda>a b. to_lower a = to_lower b) demo_islands (''@'' @ ''recipe'' @ '':'' @ ''name.en'') = Inr (marshal (JStr ''Soup''))"
    by code_simp
  with typed_query_exact [OF f, of "''recipe''" "''name.en''"]
  show "\<exists>m rest v. List.map_filter (typed_node ?r (\<lambda>a b. to_lower a = to_lower b) ''recipe'') demo_islands = m # rest
        \<and> traverse (split_on (CHR ''.'') ''name.en'') (JObj m) = Inr v \<and> marshal (JStr ''Soup'') = marshal v
        \<and> decode_value ?r (marshal (JStr ''Soup'')) = Some v"
    by simp
qed

section \<open>Differences between the query forms\<close>

text \<open>Several results of a plain path are texts of JSON values that are printed as strings once more.\<close>

theorem plain_results_are_encoded_twice:
  "queryPlainPath Some [\<lparr>i_Source = ''ld+json'', i_JSON = marshal (JObj [(''n'', JNum ''1'')])\<rparr>,
                        \<lparr>i_Source = ''ld+json'', i_JSON = marshal (JObj [(''n'', JNum ''2'')])\<rparr>] ''n''
     = Inr (marshal (JArr [JStr ''1'', JStr ''2'']))"
  by code_simp

text \<open>A field that is not there is a miss for a plain path and an error for a typed one.\<close>

theorem missing_field_differs:
  "QuerySchema Some (=) demo_islands ''age'' = Inl (SchemaMiss ''age'')
   \<and> QuerySchema Some (=) demo_islands ''@Person:age'' = Inl (FieldNotFound ''age'')"
  by code_simp

end
