(* ===== verification/Relevance.thy ===== *)
theory Relevance
  imports Float64 Utf8 "HOL-Library.Multiset"
begin

text \<open>
  Relevance filtering of fetched pages, \<open>internal/fetch/relevance/relevance.go\<close>: tokens, BM25 scores, the split of a
  Markdown text into sections, ranking, and the filter of content items. Scores are computed with the exact
  float64 operations of \<open>Float64\<close>, in the order of the code and without fused operations; \<open>logf\<close> is
  \<open>math.Log\<close>, \<open>lower\<close> is \<open>strings.ToLower\<close> and \<open>sep\<close> decides whether a rune is a space or a punctuation mark.
  \<open>srt\<close> is the unstable sort of the sections by falling score.
\<close>

section \<open>Tokens\<close>

fun token_loop :: "(int \<Rightarrow> bool) \<Rightarrow> string \<Rightarrow> int list \<Rightarrow> string list" where
  "token_loop sep cur [] = (if cur = [] then [] else [cur])"
| "token_loop sep cur (r # rs) =
     (if sep r then (if cur = [] then token_loop sep [] rs else cur # token_loop sep [] rs)
      else token_loop sep (cur @ encode_rune r) rs)"

definition Tokenize :: "(string \<Rightarrow> string) \<Rightarrow> (int \<Rightarrow> bool) \<Rightarrow> string \<Rightarrow> string list" where
  "Tokenize lower sep t = token_loop sep [] (runes (lower t))"

section \<open>Scores\<close>

definition average_length :: "string list list \<Rightarrow> rat" where
  "average_length docTokens =
     (let avg = float_div (foldl (\<lambda>a d. float_add a (float_of_int (int (length d)))) 0 docTokens) (float_of_int (int (length docTokens)))
      in if avg = 0 then 1 else avg)"

definition doc_frequency :: "string list list \<Rightarrow> string \<Rightarrow> rat" where
  "doc_frequency docTokens qt = foldl (\<lambda>df d. if List.member d qt then float_add df 1 else df) 0 docTokens"

definition idf :: "(rat \<Rightarrow> rat) \<Rightarrow> string list list \<Rightarrow> string \<Rightarrow> rat" where
  "idf logf docTokens qt =
     (let n = float_of_int (int (length docTokens)); df = doc_frequency docTokens qt
      in logf (float_add (float_div (float_add (float_sub n df) (1 / 2)) (float_add df (1 / 2))) 1))"

definition term_frequency :: "string list \<Rightarrow> string \<Rightarrow> rat" where
  "term_frequency d qt = foldl (\<lambda>n t. if t = qt then float_add n 1 else n) 0 d"

definition term_score :: "(rat \<Rightarrow> rat) \<Rightarrow> string list list \<Rightarrow> string list \<Rightarrow> rat \<Rightarrow> string \<Rightarrow> rat" where
  "term_score logf docTokens d score qt =
     (let tf = term_frequency d qt in
      if tf = 0 then score
      else (let num = float_mul tf (5 / 2);
                len = float_div (float_mul (3 / 4) (float_of_int (int (length d)))) (average_length docTokens);
                den = float_add tf (float_mul (3 / 2) (float_add (1 / 4) len))
            in float_add score (float_div (float_mul (idf logf docTokens qt) num) den)))"

definition BM25 :: "(rat \<Rightarrow> rat) \<Rightarrow> (string \<Rightarrow> string) \<Rightarrow> (int \<Rightarrow> bool) \<Rightarrow> string \<Rightarrow> string list \<Rightarrow> rat list" where
  "BM25 logf lower sep query docs =
     (let queryTokens = Tokenize lower sep query; docTokens = map (Tokenize lower sep) docs in
      if query = [] \<or> docs = [] \<or> queryTokens = [] then map (\<lambda>_. 0) docs
      else map (\<lambda>d. foldl (term_score logf docTokens d) 0 queryTokens) docTokens)"

section \<open>Sections\<close>

record Section =
  s_Heading :: string
  s_Text :: string
  s_Raw :: string
  s_Score :: rat

abbreviation nl_char :: char where "nl_char \<equiv> CHR 0x0A"

record split_state =
  sp_heading :: string
  sp_body :: string
  sp_raw :: string
  sp_sections :: "Section list"

definition closed_section :: "split_state \<Rightarrow> Section" where
  "closed_section st = \<lparr>s_Heading = sp_heading st, s_Text = trim_space (sp_body st), s_Raw = trim_space (sp_raw st), s_Score = 0\<rparr>"

definition split_line :: "split_state \<Rightarrow> string \<Rightarrow> split_state" where
  "split_line st line =
     (let trimmed = trim_space line in
      if has_prefix trimmed ''#'' then
        st\<lparr>sp_sections := sp_sections st @ (if trim_space (sp_raw st) \<noteq> [] \<or> sp_heading st \<noteq> [] then [closed_section st] else []),
           sp_heading := trim_space (dropWhile (\<lambda>c. c = CHR ''#'') trimmed), sp_body := [], sp_raw := line @ [nl_char]\<rparr>
      else
        st\<lparr>sp_body := (if sp_body st \<noteq> [] \<and> trimmed \<noteq> [] then sp_body st @ [nl_char] else sp_body st) @ trimmed,
           sp_raw := (if sp_raw st \<noteq> [] \<or> trimmed \<noteq> [] then sp_raw st @ line @ [nl_char] else sp_raw st)\<rparr>)"

definition SplitMarkdownSections :: "string \<Rightarrow> Section list" where
  "SplitMarkdownSections md =
     (if md = [] then [\<lparr>s_Heading = [], s_Text = [], s_Raw = [], s_Score = 0\<rparr>]
      else (let st = foldl split_line \<lparr>sp_heading = [], sp_body = [], sp_raw = [], sp_sections = []\<rparr> (split_on nl_char md)
            in sp_sections st @ [closed_section st]))"

definition RankSections ::
  "(Section list \<Rightarrow> Section list) \<Rightarrow> (string list \<Rightarrow> rat list) \<Rightarrow> Section list \<Rightarrow> int \<Rightarrow> Section list" where
  "RankSections srt score sections topK =
     (if sections = [] then []
      else (let scores = score (map (\<lambda>s. s_Heading s @ '' '' @ s_Text s) sections);
                ranked = srt (map2 (\<lambda>s x. s\<lparr>s_Score := x\<rparr>) sections scores)
            in if 0 < topK \<and> topK < int (length ranked) then take (nat topK) ranked else ranked))"

definition formatOmissionNote :: "int \<Rightarrow> string" where
  "formatOmissionNote omitted = int_str omitted @ '' section'' @ (if omitted = 1 then [] else ''s'') @ '' omitted for relevance''"

definition section_text :: "Section \<Rightarrow> string" where
  "section_text s = (if s_Heading s \<noteq> [] then ''## '' @ s_Heading s @ [nl_char, nl_char] else []) @ s_Text s"

definition ReassembleMarkdown :: "Section list \<Rightarrow> int \<Rightarrow> int \<Rightarrow> string" where
  "ReassembleMarkdown sections totalSections includedSections =
     (if sections = [] then []
      else (let omitted = totalSections - includedSections
            in join [nl_char, nl_char] (map section_text sections)
               @ (if 0 < omitted then [nl_char, nl_char] @ ''<!-- ... '' @ trim_space (formatOmissionNote omitted) @ '' -->'' else [])))"

section \<open>Filtering content\<close>

definition FilterJSONContent :: "(string list \<Rightarrow> rat list) \<Rightarrow> string \<Rightarrow> 'a list \<Rightarrow> ('a \<Rightarrow> string) \<Rightarrow> int \<Rightarrow> 'a list" where
  "FilterJSONContent score query items textFn topK =
     (if query = [] \<or> items = [] then items
      else (let scores = score (map textFn items);
                order = sort_key (\<lambda>i. - (scores ! i)) [0..<length items];
                limit = (if 0 < topK \<and> topK < int (length items) then nat topK else length items)
            in map ((!) items) (sort (take limit order))))"

section \<open>Scores are exact about occurrence\<close>

lemma length_BM25 [simp]: "length (BM25 logf lower sep query docs) = length docs"
  by (simp add: BM25_def Let_def)

lemma term_frequency_absent: "qt \<notin> set d \<Longrightarrow> term_frequency d qt = 0"
proof -
  have "qt \<notin> set d \<Longrightarrow> foldl (\<lambda>n t. if t = qt then float_add n 1 else n) x d = x" for x
    by (induction d arbitrary: x) auto
  then show "qt \<notin> set d \<Longrightarrow> term_frequency d qt = 0" by (simp add: term_frequency_def)
qed

text \<open>A text without any word of the query has the score zero.\<close>

lemma BM25_absent:
  assumes "i < length docs" and "set (Tokenize lower sep query) \<inter> set (Tokenize lower sep (docs ! i)) = {}"
  shows "BM25 logf lower sep query docs ! i = 0"
proof -
  have "foldl (term_score logf dts d) 0 qs = 0" if "set qs \<inter> set d = {}" for qs d dts
    using that by (induction qs) (auto simp: term_score_def term_frequency_absent)
  with assms show ?thesis by (simp add: BM25_def Let_def)
qed

lemma term_frequency_pos: "qt \<in> set d \<Longrightarrow> 0 < term_frequency d qt"
proof -
  let ?f = "\<lambda>n t. if t = qt then float_add n 1 else (n :: rat)"
  have "0 \<le> x \<Longrightarrow> qt \<in> set d \<Longrightarrow> 0 < foldl ?f x d" for x
  proof (induction d arbitrary: x)
    case (Cons t d)
    have pos: "0 < foldl ?f y d" if "0 < y" for y
      using that by (induction d arbitrary: y) (auto simp: float_add_def round64_pos add_pos_pos)
    show ?case
    proof (cases "t = qt")
      case True
      then show ?thesis using Cons.prems(1) pos [of "float_add x 1"] by (simp add: float_add_def round64_pos)
    next
      case False
      then show ?thesis using Cons by simp
    qed
  qed simp
  then show "qt \<in> set d \<Longrightarrow> 0 < term_frequency d qt" by (simp add: term_frequency_def)
qed

lemma doc_frequency_count:
  assumes "length ds \<le> 2 ^ 50"
  shows "doc_frequency ds qt = of_int (int (length (filter (\<lambda>d. qt \<in> set d) ds)))"
proof -
  have "int m + int (length ds) \<le> 2 ^ 50 \<Longrightarrow>
      foldl (\<lambda>df d. if List.member d qt then float_add df 1 else df) (of_int (int m)) ds
        = (of_int (int (m + length (filter (\<lambda>d. qt \<in> set d) ds))) :: rat)" for m
  proof (induction ds arbitrary: m)
    case (Cons d ds)
    have "float_add (of_int (int m)) 1 = (of_int (int (Suc m)) :: rat)"
      using Cons.prems round64_int [of "int (Suc m)"] by (simp add: float_add_def add.commute)
    then show ?case using Cons.IH [of "Suc m"] Cons.IH [of m] Cons.prems by (simp add: add.commute)
  qed simp
  from this [of 0] show ?thesis using assms by (simp add: doc_frequency_def)
qed

text \<open>The argument of the logarithm exceeds one: rounding does not swallow the quotient.\<close>

lemma idf_argument:
  assumes "length ds \<le> 2 ^ 50"
  shows "1 < float_add (float_div (float_add (float_sub (float_of_int (int (length ds))) (doc_frequency ds qt)) (1 / 2))
      (float_add (doc_frequency ds qt) (1 / 2))) 1"
proof -
  define k where "k = int (length (filter (\<lambda>d. qt \<in> set d) ds))"
  have k: "0 \<le> k" "k \<le> int (length ds)" by (simp_all add: k_def)
  have n: "int (length ds) \<le> 2 ^ 50" using assms by simp
  have df: "doc_frequency ds qt = of_int k" unfolding k_def by (rule doc_frequency_count [OF assms])
  have half: "round64 (of_int m + 1 / 2) = of_int m + 1 / 2" if "0 \<le> m" "m \<le> 2 ^ 50" for m
    using round64_exact [of "2 * m + 1" "- 1"] that by (simp add: power_int_def field_simps)
  have len: "float_of_int (int (length ds)) = of_int (int (length ds))" using n round64_int [of "int (length ds)"] by (simp add: float_of_int_def)
  have sub: "float_sub (float_of_int (int (length ds))) (of_int k) = of_int (int (length ds) - k)"
    using k n round64_int [of "int (length ds) - k"] by (simp add: float_sub_def len)
  have num: "float_add (float_sub (float_of_int (int (length ds))) (of_int k)) (1 / 2) = of_int (int (length ds) - k) + 1 / 2"
    using half [of "int (length ds) - k"] k n by (simp add: sub float_add_def)
  have den: "float_add (of_int k) (1 / 2) = of_int k + (1 / 2 :: rat)" using half [of k] k n by (simp add: float_add_def)
  have "1 / 2 ^ 52 \<le> (of_int (int (length ds) - k) + 1 / 2) / (of_int k + 1 / 2 :: rat)"
  proof -
    have "(of_int k :: rat) \<le> of_int (2 ^ 50)" using k n by (simp only: of_int_le_iff)
    then have "(of_int k + 1 / 2 :: rat) \<le> 2 ^ 52 * (1 / 2)" by simp
    also have "\<dots> \<le> 2 ^ 52 * (of_int (int (length ds) - k) + 1 / 2)" using k(2) by simp
    finally show ?thesis using k(1) by (simp add: field_simps)
  qed
  from round64_mono [OF this] have q: "round64 (1 / 2 ^ 52) \<le> float_div (of_int (int (length ds) - k) + 1 / 2) (of_int k + 1 / 2)"
    by (simp add: float_div_def)
  have e: "round64 (1 / 2 ^ 52) = 1 / 2 ^ 52" using round64_exact [of 1 "- 52"] by (simp add: power_int_def power_one_over)
  have "round64 (of_int (2 ^ 52 + 1) * 2 powi (- 52)) = of_int (2 ^ 52 + 1) * 2 powi (- 52)" by (rule round64_exact) simp_all
  then have o: "round64 (1 / 2 ^ 52 + 1) = 1 / 2 ^ 52 + 1" by (simp add: power_int_def power_one_over)
  have "1 < (1 / 2 ^ 52 + 1 :: rat)" by simp
  also have "\<dots> \<le> round64 (float_div (of_int (int (length ds) - k) + 1 / 2) (of_int k + 1 / 2) + 1)"
    using round64_mono [OF add_right_mono [OF q [unfolded e], of 1]] unfolding o .
  finally show ?thesis unfolding df num den by (simp add: float_add_def)
qed

lemma term_score_pos:
  assumes "length ds \<le> 2 ^ 50" and "\<forall>x. 1 < x \<longrightarrow> 0 < logf x" and "qt \<in> set d" and "0 \<le> score"
  shows "0 < term_score logf ds d score qt"
proof -
  let ?tf = "term_frequency d qt"
  have tf: "0 < ?tf" using assms(3) by (rule term_frequency_pos)
  have i: "0 < idf logf ds qt" unfolding idf_def Let_def using assms(2) idf_argument [OF assms(1)] by blast
  have num: "0 < float_mul (idf logf ds qt) (float_mul ?tf (5 / 2))" using tf i by (simp add: float_mul_def round64_pos)
  have "0 < float_add ?tf (float_mul (3 / 2) y)" for y using tf by (simp add: float_add_def float_mul_def add_pos_nonneg round64_pos)
  with num have "0 < float_div (float_mul (idf logf ds qt) (float_mul ?tf (5 / 2))) (float_add ?tf (float_mul (3 / 2) y))" for y
    by (simp add: float_div_def round64_pos)
  then show ?thesis using tf assms(4) by (simp add: term_score_def Let_def float_add_def round64_pos add_nonneg_pos)
qed

text \<open>A text has a positive score exactly when it shares a word with the query; rounding never hides a match.\<close>

theorem score_positive_iff_shared:
  assumes "length docs \<le> 2 ^ 50" and "\<forall>x. 1 < x \<longrightarrow> 0 < logf x" and "i < length docs" and "query \<noteq> []"
  shows "0 < BM25 logf lower sep query docs ! i
     \<longleftrightarrow> set (Tokenize lower sep query) \<inter> set (Tokenize lower sep (docs ! i)) \<noteq> {}"
proof
  show "0 < BM25 logf lower sep query docs ! i \<Longrightarrow> set (Tokenize lower sep query) \<inter> set (Tokenize lower sep (docs ! i)) \<noteq> {}"
    using BM25_absent [OF assms(3)] by fastforce
next
  assume shared: "set (Tokenize lower sep query) \<inter> set (Tokenize lower sep (docs ! i)) \<noteq> {}"
  let ?ds = "map (Tokenize lower sep) docs"
  have len: "length ?ds \<le> 2 ^ 50" using assms(1) by simp
  have step: "0 \<le> term_score logf ?ds d x qt \<and> (0 < x \<longrightarrow> 0 < term_score logf ?ds d x qt)" if "0 \<le> x" for d x qt
    using that term_score_pos [OF len assms(2), of qt d x] by (cases "qt \<in> set d") (auto simp: term_score_def term_frequency_absent intro: less_imp_le)
  have keep: "0 < x \<Longrightarrow> 0 < foldl (term_score logf ?ds d) x qs" for d x qs
    using step by (induction qs arbitrary: x) (auto simp: less_imp_le)
  have "0 \<le> x \<Longrightarrow> set qs \<inter> set d \<noteq> {} \<Longrightarrow> 0 < foldl (term_score logf ?ds d) x qs" for d x qs
  proof (induction qs arbitrary: x)
    case (Cons q qs)
    show ?case
    proof (cases "q \<in> set d")
      case True
      then show ?thesis using keep term_score_pos [OF len assms(2) True Cons.prems(1)] by simp
    next
      case False
      then show ?thesis using Cons step [OF Cons.prems(1)] by simp
    qed
  qed simp
  from this [of 0 "Tokenize lower sep query" "Tokenize lower sep (docs ! i)"] shared assms
  show "0 < BM25 logf lower sep query docs ! i" by (auto simp: BM25_def Let_def)
qed

section \<open>The filter keeps the best items in their order\<close>

text \<open>Positions ordered by falling score, earlier positions first among equal scores.\<close>

definition before :: "rat list \<Rightarrow> nat \<Rightarrow> nat \<Rightarrow> bool" where
  "before scores i j \<longleftrightarrow> scores ! j < scores ! i \<or> scores ! i = scores ! j \<and> i < j"

lemma insort_before:
  assumes "sorted_wrt (\<lambda>i j. f i < f j \<or> f i = f j \<and> i < j) ys" and "\<forall>y \<in> set ys. (x :: nat) < y"
  shows "sorted_wrt (\<lambda>i j. f i < f j \<or> f i = (f j :: 'b :: linorder) \<and> i < j) (insort_key f x ys)"
  using assms
proof (induction ys)
  case (Cons y ys)
  have trans: "f x < f z \<or> f x = f z \<and> x < z" if "f x \<le> f y" "z \<in> set (y # ys)" for z
  proof -
    have "f y \<le> f z" using Cons.prems(1) that(2) by auto
    with that(1) have "f x \<le> f z" by simp
    then show ?thesis using Cons.prems(2) that(2) by (auto simp: le_less)
  qed
  show ?case
  proof (cases "f x \<le> f y")
    case True
    with trans Cons.prems(1) show ?thesis by simp
  next
    case False
    with Cons show ?thesis by (auto simp: set_insort_key)
  qed
qed simp

lemma sort_before:
  "sorted_wrt (<) xs \<Longrightarrow> sorted_wrt (\<lambda>i j. f i < (f j :: 'b :: linorder) \<or> f i = f j \<and> (i :: nat) < j) (sort_key f xs)"
  by (induction xs) (auto intro: insort_before)

lemma order_before:
  "sorted_wrt (before scores) (sort_key (\<lambda>i. - (scores ! i)) [0..<n])"
proof -
  have "(\<lambda>i j. - (scores ! i) < - (scores ! j) \<or> - (scores ! i) = - (scores ! j) \<and> i < j) = before scores"
    by (auto simp: before_def fun_eq_iff)
  with sort_before [of "[0..<n]" "\<lambda>i. - (scores ! i)"] show ?thesis by simp
qed

text \<open>C30. The filtered list consists of the items at the kept positions, in their original order: as many as asked for,
  and every item that was left out has a lower score than every kept one, or the same score and a later position.\<close>

theorem filter_keeps_best:
  assumes "query \<noteq> []" and "0 < topK"
  shows "\<exists>keep. sorted_wrt (<) keep \<and> set keep \<subseteq> {..<length items}
     \<and> FilterJSONContent score query items textFn topK = map ((!) items) keep
     \<and> length keep = min (nat topK) (length items)
     \<and> (\<forall>i \<in> set keep. \<forall>j < length items. j \<notin> set keep \<longrightarrow> before (score (map textFn items)) i j)"
proof (cases "items = []")
  case True
  then show ?thesis by (intro exI [of _ "[]"]) (simp add: FilterJSONContent_def)
next
  case False
  define scores where "scores = score (map textFn items)"
  define order where "order = sort_key (\<lambda>i. - (scores ! i)) [0..<length items]"
  define limit where "limit = min (nat topK) (length items)"
  let ?keep = "sort (take limit order)"
  have m: "set order = {..<length items}" "distinct order" "length order = length items"
    by (auto simp: order_def atLeast0LessThan)
  have lim: "(if 0 < topK \<and> topK < int (length items) then nat topK else length items) = limit"
    using assms(2) by (auto simp: limit_def min_def)
  have out: "FilterJSONContent score query items textFn topK = map ((!) items) ?keep"
    using assms(1) False by (simp add: FilterJSONContent_def Let_def lim flip: scores_def order_def)
  have "before scores i j" if "i \<in> set ?keep" "j < length items" "j \<notin> set ?keep" for i j
  proof -
    from that(2,3) m(1) have "j \<in> set (drop limit order)" using append_take_drop_id [of limit order] by (metis Un_iff lessThan_iff set_append set_sort)
    moreover have "sorted_wrt (before scores) (take limit order @ drop limit order)"
      unfolding append_take_drop_id order_def by (rule order_before)
    then have "\<forall>x \<in> set (take limit order). \<forall>y \<in> set (drop limit order). before scores x y"
      unfolding sorted_wrt_append by blast
    ultimately show ?thesis using that(1) by simp
  qed
  moreover have "sorted_wrt (<) ?keep" using m(2) by (simp add: strict_sorted_iff)
  moreover have "set ?keep \<subseteq> {..<length items}" using m(1) set_take_subset by fastforce
  moreover have "length ?keep = min (nat topK) (length items)" using m(3) by (simp add: limit_def)
  ultimately show ?thesis using out by (intro exI [of _ ?keep]) (simp add: scores_def)
qed

definition demo_scores :: "string list \<Rightarrow> rat list" where
  "demo_scores docs = map (\<lambda>d. of_int (int (length d))) docs"

definition demo_items :: "string list" where
  "demo_items = [''ab'', ''a'', ''abcd'', ''xy'']"

theorem filter_keeps_best_witness:
  "FilterJSONContent demo_scores ''q'' demo_items (\<lambda>s. s) 2 = [''ab'', ''abcd'']
   \<and> (\<exists>keep. sorted_wrt (<) keep \<and> FilterJSONContent demo_scores ''q'' demo_items (\<lambda>s. s) 2 = map ((!) demo_items) keep
       \<and> length keep = min (nat 2) (length demo_items))"
proof
  show "FilterJSONContent demo_scores ''q'' demo_items (\<lambda>s. s) 2 = [''ab'', ''abcd'']" by code_simp
  have "''q'' \<noteq> []" "(0 :: int) < 2" by simp_all
  from filter_keeps_best [OF this, of demo_items demo_scores "\<lambda>s. s"]
  show "\<exists>keep. sorted_wrt (<) keep \<and> FilterJSONContent demo_scores ''q'' demo_items (\<lambda>s. s) 2 = map ((!) demo_items) keep
       \<and> length keep = min (nat 2) (length demo_items)" by blast
qed

section \<open>Ranking\<close>

definition sorts_sections :: "(Section list \<Rightarrow> Section list) \<Rightarrow> bool" where
  "sorts_sections srt \<longleftrightarrow> (\<forall>ss. mset (srt ss) = mset ss \<and> sorted_wrt (\<lambda>a b. s_Score b \<le> s_Score a) (srt ss))"

text \<open>Ranking returns sections of the document, best first, and leaves out none that is better than a returned one.\<close>

lemma ranking_best:
  assumes "sorts_sections srt" and "0 < topK"
  shows "\<exists>rest. mset (RankSections srt score sections topK @ rest)
        = mset (map2 (\<lambda>s x. s\<lparr>s_Score := x\<rparr>) sections (score (map (\<lambda>s. s_Heading s @ '' '' @ s_Text s) sections)))
     \<and> sorted_wrt (\<lambda>a b. s_Score b \<le> s_Score a) (RankSections srt score sections topK @ rest)"
proof (cases "sections = []")
  case True
  then show ?thesis by (intro exI [of _ "[]"]) (simp add: RankSections_def)
next
  case False
  let ?r = "srt (map2 (\<lambda>s x. s\<lparr>s_Score := x\<rparr>) sections (score (map (\<lambda>s. s_Heading s @ '' '' @ s_Text s) sections)))"
  have R: "RankSections srt score sections topK = take (nat topK) ?r" using False assms(2) by (auto simp: RankSections_def Let_def)
  show ?thesis unfolding R using assms(1) by (intro exI [of _ "drop (nat topK) ?r"]) (simp add: sorts_sections_def flip: mset_append)
qed

section \<open>What the split changes\<close>

text \<open>A line that begins with a number sign is a heading, wherever it stands, and the indentation of every line is lost.\<close>

theorem code_lines_become_headings:
  "map section_text (SplitMarkdownSections (join [nl_char] [''Example:'', ''  # set up'', ''    run''])) = [''Example:'', ''## set up'' @ [nl_char, nl_char] @ ''run'']"
  by code_simp

text \<open>Empty lines are dropped, so paragraphs are joined.\<close>

theorem paragraphs_are_joined:
  "map s_Text (SplitMarkdownSections (join [nl_char] [''one'', [], ''two''])) = [join [nl_char] [''one'', ''two'']]"
  by code_simp

end
