(* ===== verification/Render.thy ===== *)
theory Render
  imports PageModel Archive
begin

text \<open>
  Rendering of fetched pages: the document and its metadata (\<open>internal/fetch/agentdom/document.go\<close>), the Markdown and
  text renderers, the metadata header, the front matter and the removal of inline images
  (\<open>internal/fetch/render/markdown.go\<close>, \<open>text.go\<close>, \<open>frontmatter.go\<close>, \<open>images.go\<close>). The converter from HTML to Markdown
  and the YAML library are parameters, and so is the order in which Go visits the attributes of an element.
  The regular expressions of \<open>images.go\<close> are written out as matchers at a position: in each of them a repeated
  class excludes the character that ends it, so a match is determined up to the place of the \<open>src\<close> attribute,
  where the last one that leads to a match is taken.
\<close>

section \<open>Documents\<close>

record EscalationHint =
  eh_Tool :: string
  eh_MCPTool :: string
  eh_Reason :: string
  eh_Command :: string

record Document =
  d_URL :: string
  d_FinalURL :: string
  d_Title :: string
  d_Lang :: string
  d_Content :: "Element list"
  d_Interactive :: "Element list"
  d_Islands :: "DataIsland list"
  d_Escalate :: "EscalationHint option"

record PageMeta =
  pm_FinalURL :: string
  pm_StatusCode :: int
  pm_Title :: string
  pm_Lang :: string
  pm_CharCount :: int
  pm_EstTokens :: int
  pm_Truncated :: bool
  pm_Protocol :: string
  pm_LikelyClientRendered :: bool
  pm_Escalate :: "EscalationHint option"

abbreviation lf :: char where "lf \<equiv> CHR 0x0A"

section \<open>Markdown and text\<close>

fun category_name :: "Category \<Rightarrow> string" where
  "category_name CatNone = []"
| "category_name CatButton = ''button''"
| "category_name CatLink = ''link''"
| "category_name CatInput = ''input''"
| "category_name CatSelect = ''select''"
| "category_name CatTextarea = ''textarea''"
| "category_name CatForm = ''form''"
| "category_name CatText = ''text''"
| "category_name CatImage = ''image''"

definition attr_mark :: "string \<times> string \<Rightarrow> string" where
  "attr_mark a =
     (if fst a = ''href'' then [CHR '' '', CHR 0xE2, CHR 0x86, CHR 0x92, CHR '' ''] @ snd a
      else if fst a = ''placeholder'' then '' ['' @ snd a @ '']''
      else if fst a = ''type'' then '' ('' @ snd a @ '')''
      else [])"

definition renderInteractiveElement :: "((string \<times> string) list \<Rightarrow> (string \<times> string) list) \<Rightarrow> Element \<Rightarrow> string" where
  "renderInteractiveElement visit e =
     ''- **'' @ e_AgentID e @ ''** `'' @ category_name (e_Category e) @ ''`''
     @ (if e_Text e \<noteq> [] then '': '' @ e_Text e else [])
     @ concat (map attr_mark (visit (e_Attrs e))) @ [lf]"

definition element_link :: "Element \<Rightarrow> (string \<times> string) list" where
  "element_link e =
     (if e_Category e = CatLink then
        (case map_of (e_Attrs e) ''href'' of
           None \<Rightarrow> []
         | Some href \<Rightarrow> if href \<noteq> [] \<and> \<not> has_prefix href ''#'' then [(if e_Text e = [] then href else e_Text e, href)] else [])
      else [])"

fun collectLinks :: "Element list \<Rightarrow> (string \<times> string) list" where
  "collectLinks [] = []"
| "collectLinks (Element i c t x as ks # es) = element_link (Element i c t x as ks) @ collectLinks ks @ collectLinks es"

definition Markdown ::
  "(html \<Rightarrow> string option) \<Rightarrow> ((string \<times> string) list \<Rightarrow> (string \<times> string) list) \<Rightarrow> Document \<Rightarrow> html \<Rightarrow> bool \<Rightarrow> string" where
  "Markdown convert visit doc contentNode includeLinks =
     (case convert contentNode of
        Some t \<Rightarrow> if trim_space t \<noteq> [] then trim_space t @ [lf, lf] else []
      | None \<Rightarrow> [])
     @ (if d_Interactive doc \<noteq> [] then
          ''## Interactive Elements'' @ [lf, lf] @ concat (map (renderInteractiveElement visit) (d_Interactive doc)) @ [lf]
        else [])
     @ (if includeLinks \<and> collectLinks (d_Content doc) \<noteq> [] then
          ''## Links'' @ [lf, lf] @ concat (map (\<lambda>l. ''- ['' @ fst l @ '']('' @ snd l @ '')'' @ [lf]) (collectLinks (d_Content doc))) @ [lf]
        else [])
     @ (if d_Islands doc \<noteq> [] then
          ''## Data'' @ [lf, lf] @ concat (map (\<lambda>i. ''```json'' @ [lf] @ ''// Source: '' @ i_Source i @ [lf] @ i_JSON i @ [lf] @ ''```'' @ [lf, lf]) (d_Islands doc))
        else [])"

definition element_text :: "Element \<Rightarrow> string" where
  "element_text e =
     (if e_Text e \<noteq> [] then e_Text e @ [lf] else [])
     @ concat (map (\<lambda>k. if e_Text k \<noteq> [] then ''  '' @ e_Text k @ [lf] else []) (e_Children e))"

definition Text :: "Document \<Rightarrow> string" where
  "Text doc = trim_space (concat (map element_text (d_Content doc)))"

section \<open>The metadata header\<close>

definition middle_dot :: string where "middle_dot = [CHR '' '', CHR 0xC2, CHR 0xB7, CHR '' '']"
definition warning_sign :: string where "warning_sign = [CHR 0xE2, CHR 0x9A, CHR 0xA0]"
definition long_dash :: string where "long_dash = [CHR '' '', CHR 0xE2, CHR 0x80, CHR 0x94, CHR '' '']"

definition meta_header :: "PageMeta \<Rightarrow> string" where
  "meta_header meta =
     ''> **'' @ pm_Title meta @ ''**'' @ middle_dot @ int_str (pm_StatusCode meta) @ middle_dot @ ''~'' @ int_str (pm_EstTokens meta) @ '' tokens''
     @ (if pm_Truncated meta then middle_dot @ warning_sign @ '' truncated'' else [])
     @ (if pm_LikelyClientRendered meta then middle_dot @ warning_sign @ '' likely client-rendered'' else [])
     @ [lf] @ ''> '' @ pm_FinalURL meta
     @ (case pm_Escalate meta of
          None \<Rightarrow> []
        | Some h \<Rightarrow> [lf] @ ''> '' @ warning_sign @ '' '' @ eh_Reason h @ long_dash @ ''use symbrowse for JS-rendered pages: '' @ eh_Command h)
     @ [lf, lf]"

definition FormatMarkdownWithMeta :: "PageMeta \<Rightarrow> string \<Rightarrow> string" where
  "FormatMarkdownWithMeta meta out = meta_header meta @ out"

section \<open>Front matter\<close>

record frontmatterData =
  fm_Title :: string
  fm_URL :: string
  fm_FinalURL :: string
  fm_FetchedAt :: string
  fm_Lang :: string
  fm_TokensEst :: int
  fm_SchemaType :: string
  fm_Source :: string
  fm_SnapshotAt :: string

text \<open>\<open>decode\<close> is \<open>yaml.Unmarshal\<close> into a map, \<open>enc\<close> is \<open>Encoder.Encode\<close>.\<close>

definition string_at :: "string \<Rightarrow> (string \<times> json) list \<Rightarrow> string option" where
  "string_at k m = (case map_of m k of Some (JStr s) \<Rightarrow> Some s | _ \<Rightarrow> None)"

definition extractSchemaType :: "(string \<Rightarrow> (string \<times> json) list option) \<Rightarrow> string \<Rightarrow> string" where
  "extractSchemaType decode jsonData =
     (case decode jsonData of
        None \<Rightarrow> []
      | Some m \<Rightarrow>
          (case string_at ''@type'' m of
             Some t \<Rightarrow> t
           | None \<Rightarrow>
               (case string_at ''type'' m of
                  Some t \<Rightarrow> t
                | None \<Rightarrow>
                    (case map_of m ''@graph'' of
                       Some (JArr (JObj f # _)) \<Rightarrow> (case string_at ''@type'' f of Some t \<Rightarrow> t | None \<Rightarrow> [])
                     | _ \<Rightarrow> []))))"

definition extractWaybackTimestamp :: "string \<Rightarrow> string" where
  "extractWaybackTimestamp rawURL =
     (let pre = ''https://web.archive.org/web/'' in
      if \<not> has_prefix rawURL pre then []
      else (let ts = takeWhile (\<lambda>c. c \<noteq> CHR ''/'') (drop (length pre) rawURL) in if ts = ''*'' then [] else ts))"

definition schema_type_of :: "(string \<Rightarrow> (string \<times> json) list option) \<Rightarrow> DataIsland list \<Rightarrow> string" where
  "schema_type_of decode islands =
     first_nonempty (map (\<lambda>i. if i_Source i = ''ld+json'' then extractSchemaType decode (i_JSON i) else []) islands)"

definition frontmatter_of :: "(string \<Rightarrow> (string \<times> json) list option) \<Rightarrow> string \<Rightarrow> PageMeta \<Rightarrow> Document \<Rightarrow> frontmatterData" where
  "frontmatter_of decode now meta doc =
     \<lparr>fm_Title = pm_Title meta,
      fm_URL = (case ParseWaybackURL (d_URL doc) of Some u \<Rightarrow> u | None \<Rightarrow> d_URL doc),
      fm_FinalURL = (if pm_FinalURL meta \<noteq> [] \<and> pm_FinalURL meta \<noteq> d_URL doc then pm_FinalURL meta else []),
      fm_FetchedAt = now, fm_Lang = pm_Lang meta, fm_TokensEst = pm_EstTokens meta,
      fm_SchemaType = schema_type_of decode (d_Islands doc),
      fm_Source = (if ParseWaybackURL (d_URL doc) \<noteq> None then ''wayback'' else []),
      fm_SnapshotAt = (if ParseWaybackURL (d_URL doc) \<noteq> None then extractWaybackTimestamp (d_URL doc) else [])\<rparr>"

definition GenerateFrontmatter ::
  "(string \<Rightarrow> (string \<times> json) list option) \<Rightarrow> (frontmatterData \<Rightarrow> string option) \<Rightarrow> string \<Rightarrow> PageMeta \<Rightarrow> Document \<Rightarrow> string" where
  "GenerateFrontmatter decode enc now meta doc =
     (case enc (frontmatter_of decode now meta doc) of
        None \<Rightarrow> []
      | Some t \<Rightarrow> ''---'' @ [lf] @ t @ ''---'' @ [lf, lf])"

section \<open>Inline images\<close>

text \<open>A match at the beginning of a text: the replaced text's alternative and what follows the match.\<close>

definition take_prefix :: "string \<Rightarrow> string \<Rightarrow> string option" where
  "take_prefix p s = (if has_prefix s p then Some (drop (length p) s) else None)"

definition md_image :: "string \<Rightarrow> (string \<times> string) option" where
  "md_image s =
     Option.bind (take_prefix ''!['' s) (\<lambda>s1.
     let alt = takeWhile (\<lambda>c. c \<noteq> CHR '']'') s1 in
     Option.bind (take_prefix ''](data:image/'' (drop (length alt) s1)) (\<lambda>s2.
     let body = takeWhile (\<lambda>c. c \<noteq> CHR '')'') s2 in
     if body = [] then None else map_option (Pair alt) (take_prefix '')'' (drop (length body) s2))))"

definition space_class :: "char \<Rightarrow> bool" where
  "space_class c \<longleftrightarrow> c \<in> {CHR 0x09, CHR 0x0A, CHR 0x0C, CHR 0x0D, CHR 0x20}"

text \<open>The rest of an \<open>img\<close> tag from its \<open>src\<close> attribute on; the result is what follows the tag.\<close>

definition src_match :: "string \<Rightarrow> string option" where
  "src_match s =
     (case s of
        [] \<Rightarrow> None
      | c # t \<Rightarrow>
          if \<not> space_class c then None
          else Option.bind (take_prefix (''src='' @ [CHR 0x22] @ ''data:image/'') t) (\<lambda>s1.
               Option.bind (take_prefix [CHR 0x22] (dropWhile (\<lambda>c. c \<noteq> CHR 0x22) s1)) (\<lambda>s2.
               take_prefix ''>'' (dropWhile (\<lambda>c. c \<noteq> CHR ''>'') s2))))"

fun last_src :: "string \<Rightarrow> string option" where
  "last_src [] = None"
| "last_src (c # s) =
     (if c = CHR ''>'' then None
      else (case last_src s of Some rest \<Rightarrow> Some rest | None \<Rightarrow> src_match (c # s)))"

definition alt_of :: "string \<Rightarrow> string" where
  "alt_of img =
     (case index_of img (''alt='' @ [CHR 0x22]) of
        None \<Rightarrow> []
      | Some i \<Rightarrow> (let rest = drop (i + 5) img; v = takeWhile (\<lambda>c. c \<noteq> CHR 0x22) rest in if length v < length rest then v else []))"

definition html_image :: "string \<Rightarrow> (string \<times> string) option" where
  "html_image s =
     Option.bind (take_prefix ''<img'' s) (\<lambda>s1.
     map_option (\<lambda>rest. (alt_of (take (length s - length rest) s), rest)) (last_src s1))"

definition image_mark :: "string \<Rightarrow> string" where
  "image_mark alt = (let a = trim_space alt in if a = [] then ''[IMAGE]'' else ''[IMAGE: '' @ a @ '']'')"

text \<open>\<open>ReplaceAllStringFunc\<close>: the leftmost matches that do not overlap.\<close>

lemma take_prefix_length: "take_prefix p s = Some t \<Longrightarrow> length t + length p = length s"
  by (auto simp: take_prefix_def dest: prefix_length_le split: if_splits)

lemma drop_takeWhile_length: "length (drop (length (takeWhile P s)) s) \<le> length s"
  by simp

lemma md_image_shorter: "md_image s = Some (a, t) \<Longrightarrow> length t < length s"
proof -
  assume "md_image s = Some (a, t)"
  then obtain s1 s2 where s1: "take_prefix ''!['' s = Some s1"
    and s2: "take_prefix ''](data:image/'' (drop (length (takeWhile (\<lambda>c. c \<noteq> CHR '']'') s1)) s1) = Some s2"
    and t: "take_prefix '')'' (drop (length (takeWhile (\<lambda>c. c \<noteq> CHR '')'') s2)) s2) = Some t"
    by (auto simp: md_image_def bind_eq_Some_conv Let_def split: if_splits)
  show ?thesis using take_prefix_length [OF s1] take_prefix_length [OF s2] take_prefix_length [OF t] by simp
qed

lemma src_match_shorter: "src_match s = Some t \<Longrightarrow> length t < length s"
proof -
  assume m: "src_match s = Some t"
  then obtain c u where s: "s = c # u" by (cases s) (auto simp: src_match_def)
  with m obtain s1 s2 where s1: "take_prefix (''src='' @ [CHR 0x22] @ ''data:image/'') u = Some s1"
    and s2: "take_prefix [CHR 0x22] (dropWhile (\<lambda>c. c \<noteq> CHR 0x22) s1) = Some s2"
    and t: "take_prefix ''>'' (dropWhile (\<lambda>c. c \<noteq> CHR ''>'') s2) = Some t"
    by (auto simp: src_match_def bind_eq_Some_conv split: if_splits)
  have "length (dropWhile P x) \<le> length x" for P and x :: string by (rule length_dropWhile_le)
  from this [of "\<lambda>c. c \<noteq> CHR 0x22" s1] this [of "\<lambda>c. c \<noteq> CHR ''>''" s2]
  show ?thesis using take_prefix_length [OF s1] take_prefix_length [OF s2] take_prefix_length [OF t] by (simp add: s)
qed

lemma last_src_shorter: "last_src s = Some t \<Longrightarrow> length t < length s"
proof (induction s)
  case (Cons c s)
  then show ?case using src_match_shorter [of "c # s" t] by (auto split: if_splits option.splits)
qed simp

lemma html_image_shorter: "html_image s = Some (a, t) \<Longrightarrow> length t < length s"
  by (auto simp: html_image_def bind_eq_Some_conv dest!: take_prefix_length last_src_shorter)

function replace_images :: "bool \<Rightarrow> string \<Rightarrow> string" where
  "replace_images html [] = []"
| "replace_images html (c # s) =
     (case (if html then html_image (c # s) else md_image (c # s)) of
        Some (alt, rest) \<Rightarrow> image_mark alt @ replace_images html rest
      | None \<Rightarrow> c # replace_images html s)"
  by pat_completeness auto
termination
  by (relation "measure (\<lambda>(_, s). length s)") (auto split: if_splits dest: md_image_shorter html_image_shorter)

declare replace_images.simps(2) [simp del]

definition StripBase64Images :: "string \<Rightarrow> string" where
  "StripBase64Images content =
     (if \<not> contains content ''data:image'' then content else replace_images True (replace_images False content))"

section \<open>Properties\<close>

text \<open>A text in which no image begins is left as it is.\<close>

lemma replace_images_none:
  assumes "\<And>i. i < length s \<Longrightarrow> (if h then html_image (drop i s) else md_image (drop i s)) = None"
  shows "replace_images h s = s"
  using assms
proof (induction s)
  case (Cons c s)
  have "(if h then html_image (c # s) else md_image (c # s)) = None" using Cons.prems [of 0] by (simp split: if_splits)
  moreover have "replace_images h s = s"
  proof (rule Cons.IH)
    show "(if h then html_image (drop i s) else md_image (drop i s)) = None" if "i < length s" for i
      using Cons.prems [of "Suc i"] that by (simp split: if_splits)
  qed
  ultimately show ?case by (simp add: replace_images.simps)
qed simp

text \<open>The archive's timestamp of an archive URL is the one it was made with.\<close>

theorem frontmatter_names_snapshot:
  assumes "CHR ''/'' \<notin> set ts" and "ts \<noteq> []" and "ts \<noteq> ''*''" and "d_URL doc = RewriteURL u ts"
  shows "fm_URL (frontmatter_of decode now meta doc) = u \<and> fm_Source (frontmatter_of decode now meta doc) = ''wayback''
     \<and> fm_SnapshotAt (frontmatter_of decode now meta doc) = ts"
proof -
  have p: "ParseWaybackURL (d_URL doc) = Some u" unfolding assms(4) by (rule archived_url_names_page [OF assms(1)])
  have "takeWhile (\<lambda>c. c \<noteq> CHR ''/'') (ts @ CHR ''/'' # u) = ts" using assms(1) by (induction ts) auto
  moreover have "d_URL doc = ''https://web.archive.org/web/'' @ ts @ CHR ''/'' # u"
    using assms(2) by (simp add: assms(4) RewriteURL_def WaybackBaseURL_def)
  ultimately have "extractWaybackTimestamp (d_URL doc) = ts" using assms(3) by (simp add: extractWaybackTimestamp_def)
  then show ?thesis by (simp add: frontmatter_of_def p)
qed

theorem images_are_replaced:
  "StripBase64Images (''a ![cat](data:image/png;base64,AAAA) <img class='' @ [CHR 0x22, CHR 0x22] @ '' src='' @ [CHR 0x22] @ ''data:image/gif;x'' @ [CHR 0x22] @ ''/> b'')
     = ''a [IMAGE: cat] [IMAGE] b''"
  by code_simp

end
