(* ===== verification/FetchPipeline.thy ===== *)
theory FetchPipeline
  imports Recovery FetchCache Render SchemaQuery Relevance RuneCuts
begin

text \<open>
  The fetch pipeline of \<open>internal/fetch/pipeline\<close>: \<open>pipeline.go\<close>, \<open>phases.go\<close>, \<open>fallback.go\<close> and \<open>engine.go\<close>, over the
  clients of \<open>FetchClient\<close>, the cache of \<open>FetchCache\<close>, the robots checker, the recovery ladder of \<open>Recovery\<close>, the page
  model and the renderers. A run takes the state of the world and returns the new one: the client, the robots
  checker, the cache directories on disk, a shared cache if there is one, and the store for long texts. A cache is
  opened anew by every run unless it is shared: its index is in memory, its files are those of the directory.
  The environment \<open>pipe_env\<close> has the third-party parts (HTML parser, CSS selectors, Markdown converter, YAML), the
  printing of URLs with another path, and clocks and failing writes as functions of a counter in the state.
\<close>

section \<open>Options and state\<close>

datatype Format = FmtMarkdown | FmtJSON | FmtText | FmtHTML

fun format_name :: "Format \<Rightarrow> string" where
  "format_name FmtMarkdown = ''markdown''"
| "format_name FmtJSON = ''json''"
| "format_name FmtText = ''text''"
| "format_name FmtHTML = ''html''"

definition ParseFormat :: "(string \<Rightarrow> string) \<Rightarrow> string \<Rightarrow> string + Format" where
  "ParseFormat lower s =
     (let l = lower s in
      if l = [] \<or> l = ''markdown'' then Inr FmtMarkdown
      else if l = ''json'' then Inr FmtJSON
      else if l = ''text'' then Inr FmtText
      else if l = ''html'' then Inr FmtHTML
      else Inl (''unsupported format '' @ go_quote s @ '': expected markdown, json, text, or html''))"

record ContentOptions =
  ct_MaxChars :: int
  ct_IncludeLinks :: bool
  ct_CharThreshold :: int
  ct_MaxIslandBytes :: int

record CacheOptions =
  ca_NoCache :: bool
  ca_Dir :: string
  ca_TTL :: duration
  ca_MaxSize :: int
  ca_Shared :: bool

record RequestOptions =
  ro_Method :: string
  ro_Headers :: "(string \<times> string) list"
  ro_Body :: string

record PipeOptions =
  po_Format :: Format
  po_Content :: ContentOptions
  po_Cache :: CacheOptions
  po_Profile :: string
  po_Session :: string
  po_Security :: SecurityOptions
  po_CSSSelector :: string
  po_Frontmatter :: bool
  po_SchemaPath :: string
  po_DisableFallback :: bool
  po_Request :: RequestOptions
  po_StoreFullText :: bool
  po_CharLimit :: int
  po_StoreDir :: string
  po_WaybackFallback :: bool
  po_WaybackTimestamp :: string
  po_Query :: string
  po_TopK :: int

definition default_content :: "ContentOptions \<Rightarrow> ContentOptions" where
  "default_content c0 =
     (let c1 = (if ct_MaxChars c0 \<le> 0 then c0\<lparr>ct_MaxChars := 20000\<rparr> else c0);
          c2 = (if ct_CharThreshold c1 \<le> 0 then c1\<lparr>ct_CharThreshold := 500\<rparr> else c1)
      in if ct_MaxIslandBytes c2 \<le> 0 then c2\<lparr>ct_MaxIslandBytes := ct_MaxChars c2 div 4\<rparr> else c2)"

definition set_defaults :: "PipeOptions \<Rightarrow> PipeOptions" where
  "set_defaults o1 =
     (let o2 = o1\<lparr>po_Content := default_content (po_Content o1)\<rparr>
      in if po_StoreFullText o2 \<and> po_CharLimit o2 \<le> 0 then o2\<lparr>po_CharLimit := DefaultCharLimit\<rparr> else o2)"

definition bool_str :: "bool \<Rightarrow> string" where "bool_str b = (if b then ''true'' else ''false'')"

definition ContentKey :: "ContentOptions \<Rightarrow> string" where
  "ContentKey c =
     ''mc='' @ int_str (ct_MaxChars c) @ '' il='' @ bool_str (ct_IncludeLinks c) @ '' ct='' @ int_str (ct_CharThreshold c)
     @ '' mi='' @ int_str (ct_MaxIslandBytes c)"

definition CacheKey :: "PipeOptions \<Rightarrow> string" where
  "CacheKey opts =
     ContentKey (po_Content opts) @ '' cs='' @ po_CSSSelector opts @ '' fm='' @ bool_str (po_Frontmatter opts) @ '' sp='' @ po_SchemaPath opts
     @ '' sft='' @ bool_str (po_StoreFullText opts) @ '' cl='' @ int_str (po_CharLimit opts) @ '' q='' @ po_Query opts
     @ '' tk='' @ int_str (po_TopK opts)"

record PipeResult =
  pr_Doc :: Document
  pr_Output :: string
  pr_Meta :: PageMeta
  pr_SourceHTML :: string

datatype pipe_error =
    PipeDomain fetch_error
  | PipeSsrf ssrf_error
  | PipeBlocked string
  | PipeFetch string fetch_error
  | PipeHTTP string int "RecoveryHints option"
  | PipeParse string string
  | PipeSelector string
  | PipeRender string
  | PipeSchema string schema_error
  | PipePanic

record pipe_env =
  pe_rec :: recovery_env
  pe_html :: "string \<Rightarrow> string + html"
  pe_select :: "html \<Rightarrow> string \<Rightarrow> html list"
  pe_keys :: "(string \<times> json) list \<Rightarrow> string list"
  pe_sort_blocks :: "BlockScore list \<Rightarrow> BlockScore list"
  pe_convert :: "html \<Rightarrow> string option"
  pe_visit :: "(string \<times> string) list \<Rightarrow> (string \<times> string) list"
  pe_yaml_decode :: "string \<Rightarrow> (string \<times> json) list option"
  pe_yaml_encode :: "frontmatterData \<Rightarrow> string option"
  pe_date :: "nat \<Rightarrow> string"
  pe_doc_json :: "Document \<Rightarrow> string option"
  pe_renum :: "string \<Rightarrow> string option"
  pe_fold_eq :: "string \<Rightarrow> string \<Rightarrow> bool"
  pe_log :: "rat \<Rightarrow> rat"
  pe_sep :: "int \<Rightarrow> bool"
  pe_sort_sections :: "Section list \<Rightarrow> Section list"
  pe_whole :: "int \<Rightarrow> int"
  pe_share :: "int \<Rightarrow> int"
  pe_store :: "nat \<Rightarrow> store_world"
  pe_digest :: "string \<Rightarrow> string"
  pe_meta_size :: "Meta \<Rightarrow> int"
  pe_wall :: "nat \<Rightarrow> go_time"
  pe_clock :: "nat \<Rightarrow> nat \<Rightarrow> go_time"
  pe_io :: "nat \<Rightarrow> io_step \<Rightarrow> string option"
  pe_listing :: "nat \<Rightarrow> string list"
  pe_default_dir :: string
  pe_with_path :: "string \<Rightarrow> string \<Rightarrow> string"
  pe_only_path :: "string \<Rightarrow> string \<Rightarrow> string"

abbreviation pe_client :: "pipe_env \<Rightarrow> client_env" where "pe_client env \<equiv> re_client (pe_rec env)"
abbreviation pe_parse :: "pipe_env \<Rightarrow> string \<Rightarrow> string + url" where "pe_parse env \<equiv> ce_parse (pe_client env)"
abbreviation pe_lower :: "pipe_env \<Rightarrow> string \<Rightarrow> string" where "pe_lower env \<equiv> re_lower (pe_rec env)"

text \<open>The files of a cache directory.\<close>

record cache_disk =
  cd_bodies :: "string \<rightharpoonup> string"
  cd_metas :: "string \<rightharpoonup> meta_file"
  cd_index :: index_file

record pipe_state =
  pl_probe :: probe_state
  pl_disk :: "string \<Rightarrow> cache_disk"
  pl_shared :: "fetch_cache option"
  pl_store :: text_store
  pl_ticks :: nat

abbreviation pl_sent :: "pipe_state \<Rightarrow> hop list" where "pl_sent st \<equiv> cs_sent (ps_state (pl_probe st))"

definition next_tick :: "pipe_state \<Rightarrow> nat \<times> pipe_state" where
  "next_tick st = (pl_ticks st, st\<lparr>pl_ticks := Suc (pl_ticks st)\<rparr>)"

section \<open>The cache of a run\<close>

datatype cacher = Shared | Opened string fetch_cache

definition disk_of :: "fetch_cache \<Rightarrow> cache_disk" where
  "disk_of c = \<lparr>cd_bodies = bodies c, cd_metas = metas c, cd_index = index_on_disk c\<rparr>"

definition on_disk :: "cache_disk \<Rightarrow> fetch_cache \<Rightarrow> fetch_cache" where
  "on_disk d c = c\<lparr>bodies := cd_bodies d, metas := cd_metas d, index_on_disk := cd_index d\<rparr>"

definition newCache :: "pipe_env \<Rightarrow> PipeOptions \<Rightarrow> pipe_state \<Rightarrow> cacher option \<times> pipe_state" where
  "newCache env opts st =
     (let co = po_Cache opts in
      if ca_NoCache co then (None, st)
      else if ca_Shared co \<and> pl_shared st \<noteq> None then (Some Shared, st)
      else (let dir = (if ca_Dir co = [] then pe_default_dir env else ca_Dir co);
                ttl = (if ca_TTL co \<le> 0 then 24 * hour else ca_TTL co);
                (n, st1) = next_tick st; d = pl_disk st dir;
                c = NewWithClock (pe_wall env n) (pe_io env n) (pe_meta_size env) (pe_listing env n)
                      (cd_bodies d) (cd_metas d) (cd_index d) ttl (ca_MaxSize co)
            in (Some (Opened dir c), st1\<lparr>pl_disk := (pl_disk st1)(dir := disk_of c)\<rparr>)))"

definition cache_of :: "pipe_state \<Rightarrow> cacher \<Rightarrow> fetch_cache option" where
  "cache_of st ch = (case ch of Shared \<Rightarrow> pl_shared st | Opened dir c \<Rightarrow> Some (on_disk (pl_disk st dir) c))"

definition cache_request :: "string \<Rightarrow> PipeOptions \<Rightarrow> FetchCache.request" where
  "cache_request rawURL opts =
     \<lparr>qURL = rawURL, qProfile = (if po_Profile opts = [] then ''chrome'' else po_Profile opts), qFormat = format_name (po_Format opts),
      qSession = po_Session opts, qContentKey = CacheKey opts\<rparr>"

definition cacheResult :: "pipe_env \<Rightarrow> cacher \<Rightarrow> string \<Rightarrow> PipeOptions \<Rightarrow> string \<Rightarrow> Meta \<Rightarrow> pipe_state \<Rightarrow> pipe_state" where
  "cacheResult env ch rawURL opts out meta st =
     (case cache_of st ch of
        None \<Rightarrow> st
      | Some c \<Rightarrow>
          (let (n, st1) = next_tick st;
               (err, c') = FetchCache.Put (pe_digest env) (pe_meta_size env) (pe_clock env n) (pe_wall env n) (pe_io env n) c (cache_request rawURL opts) out meta
           in case ch of
                Shared \<Rightarrow> st1\<lparr>pl_shared := Some c'\<rparr>
              | Opened dir _ \<Rightarrow> st1\<lparr>pl_disk := (pl_disk st1)(dir := disk_of c')\<rparr>))"

definition empty_document :: "string \<Rightarrow> string \<Rightarrow> Document" where
  "empty_document u final =
     \<lparr>d_URL = u, d_FinalURL = final, d_Title = [], d_Lang = [], d_Content = [], d_Interactive = [], d_Islands = [], d_Escalate = None\<rparr>"

definition empty_meta :: "string \<Rightarrow> int \<Rightarrow> string \<Rightarrow> PageMeta" where
  "empty_meta final status proto =
     \<lparr>pm_FinalURL = final, pm_StatusCode = status, pm_Title = [], pm_Lang = [], pm_CharCount = 0, pm_EstTokens = 0, pm_Truncated = False,
      pm_Protocol = proto, pm_LikelyClientRendered = False, pm_Escalate = None\<rparr>"

text \<open>The hit, if there is one, and the cache the run may still write to.\<close>

definition loadCachedResult ::
  "pipe_env \<Rightarrow> string \<Rightarrow> PipeOptions \<Rightarrow> cacher option \<Rightarrow> pipe_state \<Rightarrow> (PipeResult option \<times> cacher option) \<times> pipe_state" where
  "loadCachedResult env rawURL opts ch st =
     (case ch of
        None \<Rightarrow> ((None, None), st)
      | Some h \<Rightarrow>
          if CheckAllowlist (pe_parse env) rawURL (so_Allowlist (po_Security opts)) \<noteq> None then ((None, None), st)
          else
            (let (n, st1) = next_tick st in
             case Option.bind (cache_of st h) (\<lambda>c. FetchCache.Get (pe_digest env) (pe_clock env n 0) c (cache_request rawURL opts)) of
               None \<Rightarrow> ((None, ch), st1)
             | Some (body, meta) \<Rightarrow>
                 if \<not> so_AllowPrivate (po_Security opts) \<and> FinalURL meta \<noteq> [] \<and> FinalURL meta \<noteq> rawURL
                    \<and> check_ssrf (pe_client env) (pl_sent st1) (FinalURL meta) \<noteq> None then ((None, None), st1)
                 else if FinalURL meta \<noteq> [] \<and> CheckAllowlist (pe_parse env) (FinalURL meta) (so_Allowlist (po_Security opts)) \<noteq> None
                 then ((None, None), st1)
                 else ((Some \<lparr>pr_Doc = empty_document rawURL (FinalURL meta), pr_Output = body,
                              pr_Meta = empty_meta (FinalURL meta) (StatusCode meta) (Protocol meta), pr_SourceHTML = []\<rparr>, ch), st1)))"

section \<open>Robots and the first request\<close>

definition checkRobots :: "pipe_env \<Rightarrow> string \<Rightarrow> PipeOptions \<Rightarrow> pipe_state \<Rightarrow> pipe_error option \<times> pipe_state" where
  "checkRobots env rawURL opts st =
     (case (if so_Robots (po_Security opts) then ps_robots (pl_probe st) else None) of
        None \<Rightarrow> (None, st)
      | Some c \<Rightarrow>
          (let ua = (if so_UserAgent (po_Security opts) = [] then honestUA else so_UserAgent (po_Security opts)) in
           case robots_check (pe_rec env) ua rawURL c (pl_probe st) of
             ((ok, err), ps') \<Rightarrow> (if err = None \<and> \<not> ok then Some (PipeBlocked rawURL) else None, st\<lparr>pl_probe := ps'\<rparr>)))"

definition initial_request :: "string \<Rightarrow> PipeOptions \<Rightarrow> Request" where
  "initial_request rawURL opts =
     \<lparr>rq_URL = rawURL, rq_Method = ro_Method (po_Request opts), rq_Headers = ro_Headers (po_Request opts), rq_Body = ro_Body (po_Request opts),
      rq_UserAgent = (if so_UserAgent (po_Security opts) = [] then honestUA else so_UserAgent (po_Security opts)),
      rq_Timeout = 0, rq_Proxy = [], rq_Session = po_Session opts, rq_MaxBody = 0,
      rq_AllowPrivate = so_AllowPrivate (po_Security opts), rq_Allowlist = so_Allowlist (po_Security opts)\<rparr>"

definition fetchInitial :: "pipe_env \<Rightarrow> string \<Rightarrow> PipeOptions \<Rightarrow> pipe_state \<Rightarrow> (pipe_error + Response) \<times> pipe_state" where
  "fetchInitial env rawURL opts st =
     (case probe_fetch (pe_rec env) (initial_request rawURL opts) (pl_probe st) of
        (Inl err, ps') \<Rightarrow> (Inl (PipeFetch rawURL err), st\<lparr>pl_probe := ps'\<rparr>)
      | (Inr resp, ps') \<Rightarrow>
          (if isWaybackURL rawURL then
             (case StripWaybackToolbar (pe_lower env) (rs_Body resp) of
                None \<Rightarrow> Inl PipePanic
              | Some b \<Rightarrow> Inr (resp\<lparr>rs_Body := b\<rparr>))
           else Inr resp, st\<lparr>pl_probe := ps'\<rparr>))"

section \<open>Processing a page\<close>

record processedPage =
  pp_resp :: Response
  pp_title :: string
  pp_lang :: string
  pp_doc :: Document
  pp_output :: string
  pp_spaSkeleton :: bool
  pp_docTruncated :: bool
  pp_thin :: bool

definition extractBySelector :: "pipe_env \<Rightarrow> html \<Rightarrow> string \<Rightarrow> html option" where
  "extractBySelector env rt css =
     (case pe_select env rt css of [] \<Rightarrow> None | ns \<Rightarrow> Some (Node ElementNode ''div'' [] ns))"

definition renderPage :: "pipe_env \<Rightarrow> Document \<Rightarrow> html \<Rightarrow> string \<Rightarrow> PipeOptions \<Rightarrow> pipe_error + string" where
  "renderPage env doc best body opts =
     (case po_Format opts of
        FmtJSON \<Rightarrow> (case pe_doc_json env doc of None \<Rightarrow> Inl (PipeRender ''json'') | Some t \<Rightarrow> Inr t)
      | FmtText \<Rightarrow> Inr (Text doc)
      | FmtHTML \<Rightarrow> Inr body
      | FmtMarkdown \<Rightarrow>
          if po_SchemaPath opts \<noteq> [] then
            (case QuerySchema (pe_renum env) (pe_fold_eq env) (d_Islands doc) (po_SchemaPath opts) of
               Inr t \<Rightarrow> Inr t
             | Inl (SchemaMiss _) \<Rightarrow> Inr []
             | Inl err \<Rightarrow> Inl (PipeSchema (po_SchemaPath opts) err))
          else Inr (Markdown (pe_convert env) (pe_visit env) doc best (ct_IncludeLinks (po_Content opts))))"

definition page_scores :: "pipe_env \<Rightarrow> string \<Rightarrow> string list \<Rightarrow> rat list" where
  "page_scores env query = BM25 (pe_log env) (pe_lower env) (pe_sep env) query"

definition applyRelevanceFilter :: "pipe_env \<Rightarrow> string \<Rightarrow> Format \<Rightarrow> string \<Rightarrow> int \<Rightarrow> Document \<Rightarrow> string \<times> Document" where
  "applyRelevanceFilter env out fmt query topK doc =
     (if query = [] then (out, doc)
      else (case fmt of
              FmtMarkdown \<Rightarrow>
                (let sections = SplitMarkdownSections out; ranked = RankSections (pe_sort_sections env) (page_scores env query) sections topK
                 in (ReassembleMarkdown ranked (int (length sections)) (int (length ranked)), doc))
            | FmtJSON \<Rightarrow>
                (let doc' = doc\<lparr>d_Content := FilterJSONContent (page_scores env query) query (d_Content doc) e_Text topK\<rparr>
                 in (case pe_doc_json env doc' of None \<Rightarrow> out | Some t \<Rightarrow> t, doc'))
            | _ \<Rightarrow> (out, doc)))"

text \<open>\<^const>\<open>None\<close> is a panic.\<close>

definition storeLongOutput :: "pipe_env \<Rightarrow> string \<Rightarrow> PipeOptions \<Rightarrow> pipe_state \<Rightarrow> string option \<times> pipe_state" where
  "storeLongOutput env out0 opts st =
     (let out = StripBase64Images out0 in
      if ts_cache (pl_store st) = None \<and> po_StoreDir opts = [] then (Some out, st)
      else
        (let (n, st1) = next_tick st;
             ((stored_text, stored, err), ts') = TruncateAndStore (pe_whole env) (pe_share env) (pe_store env n) (pl_store st1) out
                \<lparr>CharLimit = po_CharLimit opts, StoreDir = po_StoreDir opts, MaxStored = DefaultMaxStored\<rparr>
         in (if err = Some TruncPanic then None else if err \<noteq> None then Some out else if stored then Some stored_text else Some out,
             st1\<lparr>pl_store := ts'\<rparr>)))"

definition best_node :: "pipe_env \<Rightarrow> PipeOptions \<Rightarrow> html \<Rightarrow> html option" where
  "best_node env opts rt =
     (if po_CSSSelector opts \<noteq> [] then extractBySelector env rt (po_CSSSelector opts)
      else Some (BestBlock (pe_sort_blocks env) rt (ct_CharThreshold (po_Content opts))))"

definition processPage :: "pipe_env \<Rightarrow> string \<Rightarrow> Response \<Rightarrow> PipeOptions \<Rightarrow> pipe_state \<Rightarrow> (pipe_error + processedPage) \<times> pipe_state" where
  "processPage env rawURL resp opts st =
     (case dom_Parse (pe_html env) (rs_Body resp) of
        Inl err \<Rightarrow> (Inl (PipeParse rawURL err), st)
      | Inr tree \<Rightarrow>
          (let rawIslands = walkIslands (pe_keys env) (ct_MaxIslandBytes (po_Content opts)) (t_Root tree);
               spa = DetectSPASkeleton (rs_Body resp) (t_Root tree) rawIslands;
               rt = filterNode (t_Root tree)
           in case best_node env opts rt of
                None \<Rightarrow> (Inl (PipeSelector (po_CSSSelector opts)), st)
              | Some best \<Rightarrow>
                  (let b = build_walk best (NewBuilder (ct_MaxChars (po_Content opts)));
                       doc = (empty_document rawURL (rs_FinalURL resp))\<lparr>d_Title := t_Title tree, d_Lang := t_Lang tree,
                                d_Content := bd_elements b, d_Interactive := bd_interactive b, d_Islands := rawIslands\<rparr>
                   in case renderPage env doc best (rs_Body resp) opts of
                        Inl err \<Rightarrow> (Inl err, st)
                      | Inr out0 \<Rightarrow>
                          (let (out1, doc1) = applyRelevanceFilter env out0 (po_Format opts) (po_Query opts) (po_TopK opts) doc;
                               (out2, st1) = (if po_StoreFullText opts then storeLongOutput env out1 opts st else (Some out1, st))
                           in case out2 of
                                None \<Rightarrow> (Inl PipePanic, st1)
                              | Some out \<Rightarrow>
                                  (Inr \<lparr>pp_resp = resp, pp_title = t_Title tree, pp_lang = t_Lang tree, pp_doc = doc1, pp_output = out,
                                        pp_spaSkeleton = spa, pp_docTruncated = bd_truncated b,
                                        pp_thin = isThinContent best (ct_CharThreshold (po_Content opts)) spa\<rparr>, st1)))))"

section \<open>Composing the answer\<close>

definition escalationHint :: "string \<Rightarrow> string \<Rightarrow> EscalationHint" where
  "escalationHint reason rawURL =
     \<lparr>eh_Tool = ''symbrowse'', eh_MCPTool = ''read'', eh_Reason = reason, eh_Command = ''symbrowse read '' @ rawURL\<rparr>"

definition truncationMarker :: string where
  "truncationMarker = [lf, lf] @ ellipsis @ '' [truncated: character budget reached]''"

definition HasMetaHeader :: "PageMeta \<Rightarrow> bool" where
  "HasMetaHeader meta \<longleftrightarrow> pm_Escalate meta \<noteq> None \<or> pm_Truncated meta \<or> pm_LikelyClientRendered meta"

definition counted :: "string \<Rightarrow> PageMeta \<Rightarrow> PageMeta" where
  "counted body meta = meta\<lparr>pm_CharCount := int (length (runes body)), pm_EstTokens := int (length (runes body)) div 4\<rparr>"

definition front_matter :: "pipe_env \<Rightarrow> nat \<Rightarrow> PipeOptions \<Rightarrow> PageMeta \<Rightarrow> Document \<Rightarrow> string" where
  "front_matter env n opts meta doc =
     (if po_Frontmatter opts then GenerateFrontmatter (pe_yaml_decode env) (pe_yaml_encode env) (pe_date env n) meta doc else [])"

definition prefix_room :: "pipe_env \<Rightarrow> nat \<Rightarrow> PipeOptions \<Rightarrow> processedPage \<Rightarrow> PageMeta \<Rightarrow> int" where
  "prefix_room env n opts pg meta =
     (if po_Format opts = FmtMarkdown then
        (let worst = (counted (pp_output pg) meta)\<lparr>pm_Truncated := True\<rparr>
         in int (length (runes (front_matter env n opts worst (pp_doc pg))))
            + (if HasMetaHeader worst then int (length (runes (FormatMarkdownWithMeta worst []))) else 0))
      else 0)"

definition composeWithinBudget :: "pipe_env \<Rightarrow> nat \<Rightarrow> processedPage \<Rightarrow> PipeOptions \<Rightarrow> PageMeta \<Rightarrow> string \<times> PageMeta" where
  "composeWithinBudget env n pg opts meta =
     (let maxChars = ct_MaxChars (po_Content opts) in
      if po_Format opts = FmtJSON \<or> po_Format opts = FmtHTML \<or> maxChars \<le> 0 then
        (pp_output pg, (counted (pp_output pg) meta)\<lparr>pm_Truncated := pp_docTruncated pg\<rparr>)
      else
        (let (body, cut) = truncateRunes truncationMarker (pp_output pg) (maxChars - prefix_room env n opts pg meta);
             meta1 = (counted body meta)\<lparr>pm_Truncated := cut \<or> pp_docTruncated pg\<rparr>
         in if po_Format opts = FmtMarkdown then
              (front_matter env (Suc n) opts meta1 (pp_doc pg) @ (if HasMetaHeader meta1 then FormatMarkdownWithMeta meta1 body else body), meta1)
            else (body, meta1)))"

definition stored_meta :: "string \<Rightarrow> string \<Rightarrow> int \<Rightarrow> string \<Rightarrow> string \<Rightarrow> (string \<times> string list) list \<Rightarrow> Meta" where
  "stored_meta rawURL final status ctype proto headers =
     \<lparr>MURL = rawURL, FinalURL = final, StatusCode = status, ContentType = ctype, Protocol = proto, Headers = headers, StoredAt = 0, MTTL = 0\<rparr>"

definition page_meta :: "processedPage \<Rightarrow> string \<Rightarrow> PageMeta" where
  "page_meta pg rawURL =
     (empty_meta (rs_FinalURL (pp_resp pg)) (rs_StatusCode (pp_resp pg)) (rs_Protocol (pp_resp pg)))
       \<lparr>pm_Title := pp_title pg, pm_Lang := pp_lang pg, pm_LikelyClientRendered := pp_thin pg,
        pm_Escalate := (if pp_spaSkeleton pg then Some (escalationHint ''spa_skeleton'' rawURL)
                        else if pp_thin pg then Some (escalationHint ''thin_content'' rawURL) else None)\<rparr>"

definition finalizePage :: "pipe_env \<Rightarrow> processedPage \<Rightarrow> string \<Rightarrow> PipeOptions \<Rightarrow> cacher option \<Rightarrow> pipe_state \<Rightarrow> PipeResult \<times> pipe_state" where
  "finalizePage env pg rawURL opts ch st =
     (let meta = page_meta pg rawURL; resp = pp_resp pg;
          pg1 = pg\<lparr>pp_doc := (pp_doc pg)\<lparr>d_Escalate := pm_Escalate meta\<rparr>\<rparr>;
          (n, st1) = next_tick st; (n2, st2) = next_tick st1;
          (out, meta1) = composeWithinBudget env n pg1 opts meta;
          result = \<lparr>pr_Doc = pp_doc pg1, pr_Output = out, pr_Meta = meta1, pr_SourceHTML = rs_Body resp\<rparr>
      in (result,
          case ch of
            None \<Rightarrow> st2
          | Some h \<Rightarrow> cacheResult env h rawURL opts out
                       (stored_meta rawURL (rs_FinalURL resp) (rs_StatusCode resp) (rs_ContentType resp) (rs_Protocol resp) (rs_Headers resp)) st2))"

section \<open>Fallbacks\<close>

definition deriveMDTwinURL :: "pipe_env \<Rightarrow> string \<Rightarrow> string" where
  "deriveMDTwinURL env rawURL = (case pe_parse env rawURL of Inl _ \<Rightarrow> [] | Inr u \<Rightarrow> pe_with_path env rawURL (Path u @ ''.md''))"

definition deriveLLMsTxtURL :: "pipe_env \<Rightarrow> string \<Rightarrow> string" where
  "deriveLLMsTxtURL env rawURL = (case pe_parse env rawURL of Inl _ \<Rightarrow> [] | Inr u \<Rightarrow> pe_only_path env rawURL ''/llms.txt'')"

text \<open>What becomes of the result of a nested run for another URL, \<open>fetchAndProcess\<close>; the run itself is its argument.\<close>

definition fetchAndProcess :: "string \<Rightarrow> (pipe_error + PipeResult) \<times> pipe_state \<Rightarrow> PipeResult option \<times> pipe_state" where
  "fetchAndProcess originURL res =
     (case res of
        (Inl err, st') \<Rightarrow> (None, st')
      | (Inr r, st') \<Rightarrow> (Some (r\<lparr>pr_Doc := (pr_Doc r)\<lparr>d_URL := originURL\<rparr>\<rparr>), st'))"

fun first_success :: "(string \<Rightarrow> pipe_state \<Rightarrow> PipeResult option \<times> pipe_state) \<Rightarrow> string list \<Rightarrow> pipe_state \<Rightarrow> PipeResult option \<times> pipe_state" where
  "first_success call [] st = (None, st)"
| "first_success call (u # us) st =
     (case call u st of
        (Some r, st') \<Rightarrow> (Some r, st')
      | (None, st') \<Rightarrow> first_success call us st')"

definition fallback_urls :: "pipe_env \<Rightarrow> string \<Rightarrow> PipeOptions \<Rightarrow> string list" where
  "fallback_urls env rawURL opts =
     filter (\<lambda>u. u \<noteq> []) [deriveMDTwinURL env rawURL, deriveLLMsTxtURL env rawURL]
     @ (if po_WaybackFallback opts \<and> \<not> isWaybackURL rawURL then [RewriteURL rawURL (po_WaybackTimestamp opts)] else [])"

definition tryFallback ::
  "(string \<Rightarrow> pipe_state \<Rightarrow> PipeResult option \<times> pipe_state) \<Rightarrow> pipe_env \<Rightarrow> string \<Rightarrow> PipeOptions \<Rightarrow> pipe_state \<Rightarrow> PipeResult option \<times> pipe_state" where
  "tryFallback call env rawURL opts st = first_success call (fallback_urls env rawURL opts) st"

definition tryThinFallback ::
  "(string \<Rightarrow> pipe_state \<Rightarrow> PipeResult option \<times> pipe_state) \<Rightarrow> pipe_env \<Rightarrow> string \<Rightarrow> PipeOptions \<Rightarrow> cacher option \<Rightarrow> pipe_state
     \<Rightarrow> PipeResult option \<times> pipe_state" where
  "tryThinFallback call env rawURL opts ch st =
     (case tryFallback call env rawURL opts st of
        (None, st1) \<Rightarrow> (None, st1)
      | (Some r, st1) \<Rightarrow>
          if int (length (runes (pr_Output r))) < ct_CharThreshold (po_Content opts) then (None, st1)
          else (Some r,
                case ch of
                  None \<Rightarrow> st1
                | Some h \<Rightarrow> cacheResult env h rawURL opts (pr_Output r)
                             (stored_meta rawURL (pm_FinalURL (pr_Meta r)) (pm_StatusCode (pr_Meta r)) [] (pm_Protocol (pr_Meta r)) []) st1))"

definition probe_missing :: "pipe_env \<Rightarrow> string \<Rightarrow> int \<Rightarrow> PipeOptions \<Rightarrow> pipe_state \<Rightarrow> (pipe_error + PipeResult) \<times> pipe_state" where
  "probe_missing env rawURL status opts st =
     (if status = 404 \<or> status = 410 then
        (case Probe (pe_rec env) (po_Security opts) (po_Session opts) rawURL (pl_probe st) of
           (hints, ps') \<Rightarrow> (Inl (PipeHTTP rawURL status hints), st\<lparr>pl_probe := ps'\<rparr>))
      else (Inl (PipeHTTP rawURL status None), st))"

section \<open>A run\<close>

text \<open>\<open>begin_run\<close> is everything up to the first response: the guards, the cache and the robots check.\<close>

definition begin_run ::
  "pipe_env \<Rightarrow> string \<Rightarrow> PipeOptions \<Rightarrow> pipe_state \<Rightarrow> (pipe_error + PipeResult + Response \<times> cacher option) \<times> pipe_state" where
  "begin_run env rawURL opts st =
     (case CheckAllowlist (pe_parse env) rawURL (so_Allowlist (po_Security opts)) of
        Some err \<Rightarrow> (Inl (PipeDomain err), st)
      | None \<Rightarrow>
          (case (if so_AllowPrivate (po_Security opts) then None else check_ssrf (pe_client env) (pl_sent st) rawURL) of
             Some err \<Rightarrow> (Inl (PipeSsrf err), st)
           | None \<Rightarrow>
               (let (ch, st1) = newCache env opts st; ((hit, ch1), st2) = loadCachedResult env rawURL opts ch st1
                in case hit of
                     Some r \<Rightarrow> (Inr (Inl r), st2)
                   | None \<Rightarrow>
                       (case checkRobots env rawURL opts st2 of
                          (Some err, st3) \<Rightarrow> (Inl err, st3)
                        | (None, st3) \<Rightarrow>
                            (case fetchInitial env rawURL opts st3 of
                               (Inl err, st4) \<Rightarrow> (Inl err, st4)
                             | (Inr resp, st4) \<Rightarrow> (Inr (Inr (resp, ch1)), st4))))))"

definition archive_applies :: "string \<Rightarrow> int \<Rightarrow> PipeOptions \<Rightarrow> bool" where
  "archive_applies rawURL status opts \<longleftrightarrow> po_WaybackFallback opts \<and> \<not> isWaybackURL rawURL \<and> (status = 404 \<or> status = 410)"

definition depth :: "string \<Rightarrow> PipeOptions \<Rightarrow> nat" where
  "depth rawURL opts = (if po_DisableFallback opts then 0 else 2) + (if po_WaybackFallback opts \<and> \<not> isWaybackURL rawURL then 1 else 0)"

lemma RewriteURL_isWayback: "isWaybackURL (RewriteURL u ts)"
  by (simp add: isWaybackURL_def RewriteURL_def WaybackBaseURL_def)

lemma set_defaults_keeps [simp]:
  "po_DisableFallback (set_defaults o1) = po_DisableFallback o1" "po_WaybackFallback (set_defaults o1) = po_WaybackFallback o1"
  "po_Security (set_defaults o1) = po_Security o1" "po_Format (set_defaults o1) = po_Format o1" "po_Cache (set_defaults o1) = po_Cache o1"
  "po_Frontmatter (set_defaults o1) = po_Frontmatter o1"
  by (simp_all add: set_defaults_def Let_def)

function Run :: "pipe_env \<Rightarrow> string \<Rightarrow> PipeOptions \<Rightarrow> pipe_state \<Rightarrow> (pipe_error + PipeResult) \<times> pipe_state" where
  "Run env rawURL o0 st =
     (let opts = set_defaults o0; nested = opts\<lparr>po_DisableFallback := True\<rparr> in
      case begin_run env rawURL opts st of
        (Inl err, st1) \<Rightarrow> (Inl err, st1)
      | (Inr (Inl r), st1) \<Rightarrow> (Inr r, st1)
      | (Inr (Inr (resp, ch)), st1) \<Rightarrow>
          if 400 \<le> rs_StatusCode resp then
            (case (if archive_applies rawURL (rs_StatusCode resp) opts
                   then fetchAndProcess rawURL (Run env (RewriteURL rawURL (po_WaybackTimestamp opts)) nested st1) else (None, st1)) of
               (Some r, st2) \<Rightarrow> (Inr r, st2)
             | (None, st2) \<Rightarrow> probe_missing env rawURL (rs_StatusCode resp) opts st2)
          else
            (case processPage env rawURL resp opts st1 of
               (Inl err, st2) \<Rightarrow> (Inl err, st2)
             | (Inr pg, st2) \<Rightarrow>
                 (case (if pp_thin pg \<and> \<not> po_DisableFallback opts
                        then tryThinFallback (\<lambda>u s. fetchAndProcess rawURL (Run env u nested s)) env rawURL opts ch st2 else (None, st2)) of
                    (Some r, st3) \<Rightarrow> (Inr r, st3)
                  | (None, st3) \<Rightarrow> (case finalizePage env pg rawURL opts ch st3 of (r, st4) \<Rightarrow> (Inr r, st4)))))"
  by pat_completeness auto
termination
  by (relation "measure (\<lambda>(_, u, opts, _). depth u opts)") (auto simp: depth_def archive_applies_def RewriteURL_isWayback)

declare Run.simps [simp del]

definition RunRaw :: "pipe_env \<Rightarrow> string \<Rightarrow> Request \<Rightarrow> probe_state \<Rightarrow> (fetch_error + Response) \<times> probe_state" where
  "RunRaw env rawURL req ps = probe_fetch (pe_rec env) (req\<lparr>rq_URL := rawURL\<rparr>) ps"

section \<open>Every returned page is allowed\<close>

abbreviation allowed :: "pipe_env \<Rightarrow> PipeOptions \<Rightarrow> string \<Rightarrow> bool" where
  "allowed env opts u \<equiv> CheckAllowlist (pe_parse env) u (so_Allowlist (po_Security opts)) = None"

lemma cached_final: "loadCachedResult env rawURL opts ch st = ((Some r, ch'), st') \<Longrightarrow> pm_FinalURL (pr_Meta r) = [] \<or> allowed env opts (pm_FinalURL (pr_Meta r))"
  by (auto simp: loadCachedResult_def next_tick_def empty_meta_def split: option.splits if_splits prod.splits)

lemma fetched_final: "fetchInitial env rawURL opts st = (Inr resp, st') \<Longrightarrow> allowed env opts (rs_FinalURL resp)"
proof -
  assume f: "fetchInitial env rawURL opts st = (Inr resp, st')"
  obtain res ps' where p: "probe_fetch (pe_rec env) (initial_request rawURL opts) (pl_probe st) = (res, ps')" by fastforce
  from f p obtain r0 where r0: "res = Inr r0" "rs_FinalURL resp = rs_FinalURL r0"
    by (auto simp: fetchInitial_def split: sum.splits if_splits option.splits)
  from p r0(1) obtain cl st1 where "client_Fetch (pe_client env) (initial_request rawURL opts) (ps_client (pl_probe st), ps_state (pl_probe st)) = (Inr r0, cl, st1)"
    by (auto simp: probe_fetch_def split: prod.splits)
  from final_url_is_checked(1) [OF this] show ?thesis by (simp add: r0(2) initial_request_def)
qed

lemma begin_run_final:
  "begin_run env rawURL opts st = (Inr (Inl r), st') \<Longrightarrow> pm_FinalURL (pr_Meta r) = [] \<or> allowed env opts (pm_FinalURL (pr_Meta r))"
  "begin_run env rawURL opts st = (Inr (Inr (resp, ch)), st') \<Longrightarrow> allowed env opts (rs_FinalURL resp)"
  by (auto simp: begin_run_def split: option.splits prod.splits sum.splits if_splits dest: cached_final fetched_final)

lemma processPage_resp: "processPage env rawURL resp opts st = (Inr pg, st') \<Longrightarrow> pp_resp pg = resp"
  by (auto simp: processPage_def Let_def split: sum.splits option.splits prod.splits)

lemma composed_final: "composeWithinBudget env n pg opts meta = (out, meta') \<Longrightarrow> pm_FinalURL meta' = pm_FinalURL meta"
  by (auto simp: composeWithinBudget_def counted_def Let_def split: if_splits prod.splits)

lemma finalizePage_final: "finalizePage env pg rawURL opts ch st = (r, st') \<Longrightarrow> pm_FinalURL (pr_Meta r) = rs_FinalURL (pp_resp pg)"
  by (auto simp: finalizePage_def next_tick_def page_meta_def empty_meta_def Let_def split: prod.splits dest!: composed_final)

lemma first_success_from: "first_success call us st = (Some r, st') \<Longrightarrow> \<exists>u s s'. call u s = (Some r, s')"
  by (induction call us st rule: first_success.induct) (auto split: prod.splits option.splits)

lemma fetchAndProcess_from: "fetchAndProcess rawURL res = (Some r, st') \<Longrightarrow> \<exists>r0. res = (Inr r0, st') \<and> pr_Meta r = pr_Meta r0"
  by (auto simp: fetchAndProcess_def split: prod.splits sum.splits)

lemma thin_from: "tryThinFallback call env rawURL opts ch st = (Some r, st') \<Longrightarrow> \<exists>u s s'. call u s = (Some r, s')"
  by (auto simp: tryThinFallback_def tryFallback_def split: prod.splits option.splits if_splits dest: first_success_from)

text \<open>Where an answer can come from: the cache, a nested run, or the page itself.\<close>

definition nested_answer :: "pipe_env \<Rightarrow> string \<Rightarrow> PipeOptions \<Rightarrow> PipeResult \<Rightarrow> bool" where
  "nested_answer env rawURL opts r \<longleftrightarrow>
     (let nested = opts\<lparr>po_DisableFallback := True\<rparr> in
      \<exists>u s s' r0. Run env u nested s = (Inr r0, s') \<and> pr_Meta r = pr_Meta r0 \<and> depth u nested < depth rawURL opts)"

lemma archive_answer:
  assumes "(if archive_applies rawURL status opts
            then fetchAndProcess rawURL (Run env (RewriteURL rawURL ts) (opts\<lparr>po_DisableFallback := True\<rparr>) st1) else (None, st1)) = (Some r, st2)"
  shows "nested_answer env rawURL opts r"
proof -
  let ?u = "RewriteURL rawURL ts" and ?nested = "opts\<lparr>po_DisableFallback := True\<rparr>"
  from assms have app: "archive_applies rawURL status opts" by (auto split: if_splits)
  with assms obtain r0 where "Run env ?u ?nested st1 = (Inr r0, st2)" "pr_Meta r = pr_Meta r0" using fetchAndProcess_from by fastforce
  moreover have "depth ?u ?nested < depth rawURL opts" using app by (simp add: depth_def archive_applies_def RewriteURL_isWayback)
  ultimately show ?thesis unfolding nested_answer_def Let_def by blast
qed

lemma thin_answer:
  assumes "(if thin \<and> \<not> po_DisableFallback opts
            then tryThinFallback (\<lambda>u s. fetchAndProcess rawURL (Run env u (opts\<lparr>po_DisableFallback := True\<rparr>) s)) env rawURL opts ch st else (None, st)) = (Some r, st2)"
  shows "nested_answer env rawURL opts r"
proof -
  let ?nested = "opts\<lparr>po_DisableFallback := True\<rparr>"
  from assms have on: "\<not> po_DisableFallback opts" by (auto split: if_splits)
  with assms obtain u s s' where "fetchAndProcess rawURL (Run env u ?nested s) = (Some r, s')" using thin_from by (metis (no_types, lifting) option.distinct(1) prod.inject)
  then obtain r0 where "Run env u ?nested s = (Inr r0, s')" "pr_Meta r = pr_Meta r0" using fetchAndProcess_from by blast
  moreover have "depth u ?nested < depth rawURL opts" using on by (simp add: depth_def)
  ultimately show ?thesis unfolding nested_answer_def Let_def by blast
qed

lemma run_answer:
  assumes "Run env rawURL o0 st = (Inr r, st')"
  obtains (cached) st1 where "begin_run env rawURL (set_defaults o0) st = (Inr (Inl r), st1)"
    | (nested) "nested_answer env rawURL (set_defaults o0) r"
    | (fetched) resp ch st1 pg st2 st3 where "begin_run env rawURL (set_defaults o0) st = (Inr (Inr (resp, ch)), st1)"
        "processPage env rawURL resp (set_defaults o0) st1 = (Inr pg, st2)" "finalizePage env pg rawURL (set_defaults o0) ch st3 = (r, st')"
  using assms unfolding Run.simps [of env rawURL o0 st] Let_def
  by (auto simp: probe_missing_def split: prod.splits sum.splits option.splits if_split_asm elim!: meta_mp
      intro: archive_answer thin_answer)

lemma run_final:
  "Run env rawURL opts st = (Inr r, st') \<Longrightarrow> pm_FinalURL (pr_Meta r) = [] \<or> allowed env opts (pm_FinalURL (pr_Meta r))"
proof (induction "depth rawURL opts" arbitrary: rawURL opts st r st' rule: less_induct)
  case less
  from less.prems show ?case
  proof (cases rule: run_answer)
    case (cached st1)
    then show ?thesis using begin_run_final(1) [OF cached] by simp
  next
    case nested
    then obtain u s s' r0 where "Run env u (set_defaults opts\<lparr>po_DisableFallback := True\<rparr>) s = (Inr r0, s')" "pr_Meta r = pr_Meta r0"
      "depth u (set_defaults opts\<lparr>po_DisableFallback := True\<rparr>) < depth rawURL opts" by (auto simp: nested_answer_def Let_def depth_def)
    then show ?thesis using less.hyps by fastforce
  next
    case (fetched resp ch st1 pg st2 st3)
    then show ?thesis using begin_run_final(2) [OF fetched(1)] processPage_resp [OF fetched(2)] finalizePage_final [OF fetched(3)] by simp
  qed
qed

text \<open>C7. Whatever a run returns comes from an allowed place: the page itself, a cached copy of it, its Markdown twin, the
  site's summary or an archived snapshot; only a cached entry without a recorded URL is returned unchecked.\<close>

theorem page_is_allowed:
  assumes "Run env rawURL opts st = (Inr r, st')"
  shows "pm_FinalURL (pr_Meta r) = [] \<or> allowed env opts (pm_FinalURL (pr_Meta r))"
  using assms by (rule run_final)

section \<open>Example\<close>

definition demo_pipe :: pipe_env where
  "demo_pipe =
     \<lparr>pe_rec = demo_recovery, pe_html = (\<lambda>s. Inr (Node ElementNode ''body'' [] [Node TextNode s [] []])), pe_select = (\<lambda>_ _. []),
      pe_keys = map fst, pe_sort_blocks = (\<lambda>bs. bs), pe_convert = (\<lambda>_. None), pe_visit = (\<lambda>as. as),
      pe_yaml_decode = (\<lambda>_. None), pe_yaml_encode = (\<lambda>_. None), pe_date = (\<lambda>_. []), pe_doc_json = (\<lambda>_. None),
      pe_renum = Some, pe_fold_eq = (=), pe_log = (\<lambda>x. x), pe_sep = (\<lambda>r. r = 32), pe_sort_sections = (\<lambda>ss. ss),
      pe_whole = (\<lambda>n. n), pe_share = (\<lambda>n. 4 * n div 5), pe_store = (\<lambda>_. demo_store), pe_digest = (\<lambda>s. s), pe_meta_size = (\<lambda>_. 10),
      pe_wall = (\<lambda>_. 0), pe_clock = (\<lambda>_ _. 5), pe_io = (\<lambda>_ _. None), pe_listing = (\<lambda>_. []), pe_default_dir = ''/c'',
      pe_with_path = (\<lambda>u p. ''https://a.test'' @ p), pe_only_path = (\<lambda>u p. ''https://a.test'' @ p)\<rparr>"

definition demo_pipe_options :: PipeOptions where
  "demo_pipe_options =
     \<lparr>po_Format = FmtText, po_Content = \<lparr>ct_MaxChars = 0, ct_IncludeLinks = False, ct_CharThreshold = 0, ct_MaxIslandBytes = 0\<rparr>,
      po_Cache = \<lparr>ca_NoCache = False, ca_Dir = [], ca_TTL = 0, ca_MaxSize = 0, ca_Shared = True\<rparr>, po_Profile = [], po_Session = [],
      po_Security = demo_security\<lparr>so_AllowPrivate := True\<rparr>, po_CSSSelector = [], po_Frontmatter = False, po_SchemaPath = [], po_DisableFallback = False,
      po_Request = \<lparr>ro_Method = [], ro_Headers = [], ro_Body = []\<rparr>, po_StoreFullText = False, po_CharLimit = 0, po_StoreDir = [],
      po_WaybackFallback = False, po_WaybackTimestamp = [], po_Query = [], po_TopK = 0\<rparr>"

definition demo_cached :: Meta where
  "demo_cached = \<lparr>MURL = ''https://a.test/x'', FinalURL = ''https://a.test/y'', StatusCode = 200, ContentType = [], Protocol = [],
     Headers = [], StoredAt = 1, MTTL = hour\<rparr>"

definition demo_cache :: fetch_cache where
  "demo_cache =
     (let k = cache_key (\<lambda>s. s) (cache_request ''https://a.test/x'' (set_defaults demo_pipe_options)) in
      \<lparr>bodies = [k \<mapsto> ''Hello''], metas = [k \<mapsto> GoodMeta demo_cached], index_on_disk = NoIndex, cttl = hour, maxSize = 0,
       indexMgr = newIndexManager, lastSave = 0, lastEviction = 0\<rparr>)"

definition demo_pipe_state :: pipe_state where
  "demo_pipe_state =
     \<lparr>pl_probe = demo_probe_state, pl_disk = (\<lambda>_. \<lparr>cd_bodies = Map.empty, cd_metas = Map.empty, cd_index = NoIndex\<rparr>),
      pl_shared = Some demo_cache, pl_store = \<lparr>ts_cache = None, ts_files = Map.empty\<rparr>, pl_ticks = 0\<rparr>"

theorem page_is_allowed_witness:
  "\<exists>r st'. Run demo_pipe ''https://a.test/x'' demo_pipe_options demo_pipe_state = (Inr r, st') \<and> pr_Output r = ''Hello''
     \<and> pm_FinalURL (pr_Meta r) = ''https://a.test/y'' \<and> allowed demo_pipe demo_pipe_options ''https://a.test/y''"
proof -
  let ?o = "set_defaults demo_pipe_options" and ?u = "''https://a.test/x''" and ?v = "''https://a.test/y''"
  let ?b = "begin_run demo_pipe ?u ?o demo_pipe_state"
  have g: "CheckAllowlist (pe_parse demo_pipe) ?u (so_Allowlist (po_Security ?o)) = None"
    "CheckAllowlist (pe_parse demo_pipe) ?v (so_Allowlist (po_Security ?o)) = None" by code_simp+
  have s: "so_AllowPrivate (po_Security ?o)" "ca_NoCache (po_Cache ?o) = False" "ca_Shared (po_Cache ?o)"
    "pe_digest demo_pipe = (\<lambda>s. s)" "pe_clock demo_pipe = (\<lambda>_ _. 5)"
    by (simp_all add: demo_pipe_options_def demo_pipe_def)
  have n: "newCache demo_pipe ?o demo_pipe_state = (Some Shared, demo_pipe_state)"
    by (simp add: newCache_def s demo_pipe_state_def Let_def del: set_defaults_keeps)
  have get: "FetchCache.Get (\<lambda>s. s) 5 demo_cache (cache_request ?u ?o) = Some (''Hello'', demo_cached)"
    by (simp add: FetchCache.Get_def demo_cache_def Let_def demo_cached_def)
  define r where "r = \<lparr>pr_Doc = empty_document ?u ?v, pr_Output = ''Hello'', pr_Meta = empty_meta ?v 200 [], pr_SourceHTML = []\<rparr>"
  have f: "FinalURL demo_cached = ?v" "StatusCode demo_cached = 200" "Protocol demo_cached = []" by (simp_all add: demo_cached_def)
  have "fst (loadCachedResult demo_pipe ?u ?o (Some Shared) demo_pipe_state) = (Some r, Some Shared)"
    using g s get by (simp add: loadCachedResult_def next_tick_def cache_of_def f r_def demo_pipe_state_def del: set_defaults_keeps)
  then have "fst ?b = Inr (Inl r)" using g s by (simp add: begin_run_def n split_def Let_def del: set_defaults_keeps)
  then obtain st1 where "?b = (Inr (Inl r), st1)" by (metis prod.collapse)
  then have run: "Run demo_pipe ?u demo_pipe_options demo_pipe_state = (Inr r, st1)" by (subst Run.simps) (simp add: Let_def)
  have "pr_Output r = ''Hello''" "pm_FinalURL (pr_Meta r) = ?v" by (simp_all add: r_def empty_meta_def)
  with run page_is_allowed [OF run] show ?thesis by (intro exI [of _ r] exI [of _ st1]) simp
qed

section \<open>The answer stays within the budget\<close>

lemma length_nat_str_mono: "m \<le> n \<Longrightarrow> length (nat_str m) \<le> length (nat_str n)"
proof (induction n arbitrary: m rule: nat_str.induct)
  case (1 n)
  show ?case
  proof (cases "n < 10")
    case True
    then show ?thesis using "1.prems" by (simp add: nat_str.simps [of m] nat_str.simps [of n])
  next
    case False
    show ?thesis
    proof (cases "m < 10")
      case True
      then show ?thesis using False by (simp add: nat_str.simps [of m] nat_str.simps [of n])
    next
      case False2: False
      have "length (nat_str (m div 10)) \<le> length (nat_str (n div 10))" using "1.IH" [OF False] "1.prems" by (simp add: div_le_mono)
      then show ?thesis using False False2 by (simp add: nat_str.simps [of m] nat_str.simps [of n])
    qed
  qed
qed

lemma runes_ascii: "\<forall>c \<in> set s. byte c < 0x80 \<Longrightarrow> length (runes s) = length s"
  by (induction s) (auto simp: runes_ascii_Cons)

lemma nat_str_ascii: "c \<in> set (nat_str n) \<Longrightarrow> byte c < 0x80"
proof (induction n rule: nat_str.induct)
  case (1 n)
  have d: "byte (digit_char k) < 0x80" if "k < 10" for k
  proof -
    have "\<forall>k \<in> {..<10}. byte (digit_char k) < 0x80" by code_simp
    with that show ?thesis by blast
  qed
  from 1 show ?case by (subst (asm) (2) nat_str.simps) (auto split: if_splits intro: d)
qed

lemma runes_number:
  assumes "0 \<le> t" shows "length (runes (int_str t)) = length (int_str t)"
  using assms nat_str_ascii [of _ "nat t"] by (intro runes_ascii) (auto simp: int_str_def)

lemma number_start:
  assumes "0 \<le> t" obtains c u where "int_str t = c # u" and "byte c < 0x80"
proof -
  have "nat_str (nat t) \<noteq> []" by (simp add: nat_str.simps [of "nat t"])
  with assms nat_str_ascii [of _ "nat t"] that show thesis by (cases "int_str t") (auto simp: int_str_def)
qed

text \<open>The header in three parts: only the number of tokens and the mark of truncation depend on the text.\<close>

definition header_front :: "PageMeta \<Rightarrow> string" where
  "header_front meta = ''> **'' @ pm_Title meta @ ''**'' @ middle_dot @ int_str (pm_StatusCode meta) @ middle_dot @ ''~''"

definition header_back :: "PageMeta \<Rightarrow> string" where
  "header_back meta =
     (if pm_LikelyClientRendered meta then middle_dot @ warning_sign @ '' likely client-rendered'' else [])
     @ [lf] @ ''> '' @ pm_FinalURL meta
     @ (case pm_Escalate meta of
          None \<Rightarrow> []
        | Some h \<Rightarrow> [lf] @ ''> '' @ warning_sign @ '' '' @ eh_Reason h @ long_dash @ ''use symbrowse for JS-rendered pages: '' @ eh_Command h)
     @ [lf, lf]"

definition header_mark :: "bool \<Rightarrow> string" where
  "header_mark t = (if t then middle_dot @ warning_sign @ '' truncated'' else [])"

lemma meta_header_parts:
  "meta_header meta = header_front meta @ int_str (pm_EstTokens meta) @ '' tokens'' @ header_mark (pm_Truncated meta) @ header_back meta"
  by (simp add: meta_header_def header_front_def header_back_def header_mark_def)

lemma ascii_space: "byte (CHR '' '') < 0x80" and ascii_lf: "byte lf < 0x80" and ascii_dash: "byte (CHR ''-'') < 0x80"
  by code_simp+

lemma header_back_start: "\<exists>c u. header_back meta = c # u \<and> byte c < 0x80"
  by (auto simp: header_back_def middle_dot_def ascii_space ascii_lf)

lemma runes_header:
  assumes "0 \<le> pm_EstTokens meta"
  shows "length (runes (meta_header meta)) = length (runes (header_front meta)) + length (int_str (pm_EstTokens meta))
     + length (runes '' tokens'') + length (runes (header_mark (pm_Truncated meta))) + length (runes (header_back meta))"
proof -
  obtain c u where n: "int_str (pm_EstTokens meta) = c # u" "byte c < 0x80" using number_start [OF assms] .
  obtain d v where b: "header_back meta = d # v" "byte d < 0x80" using header_back_start by blast
  have mark: "runes (header_mark t @ header_back meta) = runes (header_mark t) @ runes (header_back meta)" for t
    using runes_ascii_cut [OF b(2), of "header_mark t" v] by (simp add: b(1))
  have tok: "runes ('' tokens'' @ header_mark t @ header_back meta) = runes '' tokens'' @ runes (header_mark t @ header_back meta)" for t
  proof (cases t)
    case True
    then show ?thesis using runes_ascii_cut [OF ascii_space, of "'' tokens''" "[CHR 0xC2, CHR 0xB7, CHR '' ''] @ warning_sign @ '' truncated'' @ header_back meta"]
      by (simp add: header_mark_def middle_dot_def)
  next
    case False
    then show ?thesis using runes_ascii_cut [OF b(2), of "'' tokens''" v] by (simp add: header_mark_def b(1))
  qed
  have num: "runes (int_str (pm_EstTokens meta) @ '' tokens'' @ r) = runes (int_str (pm_EstTokens meta)) @ runes ('' tokens'' @ r)" for r
    using runes_ascii_cut [OF ascii_space, of "int_str (pm_EstTokens meta)" "''tokens'' @ r"] by simp
  have front: "runes (header_front meta @ int_str (pm_EstTokens meta) @ r) = runes (header_front meta) @ runes (int_str (pm_EstTokens meta) @ r)" for r
    using runes_ascii_cut [OF n(2), of "header_front meta" "u @ r"] by (simp add: n(1))
  show ?thesis unfolding meta_header_parts front num tok mark by (simp add: runes_number [OF assms])
qed

lemma header_mono:
  assumes "header_front m1 = header_front m2" and "header_back m1 = header_back m2" and "0 \<le> pm_EstTokens m1"
    and "pm_EstTokens m1 \<le> pm_EstTokens m2" and "pm_Truncated m2"
  shows "length (runes (meta_header m1)) \<le> length (runes (meta_header m2))"
proof -
  have "length (int_str (pm_EstTokens m1)) \<le> length (int_str (pm_EstTokens m2))"
    using assms(3,4) length_nat_str_mono [of "nat (pm_EstTokens m1)" "nat (pm_EstTokens m2)"] by (simp add: int_str_def nat_mono)
  moreover have "length (runes (header_mark (pm_Truncated m1))) \<le> length (runes (header_mark True))" by (simp add: header_mark_def)
  ultimately show ?thesis using assms runes_header [of m1] runes_header [of m2] by simp
qed

lemma meta_header_end: "\<exists>h. meta_header meta = h @ [lf]"
  by (auto simp: meta_header_def split: option.splits)

lemma runes_formatted: "runes (FormatMarkdownWithMeta meta body) = runes (meta_header meta) @ runes body"
proof -
  obtain h where h: "meta_header meta = h @ [lf]" using meta_header_end by blast
  show ?thesis unfolding FormatMarkdownWithMeta_def h by (rule runes_after_ascii [OF ascii_lf])
qed

lemma runes_front_matter: "runes (front_matter env n opts meta doc @ s) = runes (front_matter env n opts meta doc) @ runes s"
proof (cases "front_matter env n opts meta doc")
  case (Cons c u)
  then obtain t where "front_matter env n opts meta doc = (''---'' @ [lf] @ t @ ''---'' @ [lf]) @ [lf]"
    by (auto simp: front_matter_def GenerateFrontmatter_def split: if_splits option.splits)
  note F = this
  show ?thesis unfolding F by (rule runes_after_ascii [OF ascii_lf])
qed simp

text \<open>What the YAML library promises here: a front matter with a smaller number of tokens and another date is not longer.\<close>

definition yaml_no_longer :: "pipe_env \<Rightarrow> bool" where
  "yaml_no_longer env \<longleftrightarrow>
     (\<forall>n k meta1 meta2 doc. pm_Title meta1 = pm_Title meta2 \<and> pm_FinalURL meta1 = pm_FinalURL meta2 \<and> pm_Lang meta1 = pm_Lang meta2
        \<and> pm_EstTokens meta1 \<le> pm_EstTokens meta2 \<longrightarrow>
        length (runes (GenerateFrontmatter (pe_yaml_decode env) (pe_yaml_encode env) (pe_date env n) meta1 doc))
          \<le> length (runes (GenerateFrontmatter (pe_yaml_decode env) (pe_yaml_encode env) (pe_date env k) meta2 doc)))"

lemma marker_start: "truncationMarker = lf # tl truncationMarker"
  by (simp add: truncationMarker_def)


definition demo_processed :: "nat \<Rightarrow> processedPage" where
  "demo_processed n =
     \<lparr>pp_resp = \<lparr>rs_FinalURL = ''https://a.test/'', rs_StatusCode = 200, rs_Headers = [], rs_Body = [], rs_Protocol = [], rs_ContentType = [], rs_Elapsed = 0\<rparr>,
      pp_title = ''A'', pp_lang = [], pp_doc = empty_document ''https://a.test/'' ''https://a.test/'', pp_output = replicate n (CHR ''a''),
      pp_spaSkeleton = False, pp_docTruncated = False, pp_thin = False\<rparr>"

definition demo_budget :: "Format \<Rightarrow> int \<Rightarrow> PipeOptions" where
  "demo_budget fmt m = demo_pipe_options\<lparr>po_Format := fmt, po_Content := \<lparr>ct_MaxChars = m, ct_IncludeLinks = False, ct_CharThreshold = 500, ct_MaxIslandBytes = 0\<rparr>\<rparr>"

abbreviation demo_compose :: "Format \<Rightarrow> int \<Rightarrow> nat \<Rightarrow> string \<times> PageMeta" where
  "demo_compose fmt m n \<equiv> composeWithinBudget demo_pipe 0 (demo_processed n) (demo_budget fmt m) (page_meta (demo_processed n) ''https://a.test/'')"


section \<open>Where the pipeline surprises\<close>

text \<open>A budget smaller than the mark of a cut is exceeded.\<close>

theorem tiny_budget_is_exceeded:
  "length (runes (fst (demo_compose FmtText 10 11))) = 41"
  by code_simp

text \<open>A page from the cache has an empty document: no content, no title and no source for the injection scan.\<close>

theorem cached_document_is_empty:
  assumes "loadCachedResult env rawURL opts ch st = ((Some r, ch'), st')"
  shows "d_Content (pr_Doc r) = [] \<and> d_Interactive (pr_Doc r) = [] \<and> d_Title (pr_Doc r) = [] \<and> pr_SourceHTML r = []
     \<and> pm_CharCount (pr_Meta r) = 0 \<and> \<not> pm_Truncated (pr_Meta r) \<and> pm_Escalate (pr_Meta r) = None"
  using assms by (auto simp: loadCachedResult_def empty_document_def empty_meta_def split: option.splits if_splits prod.splits)

text \<open>The key of a cached page does not depend on the archive options or on the request's method, headers and body, although
  they decide what is stored.\<close>

theorem cache_key_ignores_request:
  "cache_request u (opts\<lparr>po_WaybackFallback := w, po_WaybackTimestamp := t, po_Request := q\<rparr>) = cache_request u opts"
  by (simp add: cache_request_def CacheKey_def)

text \<open>The parts of the key are not delimited.\<close>

theorem cache_key_is_ambiguous:
  "CacheKey (demo_pipe_options\<lparr>po_CSSSelector := ''a'', po_SchemaPath := ''b fm=false sp=c''\<rparr>)
     = CacheKey (demo_pipe_options\<lparr>po_CSSSelector := ''a fm=false sp=b'', po_SchemaPath := ''c''\<rparr>)"
  by code_simp

text \<open>The filter removes class names before blocks are scored, so only ids weigh.\<close>

theorem class_names_are_not_scored:
  "classWeight (filterNode (Node ElementNode d as ks)) = class_bias (filter (\<lambda>a. to_lower (fst a) = ''id'') as)"
proof -
  have "''id'' \<in> set semanticAttrs" "''class'' \<notin> set semanticAttrs" by code_simp+
  then have "class_bias (filter (\<lambda>a. to_lower (fst a) \<in> set semanticAttrs) as) = class_bias (filter (\<lambda>a. to_lower (fst a) = ''id'') as)"
    by (induction as) auto
  then show ?thesis by (simp add: classWeight_def)
qed

end
