(* ===== verification/FetchRuntime.thy ===== *)
theory FetchRuntime
  imports FetchPipeline ContentBoundary SnapshotTree
begin

text \<open>
  The daemon's fetch runtime, \<open>internal/daemon/fetch_runtime.go\<close>, with its error taxonomy, \<open>fetch_errors.go\<close>: the frames
  \<open>fetch.url\<close>, \<open>fetch.batch\<close> and \<open>wayback.snapshots\<close> over the pipeline, the injection scan with its cache and the content
  boundaries. The message of an error is the error itself. A batch fetches its URLs in workers; a run of it is given by
  the order in which the workers finish, and a worker's work is one step. A reply is a record: its texts and boundary,
  and beside them the fields of other types.
\<close>

section \<open>Errors\<close>

text \<open>What can fail: the pipeline, a raw request, the snapshot index, a boundary.\<close>

datatype fetch_failure = OfPipe pipe_error | OfClient fetch_error | OfCdx cdx_error | OfBoundary string

record recovery_details =
  rd_candidates :: "CandidateURL list"
  rd_ancestor :: "(string \<times> int) option"

record daemon_error =
  de_Code :: string
  de_Cause :: fetch_failure
  de_Retryable :: bool
  de_ResumeHint :: string
  de_Details :: "recovery_details option"

text \<open>Of the errors of the network, \<open>fe_deadline\<close> tells which wrap a passed deadline, \<open>fe_timeout\<close> which are timeouts and
  \<open>fe_dial_private\<close> for which URLs a failed connection wraps the refusal of the dial guard. \<open>fe_scan\<close> is \<open>Scan\<close> of a page
  with a pattern file, \<open>fe_sha256\<close> a digest in hexadecimal, \<open>fe_random\<close> the random bytes drawn, \<open>fe_cdx\<close> the requests of the
  index client.\<close>

record fetch_env =
  fe_pipe :: pipe_env
  fe_scan :: "string \<Rightarrow> string \<Rightarrow> string + ScanWarning list"
  fe_sha256 :: "string \<Rightarrow> string"
  fe_random :: "nat \<Rightarrow> string + int list"
  fe_cdx :: "nat \<Rightarrow> string \<Rightarrow> string + int \<times> string"
  fe_deadline :: "fetch_failure \<Rightarrow> bool"
  fe_timeout :: "fetch_failure \<Rightarrow> bool"
  fe_dial_private :: "string \<Rightarrow> bool"

fun is_private_block :: "ssrf_error \<Rightarrow> bool" where
  "is_private_block (BlockedPrivateError _) = True"
| "is_private_block _ = False"

fun client_private :: "fetch_env \<Rightarrow> fetch_error \<Rightarrow> bool" where
  "client_private env (SsrfBlocked err) = is_private_block err"
| "client_private env (FetchFailed u (Some (RedirectSsrf err))) = is_private_block err"
| "client_private env (FetchFailed u (Some DialFailed)) = fe_dial_private env u"
| "client_private env _ = False"

fun client_domain :: "fetch_error \<Rightarrow> bool" where
  "client_domain (BlockedDomainError _) = True"
| "client_domain (FetchFailed u (Some (RedirectOffList _))) = True"
| "client_domain _ = False"

fun wraps_private :: "fetch_env \<Rightarrow> fetch_failure \<Rightarrow> bool" where
  "wraps_private env (OfPipe (PipeSsrf err)) = is_private_block err"
| "wraps_private env (OfPipe (PipeFetch _ err)) = client_private env err"
| "wraps_private env (OfClient err) = client_private env err"
| "wraps_private env _ = False"

fun wraps_domain :: "fetch_failure \<Rightarrow> bool" where
  "wraps_domain (OfPipe (PipeDomain _)) = True"
| "wraps_domain (OfPipe (PipeFetch _ err)) = client_domain err"
| "wraps_domain (OfClient err) = client_domain err"
| "wraps_domain _ = False"

definition typedFetchError :: "string \<Rightarrow> fetch_failure \<Rightarrow> bool \<Rightarrow> string \<Rightarrow> daemon_error" where
  "typedFetchError code err retryable hint =
     \<lparr>de_Code = code, de_Cause = err, de_Retryable = retryable, de_ResumeHint = hint, de_Details = None\<rparr>"

definition recoveryDetails :: "RecoveryHints option \<Rightarrow> recovery_details option" where
  "recoveryDetails hints =
     (case hints of
        None \<Rightarrow> None
      | Some h \<Rightarrow>
          if rh_NearestAncestor h = [] \<and> rh_Candidates h = [] then None
          else Some \<lparr>rd_candidates = rh_Candidates h,
                     rd_ancestor = (if rh_NearestAncestor h = [] then None else Some (rh_NearestAncestor h, rh_AncestorStatus h))\<rparr>)"

definition fetchTransportError :: "fetch_env \<Rightarrow> fetch_failure \<Rightarrow> int \<Rightarrow> RecoveryHints option \<Rightarrow> daemon_error" where
  "fetchTransportError env err status hints =
     (if status = 0 then
        (if fe_timeout env err then typedFetchError ''operation_timeout'' err True ''retry, or raise the operation timeout for slow hosts''
         else typedFetchError ''operation_failed'' err True ''retry; the host was not reachable on this attempt'')
      else if status = 408 \<or> status = 429 then typedFetchError ''operation_timeout'' err True ''the host asked to slow down; retry after a pause''
      else if 500 \<le> status then typedFetchError ''operation_failed'' err True ''the host failed on its side; retry''
      else if status = 401 \<or> status = 403 then
        typedFetchError ''peer_denied'' err False ''the host refused the request; a browser session with credentials may be required''
      else (typedFetchError ''operation_failed'' err False ''check the URL; the response carries candidate replacements when the probe found any'')
             \<lparr>de_Details := recoveryDetails hints\<rparr>)"

definition fetchError :: "fetch_env \<Rightarrow> fetch_failure \<Rightarrow> daemon_error" where
  "fetchError env err =
     (if wraps_private env err then
        typedFetchError ''peer_denied'' err False ''the target is a private or loopback address; start the daemon with --allow-private to permit it''
      else if wraps_domain err then typedFetchError ''peer_denied'' err False ''the target is outside the configured domain allowlist''
      else (case err of
              OfPipe (PipeBlocked _) \<Rightarrow> typedFetchError ''peer_denied'' err False (''the site'' @ [CHR 0x27] @ ''s robots.txt disallows this path'')
            | OfPipe (PipeSelector _) \<Rightarrow>
                typedFetchError ''malformed_request'' err False ''pick a selector that matches the page, or omit css_selector to fetch the whole document''
            | OfPipe (PipeSchema _ _) \<Rightarrow>
                typedFetchError ''malformed_request'' err False (''check schema_path against the page'' @ [CHR 0x27] @ ''s JSON-LD, or omit it'')
            | _ \<Rightarrow>
                if fe_deadline env err then typedFetchError ''operation_timeout'' err True ''retry, or raise the operation timeout for slow hosts''
                else (case err of
                        OfPipe (PipeFetch _ _) \<Rightarrow> fetchTransportError env err 0 None
                      | OfPipe (PipeHTTP _ status hints) \<Rightarrow> fetchTransportError env err status hints
                      | OfPipe (PipeParse _ _) \<Rightarrow>
                          typedFetchError ''operation_failed'' err False ''try format=text or raw=true to retrieve the page without semantic processing''
                      | OfPipe (PipeRender _) \<Rightarrow>
                          typedFetchError ''operation_failed'' err False ''try format=text or raw=true to retrieve the page without semantic processing''
                      | _ \<Rightarrow> typedFetchError ''operation_failed'' err False [])))"

section \<open>The runtime\<close>

record fetch_runtime =
  fr_allowlist :: allowlist
  fr_allowPrivate :: bool
  fr_robots :: bool
  fr_userAgent :: string
  fr_cacheDir :: string
  fr_cacheTTL :: duration
  fr_noCache :: bool
  fr_contentBoundaries :: bool
  fr_disableInjectionScan :: bool
  fr_injectionPatterns :: string
  fr_injectionCache :: "(string \<times> frame_warning list) list"
  fr_pipe :: pipe_state
  fr_draws :: nat

record FetchRuntimeOptions =
  fo_AllowedDomains :: "string list"
  fo_AllowPrivate :: bool
  fo_Robots :: bool
  fo_UserAgent :: string
  fo_CacheDir :: string
  fo_CacheTTL :: duration
  fo_OutputCacheDir :: string
  fo_NoCache :: bool
  fo_DisableInjectionScan :: bool
  fo_InjectionPatterns :: string
  fo_ContentBoundaries :: bool

datatype runtime_error = CreateClient string | ParseDomains pattern_error

text \<open>\<open>disk\<close> and \<open>out\<close> are the files of the cache directories at the start.\<close>

definition NewFetchRuntime ::
  "fetch_env \<Rightarrow> (string \<Rightarrow> cache_disk) \<Rightarrow> (string \<Rightarrow> (string \<rightharpoonup> string) \<times> (string \<rightharpoonup> cache_meta_file)) \<Rightarrow> FetchRuntimeOptions \<Rightarrow> runtime_error + fetch_runtime" where
  "NewFetchRuntime env disk out fo =
     (case New_client (pe_client (fe_pipe env)) 0 ProfileHonest defaultOptions None of
        Inl err \<Rightarrow> Inl (CreateClient err)
      | Inr (cl, cst) \<Rightarrow>
          (case ParseAllowlist (fo_AllowedDomains fo) of
             Inl err \<Rightarrow> Inl (ParseDomains err)
           | Inr al \<Rightarrow>
               Inr \<lparr>fr_allowlist = al, fr_allowPrivate = fo_AllowPrivate fo, fr_robots = fo_Robots fo,
                    fr_userAgent = (if fo_UserAgent fo = [] then ''symbrowse/1.0'' else fo_UserAgent fo),
                    fr_cacheDir = fo_CacheDir fo, fr_cacheTTL = fo_CacheTTL fo, fr_noCache = fo_NoCache fo,
                    fr_contentBoundaries = fo_ContentBoundaries fo, fr_disableInjectionScan = fo_DisableInjectionScan fo,
                    fr_injectionPatterns = fo_InjectionPatterns fo, fr_injectionCache = [],
                    fr_pipe = \<lparr>pl_probe = \<lparr>ps_client = cl, ps_state = cst, ps_robots = None\<rparr>, pl_disk = disk, pl_shared = None,
                      pl_store = \<lparr>ts_cache = (if fo_OutputCacheDir fo = [] then None
                                              else Some (NewCache (fo_CacheTTL fo) (fst (out (fo_OutputCacheDir fo))) (snd (out (fo_OutputCacheDir fo))))),
                                  ts_files = Map.empty\<rparr>, pl_ticks = 0\<rparr>,
                    fr_draws = 0\<rparr>))"

definition fetch_Close :: "fetch_runtime \<Rightarrow> fetch_runtime" where
  "fetch_Close rt =
     (let ps = pl_probe (fr_pipe rt);
          ps' = (case ps_client ps of
                   Honest _ \<Rightarrow> ps\<lparr>ps_state := honest_Close (ps_state ps)\<rparr>
                 | Azure c \<Rightarrow> ps\<lparr>ps_client := Azure (azure_Close c)\<rparr>)
      in rt\<lparr>fr_pipe := (fr_pipe rt)\<lparr>pl_probe := ps'\<rparr>\<rparr>)"

definition safetyOptions :: "fetch_runtime \<Rightarrow> bool \<Rightarrow> string \<Rightarrow> bool option \<Rightarrow> bool \<times> string \<times> bool" where
  "safetyOptions rt noScan pats boundaries =
     (\<not> fr_disableInjectionScan rt \<and> \<not> noScan,
      if pats = [] then fr_injectionPatterns rt else pats,
      case boundaries of None \<Rightarrow> fr_contentBoundaries rt | Some b \<Rightarrow> b)"

definition maxInjectionScanEntries :: nat where "maxInjectionScanEntries = 128"
definition maxInjectionScanHTMLBytes :: nat where "maxInjectionScanHTMLBytes = 1048576"

definition warningCacheKey :: "fetch_env \<Rightarrow> string \<Rightarrow> string \<Rightarrow> string" where
  "warningCacheKey env pageHTML pats = fe_sha256 env pageHTML @ [CHR 0x00] @ pats"

definition scanFetchedHTML :: "fetch_env \<Rightarrow> string \<Rightarrow> string \<Rightarrow> string \<Rightarrow> bool \<Rightarrow> fetch_runtime \<Rightarrow> frame_warning list \<times> fetch_runtime" where
  "scanFetchedHTML env source fallback pats turned_on rt =
     (if \<not> turned_on then ([], rt)
      else
        (let pageHTML = (if source = [] then fallback else source);
             k = warningCacheKey env (if fallback = [] then pageHTML else fallback) pats
         in case map_of (fr_injectionCache rt) k of
              Some ws \<Rightarrow> (ws, rt)
            | None \<Rightarrow>
                (let ws = scanFetchInjectionHTML maxInjectionScanHTMLBytes (fe_scan env pats) pageHTML;
                     entries = (if maxInjectionScanEntries \<le> length (fr_injectionCache rt) then [] else fr_injectionCache rt)
                 in (ws, rt\<lparr>fr_injectionCache := AList.update k ws entries\<rparr>))))"

section \<open>Arguments\<close>

record pipelineFields =
  pf_MaxChars :: int
  pf_CharLimit :: int
  pf_CSSSelector :: string
  pf_Frontmatter :: bool
  pf_IncludeLinks :: bool
  pf_Query :: string
  pf_SchemaPath :: string
  pf_StoreFullText :: bool
  pf_NoCache :: "bool option"
  pf_TopK :: int
  pf_WaybackTimestamp :: string
  pf_WaybackFallback :: bool

record fetchArgs =
  fa_URL :: string
  fa_URLs :: "string list"
  fa_Format :: string
  fa_Raw :: bool
  fa_Concurrency :: int
  fa_RetrievalSurface :: string
  fa_NoInjectionScan :: bool
  fa_InjectionPatterns :: string
  fa_ContentBoundaries :: "bool option"
  fa_fields :: pipelineFields

record waybackSnapshotsArgs =
  wa_URL :: string
  wa_From :: string
  wa_To :: string
  wa_Limit :: int
  wa_MatchType :: string

text \<open>A pointer to a boolean: here \<open>null\<close> resets it.\<close>

definition pointer_field :: "string \<Rightarrow> (string \<times> json) list \<Rightarrow> args_error + bool option" where
  "pointer_field name obj =
     (let vs = map snd (filter (\<lambda>kv. to_lower (fst kv) = name) obj) in
      if list_all (\<lambda>v. v = JNull \<or> as_bool v \<noteq> None) vs then Inr (if vs = [] then None else as_bool (last vs)) else Inl (ArgsType name))"

abbreviation "int_field \<equiv> decode_field as_int 0"
abbreviation "bool_field \<equiv> decode_field as_bool False"

text \<open>A payload with only optional fields: no arguments and \<open>null\<close> give the defaults.\<close>

definition decodeOptionalArgs :: "Frame \<Rightarrow> args_error + (string \<times> json) list" where
  "decodeOptionalArgs frame = (case Args frame of None \<Rightarrow> Inr [] | Some j \<Rightarrow> object_fields j)"

definition first_error :: "args_error option list \<Rightarrow> args_error option" where
  "first_error es = Option.bind (find (\<lambda>e. e \<noteq> None) es) (\<lambda>e. e)"

definition err_of :: "args_error + 'a \<Rightarrow> args_error option" where
  "err_of r = (case r of Inl e \<Rightarrow> Some e | Inr _ \<Rightarrow> None)"

definition url_fields :: "(string \<times> json) list \<Rightarrow> args_error + fetchArgs" where
  "url_fields obj =
     (let str = (\<lambda>n. string_field n obj); num = (\<lambda>n. int_field n obj); flag = (\<lambda>n. bool_field n obj); ptr = (\<lambda>n. pointer_field n obj) in
      case first_error
        (map (err_of \<circ> str) [''url'', ''format'', ''css_selector'', ''query'', ''schema_path'', ''wayback_timestamp'', ''retrieval_surface'', ''injection_patterns'']
         @ map (err_of \<circ> num) [''max_chars'', ''char_limit'', ''top_k'']
         @ map (err_of \<circ> flag) [''frontmatter'', ''include_links'', ''raw'', ''store_full_text'', ''wayback_fallback'', ''no_injection_scan'']
         @ map (err_of \<circ> ptr) [''no_cache'', ''content_boundaries'']) of
        Some err \<Rightarrow> Inl err
      | None \<Rightarrow>
          Inr \<lparr>fa_URL = sum_value [] (str ''url''), fa_URLs = [], fa_Format = sum_value [] (str ''format''), fa_Raw = sum_value False (flag ''raw''),
               fa_Concurrency = 0, fa_RetrievalSurface = sum_value [] (str ''retrieval_surface''),
               fa_NoInjectionScan = sum_value False (flag ''no_injection_scan''), fa_InjectionPatterns = sum_value [] (str ''injection_patterns''),
               fa_ContentBoundaries = sum_value None (ptr ''content_boundaries''),
               fa_fields =
                 \<lparr>pf_MaxChars = sum_value 0 (num ''max_chars''), pf_CharLimit = sum_value 0 (num ''char_limit''),
                  pf_CSSSelector = sum_value [] (str ''css_selector''), pf_Frontmatter = sum_value False (flag ''frontmatter''),
                  pf_IncludeLinks = sum_value False (flag ''include_links''), pf_Query = sum_value [] (str ''query''),
                  pf_SchemaPath = sum_value [] (str ''schema_path''), pf_StoreFullText = sum_value False (flag ''store_full_text''),
                  pf_NoCache = sum_value None (ptr ''no_cache''), pf_TopK = sum_value 0 (num ''top_k''),
                  pf_WaybackTimestamp = sum_value [] (str ''wayback_timestamp''), pf_WaybackFallback = sum_value False (flag ''wayback_fallback'')\<rparr>\<rparr>)"

definition batch_fields :: "(string \<times> json) list \<Rightarrow> args_error + fetchArgs" where
  "batch_fields obj =
     (let str = (\<lambda>n. string_field n obj); num = (\<lambda>n. int_field n obj); flag = (\<lambda>n. bool_field n obj); ptr = (\<lambda>n. pointer_field n obj) in
      case first_error
        (err_of (strings_field ''urls'' obj)
         # map (err_of \<circ> str) [''format'', ''retrieval_surface'', ''injection_patterns'']
         @ map (err_of \<circ> num) [''max_chars'', ''char_limit'', ''concurrency'']
         @ map (err_of \<circ> flag) [''frontmatter'', ''include_links'', ''store_full_text'', ''no_injection_scan'']
         @ map (err_of \<circ> ptr) [''no_cache'', ''content_boundaries'']) of
        Some err \<Rightarrow> Inl err
      | None \<Rightarrow>
          Inr \<lparr>fa_URL = [], fa_URLs = sum_value [] (strings_field ''urls'' obj), fa_Format = sum_value [] (str ''format''), fa_Raw = False,
               fa_Concurrency = sum_value 0 (num ''concurrency''), fa_RetrievalSurface = sum_value [] (str ''retrieval_surface''),
               fa_NoInjectionScan = sum_value False (flag ''no_injection_scan''), fa_InjectionPatterns = sum_value [] (str ''injection_patterns''),
               fa_ContentBoundaries = sum_value None (ptr ''content_boundaries''),
               fa_fields =
                 \<lparr>pf_MaxChars = sum_value 0 (num ''max_chars''), pf_CharLimit = sum_value 0 (num ''char_limit''), pf_CSSSelector = [],
                  pf_Frontmatter = sum_value False (flag ''frontmatter''), pf_IncludeLinks = sum_value False (flag ''include_links''), pf_Query = [],
                  pf_SchemaPath = [], pf_StoreFullText = sum_value False (flag ''store_full_text''),
                  pf_NoCache = sum_value None (ptr ''no_cache''), pf_TopK = 0, pf_WaybackTimestamp = [], pf_WaybackFallback = False\<rparr>\<rparr>)"

definition snapshot_fields :: "(string \<times> json) list \<Rightarrow> args_error + waybackSnapshotsArgs" where
  "snapshot_fields obj =
     (let str = (\<lambda>n. string_field n obj) in
      case first_error (map (err_of \<circ> str) [''url'', ''from'', ''to'', ''match_type''] @ [err_of (int_field ''limit'' obj)]) of
        Some err \<Rightarrow> Inl err
      | None \<Rightarrow> Inr \<lparr>wa_URL = sum_value [] (str ''url''), wa_From = sum_value [] (str ''from''), wa_To = sum_value [] (str ''to''),
                      wa_Limit = sum_value 0 (int_field ''limit'' obj), wa_MatchType = sum_value [] (str ''match_type'')\<rparr>)"

section \<open>Running the pipeline\<close>

definition pipelineOptions :: "fetch_runtime \<Rightarrow> pipelineFields \<Rightarrow> FetchPipeline.Format \<Rightarrow> PipeOptions" where
  "pipelineOptions rt f fmt =
     \<lparr>po_Format = fmt,
      po_Content = \<lparr>ct_MaxChars = pf_MaxChars f, ct_IncludeLinks = pf_IncludeLinks f, ct_CharThreshold = 0, ct_MaxIslandBytes = 0\<rparr>,
      po_Cache = \<lparr>ca_NoCache = (case pf_NoCache f of None \<Rightarrow> fr_noCache rt | Some b \<Rightarrow> b), ca_Dir = fr_cacheDir rt,
        ca_TTL = (if fr_cacheDir rt \<noteq> [] \<and> 0 < fr_cacheTTL rt then fr_cacheTTL rt else 0), ca_MaxSize = 0, ca_Shared = False\<rparr>,
      po_Profile = [], po_Session = [],
      po_Security = \<lparr>so_AllowPrivate = fr_allowPrivate rt, so_Robots = fr_robots rt, so_UserAgent = fr_userAgent rt, so_Allowlist = Some (fr_allowlist rt)\<rparr>,
      po_CSSSelector = pf_CSSSelector f, po_Frontmatter = pf_Frontmatter f, po_SchemaPath = pf_SchemaPath f, po_DisableFallback = False,
      po_Request = \<lparr>ro_Method = [], ro_Headers = [], ro_Body = []\<rparr>, po_StoreFullText = pf_StoreFullText f, po_CharLimit = pf_CharLimit f,
      po_StoreDir = [], po_WaybackFallback = pf_WaybackFallback f, po_WaybackTimestamp = pf_WaybackTimestamp f, po_Query = pf_Query f, po_TopK = pf_TopK f\<rparr>"

text \<open>Every run gets a new robots checker, if any.\<close>

definition run_pipeline :: "fetch_env \<Rightarrow> string \<Rightarrow> pipelineFields \<Rightarrow> FetchPipeline.Format \<Rightarrow> fetch_runtime \<Rightarrow> (pipe_error + PipeResult) \<times> fetch_runtime" where
  "run_pipeline env u f fmt rt =
     (let st = (fr_pipe rt)\<lparr>pl_probe := (pl_probe (fr_pipe rt))
                 \<lparr>ps_robots := (if fr_robots rt then Some (WithPrivate NewChecker (fr_allowPrivate rt)) else None)\<rparr>\<rparr>
      in case FetchPipeline.Run (fe_pipe env) u (pipelineOptions rt f fmt) st of (res, st') \<Rightarrow> (res, rt\<lparr>fr_pipe := st'\<rparr>))"

definition raw_request :: "fetch_runtime \<Rightarrow> Request" where
  "raw_request rt =
     \<lparr>rq_URL = [], rq_Method = [], rq_Headers = [], rq_Body = [], rq_UserAgent = fr_userAgent rt, rq_Timeout = 0, rq_Proxy = [],
      rq_Session = [], rq_MaxBody = 0, rq_AllowPrivate = fr_allowPrivate rt, rq_Allowlist = Some (fr_allowlist rt)\<rparr>"

definition run_raw :: "fetch_env \<Rightarrow> string \<Rightarrow> fetch_runtime \<Rightarrow> (fetch_error + Response) \<times> fetch_runtime" where
  "run_raw env u rt =
     (case RunRaw (fe_pipe env) u (raw_request rt) (pl_probe (fr_pipe rt)) of
        (res, ps') \<Rightarrow> (res, rt\<lparr>fr_pipe := (fr_pipe rt)\<lparr>pl_probe := ps'\<rparr>\<rparr>))"

section \<open>Replies\<close>

record responseMeta =
  rm_StatusCode :: int
  rm_FinalURL :: string
  rm_Lang :: string
  rm_CharCount :: int
  rm_EstTokens :: int
  rm_Truncated :: bool
  rm_LikelyClientRendered :: bool

record fetch_response =
  fp_reply :: fetch_reply
  fp_status :: "int option"
  fp_ok :: "bool option"
  fp_document :: "Document option"
  fp_meta :: "responseMeta option"
  fp_escalate :: "EscalationHint option"
  fp_warnings :: "frame_warning list"
  fp_error :: "daemon_error option"

definition plain_response :: "(string \<rightharpoonup> string) \<Rightarrow> fetch_response" where
  "plain_response fs =
     \<lparr>fp_reply = \<lparr>reply_fields = fs, content_boundaries = None\<rparr>, fp_status = None, fp_ok = None, fp_document = None, fp_meta = None,
      fp_escalate = None, fp_warnings = [], fp_error = None\<rparr>"

definition withResponseMeta :: "fetch_response \<Rightarrow> PageMeta \<Rightarrow> fetch_response" where
  "withResponseMeta resp meta =
     resp\<lparr>fp_meta := Some \<lparr>rm_StatusCode = pm_StatusCode meta, rm_FinalURL = pm_FinalURL meta, rm_Lang = pm_Lang meta, rm_CharCount = pm_CharCount meta,
       rm_EstTokens = pm_EstTokens meta, rm_Truncated = pm_Truncated meta, rm_LikelyClientRendered = pm_LikelyClientRendered meta\<rparr>\<rparr>"

definition withEscalation :: "fetch_response \<Rightarrow> PageMeta \<Rightarrow> fetch_response" where
  "withEscalation resp meta = (if pm_Escalate meta \<noteq> None then resp\<lparr>fp_escalate := pm_Escalate meta\<rparr> else resp)"

text \<open>The fields of a document: its texts, empty ones left out, and the document for the others. A document that cannot be
  printed gives no fields.\<close>

definition opt_text :: "string \<Rightarrow> string \<Rightarrow> (string \<rightharpoonup> string) \<Rightarrow> (string \<rightharpoonup> string)" where
  "opt_text k v m = (if v = [] then m else m(k \<mapsto> v))"

definition documentMap :: "fetch_env \<Rightarrow> Document \<Rightarrow> fetch_response" where
  "documentMap env doc =
     (if pe_doc_json (fe_pipe env) doc = None then plain_response Map.empty
      else (plain_response (opt_text ''lang'' (d_Lang doc) (opt_text ''title'' (d_Title doc) (opt_text ''final_url'' (d_FinalURL doc) [''url'' \<mapsto> d_URL doc]))))
             \<lparr>fp_document := Some doc\<rparr>)"

definition boundary_format :: "FetchPipeline.Format \<Rightarrow> ContentBoundary.Format" where
  "boundary_format fmt = (case fmt of FmtMarkdown \<Rightarrow> FormatMarkdown | FmtText \<Rightarrow> FormatText | _ \<Rightarrow> FormatOther)"

definition with_boundary ::
  "fetch_env \<Rightarrow> bool \<Rightarrow> ContentBoundary.Format \<Rightarrow> string \<Rightarrow> bool \<Rightarrow> fetch_response \<Rightarrow> fetch_runtime \<Rightarrow> (string + fetch_response) \<times> fetch_runtime" where
  "with_boundary env on fmt origin raw resp rt =
     (if \<not> on then (Inr resp, rt)
      else (case addFetchBoundary (fe_random env (fr_draws rt)) (fp_reply resp) fmt origin raw of
              Inl err \<Rightarrow> (Inl err, rt\<lparr>fr_draws := Suc (fr_draws rt)\<rparr>)
            | Inr reply \<Rightarrow> (Inr (resp\<lparr>fp_reply := reply\<rparr>), rt\<lparr>fr_draws := Suc (fr_draws rt)\<rparr>)))"

definition with_hint :: "string \<Rightarrow> string \<Rightarrow> fetch_response \<Rightarrow> fetch_response" where
  "with_hint out surface resp = resp\<lparr>fp_reply := addFetchCacheHint (fp_reply resp) out surface\<rparr>"

section \<open>Handlers\<close>

record snapshot_entry =
  se_timestamp :: string
  se_url :: string
  se_status :: string
  se_mime_type :: string
  se_digest :: string

datatype fetch_answer = OneReply fetch_response | BatchReply "fetch_response list" | SnapshotsReply "snapshot_entry list"

datatype fetch_frame_error =
    FrArgs args_error
  | FrMalformed string
  | FrUnknown string
  | FrFailed daemon_error
  | FrBoundary string
  | FrPanic

fun is_panic :: "pipe_error \<Rightarrow> bool" where
  "is_panic PipePanic = True"
| "is_panic (PipeFetch _ err) = (err = ClientPanic)"
| "is_panic _ = False"

definition raw_response :: "string \<Rightarrow> Response \<Rightarrow> fetch_response" where
  "raw_response u resp =
     (plain_response [''url'' \<mapsto> u, ''final_url'' \<mapsto> rs_FinalURL resp, ''content'' \<mapsto> rs_Body resp, ''content_type'' \<mapsto> rs_ContentType resp])
       \<lparr>fp_status := Some (rs_StatusCode resp)\<rparr>"

definition page_response :: "fetch_env \<Rightarrow> FetchPipeline.Format \<Rightarrow> PipeResult \<Rightarrow> fetch_response" where
  "page_response env fmt r =
     (case fmt of
        FmtJSON \<Rightarrow> withResponseMeta (documentMap env (pr_Doc r)) (pr_Meta r)
      | FmtText \<Rightarrow> withResponseMeta (withEscalation (plain_response [''url'' \<mapsto> d_URL (pr_Doc r), ''content'' \<mapsto> pr_Output r]) (pr_Meta r)) (pr_Meta r)
      | _ \<Rightarrow> withResponseMeta (withEscalation
               (plain_response [''url'' \<mapsto> d_URL (pr_Doc r), ''title'' \<mapsto> d_Title (pr_Doc r), ''markdown'' \<mapsto> pr_Output r]) (pr_Meta r)) (pr_Meta r))"

definition fetch_raw :: "fetch_env \<Rightarrow> fetchArgs \<Rightarrow> fetch_runtime \<Rightarrow> (fetch_frame_error + fetch_response \<times> frame_warning list) \<times> fetch_runtime" where
  "fetch_raw env args rt =
     (case safetyOptions rt (fa_NoInjectionScan args) (fa_InjectionPatterns args) (fa_ContentBoundaries args) of
        (scan_on, pats, boundaries) \<Rightarrow>
          (case run_raw env (fa_URL args) rt of
             (Inl err, rt1) \<Rightarrow> (Inl (if err = ClientPanic then FrPanic else FrFailed (fetchError env (OfClient err))), rt1)
           | (Inr resp, rt1) \<Rightarrow>
               (case with_boundary env boundaries FormatText (rs_FinalURL resp) True (raw_response (fa_URL args) resp) rt1 of
                  (Inl err, rt2) \<Rightarrow> (Inl (FrBoundary err), rt2)
                | (Inr reply, rt2) \<Rightarrow>
                    (case scanFetchedHTML env (rs_Body resp) (rs_Body resp) pats scan_on rt2 of (ws, rt3) \<Rightarrow> (Inr (reply, ws), rt3)))))"

definition fetch_page :: "fetch_env \<Rightarrow> fetchArgs \<Rightarrow> FetchPipeline.Format \<Rightarrow> fetch_runtime \<Rightarrow> (fetch_frame_error + fetch_response \<times> frame_warning list) \<times> fetch_runtime" where
  "fetch_page env args fmt rt =
     (case safetyOptions rt (fa_NoInjectionScan args) (fa_InjectionPatterns args) (fa_ContentBoundaries args) of
        (scan_on, pats, boundaries) \<Rightarrow>
          (case run_pipeline env (fa_URL args) (fa_fields args) fmt rt of
             (Inl err, rt1) \<Rightarrow> (Inl (if is_panic err then FrPanic else FrFailed (fetchError env (OfPipe err))), rt1)
           | (Inr r, rt1) \<Rightarrow>
               (case scanFetchedHTML env (pr_SourceHTML r) (pr_Output r) pats scan_on rt1 of
                  (ws, rt2) \<Rightarrow>
                    (case with_boundary env boundaries (boundary_format fmt) (pm_FinalURL (pr_Meta r)) False (page_response env fmt r) rt2 of
                       (Inl err, rt3) \<Rightarrow> (Inl (FrBoundary err), rt3)
                     | (Inr reply, rt3) \<Rightarrow> (Inr (with_hint (pr_Output r) (fa_RetrievalSurface args) reply, ws), rt3)))))"

definition handleFetchURL :: "fetch_env \<Rightarrow> Frame \<Rightarrow> fetch_runtime \<Rightarrow> (fetch_frame_error + fetch_response \<times> frame_warning list) \<times> fetch_runtime" where
  "handleFetchURL env frame rt =
     (case case_sum Inl url_fields (decodeOptionalArgs frame) of
        Inl err \<Rightarrow> (Inl (FrArgs err), rt)
      | Inr args \<Rightarrow>
          if fa_URL args = [] then (Inl (FrMalformed ''fetch.url requires a url argument''), rt)
          else (case ParseFormat (pe_lower (fe_pipe env)) (fa_Format args) of
                  Inl msg \<Rightarrow> (Inl (FrMalformed msg), rt)
                | Inr fmt \<Rightarrow> if fa_Raw args then fetch_raw env args rt else fetch_page env args fmt rt))"

definition failed_entry :: "string \<Rightarrow> daemon_error \<Rightarrow> fetch_response" where
  "failed_entry u err = (plain_response [''url'' \<mapsto> u])\<lparr>fp_ok := Some False, fp_error := Some err\<rparr>"

text \<open>A panic in a worker ends the daemon, \<^const>\<open>None\<close>.\<close>

definition fetchBatchEntry :: "fetch_env \<Rightarrow> fetchArgs \<Rightarrow> FetchPipeline.Format \<Rightarrow> string \<Rightarrow> fetch_runtime \<Rightarrow> fetch_response option \<times> fetch_runtime" where
  "fetchBatchEntry env args fmt u rt =
     (case safetyOptions rt (fa_NoInjectionScan args) (fa_InjectionPatterns args) (fa_ContentBoundaries args) of
        (scan_on, pats, boundaries) \<Rightarrow>
          (case run_pipeline env u (fa_fields args) fmt rt of
             (Inl err, rt1) \<Rightarrow> (if is_panic err then None else Some (failed_entry u (fetchError env (OfPipe err))), rt1)
           | (Inr r, rt1) \<Rightarrow>
               (let content = (if fmt = FmtJSON then (case pe_doc_json (fe_pipe env) (pr_Doc r) of Some t \<Rightarrow> t | None \<Rightarrow> ''{}'') else pr_Output r);
                    resp = withResponseMeta (withEscalation ((plain_response [''url'' \<mapsto> u, ''content'' \<mapsto> content])\<lparr>fp_ok := Some True\<rparr>) (pr_Meta r)) (pr_Meta r)
                in case scanFetchedHTML env (pr_SourceHTML r) content pats scan_on rt1 of
                     (ws, rt2) \<Rightarrow>
                       (case with_boundary env boundaries (boundary_format fmt) (pm_FinalURL (pr_Meta r)) False (resp\<lparr>fp_warnings := ws\<rparr>) rt2 of
                          (Inl err, rt3) \<Rightarrow> (Some (failed_entry u (typedFetchError ''operation_failed'' (OfBoundary err) False [])), rt3)
                        | (Inr reply, rt3) \<Rightarrow> (Some (with_hint (pr_Output r) (fa_RetrievalSurface args) reply), rt3)))))"

definition batchConcurrency :: "int \<Rightarrow> nat" where
  "batchConcurrency requested = (if requested \<le> 0 then 4 else if 8 < requested then 8 else nat requested)"

text \<open>The workers in the order they finish: with \<open>c\<close> places the worker of index \<open>i\<close> starts only after all but \<open>c - 1\<close> of the
  earlier ones have finished.\<close>

definition worker_order :: "nat \<Rightarrow> nat \<Rightarrow> nat list \<Rightarrow> bool" where
  "worker_order c n order \<longleftrightarrow> distinct order \<and> set order = {..<n} \<and> list_all (\<lambda>k. order ! k < k + c) [0..<length order]"

fun run_workers :: "(string \<Rightarrow> fetch_runtime \<Rightarrow> fetch_response option \<times> fetch_runtime) \<Rightarrow> string list \<Rightarrow> nat list \<Rightarrow> fetch_runtime \<Rightarrow> fetch_response list option \<times> fetch_runtime" where
  "run_workers work urls [] rt = (Some [], rt)"
| "run_workers work urls (i # order) rt =
     (case work (urls ! i) rt of
        (None, rt1) \<Rightarrow> (None, rt1)
      | (Some e, rt1) \<Rightarrow> (case run_workers work urls order rt1 of (es, rt2) \<Rightarrow> (map_option (Cons e) es, rt2)))"

text \<open>The reply for every position: the index is that of the last position of a URL, and a later entry overwrites.\<close>

definition place_entry :: "string list \<Rightarrow> fetch_response option list \<Rightarrow> fetch_response \<Rightarrow> fetch_response option list" where
  "place_entry urls ordered e =
     (case Option.bind (reply_fields (fp_reply e) ''url'') (map_of (rev (zip urls [0..<length urls]))) of
        None \<Rightarrow> ordered
      | Some i \<Rightarrow> ordered[i := Some e])"

definition missing_entry :: "string \<Rightarrow> fetch_response" where
  "missing_entry u = (plain_response [''url'' \<mapsto> u, ''error'' \<mapsto> ''fetch failed''])\<lparr>fp_ok := Some False\<rparr>"

definition in_input_order :: "string list \<Rightarrow> fetch_response list \<Rightarrow> fetch_response list" where
  "in_input_order urls results =
     map2 (\<lambda>u e. case e of None \<Rightarrow> missing_entry u | Some r \<Rightarrow> r) urls (foldl (place_entry urls) (replicate (length urls) None) results)"

definition handleFetchBatch :: "fetch_env \<Rightarrow> nat list \<Rightarrow> Frame \<Rightarrow> fetch_runtime \<Rightarrow> (fetch_frame_error + fetch_response list) \<times> fetch_runtime" where
  "handleFetchBatch env order frame rt =
     (case case_sum Inl batch_fields (decodeOptionalArgs frame) of
        Inl err \<Rightarrow> (Inl (FrArgs err), rt)
      | Inr args \<Rightarrow>
          if fa_URLs args = [] then (Inl (FrMalformed ''fetch.batch requires a urls array''), rt)
          else if 20 < length (fa_URLs args) then (Inl (FrMalformed ''fetch.batch supports at most 20 urls''), rt)
          else (case ParseFormat (pe_lower (fe_pipe env)) (fa_Format args) of
                  Inl msg \<Rightarrow> (Inl (FrMalformed msg), rt)
                | Inr fmt \<Rightarrow>
                    (case run_workers (fetchBatchEntry env args fmt) (fa_URLs args) order rt of
                       (None, rt1) \<Rightarrow> (Inl FrPanic, rt1)
                     | (Some results, rt1) \<Rightarrow> (Inr (in_input_order (fa_URLs args) results), rt1))))"

definition snapshot_entry_of :: "Archive.Snapshot \<Rightarrow> snapshot_entry" where
  "snapshot_entry_of s =
     \<lparr>se_timestamp = sn_Timestamp s, se_url = sn_Original s, se_status = sn_StatusCode s, se_mime_type = sn_MimeType s, se_digest = sn_Digest s\<rparr>"

definition handleWaybackSnapshots :: "fetch_env \<Rightarrow> Frame \<Rightarrow> fetch_runtime \<Rightarrow> (fetch_frame_error + snapshot_entry list) \<times> fetch_runtime" where
  "handleWaybackSnapshots env frame rt =
     (case case_sum Inl snapshot_fields (decodeOptionalArgs frame) of
        Inl err \<Rightarrow> (Inl (FrArgs err), rt)
      | Inr args \<Rightarrow>
          if wa_URL args = [] then (Inl (FrMalformed ''wayback.snapshots requires a url argument''), rt)
          else if wa_MatchType args \<notin> set [[], ''exact'', ''prefix'', ''host''] then (Inl (FrMalformed ''match_type must be exact, prefix, or host''), rt)
          else (case CheckAllowlist (pe_parse (fe_pipe env)) (wa_URL args) (Some (fr_allowlist rt)) of
                  Some err \<Rightarrow> (Inl (FrFailed (fetchError env (OfPipe (PipeDomain err)))), rt)
                | None \<Rightarrow>
                    (case Lookup (fe_cdx env (fr_draws rt)) []
                            \<lparr>cq_URL = wa_URL args, cq_From = wa_From args, cq_To = wa_To args, cq_Limit = wa_Limit args, cq_MatchType = wa_MatchType args\<rparr> of
                       Inl err \<Rightarrow> (Inl (FrFailed (fetchError env (OfCdx err))), rt\<lparr>fr_draws := Suc (fr_draws rt)\<rparr>)
                     | Inr snaps \<Rightarrow> (Inr (map snapshot_entry_of snaps), rt\<lparr>fr_draws := Suc (fr_draws rt)\<rparr>))))"

definition fetch_handle ::
  "fetch_env \<Rightarrow> nat list \<Rightarrow> Frame \<Rightarrow> fetch_runtime \<Rightarrow> (fetch_frame_error + fetch_answer \<times> frame_warning list) \<times> fetch_runtime" where
  "fetch_handle env order frame rt =
     (if Cmd frame = ''fetch.url'' then apfst (map_sum id (apfst OneReply)) (handleFetchURL env frame rt)
      else if Cmd frame = ''fetch.batch'' then apfst (map_sum id (\<lambda>rs. (BatchReply rs, []))) (handleFetchBatch env order frame rt)
      else if Cmd frame = ''wayback.snapshots'' then apfst (map_sum id (\<lambda>ss. (SnapshotsReply ss, []))) (handleWaybackSnapshots env frame rt)
      else (Inl (FrUnknown (Cmd frame)), rt))"

section \<open>Replies of a batch\<close>

lemma addFetchBoundary_url:
  assumes "addFetchBoundary rnd reply fmt origin raw = Inr reply'"
  shows "reply_fields reply' ''url'' = reply_fields reply ''url''" and "reply_fields reply' ''final_url'' = reply_fields reply ''final_url''"
  using assms by (auto simp: addFetchBoundary_def wrap_field_def Let_def split: sum.splits option.splits if_splits ContentBoundary.Format.splits)

lemma addFetchCacheHint_url: "reply_fields (addFetchCacheHint reply out surface) ''url'' = reply_fields reply ''url''"
  by (simp add: addFetchCacheHint_def Let_def)

lemma with_boundary_keeps:
  assumes "with_boundary env on fmt origin raw resp rt = (Inr resp', rt')"
  shows "reply_fields (fp_reply resp') ''url'' = reply_fields (fp_reply resp) ''url''"
    and "reply_fields (fp_reply resp') ''final_url'' = reply_fields (fp_reply resp) ''final_url''"
    and "fp_meta resp' = fp_meta resp" and "fp_status resp' = fp_status resp"
  using assms by (auto simp: with_boundary_def split: if_splits sum.splits dest: addFetchBoundary_url)

lemma with_boundary_runtime: "with_boundary env on fmt origin raw resp rt = (res, rt') \<Longrightarrow> fr_allowlist rt' = fr_allowlist rt"
  by (auto simp: with_boundary_def split: if_splits sum.splits)

lemma scanFetchedHTML_runtime: "scanFetchedHTML env source fallback pats turned_on rt = (ws, rt') \<Longrightarrow> fr_allowlist rt' = fr_allowlist rt"
  by (auto simp: scanFetchedHTML_def Let_def split: if_splits option.splits)

lemma run_pipeline_runtime: "run_pipeline env u f fmt rt = (res, rt') \<Longrightarrow> fr_allowlist rt' = fr_allowlist rt"
  by (auto simp: run_pipeline_def Let_def split: prod.splits)

lemmas runtime_keeps = with_boundary_runtime scanFetchedHTML_runtime run_pipeline_runtime

lemma withEscalation_simps [simp]:
  "fp_reply (withEscalation resp meta) = fp_reply resp" "fp_meta (withEscalation resp meta) = fp_meta resp"
  by (simp_all add: withEscalation_def)

lemma withResponseMeta_simps [simp]:
  "fp_reply (withResponseMeta resp meta) = fp_reply resp" "map_option rm_FinalURL (fp_meta (withResponseMeta resp meta)) = Some (pm_FinalURL meta)"
  by (simp_all add: withResponseMeta_def)

lemma with_hint_simps [simp]: "fp_meta (with_hint out surface resp) = fp_meta resp"
    "reply_fields (fp_reply (with_hint out surface resp)) ''url'' = reply_fields (fp_reply resp) ''url''"
  by (simp_all add: with_hint_def addFetchCacheHint_url)

lemma batch_entry_url:
  assumes "fetchBatchEntry env args fmt u rt = (Some e, rt')"
  shows "reply_fields (fp_reply e) ''url'' = Some u"
  using assms
  by (auto simp: fetchBatchEntry_def failed_entry_def plain_response_def Let_def split: prod.splits sum.splits if_splits option.splits
      dest!: with_boundary_keeps(1))

lemma batch_entry_runtime:
  assumes "fetchBatchEntry env args fmt u rt = (e, rt')" shows "fr_allowlist rt' = fr_allowlist rt"
  using assms by (auto simp: fetchBatchEntry_def Let_def split: prod.splits sum.splits if_splits dest!: runtime_keeps)

lemma run_workers_each:
  assumes "run_workers work urls order rt = (Some es, rt')" and "\<And>u s e s'. work u s = (Some e, s') \<Longrightarrow> P u e"
  shows "list_all2 (\<lambda>i e. P (urls ! i) e) order es"
  using assms by (induction order arbitrary: rt es) (auto split: prod.splits option.splits)

lemma run_workers_invariant:
  assumes "run_workers work urls order rt = (Some es, rt')" and "I rt" and "\<And>u s e s'. I s \<Longrightarrow> work u s = (e, s') \<Longrightarrow> I s'"
    and "\<And>u s e s'. I s \<Longrightarrow> work u s = (Some e, s') \<Longrightarrow> P e"
  shows "list_all P es"
  using assms(1,2)
proof (induction order arbitrary: rt es)
  case (Cons i order)
  then obtain e rt1 es1 where "work (urls ! i) rt = (Some e, rt1)" "run_workers work urls order rt1 = (Some es1, rt')" "es = e # es1"
    by (auto split: prod.splits option.splits)
  then show ?case using Cons assms(3,4) by auto
qed simp

lemma url_index:
  assumes "distinct urls" and "i < length urls"
  shows "map_of (rev (zip urls [0..<length urls])) (urls ! i) = Some i"
  using assms by (intro map_of_is_SomeI) (auto simp: rev_map [symmetric] set_zip)

lemma place_entries:
  assumes "distinct urls" and "distinct order" and "set order \<subseteq> {..<length urls}"
    and "list_all2 (\<lambda>i e. reply_fields (fp_reply e) ''url'' = Some (urls ! i)) order es" and "length ordered = length urls"
  shows "length (foldl (place_entry urls) ordered es) = length urls
    \<and> map ((!) (foldl (place_entry urls) ordered es)) order = map Some es
    \<and> (\<forall>j. j \<notin> set order \<longrightarrow> foldl (place_entry urls) ordered es ! j = ordered ! j)"
  using assms(4,2,3,5)
proof (induction order es arbitrary: ordered rule: list_all2_induct)
  case (Cons i order e es)
  let ?next = "place_entry urls ordered e"
  have step_eq: "?next = ordered[i := Some e]" using Cons.hyps(1) Cons.prems url_index [OF assms(1), of i] by (simp add: place_entry_def)
  show ?case using Cons.IH [of ?next] Cons.prems by (auto simp: step_eq)
qed simp

text \<open>C10. Whatever order the workers finish in, the replies of a batch of different URLs are those of the workers, each at the place
  of its URL.\<close>

theorem batch_keeps_order:
  assumes "handleFetchBatch env order frame rt = (Inr replies, rt')"
    and "case_sum Inl batch_fields (decodeOptionalArgs frame) = Inr args"
    and "worker_order (batchConcurrency (fa_Concurrency args)) (length (fa_URLs args)) order"
    and "distinct (fa_URLs args)"
  shows "\<exists>fmt results. run_workers (fetchBatchEntry env args fmt) (fa_URLs args) order rt = (Some results, rt')
    \<and> map ((!) replies) order = results \<and> map (\<lambda>r. reply_fields (fp_reply r) ''url'') replies = map Some (fa_URLs args)"
proof -
  let ?urls = "fa_URLs args"
  from assms(1,2) obtain fmt results where run: "run_workers (fetchBatchEntry env args fmt) ?urls order rt = (Some results, rt')"
    and replies: "replies = in_input_order ?urls results"
    by (auto simp: handleFetchBatch_def split: sum.splits if_splits prod.splits option.splits)
  let ?placed = "foldl (place_entry ?urls) (replicate (length ?urls) None) results"
  have order: "distinct order" "set order = {..<length ?urls}" using assms(3) by (auto simp: worker_order_def)
  have each: "list_all2 (\<lambda>i e. reply_fields (fp_reply e) ''url'' = Some (?urls ! i)) order results"
    using run_workers_each [OF run, where P = "\<lambda>u e. reply_fields (fp_reply e) ''url'' = Some u"] batch_entry_url by blast
  have placed: "length ?placed = length ?urls" "map ((!) ?placed) order = map Some results"
    using place_entries [OF assms(4) order(1) _ each] order(2) by auto
  have at_place: "replies ! i = the (?placed ! i)" if "i < length ?urls" "?placed ! i \<noteq> None" for i
    using that placed(1) by (auto simp: replies in_input_order_def)
  have put: "?placed ! (order ! k) = Some (results ! k)" if "k < length order" for k
    using that arg_cong [OF placed(2), of "\<lambda>xs. xs ! k"] list_all2_lengthD [OF each] by simp
  have home: "replies ! (order ! k) = results ! k" if "k < length order" for k
    using at_place [of "order ! k"] put [OF that] nth_mem [OF that] order(2) by auto
  have "reply_fields (fp_reply (replies ! i)) ''url'' = Some (?urls ! i)" if "i < length ?urls" for i
  proof -
    from that order(2) obtain k where "k < length order" "order ! k = i" by (metis in_set_conv_nth lessThan_iff)
    then show ?thesis using home [of k] list_all2_nthD [OF each] by auto
  qed
  moreover have "length replies = length ?urls" using placed(1) by (simp add: replies in_input_order_def)
  moreover have "map ((!) replies) order = results" using home list_all2_lengthD [OF each] by (auto intro: nth_equalityI)
  ultimately show ?thesis using run by (auto intro!: exI nth_equalityI)
qed

section \<open>Every answer is allowed\<close>

text \<open>The URLs the pages of an answer were finally loaded from.\<close>

definition reply_finals :: "fetch_response \<Rightarrow> string list" where
  "reply_finals r =
     (case fp_meta r of Some m \<Rightarrow> [rm_FinalURL m] | None \<Rightarrow> [])
     @ (if fp_status r = None then [] else (case reply_fields (fp_reply r) ''final_url'' of Some u \<Rightarrow> [u] | None \<Rightarrow> []))"

fun answer_finals :: "fetch_answer \<Rightarrow> string list" where
  "answer_finals (OneReply r) = reply_finals r"
| "answer_finals (BatchReply rs) = concat (map reply_finals rs)"
| "answer_finals (SnapshotsReply _) = []"

definition permitted :: "fetch_env \<Rightarrow> allowlist \<Rightarrow> string \<Rightarrow> bool" where
  "permitted env al u \<longleftrightarrow> u = [] \<or> CheckAllowlist (pe_parse (fe_pipe env)) u (Some al) = None"

lemma run_pipeline_permitted:
  assumes "run_pipeline env u f fmt rt = (Inr r, rt')" shows "permitted env (fr_allowlist rt) (pm_FinalURL (pr_Meta r))"
  using assms by (auto simp: run_pipeline_def permitted_def pipelineOptions_def Let_def split: prod.splits dest!: run_final)

lemma run_raw_permitted:
  assumes "run_raw env u rt = (Inr resp, rt')" shows "permitted env (fr_allowlist rt) (rs_FinalURL resp)"
  using assms by (auto simp: run_raw_def RunRaw_def probe_fetch_def raw_request_def permitted_def split: prod.splits dest!: final_url_is_checked(1))

lemma page_response_finals: "reply_finals (page_response env fmt r) = [pm_FinalURL (pr_Meta r)]"
  by (cases fmt) (simp_all add: reply_finals_def page_response_def withResponseMeta_def withEscalation_def documentMap_def plain_response_def)

lemma reply_finals_hint: "reply_finals (with_hint out surface r) = reply_finals r"
  by (simp add: reply_finals_def with_hint_def addFetchCacheHint_def Let_def)

lemma reply_finals_boundary:
  assumes "with_boundary env on fmt origin raw resp rt = (Inr resp', rt')" shows "reply_finals resp' = reply_finals resp"
  using with_boundary_keeps(2-4) [OF assms] by (simp add: reply_finals_def)

lemma fetch_page_permitted:
  assumes "fetch_page env args fmt rt = (Inr (reply, ws), rt')" shows "list_all (permitted env (fr_allowlist rt)) (reply_finals reply)"
  using assms by (auto simp: fetch_page_def reply_finals_hint page_response_finals split: prod.splits sum.splits if_splits
      dest!: reply_finals_boundary run_pipeline_permitted)

lemma raw_response_finals: "reply_finals (raw_response u resp) = [rs_FinalURL resp]"
  by (simp add: reply_finals_def raw_response_def plain_response_def)

lemma fetch_raw_permitted:
  assumes "fetch_raw env args rt = (Inr (reply, ws), rt')" shows "list_all (permitted env (fr_allowlist rt)) (reply_finals reply)"
  using assms by (auto simp: fetch_raw_def raw_response_finals split: prod.splits sum.splits if_splits
      dest!: reply_finals_boundary run_raw_permitted)

lemma batch_entry_permitted:
  assumes "fetchBatchEntry env args fmt u rt = (Some e, rt')" shows "list_all (permitted env (fr_allowlist rt)) (reply_finals e)"
proof -
  have failed: "reply_finals (failed_entry u err) = []" for err by (simp add: reply_finals_def failed_entry_def plain_response_def)
  have page: "reply_finals (withResponseMeta (withEscalation ((plain_response fs)\<lparr>fp_ok := Some True\<rparr>) meta) meta\<lparr>fp_warnings := ws\<rparr>) = [pm_FinalURL meta]"
    for fs meta ws by (simp add: reply_finals_def withResponseMeta_def withEscalation_def plain_response_def)
  show ?thesis using assms
    by (auto simp: fetchBatchEntry_def failed page reply_finals_hint Let_def split: prod.splits sum.splits if_splits option.splits
        dest!: reply_finals_boundary run_pipeline_permitted)
qed

lemma placed_from:
  assumes "Some r \<in> set (foldl (place_entry urls) ordered es)" shows "Some r \<in> set ordered \<or> r \<in> set es"
  using assms
proof (induction es arbitrary: ordered)
  case (Cons e es)
  then have "Some r \<in> set (place_entry urls ordered e) \<or> r \<in> set es" by simp
  then show ?case using set_update_subset_insert [of ordered _ "Some e"] by (auto simp: place_entry_def split: option.splits)
qed simp

lemma in_input_order_from: "r \<in> set (in_input_order urls es) \<Longrightarrow> r \<in> set es \<or> (\<exists>u. r = missing_entry u)"
  by (auto simp: in_input_order_def split: option.splits dest!: set_zip_rightD placed_from)

lemma batch_permitted:
  assumes "handleFetchBatch env order frame rt = (Inr replies, rt')" and "r \<in> set replies"
  shows "list_all (permitted env (fr_allowlist rt)) (reply_finals r)"
proof -
  let ?P = "\<lambda>e. list_all (permitted env (fr_allowlist rt)) (reply_finals e)"
  from assms(1) obtain args fmt results where run: "run_workers (fetchBatchEntry env args fmt) (fa_URLs args) order rt = (Some results, rt')"
    and "replies = in_input_order (fa_URLs args) results"
    by (auto simp: handleFetchBatch_def split: sum.splits if_splits prod.splits option.splits)
  with assms(2) consider "r \<in> set results" | u where "r = missing_entry u" using in_input_order_from by blast
  then show ?thesis
  proof cases
    case 1
    have "list_all ?P results"
      using run_workers_invariant [OF run, where I = "\<lambda>s. fr_allowlist s = fr_allowlist rt" and P = ?P] batch_entry_runtime batch_entry_permitted by metis
    with 1 show ?thesis by (simp add: list_all_iff)
  qed (simp add: missing_entry_def reply_finals_def plain_response_def)
qed

lemma map_sum_Inr_iff: "map_sum f g x = Inr y \<longleftrightarrow> (\<exists>z. x = Inr z \<and> y = g z)"
  by (cases x) auto

text \<open>C9. Every page in an answer of the runtime, of a single fetch, a raw one or a batch, was finally loaded from a URL on the
  runtime's allowlist; a cached entry may name no URL.\<close>

theorem answers_are_allowed:
  assumes "fetch_handle env order frame rt = (Inr (a, ws), rt')"
  shows "list_all (permitted env (fr_allowlist rt)) (answer_finals a)"
proof -
  have one: "list_all (permitted env (fr_allowlist rt)) (reply_finals r)" if "handleFetchURL env frame rt = (Inr (r, ws), rt')" for r
    using that fetch_page_permitted fetch_raw_permitted by (auto simp: handleFetchURL_def split: sum.splits if_splits)
  have all: "list_all (permitted env (fr_allowlist rt)) (concat (map reply_finals rs))" if "handleFetchBatch env order frame rt = (Inr rs, rt')" for rs
    using batch_permitted [OF that] by (auto simp: list_all_iff)
  show ?thesis using assms one all
    by (auto simp: fetch_handle_def apfst_def map_prod_def map_sum_Inr_iff split: if_splits prod.splits)
qed

section \<open>Example\<close>

text \<open>A refused URL is refused before anything else happens.\<close>

lemma refused_run:
  assumes "CheckAllowlist (pe_parse (fe_pipe env)) u (Some (fr_allowlist rt)) = Some err"
  obtains rt1 where "run_pipeline env u f fmt rt = (Inl (PipeDomain err), rt1)"
proof -
  have "begin_run (fe_pipe env) u (set_defaults (pipelineOptions rt f fmt)) st = (Inl (PipeDomain err), st)" for st
    using assms by (simp add: begin_run_def pipelineOptions_def)
  then have "FetchPipeline.Run (fe_pipe env) u (pipelineOptions rt f fmt) st = (Inl (PipeDomain err), st)" for st
    by (subst FetchPipeline.Run.simps) (simp add: Let_def)
  then show thesis using that by (simp add: run_pipeline_def Let_def)
qed

definition demo_fetch_env :: fetch_env where
  "demo_fetch_env =
     \<lparr>fe_pipe = demo_pipe, fe_scan = (\<lambda>_ _. Inr []), fe_sha256 = (\<lambda>s. s), fe_random = (\<lambda>_. Inr [1]), fe_cdx = (\<lambda>_ u. Inl u),
      fe_deadline = (\<lambda>_. False), fe_timeout = (\<lambda>_. False), fe_dial_private = (\<lambda>_. False)\<rparr>"

definition demo_allow :: allowlist where
  "demo_allow = \<lparr>active = True, exact = {''a.test''}, suffixes = [], patterns = [''a.test'']\<rparr>"

definition demo_fields :: pipelineFields where
  "demo_fields =
     \<lparr>pf_MaxChars = 0, pf_CharLimit = 0, pf_CSSSelector = [], pf_Frontmatter = False, pf_IncludeLinks = False, pf_Query = [], pf_SchemaPath = [],
      pf_StoreFullText = False, pf_NoCache = None, pf_TopK = 0, pf_WaybackTimestamp = [], pf_WaybackFallback = False\<rparr>"

definition demo_runtime0 :: fetch_runtime where
  "demo_runtime0 =
     \<lparr>fr_allowlist = demo_allow, fr_allowPrivate = True, fr_robots = False, fr_userAgent = ''u'', fr_cacheDir = ''/c'', fr_cacheTTL = hour, fr_noCache = False,
      fr_contentBoundaries = False, fr_disableInjectionScan = True, fr_injectionPatterns = [], fr_injectionCache = [], fr_pipe = demo_pipe_state, fr_draws = 0\<rparr>"

text \<open>The runtime with a page in its cache directory.\<close>

definition demo_runtime :: fetch_runtime where
  "demo_runtime =
     (let k = cache_key (\<lambda>s. s) (cache_request ''https://a.test/x'' (set_defaults (pipelineOptions demo_runtime0 demo_fields FmtText))) in
      demo_runtime0\<lparr>fr_pipe := demo_pipe_state\<lparr>pl_disk := (\<lambda>_. \<lparr>cd_bodies = [k \<mapsto> ''Hello''], cd_metas = [k \<mapsto> GoodMeta demo_cached], cd_index = NoIndex\<rparr>)\<rparr>\<rparr>)"

lemma NewWithClock_files:
  "bodies (NewWithClock wall io meta_size fnames b m i d sz) = b" "metas (NewWithClock wall io meta_size fnames b m i d sz) = m"
  by (auto simp: NewWithClock_def reconcileIndex_def save_def Let_def split: prod.splits option.splits)

lemma pipelineOptions_state: "pipelineOptions (rt\<lparr>fr_pipe := x\<rparr>) f fmt = pipelineOptions rt f fmt"
  by (auto simp: pipelineOptions_def split: option.split)

definition demo_result :: PipeResult where
  "demo_result =
     \<lparr>pr_Doc = empty_document ''https://a.test/x'' ''https://a.test/y'', pr_Output = ''Hello'', pr_Meta = empty_meta ''https://a.test/y'' 200 [], pr_SourceHTML = []\<rparr>"

lemma demo_hit: "\<exists>rt1. run_pipeline demo_fetch_env ''https://a.test/x'' demo_fields FmtText demo_runtime = (Inr demo_result, rt1)"
proof -
  let ?u = "''https://a.test/x''" and ?v = "''https://a.test/y''"
  let ?po = "pipelineOptions demo_runtime demo_fields FmtText"
  let ?o = "set_defaults ?po" and ?st = "fr_pipe demo_runtime\<lparr>pl_probe := (pl_probe (fr_pipe demo_runtime))\<lparr>ps_robots := None\<rparr>\<rparr>"
  let ?k = "cache_key (\<lambda>s. s) (cache_request ?u ?o)"
  have po: "?po = pipelineOptions demo_runtime0 demo_fields FmtText" unfolding demo_runtime_def Let_def by (rule pipelineOptions_state)
  have al: "so_Allowlist (po_Security ?po) = Some demo_allow" "so_AllowPrivate (po_Security ?po)" "ca_NoCache (po_Cache ?po) = False" "ca_Shared (po_Cache ?po) = False"
    unfolding po by (simp_all add: pipelineOptions_def demo_runtime0_def demo_fields_def)
  have g: "CheckAllowlist (pe_parse demo_pipe) ?u (Some demo_allow) = None" "CheckAllowlist (pe_parse demo_pipe) ?v (Some demo_allow) = None" by code_simp+
  have s: "pe_digest demo_pipe = (\<lambda>s. s)" "pe_clock demo_pipe = (\<lambda>_ _. 5)" by (simp_all add: demo_pipe_def)
  have disk: "pl_disk ?st = (\<lambda>_. \<lparr>cd_bodies = [?k \<mapsto> ''Hello''], cd_metas = [?k \<mapsto> GoodMeta demo_cached], cd_index = NoIndex\<rparr>)"
    unfolding po by (simp add: demo_runtime_def Let_def)
  obtain d c st1 where n: "newCache demo_pipe ?o ?st = (Some (Opened d c), st1)" and c: "cache_of st1 (Opened d c) = Some c"
      and f: "bodies c = [?k \<mapsto> ''Hello'']" "metas c = [?k \<mapsto> GoodMeta demo_cached]"
    by (auto simp: newCache_def al next_tick_def Let_def cache_of_def on_disk_def disk_of_def disk NewWithClock_files)
  have get: "FetchCache.Get (\<lambda>s. s) 5 c (cache_request ?u ?o) = Some (''Hello'', demo_cached)"
    by (simp add: FetchCache.Get_def f Let_def demo_cached_def)
  have m: "FinalURL demo_cached = ?v" "StatusCode demo_cached = 200" "Protocol demo_cached = []" by (simp_all add: demo_cached_def)
  have "fst (loadCachedResult demo_pipe ?u ?o (Some (Opened d c)) st1) = (Some demo_result, Some (Opened d c))"
    using g get c by (simp add: loadCachedResult_def al s next_tick_def m demo_result_def)
  then have "fst (begin_run demo_pipe ?u ?o ?st) = Inr (Inl demo_result)" using g by (simp add: begin_run_def al n split_def Let_def)
  then obtain st2 where "begin_run demo_pipe ?u ?o ?st = (Inr (Inl demo_result), st2)" by (metis prod.collapse)
  then have "FetchPipeline.Run demo_pipe ?u ?po ?st = (Inr demo_result, st2)" by (subst FetchPipeline.Run.simps) (simp add: Let_def)
  then show ?thesis by (simp add: run_pipeline_def demo_fetch_env_def Let_def) (simp add: demo_runtime_def demo_runtime0_def Let_def)
qed

definition demo_frame :: "string \<Rightarrow> (string \<times> json) list \<Rightarrow> Frame" where
  "demo_frame cmd obj = \<lparr>Cmd = cmd, Args = Some (JObj obj), FSession = []\<rparr>"

definition demo_args :: "string \<Rightarrow> string list \<Rightarrow> fetchArgs" where
  "demo_args u us =
     \<lparr>fa_URL = u, fa_URLs = us, fa_Format = ''text'', fa_Raw = False, fa_Concurrency = 0, fa_RetrievalSurface = [], fa_NoInjectionScan = False,
      fa_InjectionPatterns = [], fa_ContentBoundaries = None, fa_fields = demo_fields\<rparr>"

lemma demo_decoded:
  "case_sum Inl url_fields (decodeOptionalArgs (demo_frame ''fetch.url'' [(''url'', JStr ''https://a.test/x''), (''format'', JStr ''text'')]))
     = Inr (demo_args ''https://a.test/x'' [])"
  "case_sum Inl batch_fields (decodeOptionalArgs (demo_frame ''fetch.batch''
      [(''urls'', JArr [JStr ''https://b.test/'', JStr ''https://a.test/x'']), (''format'', JStr ''text'')]))
     = Inr (demo_args [] [''https://b.test/'', ''https://a.test/x''])"
  by code_simp+

lemma demo_format: "ParseFormat (pe_lower demo_pipe) ''text'' = Inr FmtText"
  by code_simp

lemma demo_pipe_of [simp]: "fe_pipe demo_fetch_env = demo_pipe"
  by (simp add: demo_fetch_env_def)

lemma demo_safety: "safetyOptions demo_runtime False [] None = (False, [], False)"
  by (simp add: safetyOptions_def demo_runtime_def demo_runtime0_def Let_def)

lemma demo_allowlist: "fr_allowlist demo_runtime = demo_allow"
  by (simp add: demo_runtime_def demo_runtime0_def Let_def)

theorem answers_are_allowed_witness:
  "\<exists>r rt'. fetch_handle demo_fetch_env [] (demo_frame ''fetch.url'' [(''url'', JStr ''https://a.test/x''), (''format'', JStr ''text'')]) demo_runtime
        = (Inr (OneReply r, []), rt')
     \<and> reply_finals r = [''https://a.test/y''] \<and> CheckAllowlist (pe_parse demo_pipe) ''https://a.test/y'' (Some demo_allow) = None"
proof -
  let ?frame = "demo_frame ''fetch.url'' [(''url'', JStr ''https://a.test/x''), (''format'', JStr ''text'')]"
  let ?r = "with_hint ''Hello'' [] (page_response demo_fetch_env FmtText demo_result)"
  obtain rt1 where hit: "run_pipeline demo_fetch_env ''https://a.test/x'' demo_fields FmtText demo_runtime = (Inr demo_result, rt1)" using demo_hit by blast
  have res: "pr_Output demo_result = ''Hello''" "pm_FinalURL (pr_Meta demo_result) = ''https://a.test/y''" by (simp_all add: demo_result_def empty_meta_def)
  have "fetch_page demo_fetch_env (demo_args ''https://a.test/x'' []) FmtText demo_runtime = (Inr (?r, []), rt1)"
    by (simp add: fetch_page_def demo_args_def demo_safety hit scanFetchedHTML_def with_boundary_def res)
  then have "handleFetchURL demo_fetch_env ?frame demo_runtime = (Inr (?r, []), rt1)"
    unfolding handleFetchURL_def demo_decoded(1) using demo_format by (simp add: demo_args_def)
  then have run: "fetch_handle demo_fetch_env [] ?frame demo_runtime = (Inr (OneReply ?r, []), rt1)"
    by (simp add: fetch_handle_def demo_frame_def)
  have finals: "reply_finals ?r = [''https://a.test/y'']" by (simp add: reply_finals_hint page_response_finals res)
  from answers_are_allowed [OF run] have "CheckAllowlist (pe_parse demo_pipe) ''https://a.test/y'' (Some demo_allow) = None"
    by (simp add: finals permitted_def demo_allowlist)
  with run finals show ?thesis by blast
qed

theorem batch_keeps_order_witness:
  "\<exists>replies rt'. handleFetchBatch demo_fetch_env [1, 0] (demo_frame ''fetch.batch''
        [(''urls'', JArr [JStr ''https://b.test/'', JStr ''https://a.test/x'']), (''format'', JStr ''text'')]) demo_runtime = (Inr replies, rt')
     \<and> map (\<lambda>r. reply_fields (fp_reply r) ''url'') replies = [Some ''https://b.test/'', Some ''https://a.test/x'']"
proof -
  let ?frame = "demo_frame ''fetch.batch'' [(''urls'', JArr [JStr ''https://b.test/'', JStr ''https://a.test/x'']), (''format'', JStr ''text'')]"
  let ?args = "demo_args [] [''https://b.test/'', ''https://a.test/x'']"
  let ?work = "fetchBatchEntry demo_fetch_env ?args FmtText"
  have args: "fa_URLs ?args = [''https://b.test/'', ''https://a.test/x'']" "fa_Format ?args = ''text''" "fa_Concurrency ?args = 0" by (simp_all add: demo_args_def)
  obtain rt1 where hit: "run_pipeline demo_fetch_env ''https://a.test/x'' demo_fields FmtText demo_runtime = (Inr demo_result, rt1)" using demo_hit by blast
  obtain e1 where first: "?work ''https://a.test/x'' demo_runtime = (Some e1, rt1)"
    by (simp add: fetchBatchEntry_def demo_args_def demo_safety hit scanFetchedHTML_def with_boundary_def Let_def)
  have "fr_allowlist rt1 = demo_allow" using batch_entry_runtime [OF first] demo_allowlist by simp
  moreover obtain err where "CheckAllowlist (pe_parse demo_pipe) ''https://b.test/'' (Some demo_allow) = Some err"
  proof -
    have "CheckAllowlist (pe_parse demo_pipe) ''https://b.test/'' (Some demo_allow) \<noteq> None" by code_simp
    then show thesis using that by blast
  qed
  ultimately obtain rt2 where "run_pipeline demo_fetch_env ''https://b.test/'' demo_fields FmtText rt1 = (Inl (PipeDomain err), rt2)"
    using refused_run [of demo_fetch_env "''https://b.test/''" rt1 err demo_fields FmtText] by auto
  then obtain e2 where second: "?work ''https://b.test/'' rt1 = (Some e2, rt2)"
    by (simp add: fetchBatchEntry_def demo_args_def split: prod.splits)
  have "run_workers ?work (fa_URLs ?args) [1, 0] demo_runtime = (Some [e1, e2], rt2)" by (simp add: args first second)
  then obtain replies where run: "handleFetchBatch demo_fetch_env [1, 0] ?frame demo_runtime = (Inr replies, rt2)"
    unfolding handleFetchBatch_def demo_decoded(2) using demo_format by (simp add: args del: run_workers.simps)
  have order: "worker_order (batchConcurrency (fa_Concurrency ?args)) (length (fa_URLs ?args)) [1, 0]"
    unfolding worker_order_def by (auto simp: args batchConcurrency_def upt_rec)
  have "distinct (fa_URLs ?args)" by (simp add: args)
  from batch_keeps_order [OF run demo_decoded(2) order this] run show ?thesis by (auto simp: args)
qed

section \<open>Where the runtime differs from what is meant\<close>

text \<open>Of a URL that is asked for twice only the last place gets a reply; the others are reported as failed.\<close>

theorem repeated_url_fails:
  assumes "reply_fields (fp_reply e1) ''url'' = Some u" and "reply_fields (fp_reply e2) ''url'' = Some u"
  shows "in_input_order [u, u] [e1, e2] = [missing_entry u, e2]"
  using assms by (simp add: in_input_order_def place_entry_def upt_rec)

text \<open>The scan cache is keyed by the text shown, so another page with the same text, which may hide other instructions, gets the
  warnings of the first.\<close>

theorem hidden_difference_is_not_scanned:
  assumes "out \<noteq> []" and "map_of (fr_injectionCache rt) (warningCacheKey env out pats) = None"
  shows "fst (scanFetchedHTML env src2 out pats True (snd (scanFetchedHTML env src1 out pats True rt))) = fst (scanFetchedHTML env src1 out pats True rt)"
  using assms by (simp add: scanFetchedHTML_def Let_def update_conv)

text \<open>In the format \<open>html\<close> the reply names a boundary, but the page is not wrapped in it.\<close>

theorem html_is_not_wrapped:
  assumes "with_boundary env True (boundary_format FmtHTML) origin False (page_response env FmtHTML r) rt = (Inr reply, rt')"
  shows "content_boundaries (fp_reply reply) \<noteq> None \<and> reply_fields (fp_reply reply) ''markdown'' = Some (pr_Output r)"
  using assms by (auto simp: with_boundary_def boundary_format_def addFetchBoundary_def page_response_def plain_response_def Let_def split: sum.splits)

text \<open>The snapshot index is asked although its host is not on the allowlist.\<close>

theorem index_is_off_the_allowlist:
  "CheckAllowlist (pe_parse demo_pipe) CDXBaseURL (Some demo_allow) \<noteq> None
   \<and> (\<exists>q err rt'. handleWaybackSnapshots demo_fetch_env (demo_frame ''wayback.snapshots'' [(''url'', JStr ''https://a.test/x'')]) demo_runtime = (Inl (FrFailed err), rt')
        \<and> de_Cause err = OfCdx (CdxRequestFailed (CDXBaseURL @ ''?'' @ q)))"
proof (rule conjI)
  show "CheckAllowlist (pe_parse demo_pipe) CDXBaseURL (Some demo_allow) \<noteq> None" by code_simp
  have d: "case_sum Inl snapshot_fields (decodeOptionalArgs (demo_frame ''wayback.snapshots'' [(''url'', JStr ''https://a.test/x'')]))
      = Inr \<lparr>wa_URL = ''https://a.test/x'', wa_From = [], wa_To = [], wa_Limit = 0, wa_MatchType = []\<rparr>" by code_simp
  have g: "CheckAllowlist (pe_parse demo_pipe) ''https://a.test/x'' (Some demo_allow) = None" by code_simp
  have cdx: "fe_cdx demo_fetch_env n = Inl" for n by (auto simp: demo_fetch_env_def)
  have "de_Cause (fetchError demo_fetch_env (OfCdx x)) = OfCdx x" for x
    by (simp add: fetchError_def typedFetchError_def demo_fetch_env_def)
  then show "\<exists>q err rt'. handleWaybackSnapshots demo_fetch_env (demo_frame ''wayback.snapshots'' [(''url'', JStr ''https://a.test/x'')]) demo_runtime
        = (Inl (FrFailed err), rt') \<and> de_Cause err = OfCdx (CdxRequestFailed (CDXBaseURL @ ''?'' @ q))"
    unfolding handleWaybackSnapshots_def d by (simp add: cdx g demo_allowlist Lookup_def)
qed

text \<open>A lost connection is worth a retry in a processed fetch, but final in a raw one, and so is a failed lookup of a host name.\<close>

theorem raw_failure_is_final:
  assumes "\<And>e. \<not> fe_deadline env e"
  shows "de_Retryable (fetchError env (OfPipe (PipeFetch u (FetchFailed u (Some (RoundTripFailed e))))))
    \<and> \<not> de_Retryable (fetchError env (OfClient (FetchFailed u (Some (RoundTripFailed e)))))
    \<and> \<not> de_Retryable (fetchError env (OfPipe (PipeSsrf (DNSFailed h e))))"
  using assms by (simp add: fetchError_def fetchTransportError_def typedFetchError_def)

text \<open>What is refused is never worth a retry.\<close>

theorem refused_is_final:
  assumes "wraps_private env err \<or> wraps_domain err" shows "de_Code (fetchError env err) = ''peer_denied'' \<and> \<not> de_Retryable (fetchError env err)"
  using assms by (auto simp: fetchError_def typedFetchError_def)

end
