(* ===== verification/Spec2Isabelle.thy ===== *)
theory Spec2Isabelle
  imports RiskPolicy Allowlist SsrfGuard Robots SessionLifecycle OobPrompts PolicyGate StableRefs
    CircuitBreaker SessionRegistry FetchCache OutputBudget FormFlow Journal FlowRunner FlowDiscovery SnapshotDiff
    ContentBoundary FetchClient Recovery PageModel Archive SchemaQuery Relevance Render RuneCuts FetchPipeline
    FetchRuntime
begin

text \<open>
  Verification of symaira-browse, a browser automation daemon for agents.

  The program. A command line tool and an MCP server send frames to a per-user daemon
  (\<open>cmd/symbrowse/daemon.go\<close>, \<open>internal/daemon\<close>). The daemon classifies each frame, asks the risk policy
  (\<open>internal/policy\<close>), possibly an external guard process, and possibly a human through an out-of-band
  prompt (\<open>internal/oob\<close>), and only then lets it reach a page of a browser engine or the fetcher
  (\<open>internal/fetch\<close>). A session is owned by an agent or by a user and control moves between them
  (\<open>internal/session\<close>). Snapshots of a page give its elements references that stay stable between
  snapshots (\<open>internal/engine/stable_refs.go\<close>). Fetching is guarded by an allowlist, an SSRF guard,
  robots.txt rules and a circuit breaker per host, and its results are cached. Outputs are cut to a
  token budget and the full text is kept behind a handle (\<open>internal/budget\<close>). Forms are filled and
  submitted by a contract runner (\<open>formflow\<close>).

  The theories, in the order in which they depend on each other.

  \<^item> \<open>Prelude\<close>: results and errors, the string functions of Go the sources use on byte strings (a
    \<open>string\<close> is the list of its bytes), times and durations in nanoseconds as integers (the zero time is
    0), folds with an invariant, and the locale \<open>state_machine\<close> of operations that keep an invariant,
    which the components interpret. \<open>NetAddr\<close>: \<open>net.ParseIP\<close>, \<open>net.ParseCIDR\<close> and \<open>IPNet.Contains\<close> on 8-bit
    words. \<open>GoPaths\<close>: \<open>filepath.Clean\<close> and \<open>Join\<close>. \<open>Utf8\<close>: decoding and encoding of runes. \<open>JsonArgs\<close>: the
    decoding of frame arguments (\<open>decodeArgs\<close> of \<open>internal/daemon/navigation.go\<close>).
  \<^item> \<open>RiskPolicy\<close> (\<open>internal/policy/policy.go\<close>): classes, defaults, rules and \<open>Decide\<close>. Shown: the longest
    matching rule decides, accepted policies only give known decisions.
  \<^item> \<open>Allowlist\<close> (\<open>allowlist.go\<close>): parsing and matching of host patterns. Shown: exactly the hosts the
    patterns denote are admitted.
  \<^item> \<open>SsrfGuard\<close> (\<open>ssrf.go\<close>): private ranges and URL checks, over a resolver. Shown: what passes has only
    public parsed addresses, membership in the ranges is exact; and the address form that slips
    through.
  \<^item> \<open>Robots\<close> (\<open>internal/fetch/robots/robots.go\<close>): the parser, group choice, rule match, cache and checks,
    over an HTTP client. Shown: longest match, most specific group, cache behaviour, behaviour on
    failures; and the merging of groups by an empty rule.
  \<^item> \<open>SessionLifecycle\<close> (\<open>internal/session\<close>): ownership of a session as a state machine over a journal.
    Shown: the agent has no access without a confirmed takeover, ended sessions are final, the
    operations refine the ownership protocol.
  \<^item> \<open>OobPrompts\<close> (\<open>internal/oob/oob.go\<close>): the prompt manager and its waiting loop, which polls while other
    parties act. Each poll is a record of the operations of others before and after the check, the
    clock and the state of the context, so every interleaving is a list of polls; a wait whose polls
    run out has not returned (\<^const>\<open>None\<close>). Shown: decisions are final, an approval needs a completion,
    a wait with a timeout returns after its deadline.
  \<^item> \<open>PolicyGate\<close> (\<open>symguard.go\<close>, \<open>policy_runtime.go\<close>, \<open>oob_runtime.go\<close>, the dispatcher of
    \<open>cmd/symbrowse/daemon.go\<close>): the composition of the three. The locale \<open>decider\<close> states what the gate
    relies on of a decision hook and is interpreted on the policy runtime. Shown: a gated frame was
    authorised, a failing guard denies, the dispatcher returns; and which commands are not gated.
  \<^item> \<open>StableRefs\<close> (\<open>stable_refs.go\<close>): the registry of references; the iteration order of Go maps is a
    parameter of every operation. Shown: references are not rebound, are kept by snapshots and retired
    by navigations; and the two ways in which they are not as stable as meant.
  \<^item> \<open>CircuitBreaker\<close> (\<open>internal/fetch/fetch/backoff.go\<close>): breakers, the host table and \<open>Retry-After\<close>.
    Shown: exact thresholds, rejection while open, recovery of a host, what the clean-up evicts.
  \<^item> \<open>SessionRegistry\<close> (\<open>session_registry.go\<close>, \<open>path.go\<close>): sessions and their directories. Shown:
    confinement of profiles and isolation of sessions.
  \<^item> \<open>FetchCache\<close> (\<open>internal/fetch/cache\<close>): entries, index, eviction. Shown: the size bound, exact
    accounting, put and get; and the ambiguous keys.
  \<^item> \<open>OutputBudget\<close> (\<open>internal/budget/budget.go\<close>): estimate, truncation and the output cache. Shown:
    truncation within the budget and recoverability of the full output.
  \<^item> \<open>FormFlow\<close> (\<open>formflow\<close>): specs, block detection, pacing, the submission and confirmation runs as
    sequences of phases over an arbitrary driver. A logging driver records the calls; the locale
    \<open>click_free\<close> carries the facts that phases other than the clicking ones keep. Shown: no partial
    submission, confirmed success, spacing of runs.
  \<^item> \<open>JsonText\<close> (\<open>encoding/json\<close> as the sources use it): parsing and printing of JSON texts. Shown: printed
    values are read back. \<open>Journal\<close> (\<open>internal/journal\<close>, \<open>journal_runtime.go\<close>): redaction, the journal file, the
    hook around a handled frame and the inspection command. Shown: a handled frame leaves exactly one
    readable entry with its arguments masked, a failing journal only adds a warning; and two ways in
    which redaction or confinement fail.
  \<^item> \<open>FlowSchema\<close>, \<open>FlowRunner\<close>, \<open>FlowDiscovery\<close> (\<open>internal/flows\<close>): decoding and validation of flows, drafts
    from recordings, substitution, the runner over an arbitrary executor, globs, diagnoses, discovery.
    Shown: drafts hold no recorded values, opened URLs stay in the domains of the flow, reports are
    faithful, the glob matcher agrees with the language of its pattern.
  \<^item> \<open>SnapshotTree\<close>, \<open>SnapshotDiff\<close> (\<open>internal/engine/snapshot.go\<close>, \<open>snapshot_diff.go\<close>, \<open>finder.go\<close>): parsing of
    accessibility nodes, rendering, the snapshot store, differences and the finder. Shown: a snapshot
    shows what is reachable, rendering returns on acyclic trees, a difference accounts for everything,
    a find acts on a unique match.
  \<^item> \<open>PatternMatcher\<close>, \<open>InjectionScan\<close>, \<open>ContentBoundary\<close> (\<open>internal/injection\<close>, \<open>fetch_injection.go\<close>): the
    Aho-Corasick automaton, hidden-text heuristics, the page walk, and boundaries around fetched text.
    Shown: the automaton finds exactly the patterns, a scan reports exactly the matching elements, a
    boundary cannot be forged without its nonce.
  \<^item> \<open>Float64\<close>: rounding of binary64 over rationals. \<open>FetchClient\<close> (\<open>internal/fetch/fetch\<close>): the plain and the
    fingerprinting client with redirects, retries, proxies and the circuit breaker. The network and the
    resolver see the history of hops, so they may answer differently each time. Shown: every requested
    URL is allowed and public.
  \<^item> \<open>FetchTruncate\<close>, \<open>RuneCuts\<close>, \<open>Recovery\<close>, \<open>PageModel\<close>, \<open>Archive\<close>, \<open>SchemaQuery\<close>, \<open>Relevance\<close>, \<open>Render\<close> and
    \<open>FetchPipeline\<close> (\<open>internal/fetch/pipeline\<close>, \<open>dom\<close>, \<open>semantic\<close>, \<open>agentdom\<close>, \<open>archive\<close>, \<open>render\<close>, \<open>relevance\<close>): the
    parts of a run and the run itself. Shown: cut texts are recoverable, recovery hints are safe and the
    edit distance exact, the filter keeps exactly the visible text, documents and answers stay within
    their budgets, schema queries and the relevance filter choose what they promise, and an answered page
    was loaded from an allowed URL.
  \<^item> \<open>FetchRuntime\<close> (\<open>internal/daemon/fetch_runtime.go\<close>, \<open>fetch_errors.go\<close>): the daemon's fetch frames over the pipeline,
    the scan cache, the boundaries and the error taxonomy. The workers of a batch are given by the order
    in which they finish. Shown: all answers are allowed, the replies of a batch are in order, refusals
    are final; and where scans, boundaries and the allowlist are bypassed.
  Conventions. Errors are values of a datatype per component and a panic is a value too. Mutexes are
  not modelled: the guarded operations are atomic steps, and concurrency appears as sequences of steps.
  Code outside the sources (resolver, HTTP transport, hash, TOML and YAML codecs, HTML parser, guard
  process, browser) is a parameter of the definitions that call it, and so are lower-casing of arbitrary
  text, the visiting order of Go maps and the order an unstable sort leaves. Integers are unbounded where
  the code cannot reach the limits of 64 bits and wrap where it can (\<open>ParseRetryAfter\<close>, address bytes).
  Floating-point results are rounded after each operation as in \<open>Float64\<close>; the two products of
  \<open>FetchTruncate\<close> are parameters.

  Loops and fuel. Retries, redirects and the nested runs of the pipeline terminate by measures. The polls
  of a wait are a list, and the termination theorems say which lists are enough. The JSON parser takes
  the length of its text as fuel, which it cannot exhaust since every call consumes a character. The path
  assignment of snapshots has fuel, \<^const>\<open>None\<close> meaning that it has not returned: enough of it exists exactly
  for acyclic trees. The loops of the pattern matcher are option-valued partial functions and are proved
  to return.

  Not modelled: the browser engines (drivers of external browsers over their protocols) and the handlers
  that only forward to them, the pixel comparison of screenshots and the replay of traces, the socket
  transport, daemon processes and the state store's encryption and files, the MCP tool tables and the
  command line, which translate between argument formats, and the Rust port, a second implementation.
\<close>

end
